(* ===== verification/Prelude.thy ===== *)
theory Prelude
  imports Main "HOL-Library.AList"
begin

text \<open>
  What every component of the model shares: the exceptions the modelled code raises, the
  result type of an operation that may raise after it has already changed its object, Python's
  insertion-ordered dictionaries as association lists, and the textual form of integers and
  integer tuples that the block hashes are computed from.
\<close>

section \<open>Collections of rules\<close>

named_theorems pydict \<open>lookup, key and value rules of the dictionary operations\<close>
named_theorems pyres \<open>rules that run a sequence of raising operations\<close>

section \<open>Exceptions and raising operations\<close>

text \<open>The exceptions the modelled code raises itself (messages are not modelled).\<close>

datatype py_error =
    ValueError | AssertionError | RuntimeError | IndexError | KeyError | ZeroDivisionError
  | CacheEvictionError | AttributeError

text \<open>
  A method that may raise returns its result or the exception, together with the object as
  it stands at that moment: an exception does not undo the assignments made before it.
\<close>

type_synonym ('s, 'a) outcome = "(py_error + 'a) \<times> 's"

definition returns :: "'a \<Rightarrow> 's \<Rightarrow> ('s, 'a) outcome" where
  "returns a s = (Inr a, s)"

definition raises :: "py_error \<Rightarrow> 's \<Rightarrow> ('s, 'a) outcome" where
  "raises e s = (Inl e, s)"

definition and_then :: "('s, 'a) outcome \<Rightarrow> ('a \<Rightarrow> 's \<Rightarrow> ('s, 'b) outcome) \<Rightarrow> ('s, 'b) outcome" where
  "and_then m f = (case m of (Inl e, s) \<Rightarrow> (Inl e, s) | (Inr a, s) \<Rightarrow> f a s)"

definition returned :: "('s, 'a) outcome \<Rightarrow> bool" where
  "returned m = (\<not> isl (fst m))"

lemma and_then_returns [simp, pyres]: "and_then (returns a s) f = f a s"
  by (simp add: and_then_def returns_def)

lemma and_then_raises [simp, pyres]: "and_then (raises e s) f = raises e s"
  by (simp add: and_then_def raises_def)

lemma snd_returns [simp, pyres]: "snd (returns a s) = s" and fst_returns [simp, pyres]: "fst (returns a s) = Inr a"
  by (simp_all add: returns_def)

lemma snd_raises [simp, pyres]: "snd (raises e s) = s" and fst_raises [simp, pyres]: "fst (raises e s) = Inl e"
  by (simp_all add: raises_def)

lemma returns_inject [simp]: "returns a s = returns b t \<longleftrightarrow> a = b \<and> s = t"
  by (simp add: returns_def)

lemma raises_neq_returns [simp]: "raises e s \<noteq> returns a t" "returns a t \<noteq> raises e s"
  by (simp_all add: raises_def returns_def)

lemma returned_simps [simp]: "returned (returns a s)" "\<not> returned (raises e s)"
  by (simp_all add: returned_def)

lemma outcome_cases [case_names Returns Raises]:
  obtains a s where "m = returns a s" | e s where "m = raises e s"
  by (cases m; cases "fst m") (auto simp: returns_def raises_def)

section \<open>Python dictionaries\<close>

text \<open>
  A \<open>dict\<close> keeps its keys in insertion order; assigning to a key that is present keeps the
  position of the key. \<open>d.get(k)\<close> is \<open>map_of d k\<close>, \<open>d[k] = v\<close> is
  \<open>dict_set k v d\<close>, \<open>d.pop(k, None)\<close> removes the key with \<open>dict_del k d\<close>.
\<close>

type_synonym ('k, 'v) pydict = "('k \<times> 'v) list"

definition dict_set :: "'k \<Rightarrow> 'v \<Rightarrow> ('k, 'v) pydict \<Rightarrow> ('k, 'v) pydict" where
  "dict_set = AList.update"

definition dict_del :: "'k \<Rightarrow> ('k, 'v) pydict \<Rightarrow> ('k, 'v) pydict" where
  "dict_del = AList.delete"

abbreviation dict_keys :: "('k, 'v) pydict \<Rightarrow> 'k list" where
  "dict_keys d \<equiv> map fst d"

abbreviation dict_values :: "('k, 'v) pydict \<Rightarrow> 'v list" where
  "dict_values d \<equiv> map snd d"

lemma dict_set_simps [code, simp]:
  "dict_set k v [] = [(k, v)]"
  "dict_set k v (p # ps) = (if fst p = k then (k, v) # ps else p # dict_set k v ps)"
  by (simp_all add: dict_set_def)

lemma dict_del_simps [code, simp]:
  "dict_del k [] = []"
  "dict_del k (p # ps) = (if fst p = k then dict_del k ps else p # dict_del k ps)"
  by (auto simp add: dict_del_def AList.delete_eq split: prod.splits)

lemma map_of_dict_set [pydict]: "map_of (dict_set k v d) = (map_of d)(k \<mapsto> v)"
  by (simp add: dict_set_def AList.update_conv')

lemma map_of_dict_del [pydict]: "map_of (dict_del k d) = (map_of d)(k := None)"
  by (simp add: dict_del_def AList.delete_conv')

lemma keys_dict_set [pydict]: "set (dict_keys (dict_set k v d)) = insert k (set (dict_keys d))"
  by (induction d) auto

lemma keys_dict_del [pydict]: "set (dict_keys (dict_del k d)) = set (dict_keys d) - {k}"
  by (induction d) auto

lemma distinct_dict_set [simp]: "distinct (dict_keys d) \<Longrightarrow> distinct (dict_keys (dict_set k v d))"
  by (simp add: dict_set_def AList.distinct_update)

lemma distinct_dict_del [simp]: "distinct (dict_keys d) \<Longrightarrow> distinct (dict_keys (dict_del k d))"
  by (simp add: dict_del_def AList.distinct_delete)

lemma map_of_keys_iff: "map_of d k \<noteq> None \<longleftrightarrow> k \<in> set (dict_keys d)"
  by (simp add: map_of_eq_None_iff)

lemma set_dict_del: "set (dict_del k d) = {p \<in> set d. fst p \<noteq> k}"
  by (induction d) auto

lemma dict_del_filter: "dict_del k d = filter (\<lambda>p. fst p \<noteq> k) d"
  by (induction d) auto

lemma dict_del_absent: "k \<notin> set (dict_keys d) \<Longrightarrow> dict_del k d = d"
  by (induction d) auto

lemma length_dict_del: "distinct (dict_keys d) \<Longrightarrow> k \<in> set (dict_keys d) \<Longrightarrow>
    Suc (length (dict_del k d)) = length d"
proof (induction d)
  case Nil
  then show ?case by simp
next
  case (Cons p d)
  then show ?case
    by (cases "fst p = k") (auto simp: dict_del_absent)
qed

lemma length_dict_set: "length (dict_set k v d) =
    (if k \<in> set (dict_keys d) then length d else Suc (length d))"
  by (induction d) auto

text \<open>Removing a key takes its value out of a sum over the values.\<close>

lemma sum_list_dict_del:
  fixes f :: "'v \<Rightarrow> int"
  assumes "distinct (dict_keys d)" and "map_of d k = Some v"
  shows "sum_list (map f (dict_values (dict_del k d))) = sum_list (map f (dict_values d)) - f v"
  using assms
proof (induction d)
  case Nil
  then show ?case by simp
next
  case (Cons p d)
  show ?case
  proof (cases "fst p = k")
    case True
    with Cons.prems have "dict_del k d = d"
      by (intro dict_del_absent) auto
    with True Cons.prems show ?thesis by auto
  next
    case False
    with Cons show ?thesis by (auto split: if_splits)
  qed
qed

text \<open>Assigning to a key exchanges the value it had for the new one.\<close>

lemma sum_list_dict_set:
  fixes f :: "'v \<Rightarrow> int"
  assumes "distinct (dict_keys d)"
  shows "sum_list (map (\<lambda>p. f (snd p)) (dict_set k v d)) = sum_list (map (\<lambda>p. f (snd p)) d) + f v -
    (case map_of d k of None \<Rightarrow> 0 | Some w \<Rightarrow> f w)"
  using assms
proof (induction d)
  case Nil
  then show ?case by simp
next
  case (Cons p d)
  then show ?case by (cases p) auto
qed

lemma set_dict_set: "distinct (dict_keys d) \<Longrightarrow> set (dict_set k v d) = insert (k, v) {p \<in> set d. fst p \<noteq> k}"
  by (induction d) (auto simp: rev_image_eqI)

lemma dict_set_absent: "k \<notin> set (dict_keys d) \<Longrightarrow> dict_set k v d = d @ [(k, v)]"
  by (induction d) auto

section \<open>Small facts on lists\<close>

lemma set_remove1_distinct: "distinct xs \<Longrightarrow> set (remove1 x xs) = set xs - {x}"
  by (rule set_remove1_eq)

lemma length_filter_le_takeWhile: "length (takeWhile P xs) \<le> length xs"
  by (rule length_takeWhile_le)

text \<open>Python's \<open>range(a, b)\<close>.\<close>

definition pyrange :: "int \<Rightarrow> int \<Rightarrow> int list" where
  "pyrange a b = map (\<lambda>i. a + int i) [0..<nat (b - a)]"

lemma set_pyrange [simp]: "set (pyrange a b) = {a..<b}"
proof -
  have "\<exists>i<nat (b - a). x = a + int i" if "a \<le> x" "x < b" for x
    using that by (intro exI [of _ "nat (x - a)"]) auto
  then show ?thesis by (fastforce simp: pyrange_def image_iff)
qed

lemma distinct_pyrange [simp]: "distinct (pyrange a b)"
  by (simp add: pyrange_def distinct_map inj_on_def)

lemma length_pyrange [simp]: "length (pyrange a b) = nat (b - a)"
  by (simp add: pyrange_def)

lemma nth_pyrange [simp]: "i < nat (b - a) \<Longrightarrow> pyrange a b ! i = a + int i"
  by (simp add: pyrange_def)

lemma pyrange_append: "a \<le> b \<Longrightarrow> b \<le> c \<Longrightarrow> pyrange a b @ pyrange b c = pyrange a c"
  by (rule nth_equalityI) (auto simp: nth_append nat_less_iff)

lemma pyrange_empty [simp]: "b \<le> a \<Longrightarrow> pyrange a b = []"
  by (simp add: pyrange_def)

lemma pyrange_Cons: "a < b \<Longrightarrow> pyrange a b = a # pyrange (a + 1) b"
  by (rule nth_equalityI) (auto simp: nth_Cons split: nat.splits)

section \<open>Indexing and slicing of lists\<close>

text \<open>A negative index counts from the end; an index outside the list raises.\<close>

definition pyindex :: "'a list \<Rightarrow> int \<Rightarrow> py_error + 'a" where
  "pyindex xs i =
     (if 0 \<le> i \<and> i < int (length xs) then Inr (xs ! nat i)
      else if i < 0 \<and> - int (length xs) \<le> i then Inr (xs ! nat (int (length xs) + i))
      else Inl IndexError)"

text \<open>A slice never raises: both bounds are clamped to the list.\<close>

definition slice_bound :: "int \<Rightarrow> int \<Rightarrow> int" where
  "slice_bound n i = (if i < 0 then max 0 (n + i) else min i n)"

definition pyslice :: "int \<Rightarrow> int \<Rightarrow> 'a list \<Rightarrow> 'a list" where
  "pyslice i j xs = drop (nat (slice_bound (int (length xs)) i)) (take (nat (slice_bound (int (length xs)) j)) xs)"

lemma pyindex_nonneg: "0 \<le> i \<Longrightarrow> i < int (length xs) \<Longrightarrow> pyindex xs i = Inr (xs ! nat i)"
  by (simp add: pyindex_def)

lemma pyindex_beyond: "int (length xs) \<le> i \<Longrightarrow> pyindex xs i = Inl IndexError"
  by (simp add: pyindex_def)

lemma pyslice_nonneg:
  assumes "0 \<le> i" "i \<le> j"
  shows "pyslice i j xs = take (nat (j - i)) (drop (nat i) xs)"
proof -
  have "take (nat (min j (int (length xs)))) xs = take (nat j) xs"
    by (simp add: min_def)
  moreover have "drop (nat (min i (int (length xs)))) (take (nat j) xs) = drop (nat i) (take (nat j) xs)"
    by (cases "i \<le> int (length xs)") auto
  ultimately show ?thesis
    using assms by (simp add: pyslice_def slice_bound_def drop_take nat_diff_distrib)
qed

end
