(* ===== verification/FreeQueue.thy ===== *)
theory FreeQueue
  imports Prelude
begin

text \<open>
  \<open>FreeKVCacheBlockQueue\<close> of \<^verbatim>\<open>fusion_mlx/cache/paged_cache.py\<close>: the intrusive doubly linked
  list of free cache blocks, with its two sentinel nodes. A block is named by its
  \<open>block_id\<close>; the sentinels carry the ids the code gives them, -1 and -2. The pointer
  fields \<open>prev_free_block\<close> and \<open>next_free_block\<close> of all nodes are two maps from ids, so
  every pointer assignment of the code is an update of one of them. The abstraction is the
  list of ids from front (evicted first) to back.
\<close>

section \<open>State\<close>

definition fake_head :: int where
  "fake_head = - 1"

definition fake_tail :: int where
  "fake_tail = - 2"

record free_queue =
  prev_free :: "int \<Rightarrow> int option"
  next_free :: "int \<Rightarrow> int option"
  num_free_blocks :: int

definition set_prev :: "int \<Rightarrow> int option \<Rightarrow> free_queue \<Rightarrow> free_queue" where
  "set_prev b v q = q\<lparr>prev_free := (prev_free q)(b := v)\<rparr>"

definition set_next :: "int \<Rightarrow> int option \<Rightarrow> free_queue \<Rightarrow> free_queue" where
  "set_next b v q = q\<lparr>next_free := (next_free q)(b := v)\<rparr>"

lemma queue_sel [simp]:
  "prev_free (set_prev b v q) = (prev_free q)(b := v)" "next_free (set_prev b v q) = next_free q"
  "prev_free (set_next b v q) = prev_free q" "next_free (set_next b v q) = (next_free q)(b := v)"
  "num_free_blocks (set_prev b v q) = num_free_blocks q"
  "num_free_blocks (set_next b v q) = num_free_blocks q"
  by (simp_all add: set_prev_def set_next_def)

lemma sentinels_neq [simp]: "fake_head \<noteq> fake_tail" "fake_tail \<noteq> fake_head"
  by (simp_all add: fake_head_def fake_tail_def)

section \<open>Operations\<close>

text \<open>\<open>__init__\<close> on freshly created blocks, whose pointers are still \<open>None\<close>.\<close>

definition link_neighbours :: "int list \<Rightarrow> nat \<Rightarrow> free_queue \<Rightarrow> free_queue" where
  "link_neighbours bs i q =
     (let q1 = (if 0 < i then set_prev (bs ! i) (Some (bs ! (i - 1))) q else q)
      in if i < length bs - 1 then set_next (bs ! i) (Some (bs ! (i + 1))) q1 else q1)"

definition queue_init :: "int list \<Rightarrow> free_queue" where
  "queue_init bs =
     (let q0 = \<lparr>prev_free = (\<lambda>_. None), next_free = (\<lambda>_. None), num_free_blocks = int (length bs)\<rparr>;
          q1 = fold (link_neighbours bs) [0..<length bs] q0
      in if bs \<noteq> []
         then set_next (last bs) (Some fake_tail) (set_prev fake_tail (Some (last bs))
                (set_prev (hd bs) (Some fake_head) (set_next fake_head (Some (hd bs)) q1)))
         else set_prev fake_tail (Some fake_head) (set_next fake_head (Some fake_tail) q1))"

definition popleft :: "free_queue \<Rightarrow> (free_queue, int) outcome" where
  "popleft q =
     (if next_free q fake_head = Some fake_tail then raises ValueError q
      else case next_free q fake_head of
        None \<Rightarrow> raises AssertionError q
      | Some block \<Rightarrow>
          (let q1 = set_next fake_head (next_free q block) q;
               q2 = (case next_free q1 block of
                       None \<Rightarrow> q1 | Some nb \<Rightarrow> set_prev nb (Some fake_head) q1);
               q3 = set_next block None (set_prev block None q2)
           in returns block (q3\<lparr>num_free_blocks := num_free_blocks q3 - 1\<rparr>)))"

fun popleft_n_loop ::
  "nat \<Rightarrow> int option \<Rightarrow> int list \<Rightarrow> free_queue \<Rightarrow> (free_queue, int list \<times> int option) outcome" where
  "popleft_n_loop 0 cur result q = returns (result, cur) q"
| "popleft_n_loop (Suc n) cur result q =
     (case cur of
        None \<Rightarrow> raises AssertionError q
      | Some c \<Rightarrow>
          if c = fake_tail then raises AssertionError q
          else popleft_n_loop n (next_free q c) (result @ [c])
                 (set_next c None (set_prev c None q)))"

definition popleft_n :: "int \<Rightarrow> free_queue \<Rightarrow> (free_queue, int list) outcome" where
  "popleft_n n q =
     (if n = 0 then returns [] q
      else if \<not> n \<le> num_free_blocks q then raises AssertionError q
      else and_then (popleft_n_loop (nat n) (next_free q fake_head) [] q)
        (\<lambda>(result, cur) q1.
           let q2 = set_next fake_head cur q1;
               q3 = (case cur of None \<Rightarrow> q2 | Some c \<Rightarrow> set_prev c (Some fake_head) q2)
           in returns result (q3\<lparr>num_free_blocks := num_free_blocks q3 - n\<rparr>)))"

definition remove_block :: "int \<Rightarrow> free_queue \<Rightarrow> (free_queue, unit) outcome" where
  "remove_block b q =
     (case (prev_free q b, next_free q b) of
        (Some p, Some n) \<Rightarrow>
          (let q1 = set_next p (Some n) q;
               q2 = set_prev n (Some p) q1;
               q3 = set_next b None (set_prev b None q2)
           in returns () (q3\<lparr>num_free_blocks := num_free_blocks q3 - 1\<rparr>))
      | _ \<Rightarrow> raises RuntimeError q)"

definition append_block :: "int \<Rightarrow> free_queue \<Rightarrow> (free_queue, unit) outcome" where
  "append_block b q =
     (case prev_free q fake_tail of
        None \<Rightarrow> raises AssertionError q
      | Some l \<Rightarrow>
          (let q1 = set_next l (Some b) q;
               q2 = set_next b (Some fake_tail) (set_prev b (Some l) q1);
               q3 = set_prev fake_tail (Some b) q2
           in returns () (q3\<lparr>num_free_blocks := num_free_blocks q3 + 1\<rparr>)))"

fun append_n_loop :: "int list \<Rightarrow> int \<Rightarrow> free_queue \<Rightarrow> int \<times> free_queue" where
  "append_n_loop [] l q = (l, q)"
| "append_n_loop (b # bs) l q = append_n_loop bs b (set_next l (Some b) (set_prev b (Some l) q))"

definition append_n :: "int list \<Rightarrow> free_queue \<Rightarrow> (free_queue, unit) outcome" where
  "append_n bs q =
     (if bs = [] then returns () q
      else case prev_free q fake_tail of
        None \<Rightarrow> raises AssertionError q
      | Some l0 \<Rightarrow>
          (let (l, q1) = append_n_loop bs l0 q;
               q2 = set_prev fake_tail (Some l) (set_next l (Some fake_tail) q1)
           in returns () (q2\<lparr>num_free_blocks := num_free_blocks q2 + int (length bs)\<rparr>)))"

definition is_in_queue :: "int \<Rightarrow> free_queue \<Rightarrow> bool" where
  "is_in_queue b q = (prev_free q b \<noteq> None \<and> next_free q b \<noteq> None)"

text \<open>
  Walking the list: on a damaged list the loop need not end, so the walk is a partial
  function and \<open>None\<close> stands for a walk that does not return.
\<close>

partial_function (option) walk_free :: "(int \<Rightarrow> int option) \<Rightarrow> int option \<Rightarrow> int list \<Rightarrow> int list option" where
  "walk_free nx cur result =
     (case cur of
        None \<Rightarrow> Some result
      | Some c \<Rightarrow> if c = fake_tail then Some result else walk_free nx (nx c) (result @ [c]))"

declare walk_free.simps [code]

definition get_all_free_blocks :: "free_queue \<Rightarrow> int list option" where
  "get_all_free_blocks q = walk_free (next_free q) (next_free q fake_head) []"

section \<open>Chains of nodes\<close>

text \<open>
  \<open>chain nx pv p xs e\<close>: following \<open>nx\<close> from \<open>p\<close> visits exactly \<open>xs\<close> and then \<open>e\<close>, and the
  \<open>pv\<close> pointers mirror it.
\<close>

fun chain :: "(int \<Rightarrow> int option) \<Rightarrow> (int \<Rightarrow> int option) \<Rightarrow> int \<Rightarrow> int list \<Rightarrow> int \<Rightarrow> bool" where
  "chain nx pv p [] e = (nx p = Some e \<and> pv e = Some p)"
| "chain nx pv p (x # xs) e = (nx p = Some x \<and> pv x = Some p \<and> chain nx pv x xs e)"

lemma chain_append:
  "chain nx pv p (xs @ y # ys) e \<longleftrightarrow> chain nx pv p xs y \<and> chain nx pv y ys e"
  by (induction xs arbitrary: p) auto

lemma chain_snoc: "chain nx pv p (xs @ [y]) e \<longleftrightarrow> chain nx pv p xs y \<and> nx y = Some e \<and> pv e = Some y"
  by (simp add: chain_append)

lemma chain_upd_next [simp]:
  "a \<notin> insert p (set xs) \<Longrightarrow> chain (nx(a := v)) pv p xs e = chain nx pv p xs e"
  by (induction xs arbitrary: p) auto

lemma chain_upd_prev [simp]:
  "a \<notin> insert e (set xs) \<Longrightarrow> chain nx (pv(a := v)) p xs e = chain nx pv p xs e"
  by (induction xs arbitrary: p) auto

lemma chain_head: "chain nx pv p xs e \<Longrightarrow> nx p = Some (hd (xs @ [e]))"
  by (cases xs) auto

lemma chain_last: "chain nx pv p xs e \<Longrightarrow> pv e = Some (last (p # xs))"
  by (induction xs arbitrary: p) auto

lemma chain_links: "chain nx pv p xs e \<Longrightarrow> x \<in> set xs \<Longrightarrow> nx x \<noteq> None \<and> pv x \<noteq> None"
proof (induction xs arbitrary: p)
  case Nil
  then show ?case by simp
next
  case (Cons y ys)
  then show ?case by (cases ys) auto
qed

lemma chain_walk:
  "chain nx pv p xs e \<Longrightarrow> fake_tail \<notin> set xs \<Longrightarrow> e = fake_tail \<Longrightarrow>
     walk_free nx (nx p) acc = Some (acc @ xs)"
  by (induction xs arbitrary: p acc) (simp_all add: walk_free.simps)

section \<open>Representation\<close>

definition queue_rep :: "free_queue \<Rightarrow> int list \<Rightarrow> bool" where
  "queue_rep q xs \<longleftrightarrow>
     chain (next_free q) (prev_free q) fake_head xs fake_tail \<and>
     distinct (fake_head # fake_tail # xs) \<and>
     num_free_blocks q = int (length xs) \<and>
     (\<forall>b. b \<notin> set xs \<longrightarrow> b \<noteq> fake_head \<longrightarrow> b \<noteq> fake_tail \<longrightarrow>
        prev_free q b = None \<and> next_free q b = None)"

lemma queue_repD:
  assumes "queue_rep q xs"
  shows "chain (next_free q) (prev_free q) fake_head xs fake_tail" "distinct xs"
    "fake_head \<notin> set xs" "fake_tail \<notin> set xs" "num_free_blocks q = int (length xs)"
    "b \<notin> set xs \<Longrightarrow> b \<noteq> fake_head \<Longrightarrow> b \<noteq> fake_tail \<Longrightarrow> prev_free q b = None \<and> next_free q b = None"
  using assms by (auto simp: queue_rep_def)

lemma queue_repI:
  assumes "chain (next_free q) (prev_free q) fake_head xs fake_tail" "distinct xs"
    "fake_head \<notin> set xs" "fake_tail \<notin> set xs" "num_free_blocks q = int (length xs)"
    "\<And>b. b \<notin> set xs \<Longrightarrow> b \<noteq> fake_head \<Longrightarrow> b \<noteq> fake_tail \<Longrightarrow> prev_free q b = None \<and> next_free q b = None"
  shows "queue_rep q xs"
  using assms by (auto simp: queue_rep_def)

lemma rep_get_all: "queue_rep q xs \<Longrightarrow> get_all_free_blocks q = Some xs"
  using chain_walk [of "next_free q" "prev_free q" fake_head xs fake_tail "[]"]
  by (simp add: get_all_free_blocks_def queue_rep_def)

lemma rep_unique: "queue_rep q xs \<Longrightarrow> queue_rep q ys \<Longrightarrow> xs = ys"
  by (drule rep_get_all, drule rep_get_all) simp

lemma rep_is_in_queue:
  assumes "queue_rep q xs" "b \<noteq> fake_head" "b \<noteq> fake_tail"
  shows "is_in_queue b q \<longleftrightarrow> b \<in> set xs"
proof (cases "b \<in> set xs")
  case True
  with chain_links [OF queue_repD(1) [OF assms(1)]] show ?thesis by (auto simp: is_in_queue_def)
next
  case False
  with queue_repD(6) [OF assms(1) False assms(2,3)] show ?thesis by (simp add: is_in_queue_def)
qed

definition gives :: "(free_queue, 'a) outcome \<Rightarrow> 'a \<Rightarrow> int list \<Rightarrow> bool" where
  "gives m a xs \<longleftrightarrow> (\<exists>q'. m = returns a q' \<and> queue_rep q' xs)"

lemma givesI: "queue_rep q' xs \<Longrightarrow> gives (returns a q') a xs"
  by (auto simp: gives_def)

lemma givesE: "gives m a xs \<Longrightarrow> (\<And>q'. m = returns a q' \<Longrightarrow> queue_rep q' xs \<Longrightarrow> P) \<Longrightarrow> P"
  by (auto simp: gives_def)

lemma rep_popleft_Nil: "queue_rep q [] \<Longrightarrow> popleft q = raises ValueError q"
  by (simp add: queue_rep_def popleft_def)

lemma rep_popleft_Cons:
  assumes "queue_rep q (x # xs)"
  shows "gives (popleft q) x xs"
proof -
  note rep = queue_repD [OF assms]
  from rep(1) have nh: "next_free q fake_head = Some x" by simp
  from rep(2-4) have x: "x \<noteq> fake_tail" "x \<noteq> fake_head" "x \<notin> set xs" by auto
  show ?thesis
  proof (cases xs)
    case Nil
    with rep(1) have "next_free q x = Some fake_tail" by simp
    with assms x Nil show ?thesis
      by (auto simp: popleft_def nh Let_def queue_rep_def intro!: givesI)
  next
    case (Cons y ys)
    with rep(1) have "next_free q x = Some y" by simp
    with assms x Cons show ?thesis
      by (auto simp: popleft_def nh Let_def queue_rep_def intro!: givesI)
  qed
qed

lemma rep_append_block:
  assumes "queue_rep q xs" "b \<notin> set xs" "b \<noteq> fake_head" "b \<noteq> fake_tail"
  shows "gives (append_block b q) () (xs @ [b])"
proof -
  note rep = queue_repD [OF assms(1)]
  from chain_last [OF rep(1)] have l: "prev_free q fake_tail = Some (last (fake_head # xs))" .
  show ?thesis
  proof (cases xs rule: rev_cases)
    case Nil
    with rep assms show ?thesis
      by (auto simp: append_block_def Let_def queue_rep_def intro!: givesI)
  next
    case (snoc ys y)
    with rep assms show ?thesis
      by (auto simp: append_block_def Let_def queue_rep_def chain_append intro!: givesI)
  qed
qed

lemma rep_remove_block:
  assumes "queue_rep q xs" "b \<in> set xs"
  shows "gives (remove_block b q) () (remove1 b xs)"
proof -
  note rep = queue_repD [OF assms(1)]
  obtain us vs where xs: "xs = us @ b # vs" using assms(2) by (meson split_list)
  have r: "remove1 b xs = us @ vs" using xs rep(2) by (simp add: remove1_append)
  obtain p where p: "prev_free q b = Some p" "p = last (fake_head # us)"
    using rep(1) chain_last [of _ _ fake_head us b] by (auto simp: xs chain_append)
  obtain n where n: "next_free q b = Some n" "n = hd (vs @ [fake_tail])"
    using rep(1) chain_head [of _ _ b vs fake_tail] by (auto simp: xs chain_append)
  from assms(1) show ?thesis unfolding r
    by (cases us rule: rev_cases; cases vs)
       (auto simp: remove_block_def p n Let_def queue_rep_def xs chain_append intro!: givesI)
qed

lemma rep_remove_absent:
  assumes "queue_rep q xs" "b \<notin> set xs" "b \<noteq> fake_head" "b \<noteq> fake_tail"
  shows "remove_block b q = raises RuntimeError q"
  using queue_repD(6) [OF assms] by (simp add: remove_block_def)

definition unlink_all :: "int set \<Rightarrow> free_queue \<Rightarrow> free_queue" where
  "unlink_all A q = q\<lparr>prev_free := (\<lambda>b. if b \<in> A then None else prev_free q b),
                      next_free := (\<lambda>b. if b \<in> A then None else next_free q b)\<rparr>"

lemma unlink_all_sel [simp]:
  "prev_free (unlink_all A q) b = (if b \<in> A then None else prev_free q b)"
  "next_free (unlink_all A q) b = (if b \<in> A then None else next_free q b)"
  "num_free_blocks (unlink_all A q) = num_free_blocks q"
  by (simp_all add: unlink_all_def)

lemma unlink_all_empty [simp]: "unlink_all {} q = q"
  by (simp add: unlink_all_def)

lemma unlink_all_insert:
  "unlink_all A (set_next c None (set_prev c None q)) = unlink_all (insert c A) q"
  by (simp add: unlink_all_def set_next_def set_prev_def fun_eq_iff)

lemma popleft_n_loop_chain:
  assumes "chain nx pv p (as @ bs) fake_tail" "fake_tail \<notin> set (as @ bs)" "distinct (as @ bs)"
    and "\<forall>b \<in> set (as @ bs). next_free q b = nx b"
  shows "popleft_n_loop (length as) (Some (hd (as @ bs @ [fake_tail]))) acc q =
    returns (acc @ as, Some (hd (bs @ [fake_tail]))) (unlink_all (set as) q)"
  using assms
proof (induction as arbitrary: p q acc)
  case Nil
  then show ?case by simp
next
  case (Cons a as)
  let ?q = "set_next a None (set_prev a None q)"
  from Cons.prems have nx: "next_free q a = Some (hd (as @ bs @ [fake_tail]))"
    using chain_head [of nx pv a "as @ bs" fake_tail] by simp
  from Cons.prems have "popleft_n_loop (length as) (Some (hd (as @ bs @ [fake_tail]))) (acc @ [a]) ?q =
      returns ((acc @ [a]) @ as, Some (hd (bs @ [fake_tail]))) (unlink_all (set as) ?q)"
    by (intro Cons.IH) auto
  with nx Cons.prems(2) show ?case by (simp add: unlink_all_insert)
qed

lemma rep_popleft_n:
  assumes "queue_rep q xs" "0 \<le> n" "n \<le> int (length xs)"
  shows "gives (popleft_n n q) (take (nat n) xs) (drop (nat n) xs)"
proof (cases "n = 0")
  case True
  with assms show ?thesis by (auto simp: popleft_n_def intro!: givesI)
next
  case False
  note rep = queue_repD [OF assms(1)]
  let ?as = "take (nat n) xs" and ?bs = "drop (nat n) xs"
  from assms have len: "length ?as = nat n" by simp
  have hd: "next_free q fake_head = Some (hd (?as @ ?bs @ [fake_tail]))"
    using chain_head [OF rep(1)] by (metis append.assoc append_take_drop_id)
  have loop: "popleft_n_loop (nat n) (next_free q fake_head) [] q =
      returns (?as, Some (hd (?bs @ [fake_tail]))) (unlink_all (set ?as) q)"
    using popleft_n_loop_chain [of "next_free q" "prev_free q" fake_head ?as ?bs q "[]"] rep
    unfolding hd len by simp
  have sets: "set ?as \<subseteq> set xs" by (rule set_take_subset)
  have disj: "set ?as \<inter> set ?bs = {}" by (rule set_take_disj_set_drop_if_distinct) (use rep in auto)
  have un: "set xs = set ?as \<union> set ?bs" by (metis append_take_drop_id set_append)
  obtain l where "?as = butlast ?as @ [l]" and l: "l = last ?as"
    using len False assms(2) by (cases ?as rule: rev_cases) auto
  then have "chain (next_free q) (prev_free q) fake_head (butlast ?as @ l # ?bs) fake_tail"
    using rep(1) by (metis append.assoc append_Cons append_Nil append_take_drop_id)
  then have tl: "chain (next_free q) (prev_free q) l ?bs fake_tail" by (simp add: chain_append)
  let ?q = "unlink_all (set ?as) q"
  let ?h = "hd (?bs @ [fake_tail])"
  have ch: "chain ((next_free ?q)(fake_head := Some ?h)) ((prev_free ?q)(?h := Some fake_head)) fake_head ?bs fake_tail"
  proof (cases ?bs)
    case Nil
    then show ?thesis by simp
  next
    case (Cons b bs)
    have eq: "chain (next_free ?q) (prev_free ?q) c cs fake_tail = chain (next_free q) (prev_free q) c cs fake_tail"
      if "set (c # cs) \<subseteq> set ?bs" for c cs
      using that disj rep(3,4) sets by (induction cs arbitrary: c) auto
    from tl Cons have "chain (next_free q) (prev_free q) b bs fake_tail" by simp
    with eq [of b bs] Cons have "chain (next_free ?q) (prev_free ?q) b bs fake_tail" by simp
    moreover have "b \<notin> set bs" "fake_head \<notin> set (b # bs)" "b \<noteq> fake_tail"
      using rep(2-4) un Cons distinct_drop [of xs "nat n"] by auto
    ultimately show ?thesis using Cons by simp
  qed
  have "queue_rep (set_prev ?h (Some fake_head) (set_next fake_head (Some ?h) ?q)
      \<lparr>num_free_blocks := num_free_blocks q - n\<rparr>) ?bs"
  proof (rule queue_repI)
    show "distinct ?bs" using rep(2) by simp
    show "fake_head \<notin> set ?bs" "fake_tail \<notin> set ?bs" using rep un by auto
    have h: "?h = fake_tail \<or> ?h \<in> set ?bs" by (cases ?bs) auto
    show "prev_free (set_prev ?h (Some fake_head) (set_next fake_head (Some ?h) ?q)
        \<lparr>num_free_blocks := num_free_blocks q - n\<rparr>) b = None \<and>
      next_free (set_prev ?h (Some fake_head) (set_next fake_head (Some ?h) ?q)
        \<lparr>num_free_blocks := num_free_blocks q - n\<rparr>) b = None"
      if "b \<notin> set ?bs" "b \<noteq> fake_head" "b \<noteq> fake_tail" for b
      using that h rep(6) [of b] un by auto
  qed (use ch rep assms in auto)
  moreover have "n \<le> num_free_blocks q" using rep(5) assms by simp
  ultimately show ?thesis
    using False by (auto simp: popleft_n_def loop Let_def intro!: givesI)
qed

lemma popleft_n_short: "queue_rep q xs \<Longrightarrow> int (length xs) < n \<Longrightarrow> n \<noteq> 0 \<Longrightarrow>
    popleft_n n q = raises AssertionError q"
  by (simp add: popleft_n_def queue_rep_def)

text \<open>Appending several blocks leaves the same list as appending them one after the other.\<close>

fun ochain :: "(int \<Rightarrow> int option) \<Rightarrow> (int \<Rightarrow> int option) \<Rightarrow> int \<Rightarrow> int list \<Rightarrow> bool" where
  "ochain nx pv p [] = True"
| "ochain nx pv p (x # xs) = (nx p = Some x \<and> pv x = Some p \<and> ochain nx pv x xs)"

lemma ochain_snoc: "ochain nx pv p (xs @ [y]) \<longleftrightarrow>
    ochain nx pv p xs \<and> nx (last (p # xs)) = Some y \<and> pv y = Some (last (p # xs))"
  by (induction xs arbitrary: p) auto

lemma chain_ochain: "chain nx pv p xs e = ochain nx pv p (xs @ [e])"
  by (induction xs arbitrary: p) auto

lemma ochain_upd_prev [simp]: "a \<notin> set xs \<Longrightarrow> ochain nx (pv(a := v)) p xs = ochain nx pv p xs"
  by (induction xs arbitrary: p) auto

lemma ochain_upd_last:
  "distinct (p # xs) \<Longrightarrow> ochain (nx(last (p # xs) := v)) pv p xs = ochain nx pv p xs"
proof (induction xs arbitrary: p)
  case Nil
  then show ?case by simp
next
  case (Cons x xs)
  then have "last (x # xs) \<noteq> p" by (metis distinct.simps(2) last_in_set list.distinct(1))
  with Cons show ?case by auto
qed

lemma append_n_loop_ochain:
  assumes "ochain (next_free q) (prev_free q) p xs" "l = last (p # xs)" "distinct (p # xs @ bs)"
  shows "\<exists>q'. append_n_loop bs l q = (last (p # xs @ bs), q') \<and>
    ochain (next_free q') (prev_free q') p (xs @ bs) \<and> num_free_blocks q' = num_free_blocks q \<and>
    (\<forall>b. b \<notin> set (p # xs @ bs) \<longrightarrow> prev_free q' b = prev_free q b \<and> next_free q' b = next_free q b)"
  using assms
proof (induction bs arbitrary: xs l q)
  case Nil
  then show ?case by simp
next
  case (Cons b bs)
  let ?q = "set_next l (Some b) (set_prev b (Some l) q)"
  have oc: "ochain (next_free ?q) (prev_free ?q) p (xs @ [b])"
    using Cons.prems by (simp add: ochain_snoc ochain_upd_last del: last.simps)
  have "\<exists>q'. append_n_loop bs b ?q = (last (p # (xs @ [b]) @ bs), q') \<and>
    ochain (next_free q') (prev_free q') p ((xs @ [b]) @ bs) \<and> num_free_blocks q' = num_free_blocks ?q \<and>
    (\<forall>c. c \<notin> set (p # (xs @ [b]) @ bs) \<longrightarrow>
       prev_free q' c = prev_free ?q c \<and> next_free q' c = next_free ?q c)"
    by (rule Cons.IH [OF oc]) (use Cons.prems in auto)
  moreover have "l \<in> set (p # xs)" using Cons.prems(2) last_in_set [of "p # xs"] by simp
  ultimately show ?case by auto
qed

lemma rep_append_n:
  assumes "queue_rep q xs" "distinct (xs @ bs)" "fake_head \<notin> set bs" "fake_tail \<notin> set bs"
  shows "gives (append_n bs q) () (xs @ bs)"
proof (cases "bs = []")
  case True
  with assms show ?thesis by (auto simp: append_n_def intro!: givesI)
next
  case False
  note rep = queue_repD [OF assms(1)]
  let ?l = "last (fake_head # xs)"
  from chain_last [OF rep(1)] have l: "prev_free q fake_tail = Some ?l" .
  have "ochain (next_free q) (prev_free q) fake_head xs"
    using rep(1) by (simp add: chain_ochain ochain_snoc)
  moreover have d: "distinct (fake_head # xs @ bs)" using assms rep by auto
  ultimately obtain q' where q': "append_n_loop bs ?l q = (last (fake_head # xs @ bs), q')"
    "ochain (next_free q') (prev_free q') fake_head (xs @ bs)"
    "num_free_blocks q' = num_free_blocks q"
    "\<forall>b. b \<notin> set (fake_head # xs @ bs) \<longrightarrow> prev_free q' b = prev_free q b \<and> next_free q' b = next_free q b"
    using append_n_loop_ochain [of q fake_head xs ?l bs] by blast
  let ?e = "last (fake_head # xs @ bs)"
  let ?q = "set_prev fake_tail (Some ?e) (set_next ?e (Some fake_tail) q')"
  have e: "?e \<in> set (xs @ bs)" using False last_in_set [of "xs @ bs"] by simp
  have "queue_rep (?q\<lparr>num_free_blocks := num_free_blocks ?q + int (length bs)\<rparr>) (xs @ bs)"
  proof (rule queue_repI)
    show "chain (next_free (?q\<lparr>num_free_blocks := num_free_blocks ?q + int (length bs)\<rparr>))
       (prev_free (?q\<lparr>num_free_blocks := num_free_blocks ?q + int (length bs)\<rparr>)) fake_head (xs @ bs) fake_tail"
      using q'(2) d rep(4) assms(4) by (simp add: chain_ochain ochain_snoc ochain_upd_last del: last.simps append_assoc)
  qed (use q' d rep assms e in auto)
  then show ?thesis using False q'(1) by (auto simp: append_n_def l Let_def intro!: givesI)
qed

lemma ochain_nth: "ochain nx pv p xs \<longleftrightarrow>
    (\<forall>i < length xs. nx ((p # xs) ! i) = Some (xs ! i) \<and> pv (xs ! i) = Some ((p # xs) ! i))"
proof (induction xs arbitrary: p)
  case Nil
  then show ?case by simp
next
  case (Cons x xs)
  then show ?case by (auto simp: less_Suc_eq_0_disj)
qed

lemma link_neighbours_sel:
  "next_free (link_neighbours bs i q) =
     (if i < length bs - 1 then (next_free q)(bs ! i := Some (bs ! (i + 1))) else next_free q)"
  "prev_free (link_neighbours bs i q) =
     (if 0 < i then (prev_free q)(bs ! i := Some (bs ! (i - 1))) else prev_free q)"
  "num_free_blocks (link_neighbours bs i q) = num_free_blocks q"
  by (simp_all add: link_neighbours_def Let_def)

lemma link_neighbours_fold:
  assumes "distinct bs" "k \<le> length bs"
  shows "(\<forall>i < length bs. next_free (fold (link_neighbours bs) [0..<k] q0) (bs ! i) =
      (if i < k \<and> i < length bs - 1 then Some (bs ! (i + 1)) else next_free q0 (bs ! i))) \<and>
    (\<forall>i < length bs. prev_free (fold (link_neighbours bs) [0..<k] q0) (bs ! i) =
      (if i < k \<and> 0 < i then Some (bs ! (i - 1)) else prev_free q0 (bs ! i))) \<and>
    (\<forall>b. b \<notin> set bs \<longrightarrow> next_free (fold (link_neighbours bs) [0..<k] q0) b = next_free q0 b \<and>
      prev_free (fold (link_neighbours bs) [0..<k] q0) b = prev_free q0 b) \<and>
    num_free_blocks (fold (link_neighbours bs) [0..<k] q0) = num_free_blocks q0"
  using assms(2)
proof (induction k)
  case 0
  then show ?case by simp
next
  case (Suc k)
  let ?q = "fold (link_neighbours bs) [0..<k] q0"
  have idx: "bs ! i = bs ! k \<longleftrightarrow> i = k" if "i < length bs" for i
    using that Suc.prems assms(1) by (simp add: nth_eq_iff_index_eq)
  have mem: "b \<notin> set bs \<Longrightarrow> b \<noteq> bs ! k" for b using Suc.prems by auto
  have q: "fold (link_neighbours bs) [0..<Suc k] q0 = link_neighbours bs k ?q" by simp
  show ?case unfolding q using Suc idx mem by (auto simp: link_neighbours_sel less_Suc_eq)
qed

lemma rep_queue_init:
  assumes "distinct bs" "fake_head \<notin> set bs" "fake_tail \<notin> set bs"
  shows "queue_rep (queue_init bs) bs"
proof (cases "bs = []")
  case True
  then show ?thesis by (auto simp: queue_init_def Let_def queue_rep_def)
next
  case False
  let ?start = "\<lparr>prev_free = (\<lambda>_. None), next_free = (\<lambda>_. None), num_free_blocks = int (length bs)\<rparr>"
  let ?q = "fold (link_neighbours bs) [0..<length bs] ?start"
  note L = link_neighbours_fold [OF assms(1) order_refl, of ?start]
  have init: "queue_init bs = set_next (last bs) (Some fake_tail) (set_prev fake_tail (Some (last bs))
      (set_prev (hd bs) (Some fake_head) (set_next fake_head (Some (hd bs)) ?q)))"
    using False by (simp add: queue_init_def Let_def)
  have hd: "hd bs = bs ! 0" "last bs = bs ! (length bs - 1)"
    using False by (simp_all add: hd_conv_nth last_conv_nth)
  have idx: "bs ! i = bs ! j \<longleftrightarrow> i = j" if "i < length bs" "j < length bs" for i j
    using that assms(1) by (simp add: nth_eq_iff_index_eq)
  have mem: "bs ! i \<noteq> fake_head" "bs ! i \<noteq> fake_tail" if "i < length bs" for i
    using that assms(2,3) by (metis nth_mem)+
  have len: "length bs - 1 < length bs" using False by simp
  have nx: "next_free (queue_init bs) (bs ! i) =
      (if i = length bs - 1 then Some fake_tail else Some (bs ! (i + 1)))" if "i < length bs" for i
    using that L len idx [OF that len] mem(1) [OF that] by (auto simp: init hd)
  have px: "prev_free (queue_init bs) (bs ! i) =
      (if i = 0 then Some fake_head else Some (bs ! (i - 1)))" if "i < length bs" for i
    using that L False idx [OF that, of 0] mem(2) [OF that] by (auto simp: init hd)
  have nh: "next_free (queue_init bs) fake_head = Some (bs ! 0)"
    using mem(1) [OF len] by (auto simp: init hd)
  have pt: "prev_free (queue_init bs) fake_tail = Some (bs ! (length bs - 1))"
    using mem(2) [of 0] False by (auto simp: init hd)
  have oc: "ochain (next_free (queue_init bs)) (prev_free (queue_init bs)) fake_head (bs @ [fake_tail])"
    unfolding ochain_nth
  proof (intro allI impI)
    fix i assume i: "i < length (bs @ [fake_tail])"
    consider "i = 0" | "0 < i" "i < length bs" | "0 < i" "i = length bs" using i by fastforce
    then show "next_free (queue_init bs) ((fake_head # bs @ [fake_tail]) ! i) = Some ((bs @ [fake_tail]) ! i) \<and>
        prev_free (queue_init bs) ((bs @ [fake_tail]) ! i) = Some ((fake_head # bs @ [fake_tail]) ! i)"
    proof cases
      case 1
      then show ?thesis using False nh px [of 0] by (simp add: nth_append)
    next
      case 2
      from \<open>0 < i\<close> obtain k where "i = Suc k" by (auto simp: gr0_conv_Suc)
      moreover from this 2 have "k \<noteq> length bs - 1" by simp
      ultimately show ?thesis using 2 nx [of k] px [of i] by (simp add: nth_append)
    next
      case 3
      from \<open>0 < i\<close> obtain k where "i = Suc k" by (auto simp: gr0_conv_Suc)
      moreover from this 3 have "k = length bs - 1" "k < length bs" by simp_all
      ultimately show ?thesis using 3 nx [of k] pt by (simp add: nth_append)
    qed
  qed
  show ?thesis
  proof (rule queue_repI)
    show "chain (next_free (queue_init bs)) (prev_free (queue_init bs)) fake_head bs fake_tail"
      using oc by (simp add: chain_ochain)
    show "prev_free (queue_init bs) b = None \<and> next_free (queue_init bs) b = None"
      if "b \<notin> set bs" "b \<noteq> fake_head" "b \<noteq> fake_tail" for b
    proof -
      have "b \<noteq> bs ! 0" "b \<noteq> bs ! (length bs - 1)" using that(1) False len by (metis nth_mem length_greater_0_conv)+
      with that L show ?thesis by (simp add: init hd)
    qed
    show "num_free_blocks (queue_init bs) = int (length bs)" using L by (simp add: init)
  qed (use assms in auto)
qed

section \<open>The interface the cache manager relies on\<close>

text \<open>
  What the manager may assume of its free queue, over an abstraction relation \<open>rep\<close> from the
  queue object to the list of the free ids; \<open>node\<close> says which ids may be linked.
\<close>

locale block_queue =
  fixes rep :: "'q \<Rightarrow> int list \<Rightarrow> bool"
    and node :: "int \<Rightarrow> bool"
    and pop :: "'q \<Rightarrow> ('q, int) outcome"
    and remove :: "int \<Rightarrow> 'q \<Rightarrow> ('q, unit) outcome"
    and push :: "int \<Rightarrow> 'q \<Rightarrow> ('q, unit) outcome"
    and mem :: "int \<Rightarrow> 'q \<Rightarrow> bool"
  assumes pop_empty: "rep q [] \<Longrightarrow> pop q = raises ValueError q"
    and pop_front: "rep q (x # xs) \<Longrightarrow> \<exists>q'. pop q = returns x q' \<and> rep q' xs"
    and push_back: "rep q xs \<Longrightarrow> b \<notin> set xs \<Longrightarrow> node b \<Longrightarrow> \<exists>q'. push b q = returns () q' \<and> rep q' (xs @ [b])"
    and remove_mid: "rep q xs \<Longrightarrow> b \<in> set xs \<Longrightarrow> \<exists>q'. remove b q = returns () q' \<and> rep q' (remove1 b xs)"
    and remove_no: "rep q xs \<Longrightarrow> b \<notin> set xs \<Longrightarrow> node b \<Longrightarrow> remove b q = raises RuntimeError q"
    and mem_iff: "rep q xs \<Longrightarrow> node b \<Longrightarrow> mem b q \<longleftrightarrow> b \<in> set xs"
    and rep_distinct: "rep q xs \<Longrightarrow> distinct xs"
begin

fun pops :: "nat \<Rightarrow> 'q \<Rightarrow> ('q, int list) outcome" where
  "pops 0 q = returns [] q"
| "pops (Suc n) q = and_then (pop q) (\<lambda>b q1. and_then (pops n q1) (\<lambda>bs q2. returns (b # bs) q2))"

fun pushes :: "int list \<Rightarrow> 'q \<Rightarrow> ('q, unit) outcome" where
  "pushes [] q = returns () q"
| "pushes (b # bs) q = and_then (push b q) (\<lambda>_ q1. pushes bs q1)"

text \<open>Blocks leave in the order in which they became free.\<close>

lemma pops_take: "rep q xs \<Longrightarrow> n \<le> length xs \<Longrightarrow>
    \<exists>q'. pops n q = returns (take n xs) q' \<and> rep q' (drop n xs)"
proof (induction n arbitrary: q xs)
  case 0
  then show ?case by simp
next
  case (Suc n)
  then obtain x ys where xs: "xs = x # ys" by (cases xs) auto
  with Suc.prems pop_front obtain q1 where q1: "pop q = returns x q1" "rep q1 ys" by blast
  with Suc xs obtain q2 where "pops n q1 = returns (take n ys) q2" "rep q2 (drop n ys)"
    by (metis Suc_le_mono length_Cons)
  with q1 xs show ?case by simp
qed

lemma pushes_append: "rep q xs \<Longrightarrow> distinct (xs @ bs) \<Longrightarrow> \<forall>b \<in> set bs. node b \<Longrightarrow>
    \<exists>q'. pushes bs q = returns () q' \<and> rep q' (xs @ bs)"
proof (induction bs arbitrary: q xs)
  case Nil
  then show ?case by simp
next
  case (Cons b bs)
  then obtain q1 where q1: "push b q = returns () q1" "rep q1 (xs @ [b])"
    using push_back [of q xs b] by auto
  have "\<exists>q'. pushes bs q1 = returns () q' \<and> rep q' ((xs @ [b]) @ bs)"
    by (rule Cons.IH [OF q1(2)]) (use Cons.prems in auto)
  with q1(1) show ?case by simp
qed

lemma fifo: "rep q [] \<Longrightarrow> distinct bs \<Longrightarrow> \<forall>b \<in> set bs. node b \<Longrightarrow>
    \<exists>q1 q2. pushes bs q = returns () q1 \<and> pops (length bs) q1 = returns bs q2 \<and> rep q2 []"
proof -
  assume "rep q []" "distinct bs" "\<forall>b \<in> set bs. node b"
  then obtain q1 where "pushes bs q = returns () q1" "rep q1 bs"
    using pushes_append [of q "[]" bs] by auto
  with pops_take [of q1 bs "length bs"] show ?thesis by auto
qed

text \<open>A block taken out of the middle is not handed out by any later pops.\<close>

lemma removed_never_popped:
  assumes "rep q xs" "b \<in> set xs" "remove b q = returns () q1" "n < length xs"
  shows "\<exists>bs q2. pops n q1 = returns bs q2 \<and> b \<notin> set bs"
proof -
  from remove_mid [OF assms(1,2)] assms(3) have r: "rep q1 (remove1 b xs)" by auto
  from assms have "n \<le> length (remove1 b xs)" by (simp add: length_remove1)
  with pops_take [OF r] obtain q2 where "pops n q1 = returns (take n (remove1 b xs)) q2" by blast
  moreover have "b \<notin> set (remove1 b xs)"
    using rep_distinct [OF assms(1)] by (simp add: set_remove1_distinct)
  then have "b \<notin> set (take n (remove1 b xs))" by (meson in_set_takeD)
  ultimately show ?thesis by blast
qed

end

definition is_block_id :: "int \<Rightarrow> bool" where
  "is_block_id b = (0 \<le> b)"

lemma block_id_sentinels [simp]:
  "is_block_id b \<Longrightarrow> b \<noteq> fake_head" "is_block_id b \<Longrightarrow> b \<noteq> fake_tail"
  "is_block_id b \<Longrightarrow> fake_head \<noteq> b" "is_block_id b \<Longrightarrow> fake_tail \<noteq> b"
  by (auto simp: is_block_id_def fake_head_def fake_tail_def)

interpretation fq: block_queue queue_rep is_block_id popleft remove_block append_block is_in_queue
proof (unfold_locales, goal_cases)
  case (1 q) then show ?case by (rule rep_popleft_Nil)
next
  case (2 q x xs) then show ?case using rep_popleft_Cons by (simp add: gives_def)
next
  case (3 q xs b) then show ?case using rep_append_block by (simp add: gives_def)
next
  case (4 q xs b) then show ?case using rep_remove_block by (simp add: gives_def)
next
  case (5 q xs b) then show ?case by (intro rep_remove_absent) auto
next
  case (6 q xs b) then show ?case by (intro rep_is_in_queue) auto
next
  case (7 q xs) then show ?case by (simp add: queue_rep_def)
qed

end
