(* ===== verification/HashMap.thy ===== *)
theory HashMap
  imports Prelude
begin

text \<open>
  \<open>BlockHashToBlockMap\<close> of \<^verbatim>\<open>fusion_mlx/cache/paged_cache.py\<close>: content hash to block, or to
  several blocks with the same hash. A value is either one block or a dictionary of blocks
  keyed by their ids; a block is named by its id, so the inner dictionary is the list of its
  keys in insertion order. \<open>insert\<close> and \<open>pop\<close> never leave an inner dictionary empty, which
  the type says.
\<close>

section \<open>State and operations\<close>

datatype hash_entry = Single int | Multi int "int list"

type_synonym hash_map = "(string, hash_entry) pydict"

fun entry_ids :: "hash_entry \<Rightarrow> int list" where
  "entry_ids (Single b) = [b]"
| "entry_ids (Multi b bs) = b # bs"

definition get_block :: "string \<Rightarrow> hash_map \<Rightarrow> int option" where
  "get_block h d =
     (case map_of d h of
        None \<Rightarrow> None
      | Some (Single b) \<Rightarrow> Some b
      | Some (Multi b bs) \<Rightarrow> Some b)"

text \<open>Python's \<open>max\<close> with a key: the first element with the largest key.\<close>

fun first_max :: "(int \<Rightarrow> int) \<Rightarrow> int \<Rightarrow> int list \<Rightarrow> int" where
  "first_max key best [] = best"
| "first_max key best (b # bs) = first_max key (if key b > key best then b else best) bs"

definition get_best_block :: "(int \<Rightarrow> int) \<Rightarrow> string \<Rightarrow> hash_map \<Rightarrow> int option" where
  "get_best_block last_access h d =
     (case map_of d h of
        None \<Rightarrow> None
      | Some (Single b) \<Rightarrow> Some b
      | Some (Multi b bs) \<Rightarrow> Some (first_max last_access b bs))"

definition hash_insert :: "string \<Rightarrow> int \<Rightarrow> hash_map \<Rightarrow> hash_map" where
  "hash_insert h b d =
     (case map_of d h of
        None \<Rightarrow> dict_set h (Single b) d
      | Some (Single e) \<Rightarrow> dict_set h (Multi e (if b = e then [] else [b])) d
      | Some (Multi e es) \<Rightarrow> dict_set h (if b \<in> set (e # es) then Multi e es else Multi e (es @ [b])) d)"

text \<open>
  \<open>pop(block_hash, block_id)\<close>: the entry is taken out first and put back, now last in the
  dictionary, when it must stay. Callers also pass \<open>None\<close> for the id.
\<close>

definition hash_pop :: "string \<Rightarrow> int option \<Rightarrow> hash_map \<Rightarrow> int option \<times> hash_map" where
  "hash_pop h b d =
     (case map_of d h of
        None \<Rightarrow> (None, d)
      | Some (Single e) \<Rightarrow>
          if Some e = b then (Some e, dict_del h d)
          else (None, dict_set h (Single e) (dict_del h d))
      | Some (Multi e es) \<Rightarrow>
          (case filter (\<lambda>x. Some x \<noteq> b) (e # es) of
             [] \<Rightarrow> (b, dict_del h d)
           | r # rs \<Rightarrow>
               (if b \<in> Some ` set (e # es) then b else None,
                dict_set h (Multi r rs) (dict_del h d))))"

definition hash_len :: "hash_map \<Rightarrow> int" where
  "hash_len d = int (length d)"

definition hash_clear :: "hash_map \<Rightarrow> hash_map" where
  "hash_clear d = []"

section \<open>The ids stored under a hash\<close>

definition ids_at :: "hash_map \<Rightarrow> string \<Rightarrow> int set" where
  "ids_at d h = (case map_of d h of None \<Rightarrow> {} | Some e \<Rightarrow> set (entry_ids e))"

lemma ids_at_empty [simp]: "ids_at [] h = {}"
  by (simp add: ids_at_def)

lemma get_block_ids: "get_block h d = Some b \<Longrightarrow> b \<in> ids_at d h"
  by (auto simp: get_block_def ids_at_def split: option.splits hash_entry.splits)

lemma get_block_None: "get_block h d = None \<longleftrightarrow> ids_at d h = {}"
  by (auto simp: get_block_def ids_at_def split: option.splits hash_entry.splits)

lemma ids_at_insert: "ids_at (hash_insert h b d) k = (if k = h then insert b (ids_at d h) else ids_at d k)"
  by (auto simp: hash_insert_def ids_at_def pydict split: option.splits hash_entry.splits)

lemma hash_pop_Multi:
  assumes "map_of d h = Some (Multi e es)"
  shows "ids_at (snd (hash_pop h b d)) k =
    (if k = h then set (filter (\<lambda>x. Some x \<noteq> b) (e # es)) else ids_at d k)"
proof (cases "filter (\<lambda>x. Some x \<noteq> b) (e # es)")
  case Nil
  with assms show ?thesis by (simp only: hash_pop_def) (simp add: ids_at_def pydict)
next
  case (Cons r rs)
  with assms show ?thesis by (simp only: hash_pop_def) (simp add: ids_at_def pydict)
qed

lemma ids_at_pop: "ids_at (snd (hash_pop h b d)) k =
    (if k = h then ids_at d h - {x. Some x = b} else ids_at d k)"
proof (cases "map_of d h")
  case None
  then show ?thesis by (simp add: hash_pop_def ids_at_def)
next
  case (Some en)
  show ?thesis
  proof (cases en)
    case (Single e)
    with Some show ?thesis by (auto simp: hash_pop_def ids_at_def pydict)
  next
    case (Multi e es)
    with Some show ?thesis unfolding hash_pop_Multi [OF Some [unfolded Multi]]
      by (auto simp: ids_at_def)
  qed
qed

lemma hash_pop_result: "fst (hash_pop h b d) = (if \<exists>x. b = Some x \<and> x \<in> ids_at d h then b else None)"
proof (cases "map_of d h")
  case None
  then show ?thesis by (simp add: hash_pop_def ids_at_def)
next
  case (Some en)
  show ?thesis
  proof (cases en)
    case (Single e)
    with Some show ?thesis by (auto simp: hash_pop_def ids_at_def)
  next
    case (Multi e es)
    show ?thesis
    proof (cases "filter (\<lambda>x. Some x \<noteq> b) (e # es)")
      case Nil
      then have "Some e = b" by (metis (mono_tags, lifting) filter_empty_conv list.set_intros(1))
      with Nil Some Multi show ?thesis by (simp only: hash_pop_def) (auto simp: ids_at_def)
    next
      case (Cons r rs)
      with Some Multi show ?thesis by (simp only: hash_pop_def) (auto simp: ids_at_def image_iff)
    qed
  qed
qed

text \<open>With \<open>None\<close> in the place of the id nothing is found and nothing is removed.\<close>

lemma hash_pop_None: "fst (hash_pop h None d) = None" "ids_at (snd (hash_pop h None d)) k = ids_at d k"
  by (simp_all add: hash_pop_result ids_at_pop)

lemma ids_at_clear [simp]: "ids_at (hash_clear d) h = {}"
  by (simp add: hash_clear_def)

lemma first_max_in: "first_max key b bs \<in> set (b # bs)"
  by (induction key b bs rule: first_max.induct) auto

lemma first_max_ge: "x \<in> set (b # bs) \<Longrightarrow> key x \<le> key (first_max key b bs)"
proof (induction key b bs arbitrary: x rule: first_max.induct)
  case (1 key best)
  then show ?case by simp
next
  case (2 key best b bs)
  let ?n = "if key best < key b then b else best"
  have "key ?n \<le> key (first_max key ?n bs)" using 2 by simp
  moreover have "key best \<le> key ?n" "key b \<le> key ?n" by simp_all
  ultimately show ?case using 2 by fastforce
qed

lemma distinct_keys_insert: "distinct (dict_keys d) \<Longrightarrow> distinct (dict_keys (hash_insert h b d))"
  by (auto simp: hash_insert_def split: option.splits hash_entry.splits)

lemma distinct_keys_pop: "distinct (dict_keys d) \<Longrightarrow> distinct (dict_keys (snd (hash_pop h b d)))"
  by (auto simp: hash_pop_def split: option.splits hash_entry.splits list.splits)

end
