(* ===== verification/BlockHash.thy ===== *)
theory BlockHash
  imports Prelude
begin

text \<open>
  Content hashes of cache blocks (\<^verbatim>\<open>fusion_mlx/cache/paged_cache.py\<close>,
  \<open>resolve_block_extra_keys\<close> and \<open>compute_block_hash\<close>). Byte strings and texts are
  \<open>string\<close>s (texts as their UTF-8 bytes). SHA-256 and the \<open>str()\<close> of a tuple of arbitrary
  key objects are the two fields of \<open>hash_env\<close>; everything the code feeds into the hasher,
  in particular the textual form of the token tuple, is written out.
\<close>

section \<open>Textual form of integers and integer tuples\<close>

fun nat_str :: "nat \<Rightarrow> string" where
  "nat_str n = (if n < 10 then [char_of (48 + n)] else nat_str (n div 10) @ [char_of (48 + n mod 10)])"

declare nat_str.simps [simp del]

definition int_str :: "int \<Rightarrow> string" where
  "int_str i = (if i < 0 then ''-'' @ nat_str (nat (- i)) else nat_str (nat i))"

fun ints_body :: "int list \<Rightarrow> string" where
  "ints_body [] = []"
| "ints_body [x] = int_str x"
| "ints_body (x # y # zs) = int_str x @ '', '' @ ints_body (y # zs)"

text \<open>Python's \<open>str\<close> of a tuple: a one-element tuple keeps its comma.\<close>

definition tuple_str :: "int list \<Rightarrow> string" where
  "tuple_str xs = ''('' @ (case xs of [x] \<Rightarrow> int_str x @ '','' | _ \<Rightarrow> ints_body xs) @ '')''"

subsection \<open>The textual form determines the tuple\<close>

definition digit_char :: "char \<Rightarrow> bool" where
  "digit_char c = (48 \<le> (of_char c :: nat) \<and> (of_char c :: nat) < 58)"

definition read_digits :: "string \<Rightarrow> nat" where
  "read_digits = foldl (\<lambda>a c. 10 * a + (of_char c - 48)) 0"

lemma read_nat_str: "read_digits (nat_str n) = n"
proof (induction n rule: nat_str.induct)
  case (1 n)
  then show ?case by (subst nat_str.simps) (simp add: read_digits_def)
qed

lemma nat_str_digits: "c \<in> set (nat_str n) \<Longrightarrow> digit_char c"
proof (induction n rule: nat_str.induct)
  case (1 n)
  then show ?case by (subst (asm) nat_str.simps) (auto simp: digit_char_def split: if_splits)
qed

lemma nat_str_nonempty [simp]: "nat_str n \<noteq> []"
  by (subst nat_str.simps) simp

lemma nat_str_inject [simp]: "nat_str m = nat_str n \<longleftrightarrow> m = n"
  by (metis read_nat_str)

lemma minus_not_digit: "\<not> digit_char CHR ''-''"
  by (simp add: digit_char_def)

lemma int_str_inject [simp]: "int_str i = int_str j \<longleftrightarrow> i = j"
proof -
  have neq: "''-'' @ nat_str m \<noteq> nat_str n" for m n
    using nat_str_digits [of "CHR ''-''" n] minus_not_digit by (metis append_Cons list.set_intros(1))
  show ?thesis using neq neq [symmetric] by (auto simp: int_str_def)
qed

definition int_char :: "char \<Rightarrow> bool" where
  "int_char c = (c = CHR ''-'' \<or> digit_char c)"

lemma int_str_chars: "c \<in> set (int_str i) \<Longrightarrow> int_char c"
  using nat_str_digits by (auto simp: int_str_def int_char_def split: if_splits)

lemma int_char_separators: "\<not> int_char CHR '',''" "\<not> int_char CHR '')''"
  by (simp_all add: int_char_def digit_char_def)

lemma split_at_separator:
  assumes "u @ c # r = v @ d # s" "\<forall>x \<in> set u. P x" "\<forall>x \<in> set v. P x" "\<not> P c" "\<not> P d"
  shows "u = v \<and> c = d \<and> r = s"
  using assms
proof (induction u arbitrary: v)
  case Nil
  then show ?case by (cases v) auto
next
  case (Cons x u)
  then show ?case by (cases v) auto
qed

lemma ints_body_inject:
  "xs \<noteq> [] \<Longrightarrow> ys \<noteq> [] \<Longrightarrow> ints_body xs @ '')'' @ r = ints_body ys @ '')'' @ s \<Longrightarrow> xs = ys \<and> r = s"
proof (induction xs arbitrary: ys rule: ints_body.induct)
  case 1
  then show ?case by simp
next
  case (2 x)
  obtain y zs where ys: "ys = y # zs" using "2.prems" by (cases ys) auto
  show ?case
  proof (cases zs)
    case Nil
    with 2 ys have "int_str x @ CHR '')'' # r = int_str y @ CHR '')'' # s" by simp
    then show ?thesis using Nil ys split_at_separator [where P = int_char] int_str_chars int_char_separators
      by (metis int_str_inject)
  next
    case (Cons z ws)
    with 2 ys have "int_str x @ CHR '')'' # r = int_str y @ CHR '','' # ('' '' @ ints_body (z # ws) @ '')'' @ s)"
      by simp
    then show ?thesis using split_at_separator [where P = int_char] int_str_chars int_char_separators
      by blast
  qed
next
  case (3 x x' xs)
  obtain y zs where ys: "ys = y # zs" using "3.prems" by (cases ys) auto
  show ?case
  proof (cases zs)
    case Nil
    with 3 ys have "int_str x @ CHR '','' # ('' '' @ ints_body (x' # xs) @ '')'' @ r) = int_str y @ CHR '')'' # s"
      by simp
    then show ?thesis using split_at_separator [where P = int_char] int_str_chars int_char_separators
      by blast
  next
    case (Cons z ws)
    with 3 ys have "int_str x @ CHR '','' # ('' '' @ ints_body (x' # xs) @ '')'' @ r) =
        int_str y @ CHR '','' # ('' '' @ ints_body (z # ws) @ '')'' @ s)" by simp
    then have "int_str x = int_str y \<and> '' '' @ ints_body (x' # xs) @ '')'' @ r = '' '' @ ints_body (z # ws) @ '')'' @ s"
      using split_at_separator [where P = int_char] int_str_chars int_char_separators by blast
    then have "x = y" "ints_body (x' # xs) @ '')'' @ r = ints_body (z # ws) @ '')'' @ s" by simp_all
    with "3.IH" [of "z # ws"] Cons ys show ?thesis by simp
  qed
qed

lemma int_str_separator:
  assumes "int_str x @ c # r = int_str y @ d # s" "\<not> int_char c" "\<not> int_char d"
  shows "x = y \<and> c = d \<and> r = s"
proof -
  have "int_str x = int_str y \<and> c = d \<and> r = s"
    by (rule split_at_separator [OF assms(1) _ _ assms(2,3)]) (simp_all add: int_str_chars)
  then show ?thesis by simp
qed

lemma int_str_starts: "int_str x @ r \<noteq> CHR '')'' # s"
proof
  assume eq: "int_str x @ r = CHR '')'' # s"
  have "int_str x \<noteq> []" by (simp add: int_str_def)
  then obtain c cs where "int_str x = c # cs" by (cases "int_str x") auto
  with eq int_str_chars [of c x] int_char_separators(2) show False by simp
qed

text \<open>The three shapes of a tuple's text.\<close>

lemma tuple_str_shapes:
  "tuple_str [] @ r = ''('' @ CHR '')'' # r"
  "tuple_str [x] @ r = ''('' @ int_str x @ CHR '','' # CHR '')'' # r"
  "tuple_str (x # y # zs) @ r = ''('' @ int_str x @ CHR '','' # CHR '' '' # ints_body (y # zs) @ '')'' @ r"
  by (simp_all add: tuple_str_def)

lemma tuple_str_inject:
  assumes eq: "tuple_str xs @ r = tuple_str ys @ s"
  shows "xs = ys \<and> r = s"
proof -
  note sep = int_str_separator [OF _ int_char_separators(1,1)]
  consider "xs = []" | x where "xs = [x]" | x x' us where "xs = x # x' # us"
    by (cases xs rule: ints_body.cases) auto
  then show ?thesis
  proof cases
    case 1
    with eq int_str_starts [symmetric] show ?thesis
      by (cases ys rule: ints_body.cases) (simp_all only: tuple_str_shapes, simp_all)
  next
    case (2 x)
    with eq int_str_starts sep show ?thesis
      by (cases ys rule: ints_body.cases) (simp_all only: tuple_str_shapes, simp_all, blast+)
  next
    case (3 x x' us)
    show ?thesis
    proof (cases ys rule: ints_body.cases)
      case 1
      with 3 eq int_str_starts show ?thesis by (simp only: tuple_str_shapes) simp
    next
      case (2 y)
      with 3 eq sep show ?thesis by (simp only: tuple_str_shapes) fastforce
    next
      case (3 y y' vs)
      with \<open>xs = x # x' # us\<close> eq
      have "ints_body xs @ '')'' @ r = ints_body ys @ '')'' @ s" by (simp add: tuple_str_def)
      with ints_body_inject [of xs ys r s] \<open>xs = x # x' # us\<close> 3 show ?thesis by simp
    qed
  qed
qed

section \<open>The hash of a block\<close>

record 'k hash_env =
  sha256 :: "string \<Rightarrow> string"
  keys_str :: "'k list \<Rightarrow> string"

definition root_seed :: string where
  "root_seed = ''fusion-mlx-root''"

text \<open>
  The bytes given to the hasher: an empty model name, an empty parent digest and an empty
  extra-key tuple are falsy in Python and treated like \<open>None\<close>.
\<close>

definition hash_payload ::
  "'k hash_env \<Rightarrow> string option \<Rightarrow> int list \<Rightarrow> 'k list option \<Rightarrow> string option \<Rightarrow> string" where
  "hash_payload E parent_hash token_ids extra_keys model_name =
     (case model_name of None \<Rightarrow> [] | Some m \<Rightarrow> m) @
     (case parent_hash of None \<Rightarrow> root_seed | Some p \<Rightarrow> if p = [] then root_seed else p) @
     tuple_str token_ids @
     (case extra_keys of None \<Rightarrow> [] | Some ks \<Rightarrow> if ks = [] then [] else keys_str E ks)"

definition compute_block_hash ::
  "'k hash_env \<Rightarrow> string option \<Rightarrow> int list \<Rightarrow> 'k list option \<Rightarrow> string option \<Rightarrow> string" where
  "compute_block_hash E parent_hash token_ids extra_keys model_name =
     sha256 E (hash_payload E parent_hash token_ids extra_keys model_name)"

subsection \<open>Which extra keys salt a block\<close>

fun select_range :: "int \<Rightarrow> (int \<times> 'k list) list \<Rightarrow> 'k list option \<Rightarrow> 'k list option" where
  "select_range block_end [] selected = selected"
| "select_range block_end ((start, keys) # rs) selected =
     (if block_end > start then select_range block_end rs (Some keys) else selected)"

definition starts_ascending :: "(int \<times> 'k list) list \<Rightarrow> bool" where
  "starts_ascending rs = (\<forall>i \<in> set [0..<length rs - 1]. fst (rs ! i) \<le> fst (rs ! (i + 1)))"

definition resolve_block_extra_keys ::
  "int \<Rightarrow> 'k list option \<Rightarrow> int option \<Rightarrow> (int \<times> 'k list) list \<Rightarrow> py_error + 'k list option" where
  "resolve_block_extra_keys block_end extra_keys extra_key_token_start extra_key_ranges =
     (if extra_key_ranges \<noteq> []
      then if starts_ascending extra_key_ranges
           then Inr (select_range block_end extra_key_ranges None)
           else Inl AssertionError
      else case extra_keys of
        Some ks \<Rightarrow>
          (case extra_key_token_start of
             None \<Rightarrow> Inr (Some ks)
           | Some t \<Rightarrow> Inr (if block_end > t then Some ks else None))
      | None \<Rightarrow> Inr None)"

lemma starts_ascending_sorted: "starts_ascending rs \<longleftrightarrow> sorted (map fst rs)"
  by (auto simp: starts_ascending_def sorted_iff_nth_Suc)

lemma select_range_spec:
  "sorted (map fst rs) \<Longrightarrow> select_range e rs sel =
     (case filter (\<lambda>(start, _). start < e) rs of [] \<Rightarrow> sel | r # rs' \<Rightarrow> Some (snd (last (r # rs'))))"
proof (induction e rs sel rule: select_range.induct)
  case (1 e sel)
  then show ?case by simp
next
  case (2 e start keys rs sel)
  show ?case
  proof (cases "start < e")
    case True
    with 2 show ?thesis by (auto split: list.splits)
  next
    case False
    with 2 have "filter (\<lambda>(start, _). start < e) ((start, keys) # rs) = []"
      by (force simp: filter_empty_conv)
    with False show ?thesis by simp
  qed
qed

subsection \<open>Equal payloads come from equal blocks\<close>

lemma payload_inject:
  assumes "hash_payload E p ts ek m = hash_payload E p' ts' ek' m"
    and "p = None \<longleftrightarrow> p' = None"
    and "\<And>d d'. p = Some d \<Longrightarrow> p' = Some d' \<Longrightarrow> length d = length d' \<and> d \<noteq> []"
  shows "p = p' \<and> ts = ts'"
proof (cases p)
  case None
  with assms have "tuple_str ts @ (case ek of None \<Rightarrow> [] | Some ks \<Rightarrow> if ks = [] then [] else keys_str E ks) =
      tuple_str ts' @ (case ek' of None \<Rightarrow> [] | Some ks \<Rightarrow> if ks = [] then [] else keys_str E ks)"
    by (simp add: hash_payload_def)
  with tuple_str_inject None assms(2) show ?thesis by auto
next
  case (Some d)
  with assms(2) obtain d' where d': "p' = Some d'" by auto
  with Some assms(3) have l: "length d = length d'" "d \<noteq> []" by auto
  then have "d' \<noteq> []" by auto
  let ?x = "case ek of None \<Rightarrow> [] | Some ks \<Rightarrow> if ks = [] then [] else keys_str E ks"
  let ?x' = "case ek' of None \<Rightarrow> [] | Some ks \<Rightarrow> if ks = [] then [] else keys_str E ks"
  from assms(1) Some d' l \<open>d' \<noteq> []\<close> have "d @ tuple_str ts @ ?x = d' @ tuple_str ts' @ ?x'"
    by (simp add: hash_payload_def)
  with l(1) have "d = d'" "tuple_str ts @ ?x = tuple_str ts' @ ?x'" by simp_all
  with tuple_str_inject Some d' show ?thesis by auto
qed

section \<open>Chains of blocks\<close>

text \<open>
  The chain hash of a sequence of blocks: each block is hashed with the digest of the block
  before it. This is the specification \<open>get_computed_blocks\<close> and \<open>cache_full_blocks\<close> are
  compared with.
\<close>

fun chain_from :: "'k hash_env \<Rightarrow> string option \<Rightarrow> (int list \<times> 'k list option) list \<Rightarrow> string option \<Rightarrow> string list" where
  "chain_from E p [] m = []"
| "chain_from E p ((ts, ek) # bs) m =
     (let h = compute_block_hash E p ts ek m in h # chain_from E (Some h) bs m)"

lemma length_chain_from [simp]: "length (chain_from E p bs m) = length bs"
  by (induction E p bs m rule: chain_from.induct) (simp_all add: Let_def)

text \<open>
  When SHA-256 does not collide on the payloads of the two chains and its digests have the
  same length, equal last hashes mean equal token blocks throughout.
\<close>

definition no_collision :: "'k hash_env \<Rightarrow> nat \<Rightarrow> string set \<Rightarrow> bool" where
  "no_collision E n S \<longleftrightarrow> 0 < n \<and> (\<forall>x \<in> S. length (sha256 E x) = n) \<and> inj_on (sha256 E) S"

fun chain_payloads :: "'k hash_env \<Rightarrow> string option \<Rightarrow> (int list \<times> 'k list option) list \<Rightarrow> string option \<Rightarrow> string set" where
  "chain_payloads E p [] m = {}"
| "chain_payloads E p ((ts, ek) # bs) m =
     insert (hash_payload E p ts ek m)
       (chain_payloads E (Some (compute_block_hash E p ts ek m)) bs m)"

definition chain_parent :: "'k hash_env \<Rightarrow> (int list \<times> 'k list option) list \<Rightarrow> string option \<Rightarrow> string option" where
  "chain_parent E bs m = (if bs = [] then None else Some (last (chain_from E None bs m)))"

lemma chain_from_Nil_iff [simp]: "chain_from E p bs m = [] \<longleftrightarrow> bs = []"
  by (cases bs) (auto simp: Let_def)

lemma chain_from_append: "chain_from E p (as @ bs) m =
    chain_from E p as m @ chain_from E (if as = [] then p else Some (last (chain_from E p as m))) bs m"
proof (induction as arbitrary: p)
  case Nil
  then show ?case by simp
next
  case (Cons a as)
  obtain ts ek where "a = (ts, ek)" by (cases a)
  then show ?case by (simp add: Let_def Cons)
qed

lemma chain_from_snoc: "chain_from E None (bs @ [(ts, ek)]) m =
    chain_from E None bs m @ [compute_block_hash E (chain_parent E bs m) ts ek m]"
  by (simp add: chain_from_append chain_parent_def Let_def)

lemma chain_payloads_append: "chain_payloads E p (as @ bs) m =
    chain_payloads E p as m \<union> chain_payloads E (if as = [] then p else Some (last (chain_from E p as m))) bs m"
proof (induction as arbitrary: p)
  case Nil
  then show ?case by simp
next
  case (Cons a as)
  obtain ts ek where "a = (ts, ek)" by (cases a)
  then show ?case by (simp add: Let_def Cons)
qed

lemma chain_payloads_snoc: "chain_payloads E None (bs @ [(ts, ek)]) m =
    insert (hash_payload E (chain_parent E bs m) ts ek m) (chain_payloads E None bs m)"
  by (auto simp: chain_payloads_append chain_parent_def)

lemma chain_digest:
  assumes "no_collision E n (chain_payloads E None bs m)" "bs \<noteq> []"
  shows "\<exists>x \<in> chain_payloads E None bs m. chain_parent E bs m = Some (sha256 E x)"
proof (cases bs rule: rev_cases)
  case Nil
  with assms show ?thesis by simp
next
  case (snoc cs c)
  obtain ts ek where "c = (ts, ek)" by (cases c)
  with snoc show ?thesis
    by (auto simp: chain_parent_def chain_from_snoc chain_payloads_snoc compute_block_hash_def)
qed

lemma no_collision_subset: "no_collision E n S \<Longrightarrow> T \<subseteq> S \<Longrightarrow> no_collision E n T"
  by (auto simp: no_collision_def intro: inj_on_subset)

text \<open>A digest that starts with the root seed could be mistaken for the root of a chain.\<close>

definition seed_free :: "'k hash_env \<Rightarrow> string set \<Rightarrow> bool" where
  "seed_free E S \<longleftrightarrow> (\<forall>x \<in> S. take (length root_seed) (sha256 E x) \<noteq> root_seed)"

lemma root_vs_chained:
  assumes "no_collision E n S" "seed_free E S" "length root_seed \<le> n" "x \<in> S"
  shows "hash_payload E None ts ek m \<noteq> hash_payload E (Some (sha256 E x)) ts' ek' m"
proof
  assume eq: "hash_payload E None ts ek m = hash_payload E (Some (sha256 E x)) ts' ek' m"
  from assms have len: "length (sha256 E x) = n" "sha256 E x \<noteq> []" by (auto simp: no_collision_def)
  from eq len have "\<exists>u v. root_seed @ u = sha256 E x @ v" by (auto simp: hash_payload_def)
  then have "take (length root_seed) (sha256 E x) = root_seed"
    using assms(3) len(1) by (metis append_eq_conv_conj take_append diff_is_0_eq take_0 append_Nil2)
  with assms(2,4) show False by (auto simp: seed_free_def)
qed

lemma chain_last_inject:
  assumes S: "no_collision E n S" "seed_free E S" "length root_seed \<le> n"
    and "chain_payloads E None bs m \<subseteq> S" "chain_payloads E None bs' m \<subseteq> S"
    and "chain_parent E bs m = chain_parent E bs' m"
  shows "map fst bs = map fst bs'"
  using assms(4-6)
proof (induction bs arbitrary: bs' rule: rev_induct)
  case Nil
  then show ?case by (simp add: chain_parent_def split: if_splits)
next
  case (snoc c cs)
  obtain ts ek where c: "c = (ts, ek)" by (cases c)
  from snoc.prems(3) have "bs' \<noteq> []" by (auto simp: chain_parent_def)
  then obtain cs' ts' ek' where bs': "bs' = cs' @ [(ts', ek')]" by (cases bs' rule: rev_cases) auto
  let ?x = "hash_payload E (chain_parent E cs m) ts ek m"
  let ?x' = "hash_payload E (chain_parent E cs' m) ts' ek' m"
  have "sha256 E ?x = sha256 E ?x'" "?x \<in> S" "?x' \<in> S"
    using snoc.prems by (auto simp: c bs' chain_parent_def chain_from_snoc chain_payloads_snoc compute_block_hash_def)
  with S(1) have eq: "?x = ?x'" by (auto simp: no_collision_def dest: inj_onD)
  have sub: "chain_payloads E None cs m \<subseteq> S" "chain_payloads E None cs' m \<subseteq> S"
    using snoc.prems by (auto simp: c bs' chain_payloads_snoc)
  have dig: "\<exists>x \<in> S. chain_parent E ds m = Some (sha256 E x)" if "ds \<noteq> []" "chain_payloads E None ds m \<subseteq> S" for ds
    using chain_digest [OF no_collision_subset [OF S(1) that(2)] that(1)] that(2) by blast
  have iff: "chain_parent E cs m = None \<longleftrightarrow> chain_parent E cs' m = None"
    using root_vs_chained [OF S] dig sub eq by (metis chain_parent_def)
  have "chain_parent E cs m = chain_parent E cs' m \<and> ts = ts'"
  proof (rule payload_inject [OF eq iff])
    fix d d' assume "chain_parent E cs m = Some d" "chain_parent E cs' m = Some d'"
    then have "\<exists>x \<in> S. d = sha256 E x" "\<exists>x \<in> S. d' = sha256 E x"
      using dig sub by (metis chain_parent_def option.inject option.distinct(1))+
    with S(1) show "length d = length d' \<and> d \<noteq> []" by (auto simp: no_collision_def)
  qed
  with snoc.IH [OF sub] show ?case by (simp add: c bs')
qed

end
