(* ===== verification/PagedState.thy ===== *)
theory PagedState
  imports FreeQueue HashMap BlockHash
begin

text \<open>
  The state of \<open>PagedCacheManager\<close> (\<^verbatim>\<open>fusion_mlx/cache/paged_cache.py\<close>): block metadata, block
  tables, statistics, the manager record, construction, the queue of content-invalidation
  notices and the growth of the block pool.

  A \<open>CacheBlock\<close> object is named by its \<open>block_id\<close>; its fields other than the two queue
  pointers (kept by \<open>free_queue\<close>) are a \<open>cache_block\<close>, and \<open>meta\<close> is the store of them. A
  \<open>BlockTable\<close> object is shared between the manager and its callers, so tables live in a store
  of their own, \<open>tables\<close>, and are named by references. \<open>allocated_blocks\<close> maps an id to the
  block of that id, so it is the list of its keys in insertion order. Calls to external code
  are recorded: \<open>callback_log\<close> holds every (callback, block) call made, \<open>oob_log\<close> every
  out-of-blocks metric. Every reading of \<open>time.time()\<close> takes the next value of an arbitrary
  sequence \<open>clock\<close>. The methods run under the manager's locks, one at a time.
\<close>

section \<open>Data\<close>

record cache_block =
  ref_count :: int
  block_hash :: "string option"
  parent_hash :: "string option"
  is_null :: bool
  token_count :: int
  last_access :: int

definition fresh_block :: "int \<Rightarrow> cache_block" where
  "fresh_block now = \<lparr>ref_count = 0, block_hash = None, parent_hash = None, is_null = False,
     token_count = 0, last_access = now\<rparr>"

definition is_full :: "cache_block \<Rightarrow> int \<Rightarrow> bool" where
  "is_full b bsize = (token_count b \<ge> bsize)"

definition is_shared :: "cache_block \<Rightarrow> bool" where
  "is_shared b = (ref_count b > 1)"

definition reset_hash :: "cache_block \<Rightarrow> cache_block" where
  "reset_hash b = b\<lparr>block_hash := None, parent_hash := None\<rparr>"

record block_table =
  table_request :: string
  block_ids :: "int list"
  num_tokens :: int

definition table_add_block :: "int \<Rightarrow> int \<Rightarrow> block_table \<Rightarrow> block_table" where
  "table_add_block b n t = t\<lparr>block_ids := block_ids t @ [b], num_tokens := num_tokens t + n\<rparr>"

definition table_copy :: "string \<Rightarrow> block_table \<Rightarrow> block_table" where
  "table_copy rid t = \<lparr>table_request = rid, block_ids = block_ids t, num_tokens = num_tokens t\<rparr>"

record paged_stats =
  st_hits :: int
  st_misses :: int
  st_evictions :: int
  st_total_blocks :: int
  st_allocated_blocks :: int
  st_free_blocks :: int
  st_shared_blocks :: int
  st_total_tokens_cached :: int
  st_cow_copies :: int
  st_touch_ghost_skips :: int

definition new_stats :: "int \<Rightarrow> paged_stats" where
  "new_stats n = \<lparr>st_hits = 0, st_misses = 0, st_evictions = 0, st_total_blocks = n,
     st_allocated_blocks = 1, st_free_blocks = n - 1, st_shared_blocks = 0,
     st_total_tokens_cached = 0, st_cow_copies = 0, st_touch_ghost_skips = 0\<rparr>"

record paged_cache =
  block_size :: int
  max_blocks :: int
  enable_caching :: bool
  model_name :: string
  initial_blocks :: int
  current_allocated_count :: int
  blocks :: "int list"
  meta :: "int \<Rightarrow> cache_block"
  free_block_queue :: free_queue
  cached_blocks :: hash_map
  request_tables :: "(string, nat) pydict"
  tables :: "nat \<Rightarrow> block_table"
  next_table :: nat
  allocated_blocks :: "int list"
  null_block :: int
  stats :: paged_stats
  ssd_has_block :: "(string \<Rightarrow> bool) option"
  block_freed_callbacks :: "nat list"
  pending_invalidated :: "int list"
  callback_log :: "(nat \<times> int) list"
  oob_log :: "string list"
  clock :: "nat \<Rightarrow> int"
  clock_reads :: nat

section \<open>Elementary state changes\<close>

definition read_clock :: "paged_cache \<Rightarrow> int \<times> paged_cache" where
  "read_clock s = (clock s (clock_reads s), s\<lparr>clock_reads := Suc (clock_reads s)\<rparr>)"

definition upd_block :: "int \<Rightarrow> (cache_block \<Rightarrow> cache_block) \<Rightarrow> paged_cache \<Rightarrow> paged_cache" where
  "upd_block b f s = s\<lparr>meta := (meta s)(b := f (meta s b))\<rparr>"

text \<open>\<open>CacheBlock.touch\<close>.\<close>

definition touch_block :: "int \<Rightarrow> paged_cache \<Rightarrow> paged_cache" where
  "touch_block b s = (let (now, s1) = read_clock s in upd_block b (\<lambda>m. m\<lparr>last_access := now\<rparr>) s1)"

definition upd_stats :: "(paged_stats \<Rightarrow> paged_stats) \<Rightarrow> paged_cache \<Rightarrow> paged_cache" where
  "upd_stats f s = s\<lparr>stats := f (stats s)\<rparr>"

definition alloc_add :: "int \<Rightarrow> paged_cache \<Rightarrow> paged_cache" where
  "alloc_add b s =
     (if b \<in> set (allocated_blocks s) then s else s\<lparr>allocated_blocks := allocated_blocks s @ [b]\<rparr>)"

definition alloc_del :: "int \<Rightarrow> paged_cache \<Rightarrow> paged_cache" where
  "alloc_del b s = s\<lparr>allocated_blocks := remove1 b (allocated_blocks s)\<rparr>"

text \<open>A queue operation on the manager: the queue changes also when the operation raises.\<close>

definition on_queue :: "(free_queue \<Rightarrow> (free_queue, 'a) outcome) \<Rightarrow> paged_cache \<Rightarrow> (paged_cache, 'a) outcome" where
  "on_queue f s = (case f (free_block_queue s) of (r, q) \<Rightarrow> (r, s\<lparr>free_block_queue := q\<rparr>))"

fun create_blocks :: "int list \<Rightarrow> paged_cache \<Rightarrow> paged_cache" where
  "create_blocks [] s = s"
| "create_blocks (i # is) s =
     (let (now, s1) = read_clock s in create_blocks is (upd_block i (\<lambda>_. fresh_block now) s1))"

section \<open>Construction\<close>

text \<open>
  \<open>__init__\<close>: with no initial block the reservation of the null block raises. The signature
  of the weight directory, read from disk, is the parameter \<open>signature\<close>; the new object is
  built over a clock.
\<close>

definition blank_cache ::
  "(string \<Rightarrow> string) \<Rightarrow> int \<Rightarrow> int \<Rightarrow> bool \<Rightarrow> string \<Rightarrow> int \<Rightarrow> (nat \<Rightarrow> int) \<Rightarrow> paged_cache" where
  "blank_cache signature bsize maxb caching mname initb clk =
     \<lparr>block_size = bsize, max_blocks = maxb, enable_caching = caching,
      model_name = (if mname \<noteq> [] then signature mname else mname),
      initial_blocks = initb, current_allocated_count = min initb maxb, blocks = [],
      meta = (\<lambda>_. fresh_block 0), free_block_queue = queue_init [], cached_blocks = [],
      request_tables = [], tables = (\<lambda>_. \<lparr>table_request = [], block_ids = [], num_tokens = 0\<rparr>),
      next_table = 0, allocated_blocks = [], null_block = 0, stats = new_stats (min initb maxb),
      ssd_has_block = None, block_freed_callbacks = [], pending_invalidated = [],
      callback_log = [], oob_log = [], clock = clk, clock_reads = 0\<rparr>"

text \<open>The part of the constructor that \<open>clear\<close> repeats: blocks, queue and null block.\<close>

definition build_pool :: "paged_cache \<Rightarrow> (paged_cache, unit) outcome" where
  "build_pool s =
     (let ids = pyrange 0 (current_allocated_count s);
          s1 = create_blocks ids s;
          s2 = s1\<lparr>blocks := ids, free_block_queue := queue_init ids, allocated_blocks := []\<rparr>
      in and_then (on_queue popleft s2) (\<lambda>b s3.
           let s4 = upd_block b (\<lambda>m. m\<lparr>is_null := True, ref_count := 1\<rparr>) s3
           in returns () (alloc_add b (s4\<lparr>null_block := b\<rparr>))))"

definition paged_init ::
  "(string \<Rightarrow> string) \<Rightarrow> int \<Rightarrow> int \<Rightarrow> bool \<Rightarrow> string \<Rightarrow> int \<Rightarrow> (nat \<Rightarrow> int) \<Rightarrow> (paged_cache, unit) outcome" where
  "paged_init signature bsize maxb caching mname initb clk =
     build_pool (blank_cache signature bsize maxb caching mname initb clk)"

definition set_paged_ssd_cache_manager :: "(string \<Rightarrow> bool) option \<Rightarrow> paged_cache \<Rightarrow> paged_cache" where
  "set_paged_ssd_cache_manager m s = s\<lparr>ssd_has_block := m\<rparr>"

section \<open>Content-invalidation notices\<close>

definition register_block_freed_callback :: "nat \<Rightarrow> paged_cache \<Rightarrow> paged_cache" where
  "register_block_freed_callback cb s = s\<lparr>block_freed_callbacks := block_freed_callbacks s @ [cb]\<rparr>"

definition notify_block_content_invalidated :: "int \<Rightarrow> paged_cache \<Rightarrow> paged_cache" where
  "notify_block_content_invalidated b s = s\<lparr>pending_invalidated := pending_invalidated s @ [b]\<rparr>"

definition flush_content_invalidated :: "paged_cache \<Rightarrow> paged_cache" where
  "flush_content_invalidated s =
     (if block_freed_callbacks s = [] \<or> pending_invalidated s = [] then s
      else s\<lparr>pending_invalidated := [],
             callback_log := callback_log s @
               concat (map (\<lambda>b. map (\<lambda>cb. (cb, b)) (block_freed_callbacks s)) (pending_invalidated s))\<rparr>)"

section \<open>Growing the pool\<close>

definition grow_blocks :: "int \<Rightarrow> paged_cache \<Rightarrow> (paged_cache, int) outcome" where
  "grow_blocks additional s =
     (let available = max_blocks s - current_allocated_count s;
          to_create = min additional available
      in if to_create \<le> 0 then returns 0 s
         else
           let ids = pyrange (current_allocated_count s) (current_allocated_count s + to_create);
               s1 = create_blocks ids s;
               s2 = s1\<lparr>blocks := blocks s1 @ ids\<rparr>
           in and_then (on_queue (append_n ids) s2) (\<lambda>_ s3.
                let s4 = s3\<lparr>current_allocated_count := current_allocated_count s3 + to_create\<rparr>
                in returns to_create (upd_stats (\<lambda>st. st\<lparr>st_total_blocks := current_allocated_count s4,
                     st_free_blocks := num_free_blocks (free_block_queue s4)\<rparr>) s4)))"

end
