(* ===== verification/PagedAlloc.thy ===== *)
theory PagedAlloc
  imports PagedState
begin

text \<open>
  Allocation, freeing and reference counting of \<open>PagedCacheManager\<close>
  (\<^verbatim>\<open>fusion_mlx/cache/paged_cache.py\<close>), with the cascade that clears orphaned descendants.
\<close>

section \<open>Clearing orphaned descendants\<close>

text \<open>
  Every (hash, id) pair of the map whose block names \<open>ph\<close> as its chain parent and is not
  referenced, in the order of the dictionaries.
\<close>

definition orphans_of :: "string \<Rightarrow> paged_cache \<Rightarrow> (string \<times> int) list" where
  "orphans_of ph s =
     concat (map (\<lambda>(h, e).
       map (\<lambda>b. (h, b))
         (filter (\<lambda>b. parent_hash (meta s b) = Some ph \<and> ref_count (meta s b) \<le> 0) (entry_ids e)))
       (cached_blocks s))"

fun clear_orphans :: "(string \<times> int) list \<Rightarrow> string list \<Rightarrow> int \<Rightarrow> paged_cache \<Rightarrow> string list \<times> int \<times> paged_cache" where
  "clear_orphans [] work evicted s = (work, evicted, s)"
| "clear_orphans ((h, b) # os) work evicted s =
     (if ref_count (meta s b) > 0 then clear_orphans os work evicted s
      else
        let child_hash = block_hash (meta s b);
            s1 = s\<lparr>cached_blocks := snd (hash_pop h (Some b) (cached_blocks s))\<rparr>;
            s2 = notify_block_content_invalidated b (upd_block b reset_hash s1);
            work' = (case child_hash of None \<Rightarrow> work | Some c \<Rightarrow> work @ [c])
        in clear_orphans os work' (evicted + 1) s2)"

text \<open>At most 256 parents are scanned (\<open>max_cascade\<close>).\<close>

fun cascade_loop :: "nat \<Rightarrow> string list \<Rightarrow> int \<Rightarrow> paged_cache \<Rightarrow> int \<times> paged_cache" where
  "cascade_loop 0 work evicted s = (evicted, s)"
| "cascade_loop (Suc n) work evicted s =
     (if work = [] then (evicted, s)
      else
        let ph = last work;
            (work', evicted', s') = clear_orphans (orphans_of ph s) (butlast work) evicted s
        in cascade_loop n work' evicted' s')"

definition max_cascade :: nat where
  "max_cascade = 256"

definition cascade_evict_orphans_locked :: "string \<Rightarrow> paged_cache \<Rightarrow> int \<times> paged_cache" where
  "cascade_evict_orphans_locked parent s = cascade_loop max_cascade [parent] 0 s"

section \<open>Allocation\<close>

definition maybe_evict_cached_block :: "int \<Rightarrow> paged_cache \<Rightarrow> bool \<times> paged_cache" where
  "maybe_evict_cached_block b s =
     (case block_hash (meta s b) of
        None \<Rightarrow> (False, s)
      | Some h \<Rightarrow>
          (let (evicted, d) = hash_pop h None (cached_blocks s);
               s1 = s\<lparr>cached_blocks := d\<rparr>
           in if evicted \<noteq> None
              then (True, upd_stats (\<lambda>st. st\<lparr>st_evictions := st_evictions st + 1\<rparr>)
                     (notify_block_content_invalidated b (upd_block b reset_hash s1)))
              else (False, s1)))"

text \<open>The part both allocation paths share: hash eviction, one reference, touch, registration.\<close>

definition take_block :: "int \<Rightarrow> paged_cache \<Rightarrow> paged_cache" where
  "take_block b s =
     (let s1 = (if enable_caching s then snd (maybe_evict_cached_block b s) else s);
          s2 = upd_block b (\<lambda>m. m\<lparr>ref_count := 1\<rparr>) s1
      in alloc_add b (touch_block b s2))"

definition count_allocated :: "int \<Rightarrow> paged_cache \<Rightarrow> paged_cache" where
  "count_allocated n = upd_stats (\<lambda>st. st\<lparr>st_allocated_blocks := st_allocated_blocks st + n,
     st_free_blocks := st_free_blocks st - n\<rparr>)"

definition record_oob :: "string \<Rightarrow> paged_cache \<Rightarrow> paged_cache" where
  "record_oob kind s = s\<lparr>oob_log := oob_log s @ [kind]\<rparr>"

definition allocate_block_internal :: "paged_cache \<Rightarrow> (paged_cache, int option) outcome" where
  "allocate_block_internal s =
     and_then
       (if num_free_blocks (free_block_queue s) = 0
        then and_then (grow_blocks (min 256 (max_blocks s - current_allocated_count s)) s)
               (\<lambda>grown s1. returns (grown \<noteq> 0) s1)
        else returns True s)
       (\<lambda>ok s1. if \<not> ok then returns None (record_oob ''paged'' s1)
          else and_then (on_queue popleft s1) (\<lambda>b s2.
            returns (Some b) (count_allocated 1 (take_block b s2))))"

definition allocate_block :: "paged_cache \<Rightarrow> (paged_cache, int option) outcome" where
  "allocate_block s =
     and_then (allocate_block_internal s) (\<lambda>b s1. returns b (flush_content_invalidated s1))"

text \<open>The method returns inside the locked region; the flush written after it is never reached.\<close>

definition get_new_blocks :: "int \<Rightarrow> paged_cache \<Rightarrow> (paged_cache, int list) outcome" where
  "get_new_blocks num s =
     and_then
       (if num > num_free_blocks (free_block_queue s)
        then and_then (grow_blocks (num - num_free_blocks (free_block_queue s) + 128) s)
               (\<lambda>_ s1. returns () s1)
        else returns () s)
       (\<lambda>_ s1.
         if num > num_free_blocks (free_block_queue s1) then raises ValueError s1
         else and_then (on_queue (popleft_n num) s1) (\<lambda>bs s2.
           returns bs (count_allocated num (fold take_block bs s2))))"

definition allocate_blocks_for_tokens :: "int \<Rightarrow> paged_cache \<Rightarrow> (paged_cache, int list) outcome" where
  "allocate_blocks_for_tokens n s =
     (if block_size s = 0 then raises ZeroDivisionError s
      else get_new_blocks ((n + block_size s - 1) div block_size s) s)"

section \<open>Freeing\<close>

definition free_block_locked :: "int \<Rightarrow> paged_cache \<Rightarrow> (paged_cache, bool) outcome" where
  "free_block_locked b s =
     (if is_null (meta s b) then returns False s
      else
        let s1 = upd_block b (\<lambda>m. m\<lparr>ref_count := ref_count m - 1\<rparr>) s
        in if ref_count (meta s1 b) > 0 then returns False s1
           else
             let s2 = (case block_hash (meta s1 b) of
                         None \<Rightarrow> s1
                       | Some h \<Rightarrow>
                           snd (cascade_evict_orphans_locked h
                             (notify_block_content_invalidated b
                               (s1\<lparr>cached_blocks := snd (hash_pop h (Some b) (cached_blocks s1))\<rparr>))))
             in if b \<notin> set (allocated_blocks s2) then raises KeyError s2
                else returns True
                  (upd_stats (\<lambda>st. st\<lparr>st_allocated_blocks := st_allocated_blocks st - 1,
                       st_free_blocks := st_free_blocks st + 1,
                       st_total_tokens_cached := st_total_tokens_cached st - token_count (meta s2 b)\<rparr>)
                    (alloc_del b s2)))"

definition free_block :: "int \<Rightarrow> paged_cache \<Rightarrow> (paged_cache, bool) outcome" where
  "free_block b s =
     (if b \<notin> set (allocated_blocks s) then returns False s
      else and_then (free_block_locked b s) (\<lambda>freed s1.
        and_then (if freed then on_queue (append_block b) s1 else returns () s1) (\<lambda>_ s2.
          returns freed (flush_content_invalidated s2))))"

fun free_each :: "int list \<Rightarrow> int list \<Rightarrow> paged_cache \<Rightarrow> (paged_cache, int list) outcome" where
  "free_each [] to_free s = returns to_free s"
| "free_each (b # bs) to_free s =
     and_then (free_block_locked b s) (\<lambda>freed s1.
       free_each bs (if freed then to_free @ [b] else to_free) s1)"

definition free_blocks_batch :: "int list \<Rightarrow> paged_cache \<Rightarrow> (paged_cache, unit) outcome" where
  "free_blocks_batch bs s =
     and_then (free_each bs [] s) (\<lambda>to_free s1.
       and_then (on_queue (append_n to_free) s1) (\<lambda>_ s2.
         returns () (flush_content_invalidated s2)))"

section \<open>Reference counting\<close>

text \<open>One iteration of \<open>touch\<close>: a \<open>RuntimeError\<close> of the queue is caught and the block skipped.\<close>

definition touch_one :: "int \<Rightarrow> paged_cache \<Rightarrow> paged_cache" where
  "touch_one b s =
     (let claim = (\<lambda>s. touch_block b (upd_block b (\<lambda>m. m\<lparr>ref_count := ref_count m + 1\<rparr>) s))
      in if ref_count (meta s b) = 0 \<and> \<not> is_null (meta s b)
         then case on_queue (remove_block b) s of
                (Inl _, s1) \<Rightarrow>
                  upd_stats (\<lambda>st. st\<lparr>st_touch_ghost_skips := st_touch_ghost_skips st + 1\<rparr>) s1
              | (Inr _, s1) \<Rightarrow>
                  claim (alloc_add b (upd_stats (\<lambda>st. st\<lparr>st_free_blocks := st_free_blocks st - 1,
                    st_allocated_blocks := st_allocated_blocks st + 1\<rparr>) s1))
         else claim s)"

definition touch :: "int list \<Rightarrow> paged_cache \<Rightarrow> paged_cache" where
  "touch bs s = fold touch_one bs s"

text \<open>The reference increment that several methods inline while holding the locks.\<close>

definition add_ref :: "int \<Rightarrow> paged_cache \<Rightarrow> paged_cache" where
  "add_ref b s =
     (let s1 = touch_block b (upd_block b (\<lambda>m. m\<lparr>ref_count := ref_count m + 1\<rparr>) s)
      in if ref_count (meta s1 b) = 2
         then upd_stats (\<lambda>st. st\<lparr>st_shared_blocks := st_shared_blocks st + 1\<rparr>) s1 else s1)"

definition increment_ref :: "int \<Rightarrow> paged_cache \<Rightarrow> bool \<times> paged_cache" where
  "increment_ref b s =
     (if b \<notin> set (allocated_blocks s) then (False, s) else (True, add_ref b s))"

definition decrement_ref :: "int \<Rightarrow> paged_cache \<Rightarrow> (paged_cache, bool) outcome" where
  "decrement_ref b s = free_block b s"

fun release_each :: "int list \<Rightarrow> int \<Rightarrow> paged_cache \<Rightarrow> int \<times> paged_cache" where
  "release_each [] released s = (released, s)"
| "release_each (b # bs) released s =
     (if b \<notin> set (allocated_blocks s) \<or> is_null (meta s b) then release_each bs released s
      else if ref_count (meta s b) > 0
      then
        let s1 = upd_block b (\<lambda>m. m\<lparr>ref_count := ref_count m - 1\<rparr>) s;
            s2 = (if ref_count (meta s1 b) = 1
                  then upd_stats (\<lambda>st. st\<lparr>st_shared_blocks := max 0 (st_shared_blocks st - 1)\<rparr>) s1
                  else s1)
        in release_each bs (released + 1) s2
      else release_each bs released s)"

definition release_for_eviction :: "int list \<Rightarrow> paged_cache \<Rightarrow> int \<times> paged_cache" where
  "release_for_eviction bs s = release_each bs 0 s"

end
