(* ===== verification/PagedEvict.thy ===== *)
theory PagedEvict
  imports PagedAlloc
begin

text \<open>
  Eviction in \<open>PagedCacheManager\<close> (\<^verbatim>\<open>fusion_mlx/cache/paged_cache.py\<close>): least-recently-used
  eviction along the free queue, reclaiming of unreferenced cached blocks, memory pressure, and
  the block-level operations that the tiered cache calls. A walk along a damaged queue need not
  end, so the operations that walk it are partial functions; \<open>None\<close> stands for not returning.
\<close>

section \<open>Eviction along the free queue\<close>

text \<open>The body of one evicting iteration, without the cascade.\<close>

definition evict_node :: "int \<Rightarrow> paged_cache \<Rightarrow> paged_cache" where
  "evict_node c s =
     (let s1 = (case block_hash (meta s c) of
                  None \<Rightarrow> s
                | Some h \<Rightarrow> s\<lparr>cached_blocks := snd (hash_pop h None (cached_blocks s))\<rparr>);
          s2 = upd_stats (\<lambda>st. st\<lparr>st_total_tokens_cached :=
                 st_total_tokens_cached st - token_count (meta s1 c)\<rparr>) s1;
          s3 = notify_block_content_invalidated c (upd_block c reset_hash s2);
          s4 = upd_block c (\<lambda>m. m\<lparr>token_count := 0\<rparr>) s3;
          s5 = (if c \<in> set (allocated_blocks s4)
                then upd_stats (\<lambda>st. st\<lparr>st_allocated_blocks := st_allocated_blocks st - 1\<rparr>) (alloc_del c s4)
                else s4)
      in upd_stats (\<lambda>st. st\<lparr>st_evictions := st_evictions st + 1\<rparr>) s5)"

text \<open>One iteration: nothing for a referenced or null block.\<close>

definition evict_step :: "int \<Rightarrow> int \<Rightarrow> paged_cache \<Rightarrow> int \<times> paged_cache" where
  "evict_step c evicted s =
     (if ref_count (meta s c) > 0 \<or> is_null (meta s c) then (evicted, s)
      else
        let ph = block_hash (meta s c);
            s1 = evict_node c s
        in (evicted + 1,
            case ph of None \<Rightarrow> s1 | Some h \<Rightarrow> snd (cascade_evict_orphans_locked h s1)))"

partial_function (option) evict_lru_walk ::
  "int \<Rightarrow> int option \<Rightarrow> int \<Rightarrow> paged_cache \<Rightarrow> (int \<times> paged_cache) option" where
  "evict_lru_walk num cur evicted s =
     (case cur of
        None \<Rightarrow> Some (evicted, s)
      | Some c \<Rightarrow>
          if c = fake_tail \<or> evicted \<ge> num then Some (evicted, s)
          else (case evict_step c evicted s of (evicted', s') \<Rightarrow>
                  evict_lru_walk num (next_free (free_block_queue s') c) evicted' s'))"

declare evict_lru_walk.simps [code]

definition evict_lru_blocks_locked :: "int \<Rightarrow> paged_cache \<Rightarrow> (int \<times> paged_cache) option" where
  "evict_lru_blocks_locked num s =
     evict_lru_walk num (next_free (free_block_queue s) fake_head) 0 s"

definition evict_lru_blocks :: "int \<Rightarrow> paged_cache \<Rightarrow> (int \<times> paged_cache) option" where
  "evict_lru_blocks num s =
     map_option (\<lambda>(evicted, s1). (evicted, flush_content_invalidated s1)) (evict_lru_blocks_locked num s)"

section \<open>Reclaiming unreferenced cached blocks\<close>

definition evict_candidates :: "paged_cache \<Rightarrow> int list" where
  "evict_candidates s =
     sort_key (\<lambda>b. last_access (meta s b))
       (filter (\<lambda>b. ref_count (meta s b) \<le> 0 \<and> \<not> is_null (meta s b) \<and> block_hash (meta s b) \<noteq> None)
         (allocated_blocks s))"

definition pop_own_hash :: "int \<Rightarrow> paged_cache \<Rightarrow> paged_cache" where
  "pop_own_hash b s =
     (case block_hash (meta s b) of
        None \<Rightarrow> s
      | Some h \<Rightarrow> s\<lparr>cached_blocks := snd (hash_pop h (Some b) (cached_blocks s))\<rparr>)"

definition reclaim_node :: "int \<Rightarrow> paged_cache \<Rightarrow> (paged_cache, unit) outcome" where
  "reclaim_node b s =
     (let s1 = pop_own_hash b s;
          s2 = upd_stats (\<lambda>st. st\<lparr>st_total_tokens_cached :=
                 st_total_tokens_cached st - token_count (meta s1 b)\<rparr>) s1;
          s3 = notify_block_content_invalidated b (upd_block b reset_hash s2);
          s4 = upd_block b (\<lambda>m. m\<lparr>token_count := 0\<rparr>) s3;
          s5 = (if b \<in> set (allocated_blocks s4)
                then upd_stats (\<lambda>st. st\<lparr>st_allocated_blocks := st_allocated_blocks st - 1\<rparr>) (alloc_del b s4)
                else s4);
          s6 = upd_stats (\<lambda>st. st\<lparr>st_free_blocks := st_free_blocks st + 1\<rparr>) s5
      in and_then (on_queue (append_block b) s6) (\<lambda>_ s7.
           returns () (upd_stats (\<lambda>st. st\<lparr>st_evictions := st_evictions st + 1\<rparr>) s7)))"

text \<open>
  The count includes the hash entries the cascade purges, which frees no block: the loop may
  stop before \<open>num\<close> blocks have been put on the free queue.
\<close>

fun reclaim_loop :: "int \<Rightarrow> int list \<Rightarrow> int \<Rightarrow> paged_cache \<Rightarrow> (paged_cache, int) outcome" where
  "reclaim_loop num [] evicted s = returns evicted s"
| "reclaim_loop num (b # bs) evicted s =
     (if evicted \<ge> num then returns evicted s
      else
        let freed_parent = block_hash (meta s b)
        in and_then (reclaim_node b s) (\<lambda>_ s1.
             case freed_parent of
               None \<Rightarrow> reclaim_loop num bs (evicted + 1) s1
             | Some h \<Rightarrow>
                 (let (n, s2) = cascade_evict_orphans_locked h s1
                  in reclaim_loop num bs (evicted + 1 + n) s2)))"

definition evict_cached_blocks_locked :: "int \<Rightarrow> paged_cache \<Rightarrow> (paged_cache, int) outcome" where
  "evict_cached_blocks_locked num s =
     (if num \<le> 0 then returns 0 s else reclaim_loop num (evict_candidates s) 0 s)"

section \<open>Memory pressure\<close>

definition handle_memory_pressure :: "int \<Rightarrow> paged_cache \<Rightarrow> (paged_cache, bool) outcome option" where
  "handle_memory_pressure requested s =
     (if num_free_blocks (free_block_queue s) \<ge> requested
      then Some (returns True (flush_content_invalidated s))
      else
        case evict_lru_blocks_locked (requested - num_free_blocks (free_block_queue s)) s of
          None \<Rightarrow> None
        | Some (_, s1) \<Rightarrow>
            Some (and_then
              (if num_free_blocks (free_block_queue s1) < requested
               then evict_cached_blocks_locked (requested - num_free_blocks (free_block_queue s1)) s1
               else returns 0 s1)
              (\<lambda>_ s2. returns (num_free_blocks (free_block_queue s2) \<ge> requested)
                        (flush_content_invalidated s2))))"

section \<open>Single blocks\<close>

partial_function (option) collect_evictable ::
  "paged_cache \<Rightarrow> int \<Rightarrow> int option \<Rightarrow> int list \<Rightarrow> int list option" where
  "collect_evictable s num cur candidates =
     (case cur of
        None \<Rightarrow> Some candidates
      | Some c \<Rightarrow>
          if c = fake_tail \<or> \<not> int (length candidates) < num then Some candidates
          else collect_evictable s num (next_free (free_block_queue s) c)
                 (if \<not> is_null (meta s c) \<and> ref_count (meta s c) = 0 then candidates @ [c] else candidates))"

declare collect_evictable.simps [code]

definition get_evictable_blocks :: "int \<Rightarrow> paged_cache \<Rightarrow> int list option" where
  "get_evictable_blocks num s =
     (case collect_evictable s num (next_free (free_block_queue s) fake_head) [] of
        None \<Rightarrow> None
      | Some candidates \<Rightarrow>
          (let remaining = sort_key (\<lambda>b. last_access (meta s b))
                 (filter (\<lambda>b. \<not> is_null (meta s b) \<and> ref_count (meta s b) = 0 \<and> b \<notin> set candidates)
                   (allocated_blocks s));
               all = (if int (length candidates) < num
                      then candidates @ pyslice 0 (num - int (length candidates)) remaining
                      else candidates)
           in Some (pyslice 0 num all)))"

text \<open>\<open>self.blocks[block_id] if block_id < len(self.blocks) else None\<close>.\<close>

definition block_at :: "int \<Rightarrow> paged_cache \<Rightarrow> py_error + int option" where
  "block_at b s =
     (if b < int (length (blocks s))
      then (case pyindex (blocks s) b of Inl e \<Rightarrow> Inl e | Inr x \<Rightarrow> Inr (Some x))
      else Inr None)"

definition mark_block_cold :: "int \<Rightarrow> paged_cache \<Rightarrow> (paged_cache, bool) outcome" where
  "mark_block_cold b s =
     (case block_at b s of
        Inl e \<Rightarrow> raises e s
      | Inr None \<Rightarrow> returns False s
      | Inr (Some x) \<Rightarrow>
          if ref_count (meta s x) > 0 then returns False s
          else if is_null (meta s x) then returns False s
          else returns True (upd_stats (\<lambda>st. st\<lparr>st_evictions := st_evictions st + 1\<rparr>) s))"

text \<open>
  The end both permanent-eviction methods share: clear the metadata, leave the allocated map,
  and join the free queue unless already linked into it.
\<close>

definition retire_block :: "int \<Rightarrow> int \<Rightarrow> paged_cache \<Rightarrow> (paged_cache, bool) outcome" where
  "retire_block b x s =
     (let s1 = upd_block x (\<lambda>m. m\<lparr>token_count := 0\<rparr>) (upd_block x reset_hash s);
          s2 = (if b \<in> set (allocated_blocks s1)
                then upd_stats (\<lambda>st. st\<lparr>st_allocated_blocks := st_allocated_blocks st - 1\<rparr>) (alloc_del b s1)
                else s1)
      in and_then
           (if \<not> is_in_queue x (free_block_queue s2)
            then and_then (on_queue (append_block x) s2) (\<lambda>_ s3.
                   returns () (upd_stats (\<lambda>st. st\<lparr>st_free_blocks := st_free_blocks st + 1\<rparr>) s3))
            else returns () s2)
           (\<lambda>_ s4. returns True (upd_stats (\<lambda>st. st\<lparr>st_evictions := st_evictions st + 1\<rparr>) s4)))"

definition evict_block_permanently :: "int \<Rightarrow> paged_cache \<Rightarrow> (paged_cache, bool) outcome" where
  "evict_block_permanently b s =
     (case block_at b s of
        Inl e \<Rightarrow> raises e s
      | Inr None \<Rightarrow> returns False s
      | Inr (Some x) \<Rightarrow>
          if ref_count (meta s x) > 0 then returns False s
          else if is_null (meta s x) then returns False s
          else
            let s1 = (case block_hash (meta s x) of
                        None \<Rightarrow> s
                      | Some _ \<Rightarrow> notify_block_content_invalidated b (pop_own_hash x s))
            in retire_block b x s1)"

definition evict_block_permanently_inline :: "int \<Rightarrow> paged_cache \<Rightarrow> (paged_cache, bool) outcome" where
  "evict_block_permanently_inline b s =
     (if b \<ge> int (length (blocks s)) then returns False s
      else case pyindex (blocks s) b of
        Inl e \<Rightarrow> raises e s
      | Inr x \<Rightarrow>
          if ref_count (meta s x) > 0 then returns False s
          else if is_null (meta s x) then returns False s
          else retire_block b x (pop_own_hash x s))"

definition restore_block :: "int \<Rightarrow> paged_cache \<Rightarrow> (paged_cache, bool) outcome" where
  "restore_block b s =
     (case block_at b s of
        Inl e \<Rightarrow> raises e s
      | Inr None \<Rightarrow> returns False s
      | Inr (Some x) \<Rightarrow> returns True (touch_block x s))"

definition get_cold_blocks :: "paged_cache \<Rightarrow> int list" where
  "get_cold_blocks s = filter (\<lambda>b. block_hash (meta s b) \<noteq> None \<and> \<not> is_null (meta s b)) (blocks s)"

definition cold_block_count :: "paged_cache \<Rightarrow> int" where
  "cold_block_count s =
     sum_list (map (\<lambda>b. 1) (filter (\<lambda>b. block_hash (meta s b) \<noteq> None \<and> \<not> is_null (meta s b)) (blocks s)))"

fun count_refs :: "paged_cache \<Rightarrow> int list \<Rightarrow> (int, int) pydict \<Rightarrow> (int, int) pydict" where
  "count_refs s [] d = d"
| "count_refs s (b # bs) d =
     (let rc = ref_count (meta s b)
      in count_refs s bs (dict_set rc ((case map_of d rc of None \<Rightarrow> 0 | Some n \<Rightarrow> n) + 1) d))"

definition get_ref_count_distribution :: "paged_cache \<Rightarrow> (int, int) pydict" where
  "get_ref_count_distribution s = count_refs s (allocated_blocks s) []"

fun join_comma :: "string list \<Rightarrow> string" where
  "join_comma [] = []"
| "join_comma [x] = x"
| "join_comma (x # y # zs) = x @ '','' @ join_comma (y # zs)"

definition get_ref_count_summary :: "paged_cache \<Rightarrow> string" where
  "get_ref_count_summary s =
     (let dist = get_ref_count_distribution s;
          ssd = int (length (filter (\<lambda>b. ref_count (meta s b) = 0 \<and> block_hash (meta s b) \<noteq> None)
                  (allocated_blocks s)));
          part = (\<lambda>(k, v). if k = 0 then ''rc0='' @ int_str v @ ''(ssd='' @ int_str ssd @ '')''
                           else ''rc'' @ int_str k @ ''='' @ int_str v)
      in if dist = [] then ''rc=none'' else join_comma (map part (sort_key fst dist)))"

end
