(* ===== verification/PagedPrefix.thy ===== *)
theory PagedPrefix
  imports PagedEvict
begin

text \<open>
  Prefix caching and block tables of \<open>PagedCacheManager\<close>
  (\<^verbatim>\<open>fusion_mlx/cache/paged_cache.py\<close>): registering full blocks under their chain hash, the
  longest-prefix lookup with lazy restore from the SSD index, per-request block tables, prefix
  sharing and copy-on-write.
\<close>

section \<open>Lookups by hash\<close>

definition hit :: "paged_cache \<Rightarrow> paged_cache" where
  "hit = upd_stats (\<lambda>st. st\<lparr>st_hits := st_hits st + 1\<rparr>)"

definition miss :: "paged_cache \<Rightarrow> paged_cache" where
  "miss = upd_stats (\<lambda>st. st\<lparr>st_misses := st_misses st + 1\<rparr>)"

definition get_cached_block :: "string \<Rightarrow> paged_cache \<Rightarrow> int option \<times> paged_cache" where
  "get_cached_block h s =
     (if \<not> enable_caching s then (None, s)
      else case get_block h (cached_blocks s) of
        Some b \<Rightarrow> (Some b, hit s)
      | None \<Rightarrow> (None, miss s))"

definition find_cached_block ::
  "'k hash_env \<Rightarrow> int list \<Rightarrow> string option \<Rightarrow> 'k list option \<Rightarrow> paged_cache \<Rightarrow> int option \<times> paged_cache" where
  "find_cached_block E tokens parent extra_keys s =
     (if \<not> enable_caching s then (None, s)
      else
        let h = compute_block_hash E parent tokens extra_keys (Some (model_name s))
        in case get_block h (cached_blocks s) of
             Some b \<Rightarrow> (Some b, hit (touch_block b s))
           | None \<Rightarrow> (None, miss s))"

definition register_block_hash ::
  "'k hash_env \<Rightarrow> int \<Rightarrow> int list \<Rightarrow> string option \<Rightarrow> 'k list option \<Rightarrow> paged_cache \<Rightarrow> paged_cache" where
  "register_block_hash E b tokens parent extra_keys s =
     (if \<not> enable_caching s then s
      else
        let h = compute_block_hash E parent tokens extra_keys (Some (model_name s));
            s1 = upd_block b (\<lambda>m. m\<lparr>block_hash := Some h\<rparr>) s
        in s1\<lparr>cached_blocks := hash_insert h b (cached_blocks s1)\<rparr>)"

section \<open>Registering full blocks\<close>

definition block_tokens :: "int \<Rightarrow> nat \<Rightarrow> int list \<Rightarrow> int list" where
  "block_tokens bsize i token_ids = pyslice (int i * bsize) (int i * bsize + bsize) token_ids"

fun cache_loop ::
  "'k hash_env \<Rightarrow> int list \<Rightarrow> int list \<Rightarrow> 'k list option \<Rightarrow> nat list \<Rightarrow> string option \<Rightarrow> paged_cache \<Rightarrow>
     (paged_cache, unit) outcome" where
  "cache_loop E bs token_ids extra_keys [] parent s = returns () s"
| "cache_loop E bs token_ids extra_keys (i # is) parent s =
     (if \<not> i < length bs then raises IndexError s
      else
        let b = bs ! i
        in case block_hash (meta s b) of
             Some h \<Rightarrow> cache_loop E bs token_ids extra_keys is (Some h) s
           | None \<Rightarrow>
               (let toks = block_tokens (block_size s) i token_ids;
                    h = compute_block_hash E parent toks extra_keys (Some (model_name s));
                    s1 = upd_block b (\<lambda>m. m\<lparr>block_hash := Some h, parent_hash := parent,
                           token_count := int (length toks)\<rparr>) s;
                    s2 = s1\<lparr>cached_blocks := hash_insert h b (cached_blocks s1)\<rparr>
                in cache_loop E bs token_ids extra_keys is (Some h) s2))"

definition cache_full_blocks ::
  "'k hash_env \<Rightarrow> int list \<Rightarrow> int list \<Rightarrow> nat \<Rightarrow> nat \<Rightarrow> 'k list option \<Rightarrow> paged_cache \<Rightarrow>
     (paged_cache, unit) outcome" where
  "cache_full_blocks E bs token_ids num_cached num_full extra_keys s =
     (if \<not> enable_caching s then returns () s
      else if num_cached \<ge> num_full then returns () s
      else if num_cached > 0 \<and> \<not> num_cached - 1 < length bs then raises IndexError s
      else
        let parent = (if num_cached > 0 then block_hash (meta s (bs ! (num_cached - 1))) else None)
        in cache_loop E bs token_ids extra_keys [num_cached..<num_full] parent s)"

section \<open>Longest cached prefix\<close>

text \<open>
  The three arguments that select a block's extra keys travel together. A block missing from
  memory but present in the SSD index is restored through the ordinary allocation path when
  the caller claims the blocks.
\<close>

record 'k key_args =
  ka_keys :: "'k list option"
  ka_token_start :: "int option"
  ka_ranges :: "(int \<times> 'k list) list"

definition lazy_restore :: "bool \<Rightarrow> string \<Rightarrow> string option \<Rightarrow> paged_cache \<Rightarrow> (paged_cache, int option) outcome" where
  "lazy_restore claim h parent s =
     (case ssd_has_block s of
        None \<Rightarrow> returns None s
      | Some has_block \<Rightarrow>
          if claim \<and> has_block h
          then and_then (allocate_block_internal s) (\<lambda>r s1.
                 case r of
                   None \<Rightarrow> returns None s1
                 | Some b \<Rightarrow>
                     (let s2 = upd_block b (\<lambda>m. m\<lparr>block_hash := Some h, parent_hash := parent,
                                 token_count := block_size s1\<rparr>) s1
                      in returns (Some b) (s2\<lparr>cached_blocks := hash_insert h b (cached_blocks s2)\<rparr>)))
          else returns None s)"

fun computed_loop ::
  "'k hash_env \<Rightarrow> int list \<Rightarrow> 'k key_args \<Rightarrow> bool \<Rightarrow> nat list \<Rightarrow> string option \<Rightarrow> int list \<Rightarrow> int \<Rightarrow>
     int set \<Rightarrow> paged_cache \<Rightarrow> (paged_cache, int list \<times> int) outcome" where
  "computed_loop E token_ids ka claim [] parent found ntok restored s = returns (found, ntok) s"
| "computed_loop E token_ids ka claim (i # is) parent found ntok restored s =
     (let toks = block_tokens (block_size s) i token_ids
      in case resolve_block_extra_keys (int i * block_size s + block_size s)
                (ka_keys ka) (ka_token_start ka) (ka_ranges ka) of
           Inl e \<Rightarrow> raises e s
         | Inr keys \<Rightarrow>
             let h = compute_block_hash E parent toks keys (Some (model_name s))
             in and_then
                  (case get_block h (cached_blocks s) of
                     Some b \<Rightarrow> returns (Some (b, b \<in> restored)) s
                   | None \<Rightarrow> and_then (lazy_restore claim h parent s) (\<lambda>r s1.
                       returns (map_option (\<lambda>b. (b, True)) r) s1))
                  (\<lambda>r s1. case r of
                     None \<Rightarrow> returns (found, ntok) (miss s1)
                   | Some (b, held) \<Rightarrow>
                       (let s2 = (if claim \<and> \<not> held then add_ref b s1 else s1)
                        in computed_loop E token_ids ka claim is (Some h) (found @ [b])
                             (ntok + block_size s2) (if held then insert b restored else restored)
                             (hit s2))))"

definition get_computed_blocks ::
  "'k hash_env \<Rightarrow> int list \<Rightarrow> 'k key_args \<Rightarrow> bool \<Rightarrow> paged_cache \<Rightarrow>
     (paged_cache, int list \<times> int) outcome" where
  "get_computed_blocks E token_ids ka claim s =
     (if \<not> enable_caching s \<or> block_size s \<le> 0 then returns ([], 0) s
      else and_then
        (computed_loop E token_ids ka claim [0..<nat (int (length token_ids) div block_size s)]
           None [] 0 {} s)
        (\<lambda>r s1. returns r (flush_content_invalidated s1)))"

definition find_shared_prefix ::
  "'k hash_env \<Rightarrow> int list \<Rightarrow> 'k key_args \<Rightarrow> paged_cache \<Rightarrow> (paged_cache, int list \<times> int list) outcome" where
  "find_shared_prefix E tokens ka s =
     and_then (get_computed_blocks E tokens ka False s) (\<lambda>(bs, n) s1.
       returns (bs, pyslice n (int (length tokens)) tokens) s1)"

section \<open>Block tables\<close>

definition new_table :: "string \<Rightarrow> block_table \<Rightarrow> paged_cache \<Rightarrow> nat \<times> paged_cache" where
  "new_table rid t s =
     (let r = next_table s
      in (r, s\<lparr>tables := (tables s)(r := t), next_table := Suc r,
               request_tables := dict_set rid r (request_tables s)\<rparr>))"

definition create_block_table :: "string \<Rightarrow> paged_cache \<Rightarrow> nat \<times> paged_cache" where
  "create_block_table rid s = new_table rid \<lparr>table_request = rid, block_ids = [], num_tokens = 0\<rparr> s"

definition get_block_table :: "string \<Rightarrow> paged_cache \<Rightarrow> nat option" where
  "get_block_table rid s = map_of (request_tables s) rid"

definition get_or_create_block_table :: "string \<Rightarrow> paged_cache \<Rightarrow> nat \<times> paged_cache" where
  "get_or_create_block_table rid s =
     (case map_of (request_tables s) rid of
        Some r \<Rightarrow> (r, s)
      | None \<Rightarrow> create_block_table rid s)"

fun free_all :: "int list \<Rightarrow> paged_cache \<Rightarrow> (paged_cache, unit) outcome" where
  "free_all [] s = returns () s"
| "free_all (b # bs) s = and_then (free_block b s) (\<lambda>_ s1. free_all bs s1)"

text \<open>
  A table with no blocks is falsy in Python (it defines \<open>__len__\<close>); its loop would be empty
  anyway.
\<close>

definition delete_block_table :: "string \<Rightarrow> paged_cache \<Rightarrow> (paged_cache, unit) outcome" where
  "delete_block_table rid s =
     (let s1 = s\<lparr>request_tables := dict_del rid (request_tables s)\<rparr>
      in case map_of (request_tables s) rid of
           None \<Rightarrow> returns () s1
         | Some r \<Rightarrow> free_all (block_ids (tables s1 r)) s1)"

definition detach_request_table :: "string \<Rightarrow> paged_cache \<Rightarrow> nat option \<times> paged_cache" where
  "detach_request_table rid s =
     (map_of (request_tables s) rid, s\<lparr>request_tables := dict_del rid (request_tables s)\<rparr>)"

definition add_block_to_table :: "nat \<Rightarrow> int \<Rightarrow> int \<Rightarrow> paged_cache \<Rightarrow> paged_cache" where
  "add_block_to_table r b n s =
     upd_stats (\<lambda>st. st\<lparr>st_total_tokens_cached := st_total_tokens_cached st + n\<rparr>)
       (upd_block b (\<lambda>m. m\<lparr>token_count := n\<rparr>)
         (s\<lparr>tables := (tables s)(r := table_add_block b n (tables s r))\<rparr>))"

section \<open>Sharing and copy-on-write\<close>

definition fork_ref :: "int \<Rightarrow> paged_cache \<Rightarrow> paged_cache" where
  "fork_ref b s = (if b \<in> set (allocated_blocks s) then add_ref b s else s)"

definition fork_block_table :: "nat \<Rightarrow> string \<Rightarrow> paged_cache \<Rightarrow> nat \<times> paged_cache" where
  "fork_block_table src rid s =
     (let t = table_copy rid (tables s src)
      in new_table rid t (fold fork_ref (block_ids t) s))"

text \<open>
  The reclaiming steps before a copy, then the copy of block \<open>b\<close> at position \<open>i\<close> of the table.
  The block counters \<open>allocated_blocks\<close> and \<open>free_blocks\<close> of the statistics are not adjusted,
  and no invalidation notice is sent for the reused block.
\<close>

definition cow_make_room :: "paged_cache \<Rightarrow> (paged_cache, unit) outcome" where
  "cow_make_room s =
     (if num_free_blocks (free_block_queue s) \<noteq> 0 then returns () s
      else and_then (grow_blocks (min 256 (max_blocks s - current_allocated_count s)) s) (\<lambda>_ s1.
        and_then (if num_free_blocks (free_block_queue s1) = 0 then evict_cached_blocks_locked 1 s1
                  else returns 0 s1) (\<lambda>_ s2.
          if num_free_blocks (free_block_queue s2) = 0
          then raises CacheEvictionError (record_oob ''cow'' s2)
          else returns () s2)))"

definition cow_copy :: "nat \<Rightarrow> nat \<Rightarrow> int \<Rightarrow> paged_cache \<Rightarrow> (paged_cache, int) outcome" where
  "cow_copy r i b s =
     and_then (on_queue popleft s) (\<lambda>nb s1.
       let s2 = (if enable_caching s1 then pop_own_hash nb s1 else s1);
           s3 = touch_block nb (upd_block nb (\<lambda>m. m\<lparr>ref_count := 1\<rparr>) s2);
           s4 = alloc_add nb s3;
           s5 = upd_block nb reset_hash (upd_block nb (\<lambda>m. m\<lparr>token_count := token_count (meta s4 b)\<rparr>) s4);
           s6 = upd_block b (\<lambda>m. m\<lparr>ref_count := ref_count m - 1\<rparr>) s5;
           s7 = (if ref_count (meta s6 b) = 1
                 then upd_stats (\<lambda>st. st\<lparr>st_shared_blocks := st_shared_blocks st - 1\<rparr>) s6 else s6);
           s8 = s7\<lparr>tables := (tables s7)(r := (tables s7 r)\<lparr>block_ids := (block_ids (tables s7 r))[i := nb]\<rparr>)\<rparr>
       in returns nb (upd_stats (\<lambda>st. st\<lparr>st_cow_copies := st_cow_copies st + 1\<rparr>) s8))"

fun generation_loop ::
  "nat \<Rightarrow> (nat \<times> int) list \<Rightarrow> int list \<Rightarrow> bool \<Rightarrow> paged_cache \<Rightarrow> (paged_cache, int list \<times> bool) outcome" where
  "generation_loop r [] out copied s = returns (out, copied) s"
| "generation_loop r ((i, b) # rest) out copied s =
     (if b \<notin> set (allocated_blocks s) then generation_loop r rest out copied s
      else if is_shared (meta s b)
      then and_then (cow_make_room s) (\<lambda>_ s1. and_then (cow_copy r i b s1) (\<lambda>nb s2.
             generation_loop r rest (out @ [nb]) True (touch_block b s2)))
      else generation_loop r rest (out @ [b]) copied (touch_block b s))"

definition get_blocks_for_generation :: "nat \<Rightarrow> paged_cache \<Rightarrow> (paged_cache, int list \<times> bool) outcome" where
  "get_blocks_for_generation r s =
     and_then (generation_loop r (enumerate 0 (block_ids (tables s r))) [] False s)
       (\<lambda>res s1. returns res (flush_content_invalidated s1))"

end
