(* ===== verification/PagedAdmin.thy ===== *)
theory PagedAdmin
  imports PagedPrefix Complex_Main
begin

text \<open>
  Statistics, resetting and the generic cache interface of \<open>PagedCacheManager\<close>
  (\<^verbatim>\<open>fusion_mlx/cache/paged_cache.py\<close>). Ratios are floating-point numbers in the code and
  rational numbers here.
\<close>

section \<open>Statistics\<close>

definition free_blocks :: "paged_cache \<Rightarrow> int" where
  "free_blocks s = num_free_blocks (free_block_queue s)"

definition usage :: "paged_cache \<Rightarrow> rat" where
  "usage s =
     (let total = current_allocated_count s - 1
      in if total = 0 then 0 else 1 - of_int (free_blocks s) / of_int total)"

definition get_stats :: "paged_cache \<Rightarrow> paged_stats \<times> paged_cache" where
  "get_stats s =
     (let s1 = upd_stats (\<lambda>st. st\<lparr>
            st_shared_blocks := sum_list (map (\<lambda>b. 1) (filter (\<lambda>b. ref_count (meta s b) > 1) (allocated_blocks s))),
            st_free_blocks := num_free_blocks (free_block_queue s)\<rparr>) s
      in (stats s1, s1))"

record memory_usage =
  mu_block_size :: int
  mu_max_blocks :: int
  mu_allocated_blocks :: int
  mu_free_blocks :: int
  mu_shared_blocks :: int
  mu_total_tokens_cached :: int
  mu_utilization :: rat
  mu_cache_hit_rate :: rat

definition get_memory_usage :: "paged_cache \<Rightarrow> (paged_cache, memory_usage) outcome" where
  "get_memory_usage s =
     (let (st, s1) = get_stats s
      in if max_blocks s1 = 0 then raises ZeroDivisionError s1
         else returns
           \<lparr>mu_block_size = block_size s1, mu_max_blocks = max_blocks s1,
            mu_allocated_blocks = st_allocated_blocks st, mu_free_blocks = st_free_blocks st,
            mu_shared_blocks = st_shared_blocks st, mu_total_tokens_cached = st_total_tokens_cached st,
            mu_utilization = of_int (st_allocated_blocks st) / of_int (max_blocks s1),
            mu_cache_hit_rate = (if st_hits st + st_misses st > 0
              then of_int (st_hits st) / of_int (st_hits st + st_misses st) else 0)\<rparr> s1)"

definition reset_stats :: "paged_cache \<Rightarrow> paged_cache" where
  "reset_stats = upd_stats (\<lambda>st. st\<lparr>st_hits := 0, st_misses := 0, st_cow_copies := 0, st_evictions := 0\<rparr>)"

section \<open>Resetting\<close>

definition reset_prefix_cache :: "paged_cache \<Rightarrow> bool \<times> paged_cache" where
  "reset_prefix_cache s =
     (let num_used = max_blocks s - num_free_blocks (free_block_queue s)
      in if num_used > 1 then (False, s)
         else
           let s1 = s\<lparr>cached_blocks := hash_clear (cached_blocks s)\<rparr>;
               s2 = fold (\<lambda>b. upd_block b reset_hash) (blocks s1) s1
           in (True, upd_stats (\<lambda>st. st\<lparr>st_evictions := 0, st_hits := 0, st_misses := 0\<rparr>) s2))"

text \<open>The notices for the dropped blocks are queued after the pool is rebuilt; no flush follows.\<close>

definition clear :: "paged_cache \<Rightarrow> (paged_cache, int) outcome" where
  "clear s =
     (let cleared_count = int (length (allocated_blocks s)) - 1;
          stale = filter (\<lambda>b. \<not> is_null (meta s b)) (allocated_blocks s);
          initial_count = min (initial_blocks s) (max_blocks s);
          s1 = s\<lparr>current_allocated_count := initial_count,
                 cached_blocks := hash_clear (cached_blocks s), request_tables := []\<rparr>
      in and_then (build_pool s1) (\<lambda>_ s2.
           returns (max 0 cleared_count)
             (fold notify_block_content_invalidated stale (s2\<lparr>stats := new_stats initial_count\<rparr>))))"

section \<open>The generic cache interface\<close>

text \<open>A key of the generic interface: bytes (a block hash), an integer, or anything else.\<close>

datatype cache_key = Bytes string | Int_key int | Other_key

definition fetch :: "cache_key \<Rightarrow> paged_cache \<Rightarrow> (int option \<times> bool) \<times> paged_cache" where
  "fetch key s =
     (case key of
        Bytes h \<Rightarrow> (case get_cached_block h s of
            (Some b, s1) \<Rightarrow> ((Some b, True), s1)
          | (None, s1) \<Rightarrow> ((None, False), s1))
      | _ \<Rightarrow> ((None, False), s))"

text \<open>The value is a block (named by its id) or some other object.\<close>

definition store :: "cache_key \<Rightarrow> int option \<Rightarrow> paged_cache \<Rightarrow> bool \<times> paged_cache" where
  "store key v s =
     (case (key, v) of
        (Bytes h, Some b) \<Rightarrow>
          (let s1 = upd_block b (\<lambda>m. m\<lparr>block_hash := Some h\<rparr>) s
           in (True, s1\<lparr>cached_blocks := hash_insert h b (cached_blocks s1)\<rparr>))
      | _ \<Rightarrow> (False, s))"

definition evict :: "cache_key \<Rightarrow> paged_cache \<Rightarrow> (paged_cache, bool) outcome" where
  "evict key s =
     (case key of
        Bytes h \<Rightarrow> (case get_block h (cached_blocks s) of
            Some b \<Rightarrow> evict_block_permanently b s
          | None \<Rightarrow> returns False s)
      | Int_key b \<Rightarrow> evict_block_permanently b s
      | Other_key \<Rightarrow> returns False s)"

definition cache_size :: "paged_cache \<Rightarrow> int" where
  "cache_size s = max 0 (int (length (allocated_blocks s)) - 1)"

definition max_size :: "paged_cache \<Rightarrow> int" where
  "max_size s = max_blocks s"

end
