(* ===== verification/PagedInv.thy ===== *)
theory PagedInv
  imports PagedAdmin "HOL-Library.Multiset"
begin

text \<open>
  The invariant of the paged cache and its preservation by the elementary state changes.

  \<open>paged_inv xs fl k s\<close> reads: the free queue holds exactly \<open>xs\<close>, the blocks \<open>fl\<close> are in the
  hands of the running method, and together with the allocated map these partition the created
  ids; the null block is block 0 and always allocated; no block on the free queue is
  referenced; whatever the hash map offers is an allocated block carrying that very hash; and
  the block counters of the statistics are off by \<open>k\<close> (\<open>None\<close>: nothing is claimed of them).
\<close>

section \<open>The invariant\<close>

definition tally :: "(int \<times> int) option \<Rightarrow> paged_cache \<Rightarrow> bool" where
  "tally k s = (case k of
     None \<Rightarrow> True
   | Some (a, f) \<Rightarrow>
       st_allocated_blocks (stats s) = int (length (allocated_blocks s)) + a \<and>
       st_free_blocks (stats s) = num_free_blocks (free_block_queue s) + f \<and>
       st_total_blocks (stats s) = current_allocated_count s)"

definition shift :: "int \<Rightarrow> int \<Rightarrow> (int \<times> int) option \<Rightarrow> (int \<times> int) option" where
  "shift a f k = map_option (\<lambda>(x, y). (x + a, y + f)) k"

definition balanced :: "(int \<times> int) option \<Rightarrow> bool" where
  "balanced k \<longleftrightarrow> k = None \<or> k = Some (0, 0)"

definition hash_sound :: "paged_cache \<Rightarrow> bool" where
  "hash_sound s \<longleftrightarrow> distinct (dict_keys (cached_blocks s)) \<and>
     (\<forall>h b. b \<in> ids_at (cached_blocks s) h \<longrightarrow>
        b \<in> set (allocated_blocks s) \<and> block_hash (meta s b) = Some h)"

definition pool_ok :: "int list \<Rightarrow> int list \<Rightarrow> paged_cache \<Rightarrow> bool" where
  "pool_ok xs fl s \<longleftrightarrow>
     queue_rep (free_block_queue s) xs \<and>
     distinct (xs @ fl @ allocated_blocks s) \<and>
     set (xs @ fl @ allocated_blocks s) = {0..<current_allocated_count s} \<and>
     blocks s = pyrange 0 (current_allocated_count s) \<and>
     current_allocated_count s \<le> max_blocks s \<and>
     null_block s = 0 \<and> 0 \<in> set (allocated_blocks s) \<and> 0 < initial_blocks s"

definition paged_inv :: "int list \<Rightarrow> int list \<Rightarrow> (int \<times> int) option \<Rightarrow> paged_cache \<Rightarrow> bool" where
  "paged_inv xs fl k s \<longleftrightarrow>
     pool_ok xs fl s \<and> (\<forall>b. is_null (meta s b) \<longleftrightarrow> b = 0) \<and>
     (\<forall>b \<in> set xs. ref_count (meta s b) \<le> 0) \<and> hash_sound s \<and> tally k s"

lemma shift_0 [simp]: "shift 0 0 k = k"
  by (cases k) (auto simp: shift_def)

lemma shift_shift [simp]: "shift a f (shift b g k) = shift (a + b) (f + g) k"
  by (cases k) (auto simp: shift_def)

lemma tally_None [simp]: "tally None s"
  by (simp add: tally_def)

lemma inv_pool: "paged_inv xs fl k s \<Longrightarrow> pool_ok xs fl s"
  and inv_null: "paged_inv xs fl k s \<Longrightarrow> is_null (meta s b) \<longleftrightarrow> b = 0"
  and inv_unreferenced: "paged_inv xs fl k s \<Longrightarrow> b \<in> set xs \<Longrightarrow> ref_count (meta s b) \<le> 0"
  and inv_sound: "paged_inv xs fl k s \<Longrightarrow> hash_sound s"
  and inv_tally: "paged_inv xs fl k s \<Longrightarrow> tally k s"
  by (auto simp: paged_inv_def)

lemma inv_queue: "paged_inv xs fl k s \<Longrightarrow> queue_rep (free_block_queue s) xs"
  and inv_distinct: "paged_inv xs fl k s \<Longrightarrow> distinct (xs @ fl @ allocated_blocks s)"
  and inv_ids: "paged_inv xs fl k s \<Longrightarrow> set (xs @ fl @ allocated_blocks s) = {0..<current_allocated_count s}"
  and inv_blocks: "paged_inv xs fl k s \<Longrightarrow> blocks s = pyrange 0 (current_allocated_count s)"
  and inv_bound: "paged_inv xs fl k s \<Longrightarrow> current_allocated_count s \<le> max_blocks s"
  and inv_null_block: "paged_inv xs fl k s \<Longrightarrow> null_block s = 0"
  and inv_null_alloc: "paged_inv xs fl k s \<Longrightarrow> 0 \<in> set (allocated_blocks s)"
  and inv_initial: "paged_inv xs fl k s \<Longrightarrow> 0 < initial_blocks s"
  by (auto simp only: paged_inv_def pool_ok_def)

lemma inv_num_free: "paged_inv xs fl k s \<Longrightarrow> num_free_blocks (free_block_queue s) = int (length xs)"
  using queue_repD(5) [OF inv_queue] .

lemma inv_nonneg: "paged_inv xs fl k s \<Longrightarrow> b \<in> set xs \<union> set fl \<union> set (allocated_blocks s) \<Longrightarrow> 0 \<le> b"
  using inv_ids [of xs fl k s] by auto

lemma inv_below: "paged_inv xs fl k s \<Longrightarrow> b \<in> set xs \<union> set fl \<union> set (allocated_blocks s) \<Longrightarrow>
    b < current_allocated_count s"
  using inv_ids [of xs fl k s] by auto

lemma nonneg_sentinel: "0 \<le> b \<Longrightarrow> b \<noteq> fake_head" "0 \<le> b \<Longrightarrow> b \<noteq> fake_tail"
  by (auto simp: fake_head_def fake_tail_def)

lemma soundD: "hash_sound s \<Longrightarrow> b \<in> ids_at (cached_blocks s) h \<Longrightarrow>
    b \<in> set (allocated_blocks s) \<and> block_hash (meta s b) = Some h"
  by (simp add: hash_sound_def)

lemma sound_unique: "hash_sound s \<Longrightarrow> b \<in> ids_at (cached_blocks s) h \<Longrightarrow>
    b \<in> ids_at (cached_blocks s) h' \<Longrightarrow> h' = h"
  using soundD [of s b h] soundD [of s b h'] by simp

lemma inv_count_pos:
  assumes "paged_inv xs fl k s"
  shows "0 < current_allocated_count s"
proof -
  have "0 \<in> {0..<current_allocated_count s}"
    using inv_ids [OF assms] inv_null_alloc [OF assms] by (metis UnCI set_append)
  then show ?thesis by simp
qed

text \<open>A block is \<open>unlisted\<close> when no hash of the map leads to it.\<close>

definition unlisted :: "int \<Rightarrow> paged_cache \<Rightarrow> bool" where
  "unlisted b s \<longleftrightarrow> (\<forall>h. b \<notin> ids_at (cached_blocks s) h)"

lemma unlisted_free: "paged_inv xs fl k s \<Longrightarrow> b \<in> set xs \<union> set fl \<Longrightarrow> unlisted b s"
  using inv_distinct [of xs fl k s] soundD [OF inv_sound, of xs fl k s b] by (auto simp: unlisted_def)

section \<open>Selectors of the elementary changes\<close>

lemma upd_block_sel [simp]:
  "block_size (upd_block b f s) = block_size s" "max_blocks (upd_block b f s) = max_blocks s"
  "enable_caching (upd_block b f s) = enable_caching s" "model_name (upd_block b f s) = model_name s"
  "initial_blocks (upd_block b f s) = initial_blocks s"
  "current_allocated_count (upd_block b f s) = current_allocated_count s"
  "blocks (upd_block b f s) = blocks s" "meta (upd_block b f s) = (meta s)(b := f (meta s b))"
  "free_block_queue (upd_block b f s) = free_block_queue s" "cached_blocks (upd_block b f s) = cached_blocks s"
  "request_tables (upd_block b f s) = request_tables s" "tables (upd_block b f s) = tables s"
  "next_table (upd_block b f s) = next_table s"
  "allocated_blocks (upd_block b f s) = allocated_blocks s" "null_block (upd_block b f s) = null_block s"
  "stats (upd_block b f s) = stats s" "ssd_has_block (upd_block b f s) = ssd_has_block s"
  "block_freed_callbacks (upd_block b f s) = block_freed_callbacks s"
  "pending_invalidated (upd_block b f s) = pending_invalidated s"
  "callback_log (upd_block b f s) = callback_log s" "oob_log (upd_block b f s) = oob_log s"
  by (simp_all add: upd_block_def)

lemma upd_stats_sel [simp]:
  "block_size (upd_stats f s) = block_size s" "max_blocks (upd_stats f s) = max_blocks s"
  "enable_caching (upd_stats f s) = enable_caching s" "model_name (upd_stats f s) = model_name s"
  "initial_blocks (upd_stats f s) = initial_blocks s"
  "current_allocated_count (upd_stats f s) = current_allocated_count s"
  "blocks (upd_stats f s) = blocks s" "meta (upd_stats f s) = meta s"
  "free_block_queue (upd_stats f s) = free_block_queue s" "cached_blocks (upd_stats f s) = cached_blocks s"
  "request_tables (upd_stats f s) = request_tables s" "tables (upd_stats f s) = tables s"
  "next_table (upd_stats f s) = next_table s"
  "allocated_blocks (upd_stats f s) = allocated_blocks s" "null_block (upd_stats f s) = null_block s"
  "stats (upd_stats f s) = f (stats s)" "ssd_has_block (upd_stats f s) = ssd_has_block s"
  "block_freed_callbacks (upd_stats f s) = block_freed_callbacks s"
  "pending_invalidated (upd_stats f s) = pending_invalidated s"
  "callback_log (upd_stats f s) = callback_log s" "oob_log (upd_stats f s) = oob_log s"
  by (simp_all add: upd_stats_def)

lemma touch_block_sel [simp]:
  "block_size (touch_block b s) = block_size s" "max_blocks (touch_block b s) = max_blocks s"
  "enable_caching (touch_block b s) = enable_caching s" "model_name (touch_block b s) = model_name s"
  "initial_blocks (touch_block b s) = initial_blocks s"
  "current_allocated_count (touch_block b s) = current_allocated_count s"
  "blocks (touch_block b s) = blocks s" "free_block_queue (touch_block b s) = free_block_queue s"
  "cached_blocks (touch_block b s) = cached_blocks s" "request_tables (touch_block b s) = request_tables s"
  "tables (touch_block b s) = tables s" "next_table (touch_block b s) = next_table s"
  "allocated_blocks (touch_block b s) = allocated_blocks s" "null_block (touch_block b s) = null_block s"
  "stats (touch_block b s) = stats s" "ssd_has_block (touch_block b s) = ssd_has_block s"
  "block_freed_callbacks (touch_block b s) = block_freed_callbacks s"
  "pending_invalidated (touch_block b s) = pending_invalidated s"
  "callback_log (touch_block b s) = callback_log s" "oob_log (touch_block b s) = oob_log s"
  "ref_count (meta (touch_block b s) c) = ref_count (meta s c)"
  "block_hash (meta (touch_block b s) c) = block_hash (meta s c)"
  "parent_hash (meta (touch_block b s) c) = parent_hash (meta s c)"
  "is_null (meta (touch_block b s) c) = is_null (meta s c)"
  "token_count (meta (touch_block b s) c) = token_count (meta s c)"
  by (simp_all add: touch_block_def read_clock_def upd_block_def)

lemma alloc_add_sel [simp]:
  "block_size (alloc_add b s) = block_size s" "max_blocks (alloc_add b s) = max_blocks s"
  "enable_caching (alloc_add b s) = enable_caching s" "model_name (alloc_add b s) = model_name s"
  "current_allocated_count (alloc_add b s) = current_allocated_count s"
  "initial_blocks (alloc_add b s) = initial_blocks s"
  "blocks (alloc_add b s) = blocks s" "meta (alloc_add b s) = meta s"
  "free_block_queue (alloc_add b s) = free_block_queue s" "cached_blocks (alloc_add b s) = cached_blocks s"
  "request_tables (alloc_add b s) = request_tables s" "tables (alloc_add b s) = tables s"
  "null_block (alloc_add b s) = null_block s" "stats (alloc_add b s) = stats s"
  "ssd_has_block (alloc_add b s) = ssd_has_block s"
  "block_freed_callbacks (alloc_add b s) = block_freed_callbacks s"
  "pending_invalidated (alloc_add b s) = pending_invalidated s"
  "callback_log (alloc_add b s) = callback_log s" "oob_log (alloc_add b s) = oob_log s"
  "allocated_blocks (alloc_add b s) =
     (if b \<in> set (allocated_blocks s) then allocated_blocks s else allocated_blocks s @ [b])"
  by (simp_all add: alloc_add_def)

lemma alloc_del_sel [simp]:
  "block_size (alloc_del b s) = block_size s" "max_blocks (alloc_del b s) = max_blocks s"
  "enable_caching (alloc_del b s) = enable_caching s" "model_name (alloc_del b s) = model_name s"
  "current_allocated_count (alloc_del b s) = current_allocated_count s"
  "initial_blocks (alloc_del b s) = initial_blocks s"
  "blocks (alloc_del b s) = blocks s" "meta (alloc_del b s) = meta s"
  "free_block_queue (alloc_del b s) = free_block_queue s" "cached_blocks (alloc_del b s) = cached_blocks s"
  "request_tables (alloc_del b s) = request_tables s" "tables (alloc_del b s) = tables s"
  "null_block (alloc_del b s) = null_block s" "stats (alloc_del b s) = stats s"
  "ssd_has_block (alloc_del b s) = ssd_has_block s"
  "block_freed_callbacks (alloc_del b s) = block_freed_callbacks s"
  "pending_invalidated (alloc_del b s) = pending_invalidated s"
  "callback_log (alloc_del b s) = callback_log s" "oob_log (alloc_del b s) = oob_log s"
  "allocated_blocks (alloc_del b s) = remove1 b (allocated_blocks s)"
  by (simp_all add: alloc_del_def)

section \<open>Preservation by the elementary changes\<close>

lemma inv_frame:
  assumes "paged_inv xs fl k s"
    and "free_block_queue s' = free_block_queue s" "allocated_blocks s' = allocated_blocks s"
    and "blocks s' = blocks s" "current_allocated_count s' = current_allocated_count s"
    and "max_blocks s' = max_blocks s" "null_block s' = null_block s" "initial_blocks s' = initial_blocks s"
    and "\<And>b. is_null (meta s' b) = is_null (meta s b)"
    and "\<And>b. b \<in> set xs \<Longrightarrow> ref_count (meta s' b) \<le> 0"
    and "hash_sound s'" "tally k' s'"
  shows "paged_inv xs fl k' s'"
  using assms by (simp add: paged_inv_def pool_ok_def)

lemma hash_sound_frame:
  assumes "hash_sound s" "cached_blocks s' = cached_blocks s" "allocated_blocks s' = allocated_blocks s"
    and "\<And>b. \<not> unlisted b s \<Longrightarrow> block_hash (meta s' b) = block_hash (meta s b)"
  shows "hash_sound s'"
  unfolding hash_sound_def
proof (intro conjI allI impI)
  fix h b
  assume "b \<in> ids_at (cached_blocks s') h"
  then have b: "b \<in> ids_at (cached_blocks s) h" using assms(2) by simp
  then have "\<not> unlisted b s" by (auto simp: unlisted_def)
  with assms(4) soundD [OF assms(1) b] assms(3)
  show "b \<in> set (allocated_blocks s')" "block_hash (meta s' b) = Some h" by auto
qed (use assms in \<open>simp add: hash_sound_def\<close>)

lemma tally_Some: "tally (Some (a, f)) s \<longleftrightarrow>
    st_allocated_blocks (stats s) = int (length (allocated_blocks s)) + a \<and>
    st_free_blocks (stats s) = num_free_blocks (free_block_queue s) + f \<and>
    st_total_blocks (stats s) = current_allocated_count s"
  by (simp add: tally_def)

lemma shift_simps [simp]: "shift a f None = None" "shift a f (Some (x, y)) = Some (x + a, y + f)"
  by (simp_all add: shift_def)

lemma option_pair_cases: obtains "k = None" | a f where "k = Some (a, f)"
  by (cases k) auto

text \<open>Counters that follow the allocated map and the queue keep the tally up to a shift.\<close>

lemma tally_move:
  assumes "tally k s" "int (length (allocated_blocks s')) = int (length (allocated_blocks s)) - a"
    and "num_free_blocks (free_block_queue s') = num_free_blocks (free_block_queue s) - f"
    and "stats s' = stats s" "current_allocated_count s' = current_allocated_count s"
  shows "tally (shift a f k) s'"
  using assms by (cases k rule: option_pair_cases) (simp_all add: tally_Some)

lemma tally_frame:
  assumes "tally k s" "free_block_queue s' = free_block_queue s" "allocated_blocks s' = allocated_blocks s"
    and "current_allocated_count s' = current_allocated_count s" "stats s' = stats s"
  shows "tally k s'"
  using tally_move [of k s s' 0 0] assms by simp

lemma inv_same [simp]:
  "paged_inv xs fl k (notify_block_content_invalidated b s) = paged_inv xs fl k s"
  "paged_inv xs fl k (flush_content_invalidated s) = paged_inv xs fl k s"
  "paged_inv xs fl k (record_oob kind s) = paged_inv xs fl k s"
  "paged_inv xs fl k (s\<lparr>request_tables := rt\<rparr>) = paged_inv xs fl k s"
  "paged_inv xs fl k (s\<lparr>tables := tb\<rparr>) = paged_inv xs fl k s"
  "paged_inv xs fl k (s\<lparr>next_table := n\<rparr>) = paged_inv xs fl k s"
  "paged_inv xs fl k (s\<lparr>ssd_has_block := h\<rparr>) = paged_inv xs fl k s"
  "paged_inv xs fl k (s\<lparr>block_freed_callbacks := cbs\<rparr>) = paged_inv xs fl k s"
  by (auto simp: paged_inv_def pool_ok_def hash_sound_def tally_def flush_content_invalidated_def
    notify_block_content_invalidated_def record_oob_def split: option.split)

lemma inv_touch_block [simp]: "paged_inv xs fl k (touch_block b s) = paged_inv xs fl k s"
  by (auto simp: paged_inv_def pool_ok_def hash_sound_def tally_def split: option.split)

lemma inv_upd_stats:
  assumes "paged_inv xs fl k s" "\<And>st. st_allocated_blocks (f st) = st_allocated_blocks st + a"
    and "\<And>st. st_free_blocks (f st) = st_free_blocks st + c" "\<And>st. st_total_blocks (f st) = st_total_blocks st"
  shows "paged_inv xs fl (shift a c k) (upd_stats f s)"
proof -
  have "tally (shift a c k) (upd_stats f s)"
    using assms by (cases k rule: option_pair_cases) (auto simp: tally_Some dest: inv_tally)
  moreover have "hash_sound (upd_stats f s)"
    by (rule hash_sound_frame [OF inv_sound [OF assms(1)]]) simp_all
  ultimately show ?thesis
    by (intro inv_frame [OF assms(1)]) (auto simp: inv_unreferenced [OF assms(1)])
qed

lemma inv_upd_stats_same:
  assumes "paged_inv xs fl k s" "\<And>st. st_allocated_blocks (f st) = st_allocated_blocks st"
    and "\<And>st. st_free_blocks (f st) = st_free_blocks st" "\<And>st. st_total_blocks (f st) = st_total_blocks st"
  shows "paged_inv xs fl k (upd_stats f s)"
  using inv_upd_stats [OF assms(1), of f 0 0] assms(2-4) by simp

lemma inv_upd_block:
  assumes "paged_inv xs fl k s" "is_null (f (meta s b)) = is_null (meta s b)"
    and "block_hash (f (meta s b)) = block_hash (meta s b) \<or> unlisted b s"
    and "b \<in> set xs \<Longrightarrow> ref_count (f (meta s b)) \<le> 0"
  shows "paged_inv xs fl k (upd_block b f s)"
proof (rule inv_frame [OF assms(1)])
  show "hash_sound (upd_block b f s)"
    by (rule hash_sound_frame [OF inv_sound [OF assms(1)]]) (use assms(3) in \<open>auto simp: unlisted_def\<close>)
  show "tally k (upd_block b f s)" by (rule tally_frame [OF inv_tally [OF assms(1)]]) simp_all
  show "ref_count (meta (upd_block b f s) c) \<le> 0" if "c \<in> set xs" for c
    using assms(4) that inv_unreferenced [OF assms(1)] by (cases "c = b") auto
qed (use assms(2) in simp_all)

lemma inv_reset_hash:
  "paged_inv xs fl k s \<Longrightarrow> unlisted b s \<Longrightarrow> paged_inv xs fl k (upd_block b reset_hash s)"
  by (rule inv_upd_block) (auto simp: reset_hash_def inv_unreferenced)

lemma inv_token_count:
  "paged_inv xs fl k s \<Longrightarrow> paged_inv xs fl k (upd_block b (\<lambda>m. m\<lparr>token_count := n\<rparr>) s)"
  by (rule inv_upd_block) (auto simp: inv_unreferenced)

lemma inv_ref_count:
  "paged_inv xs fl k s \<Longrightarrow> (b \<in> set xs \<Longrightarrow> g (ref_count (meta s b)) \<le> 0) \<Longrightarrow>
     paged_inv xs fl k (upd_block b (\<lambda>m. m\<lparr>ref_count := g (ref_count m)\<rparr>) s)"
  by (rule inv_upd_block) auto

text \<open>Changes of the hash map.\<close>

lemma inv_hash_pop:
  assumes "paged_inv xs fl k s"
  shows "paged_inv xs fl k (s\<lparr>cached_blocks := snd (hash_pop h b (cached_blocks s))\<rparr>)"
proof (rule inv_frame [OF assms])
  let ?s = "s\<lparr>cached_blocks := snd (hash_pop h b (cached_blocks s))\<rparr>"
  show "hash_sound ?s"
    using inv_sound [OF assms] by (auto simp: hash_sound_def ids_at_pop distinct_keys_pop split: if_splits)
  show "tally k ?s" by (rule tally_frame [OF inv_tally [OF assms]]) simp_all
qed (use inv_unreferenced [OF assms] in simp_all)

lemma unlisted_pop:
  assumes "\<And>k. b \<in> ids_at (cached_blocks s) k \<Longrightarrow> k = h"
  shows "unlisted b (s\<lparr>cached_blocks := snd (hash_pop h (Some b) (cached_blocks s))\<rparr>)"
  using assms by (auto simp: unlisted_def ids_at_pop)

lemma unlisted_pop_mono:
  "unlisted b s \<Longrightarrow> unlisted b (s\<lparr>cached_blocks := snd (hash_pop h c (cached_blocks s))\<rparr>)"
  by (auto simp: unlisted_def ids_at_pop)

lemma unlisted_same [simp]:
  "unlisted b (upd_block c f s) = unlisted b s" "unlisted b (upd_stats g s) = unlisted b s"
  "unlisted b (touch_block c s) = unlisted b s" "unlisted b (alloc_add c s) = unlisted b s"
  "unlisted b (alloc_del c s) = unlisted b s"
  "unlisted b (notify_block_content_invalidated c s) = unlisted b s"
  by (auto simp: unlisted_def notify_block_content_invalidated_def)

lemma inv_hash_insert:
  assumes "paged_inv xs fl k s" "b \<in> set (allocated_blocks s)" "block_hash (meta s b) = Some h"
  shows "paged_inv xs fl k (s\<lparr>cached_blocks := hash_insert h b (cached_blocks s)\<rparr>)"
proof (rule inv_frame [OF assms(1)])
  let ?s = "s\<lparr>cached_blocks := hash_insert h b (cached_blocks s)\<rparr>"
  show "hash_sound ?s"
    using inv_sound [OF assms(1)] assms(2,3)
    by (auto simp: hash_sound_def ids_at_insert distinct_keys_insert split: if_splits)
  show "tally k ?s" by (rule tally_frame [OF inv_tally [OF assms(1)]]) simp_all
qed (use inv_unreferenced [OF assms(1)] in simp_all)

text \<open>Blocks moving between the free queue, the method's hands and the allocated map.\<close>

lemma inv_move:
  assumes "paged_inv xs fl k s"
    and "queue_rep (free_block_queue s') ys" "mset (ys @ gl @ allocated_blocks s') = mset (xs @ fl @ allocated_blocks s)"
    and "stats s' = stats s" "current_allocated_count s' = current_allocated_count s"
    and "blocks s' = blocks s" "max_blocks s' = max_blocks s" "null_block s' = null_block s"
    and "meta s' = meta s" "cached_blocks s' = cached_blocks s" "initial_blocks s' = initial_blocks s"
    and "\<And>b. b \<in> set ys \<Longrightarrow> ref_count (meta s b) \<le> 0"
    and "\<And>b. b \<in> set (allocated_blocks s) - set (allocated_blocks s') \<Longrightarrow> b \<noteq> 0 \<and> unlisted b s"
    and "a = int (length (allocated_blocks s)) - int (length (allocated_blocks s'))"
    and "f = int (length xs) - int (length ys)"
  shows "paged_inv ys gl (shift a f k) s'"
  unfolding paged_inv_def
proof (intro conjI)
  have len: "num_free_blocks (free_block_queue s') = int (length ys)" using queue_repD(5) [OF assms(2)] .
  show "tally (shift a f k) s'"
    by (rule tally_move [OF inv_tally [OF assms(1)]]) (use assms inv_num_free [OF assms(1)] len in simp_all)
  show "pool_ok ys gl s'"
    using inv_pool [OF assms(1)] assms(2-8,11,13) mset_eq_setD [OF assms(3)] mset_eq_imp_distinct_iff [OF assms(3)]
    unfolding pool_ok_def by (metis DiffI)
  show "hash_sound s'"
    using inv_sound [OF assms(1)] assms(9,10,13) unfolding hash_sound_def unlisted_def by (metis DiffI)
qed (use assms(9,12) inv_null [OF assms(1)] in simp_all)

lemma inv_alloc_add:
  assumes "paged_inv xs (b # fl) k s"
  shows "paged_inv xs fl (shift (- 1) 0 k) (alloc_add b s)"
  by (rule inv_move [OF assms])
    (use assms inv_distinct [OF assms] in \<open>auto simp: inv_queue inv_unreferenced split: if_splits\<close>)

lemma length_remove1_int: "b \<in> set ys \<Longrightarrow> int (length (remove1 b ys)) = int (length ys) - 1"
  by (induction ys) auto

lemma inv_alloc_del:
  assumes "paged_inv xs fl k s" "b \<in> set (allocated_blocks s)" "unlisted b s" "b \<noteq> 0"
  shows "paged_inv xs (b # fl) (shift 1 0 k) (alloc_del b s)"
proof -
  have "distinct (allocated_blocks s)" using inv_distinct [OF assms(1)] by simp
  then show ?thesis
    by (intro inv_move [OF assms(1)])
      (use assms in \<open>auto simp: inv_queue inv_unreferenced set_remove1_distinct length_remove1_int\<close>)
qed

lemma alloc_del_absent: "b \<notin> set (allocated_blocks s) \<Longrightarrow> alloc_del b s = s"
  by (simp add: alloc_del_def remove1_idem)

lemma on_queue_returns: "f (free_block_queue s) = returns a q \<Longrightarrow>
    on_queue f s = returns a (s\<lparr>free_block_queue := q\<rparr>)"
  by (simp add: on_queue_def returns_def)

lemma on_queue_raises: "f (free_block_queue s) = raises e (free_block_queue s) \<Longrightarrow>
    on_queue f s = raises e s"
  by (simp add: on_queue_def raises_def)

lemma inv_popleft:
  assumes "paged_inv (x # xs) fl k s"
  shows "\<exists>q. on_queue popleft s = returns x (s\<lparr>free_block_queue := q\<rparr>) \<and>
    paged_inv xs (x # fl) (shift 0 1 k) (s\<lparr>free_block_queue := q\<rparr>)"
proof -
  from fq.pop_front [OF inv_queue [OF assms]] obtain q
    where q: "popleft (free_block_queue s) = returns x q" "queue_rep q xs" by blast
  have "paged_inv xs (x # fl) (shift 0 1 k) (s\<lparr>free_block_queue := q\<rparr>)"
    by (rule inv_move [OF assms]) (use q(2) inv_unreferenced [OF assms] in simp_all)
  with q show ?thesis by (auto simp: on_queue_def returns_def)
qed

lemma inv_append:
  assumes "paged_inv xs (b # fl) k s" "ref_count (meta s b) \<le> 0"
  shows "\<exists>q. on_queue (append_block b) s = returns () (s\<lparr>free_block_queue := q\<rparr>) \<and>
    paged_inv (xs @ [b]) fl (shift 0 (- 1) k) (s\<lparr>free_block_queue := q\<rparr>)"
proof -
  from inv_distinct [OF assms(1)] inv_nonneg [OF assms(1), of b] have "b \<notin> set xs" "is_block_id b"
    by (auto simp: is_block_id_def)
  from fq.push_back [OF inv_queue [OF assms(1)] this]
  obtain q where q: "append_block b (free_block_queue s) = returns () q" "queue_rep q (xs @ [b])"
    by blast
  have "paged_inv (xs @ [b]) fl (shift 0 (- 1) k) (s\<lparr>free_block_queue := q\<rparr>)"
    by (rule inv_move [OF assms(1)])
      (use q(2) inv_unreferenced [OF assms(1)] assms(2) in \<open>auto simp: assms(2)\<close>)
  with q show ?thesis by (auto simp: on_queue_def returns_def)
qed

lemma inv_remove:
  assumes "paged_inv xs fl k s" "b \<in> set xs"
  shows "\<exists>q. on_queue (remove_block b) s = returns () (s\<lparr>free_block_queue := q\<rparr>) \<and>
    paged_inv (remove1 b xs) (b # fl) (shift 0 1 k) (s\<lparr>free_block_queue := q\<rparr>)"
proof -
  from fq.remove_mid [OF inv_queue [OF assms(1)] assms(2)]
  obtain q where q: "remove_block b (free_block_queue s) = returns () q" "queue_rep q (remove1 b xs)"
    by blast
  have "paged_inv (remove1 b xs) (b # fl) (shift 0 1 k) (s\<lparr>free_block_queue := q\<rparr>)"
  proof (rule inv_move [OF assms(1)])
    show "ref_count (meta s c) \<le> 0" if "c \<in> set (remove1 b xs)" for c
      using that inv_unreferenced [OF assms(1)] notin_set_remove1 [of c xs b] by blast
  qed (use q(2) assms(2) in \<open>simp_all add: length_remove1_int\<close>)
  with q show ?thesis by (auto simp: on_queue_def returns_def)
qed

end
