(* ===== verification/PagedSafe.thy ===== *)
theory PagedSafe
  imports PagedInv
begin

text \<open>
  Every operation of the paged cache keeps \<open>paged_inv\<close>: the cascade, allocation and growth,
  freeing, reference counting, eviction, prefix caching, block tables and copy-on-write. The
  lemmas also say what each operation returns and that, under the invariant, none of the
  exceptions of the code is raised where the code does not mean to raise it.
\<close>

section \<open>The cascade\<close>

text \<open>What a state change leaves alone when it touches hashes only.\<close>

definition quiet :: "paged_cache \<Rightarrow> paged_cache \<Rightarrow> bool" where
  "quiet s s' \<longleftrightarrow> allocated_blocks s' = allocated_blocks s \<and> free_block_queue s' = free_block_queue s \<and>
     max_blocks s' = max_blocks s \<and> current_allocated_count s' = current_allocated_count s \<and>
     enable_caching s' = enable_caching s \<and> block_size s' = block_size s \<and> tables s' = tables s \<and>
     stats s' = stats s \<and> (\<forall>b. ref_count (meta s' b) = ref_count (meta s b)) \<and>
     (\<forall>b. unlisted b s \<longrightarrow> unlisted b s')"

lemma quiet_refl [simp]: "quiet s s"
  by (simp add: quiet_def)

lemma quiet_trans: "quiet s t \<Longrightarrow> quiet t u \<Longrightarrow> quiet s u"
  by (simp add: quiet_def)

lemma quietD:
  assumes "quiet s s'"
  shows "allocated_blocks s' = allocated_blocks s" "free_block_queue s' = free_block_queue s"
    "max_blocks s' = max_blocks s" "current_allocated_count s' = current_allocated_count s"
    "enable_caching s' = enable_caching s" "block_size s' = block_size s" "tables s' = tables s"
    "stats s' = stats s" "ref_count (meta s' b) = ref_count (meta s b)" "unlisted b s \<Longrightarrow> unlisted b s'"
  using assms by (simp_all add: quiet_def)

definition only_at :: "paged_cache \<Rightarrow> string \<times> int \<Rightarrow> bool" where
  "only_at s p \<longleftrightarrow> (\<forall>k. snd p \<in> ids_at (cached_blocks s) k \<longrightarrow> k = fst p)"

definition drop_entry :: "string \<Rightarrow> int \<Rightarrow> paged_cache \<Rightarrow> paged_cache" where
  "drop_entry h b s = notify_block_content_invalidated b (upd_block b reset_hash
     (s\<lparr>cached_blocks := snd (hash_pop h (Some b) (cached_blocks s))\<rparr>))"

lemma notify_sel [simp]:
  "allocated_blocks (notify_block_content_invalidated b s) = allocated_blocks s"
  "free_block_queue (notify_block_content_invalidated b s) = free_block_queue s"
  "max_blocks (notify_block_content_invalidated b s) = max_blocks s"
  "current_allocated_count (notify_block_content_invalidated b s) = current_allocated_count s"
  "enable_caching (notify_block_content_invalidated b s) = enable_caching s"
  "block_size (notify_block_content_invalidated b s) = block_size s"
  "tables (notify_block_content_invalidated b s) = tables s"
  "stats (notify_block_content_invalidated b s) = stats s"
  "meta (notify_block_content_invalidated b s) = meta s"
  "cached_blocks (notify_block_content_invalidated b s) = cached_blocks s"
  "blocks (notify_block_content_invalidated b s) = blocks s"
  by (simp_all add: notify_block_content_invalidated_def)

lemma ref_count_reset_hash [simp]: "ref_count (reset_hash m) = ref_count m"
  and is_null_reset_hash [simp]: "is_null (reset_hash m) = is_null m"
  and token_count_reset_hash [simp]: "token_count (reset_hash m) = token_count m"
  and block_hash_reset_hash [simp]: "block_hash (reset_hash m) = None"
  by (simp_all add: reset_hash_def)

lemma drop_entry_quiet: "quiet s (drop_entry h b s)"
  by (auto simp: quiet_def drop_entry_def intro: unlisted_pop_mono)

lemma drop_entry_inv: "paged_inv xs fl k s \<Longrightarrow> only_at s (h, b) \<Longrightarrow> paged_inv xs fl k (drop_entry h b s)"
  by (simp add: drop_entry_def only_at_def inv_reset_hash inv_hash_pop unlisted_pop)

lemma drop_entry_only_at: "only_at s p \<Longrightarrow> only_at (drop_entry h b s) p"
  by (auto simp: only_at_def drop_entry_def ids_at_pop split: if_splits)

lemma clear_orphans_Cons: "clear_orphans ((h, b) # os) work evicted s =
    (if ref_count (meta s b) > 0 then clear_orphans os work evicted s
     else clear_orphans os (case block_hash (meta s b) of None \<Rightarrow> work | Some c \<Rightarrow> work @ [c])
            (evicted + 1) (drop_entry h b s))"
  by (simp add: drop_entry_def Let_def)

declare clear_orphans.simps(2) [simp del]

lemma clear_orphans_inv:
  assumes "paged_inv xs fl k s" "\<forall>p \<in> set os. only_at s p" "clear_orphans os w e s = (w', e', s')"
  shows "paged_inv xs fl k s' \<and> quiet s s' \<and> e \<le> e'"
  using assms
proof (induction os arbitrary: w e s)
  case Nil
  then show ?case by simp
next
  case (Cons p os)
  obtain h b where p: "p = (h, b)" by (cases p)
  show ?case
  proof (cases "ref_count (meta s b) > 0")
    case True
    with Cons p show ?thesis by (auto simp: clear_orphans_Cons)
  next
    case False
    let ?s = "drop_entry h b s"
    have "paged_inv xs fl k s' \<and> quiet ?s s' \<and> e + 1 \<le> e'"
      using False Cons.prems p
      by (intro Cons.IH [of ?s]) (auto simp: clear_orphans_Cons drop_entry_inv drop_entry_only_at)
    with drop_entry_quiet [of s h b] show ?thesis by (auto intro: quiet_trans)
  qed
qed

lemma orphans_only_at:
  assumes "hash_sound s" "p \<in> set (orphans_of ph s)"
  shows "only_at s p"
proof -
  obtain h b where p: "p = (h, b)" by (cases p)
  from assms(2) p obtain en where "(h, en) \<in> set (cached_blocks s)" "b \<in> set (entry_ids en)"
    by (auto simp: orphans_of_def)
  with assms(1) have "b \<in> ids_at (cached_blocks s) h"
    by (simp add: ids_at_def hash_sound_def)
  with sound_unique [OF assms(1)] p show ?thesis by (auto simp: only_at_def)
qed

lemma cascade_loop_inv:
  assumes "paged_inv xs fl k s" "cascade_loop n w e s = (e', s')"
  shows "paged_inv xs fl k s' \<and> quiet s s' \<and> e \<le> e'"
  using assms
proof (induction n arbitrary: w e s)
  case 0
  then show ?case by simp
next
  case (Suc n)
  obtain w1 e1 s1 where c: "clear_orphans (orphans_of (last w) s) (butlast w) e s = (w1, e1, s1)"
    by (rule prod_cases3)
  from clear_orphans_inv [OF Suc.prems(1) _ c] orphans_only_at [OF inv_sound [OF Suc.prems(1)]]
  have 1: "paged_inv xs fl k s1" "quiet s s1" "e \<le> e1" by auto
  show ?case
  proof (cases "w = []")
    case True
    with Suc.prems show ?thesis by simp
  next
    case False
    with Suc.prems(2) c have "cascade_loop n w1 e1 s1 = (e', s')" by (simp add: Let_def)
    from Suc.IH [OF 1(1) this] 1 show ?thesis by (auto intro: quiet_trans)
  qed
qed

lemma cascade_inv:
  assumes "paged_inv xs fl k s"
  shows "paged_inv xs fl k (snd (cascade_evict_orphans_locked h s))"
    "quiet s (snd (cascade_evict_orphans_locked h s))" "0 \<le> fst (cascade_evict_orphans_locked h s)"
  using cascade_loop_inv [OF assms] by (auto simp: cascade_evict_orphans_locked_def prod_eq_iff)

section \<open>Growing the pool\<close>

lemma create_blocks_sel [simp]:
  "block_size (create_blocks is s) = block_size s" "max_blocks (create_blocks is s) = max_blocks s"
  "enable_caching (create_blocks is s) = enable_caching s" "model_name (create_blocks is s) = model_name s"
  "initial_blocks (create_blocks is s) = initial_blocks s"
  "current_allocated_count (create_blocks is s) = current_allocated_count s"
  "blocks (create_blocks is s) = blocks s" "free_block_queue (create_blocks is s) = free_block_queue s"
  "cached_blocks (create_blocks is s) = cached_blocks s" "tables (create_blocks is s) = tables s"
  "allocated_blocks (create_blocks is s) = allocated_blocks s" "null_block (create_blocks is s) = null_block s"
  "stats (create_blocks is s) = stats s" "request_tables (create_blocks is s) = request_tables s"
  by (induction "is" arbitrary: s) (simp_all add: read_clock_def Let_def)

lemma create_blocks_meta:
  "ref_count (meta (create_blocks is s) b) = (if b \<in> set is then 0 else ref_count (meta s b))"
  "block_hash (meta (create_blocks is s) b) = (if b \<in> set is then None else block_hash (meta s b))"
  "is_null (meta (create_blocks is s) b) = (if b \<in> set is then False else is_null (meta s b))"
  by (induction "is" arbitrary: s) (simp_all add: read_clock_def Let_def fresh_block_def)

lemma balanced_cases: "balanced k \<Longrightarrow> (k = None \<Longrightarrow> P) \<Longrightarrow> (k = Some (0, 0) \<Longrightarrow> P) \<Longrightarrow> P"
  by (auto simp: balanced_def)

lemma grow_blocks_inv:
  fixes add :: int and s :: paged_cache
  defines "n \<equiv> max 0 (min add (max_blocks s - current_allocated_count s))"
  assumes inv: "paged_inv xs [] k s" and k: "balanced k"
  shows "\<exists>s'. grow_blocks add s = returns n s' \<and>
    paged_inv (xs @ pyrange (current_allocated_count s) (current_allocated_count s + n)) [] k s' \<and>
    current_allocated_count s' = current_allocated_count s + n \<and> max_blocks s' = max_blocks s \<and>
    enable_caching s' = enable_caching s \<and> block_size s' = block_size s \<and>
    allocated_blocks s' = allocated_blocks s \<and> cached_blocks s' = cached_blocks s \<and>
    tables s' = tables s \<and>
    (\<forall>b < current_allocated_count s. meta s' b = meta s b)"
proof (cases "n = 0")
  case True
  then show ?thesis using inv by (auto simp: grow_blocks_def n_def Let_def)
next
  case False
  define c where "c = current_allocated_count s"
  define ids where "ids = pyrange c (c + n)"
  let ?s1 = "create_blocks ids s" let ?s2 = "?s1\<lparr>blocks := blocks ?s1 @ ids\<rparr>"
  have n: "0 < n" "n = min add (max_blocks s - c)" "c + n \<le> max_blocks s" "0 \<le> c"
    using False inv_bound [OF inv] inv_count_pos [OF inv]
    by (auto simp: n_def c_def split: if_splits)
  have ids: "set ids = {c..<c + n}" "distinct ids" "length ids = nat n" by (simp_all add: ids_def)
  have old: "set (xs @ allocated_blocks s) = {0..<c}" using inv_ids [OF inv] by (simp add: c_def)
  have sub: "set xs \<subseteq> {0..<c}" "set (allocated_blocks s) \<subseteq> {0..<c}" using old by auto
  have disj: "set xs \<inter> set ids = {}" "set ids \<inter> set (allocated_blocks s) = {}"
    using sub unfolding ids(1) by fastforce+
  have "distinct (xs @ ids)" "fake_head \<notin> set ids" "fake_tail \<notin> set ids"
    using inv_distinct [OF inv] ids disj(1) n(4) by (auto simp: fake_head_def fake_tail_def)
  from rep_append_n [OF inv_queue [OF inv] this]
  obtain q where q: "append_n ids (free_block_queue s) = returns () q" "queue_rep q (xs @ ids)"
    by (rule givesE)
  let ?s3 = "?s2\<lparr>free_block_queue := q\<rparr>"
  let ?s4 = "?s3\<lparr>current_allocated_count := c + n\<rparr>"
  let ?s5 = "upd_stats (\<lambda>st. st\<lparr>st_total_blocks := c + n, st_free_blocks := num_free_blocks q\<rparr>) ?s4"
  have e: "grow_blocks add s = returns n ?s5"
  proof -
    have "on_queue (append_n ids) ?s2 = returns () ?s3"
      using q(1) by (intro on_queue_returns) simp
    with n(1) show ?thesis
      by (simp add: grow_blocks_def Let_def c_def [symmetric] n(2) [symmetric] ids_def [symmetric])
  qed
  have "set (xs @ ids @ allocated_blocks s) = {0..<c + n}"
  proof -
    have "{0..<c} \<union> {c..<c + n} = {0..<c + n}" using n(1,4) by auto
    then show ?thesis using old ids(1) by (metis Un_assoc Un_commute set_append)
  qed
  moreover have "distinct (xs @ ids @ allocated_blocks s)"
    using inv_distinct [OF inv] ids(2) disj by auto
  ultimately have "pool_ok (xs @ ids) [] ?s5"
    using inv_null_block [OF inv] inv_null_alloc [OF inv] inv_blocks [OF inv] inv_initial [OF inv] q(2) n(1,3,4)
      pyrange_append [of 0 c "c + n"]
    by (simp add: pool_ok_def c_def [symmetric] ids_def [symmetric])
  moreover have "\<forall>b. is_null (meta ?s5 b) \<longleftrightarrow> b = 0"
    using inv_null [OF inv] inv_null_alloc [OF inv] old ids(1) by (auto simp: create_blocks_meta)
  moreover have "\<forall>b \<in> set (xs @ ids). ref_count (meta ?s5 b) \<le> 0"
    using inv_unreferenced [OF inv] by (auto simp: create_blocks_meta)
  moreover have "hash_sound ?s5"
  proof (rule hash_sound_frame [OF inv_sound [OF inv]])
    fix b assume "\<not> unlisted b s"
    then have "b \<in> set (allocated_blocks s)" using soundD [OF inv_sound [OF inv]] by (auto simp: unlisted_def)
    with disj(2) have "b \<notin> set ids" by auto
    then show "block_hash (meta ?s5 b) = block_hash (meta s b)" by (simp add: create_blocks_meta)
  qed simp_all
  moreover have "tally k ?s5"
    using k by (rule balanced_cases) (use inv_tally [OF inv] in \<open>simp_all add: tally_Some\<close>)
  ultimately have "paged_inv (xs @ ids) [] k ?s5" by (simp add: paged_inv_def)
  moreover have "meta ?s5 b = meta s b" if "b < c" for b
  proof -
    have "b \<notin> set is \<Longrightarrow> meta (create_blocks is s) b = meta s b" for "is" and s :: paged_cache
      by (induction "is" arbitrary: s) (simp_all add: read_clock_def Let_def)
    with that ids(1) show ?thesis by simp
  qed
  ultimately show ?thesis using e by (auto simp: c_def ids_def)
qed

section \<open>Allocation\<close>

text \<open>What allocation leaves alone: the blocks in use and what the hash map offers.\<close>

definition keeps_used :: "paged_cache \<Rightarrow> paged_cache \<Rightarrow> bool" where
  "keeps_used s s' \<longleftrightarrow>
     (\<forall>c \<in> set (allocated_blocks s). meta s' c = meta s c) \<and>
     (\<forall>h. ids_at (cached_blocks s') h = ids_at (cached_blocks s) h) \<and>
     tables s' = tables s \<and> block_size s' = block_size s \<and> enable_caching s' = enable_caching s \<and>
     max_blocks s' = max_blocks s"

lemma keeps_used_refl [simp]: "keeps_used s s"
  by (simp add: keeps_used_def)

lemma keeps_used_trans:
  "keeps_used s t \<Longrightarrow> keeps_used t u \<Longrightarrow> set (allocated_blocks s) \<subseteq> set (allocated_blocks t) \<Longrightarrow> keeps_used s u"
  unfolding keeps_used_def by (metis subsetD)

lemma grow_blocks_used:
  assumes "paged_inv xs [] k s" "balanced k"
    and "n = max 0 (min add (max_blocks s - current_allocated_count s))"
  shows "\<exists>s'. grow_blocks add s = returns n s' \<and>
    paged_inv (xs @ pyrange (current_allocated_count s) (current_allocated_count s + n)) [] k s' \<and>
    keeps_used s s' \<and> allocated_blocks s' = allocated_blocks s"
proof -
  from grow_blocks_inv [OF assms(1,2), of add] obtain s' where s': "grow_blocks add s = returns n s'"
    "paged_inv (xs @ pyrange (current_allocated_count s) (current_allocated_count s + n)) [] k s'"
    "\<forall>b < current_allocated_count s. meta s' b = meta s b" "cached_blocks s' = cached_blocks s"
    "tables s' = tables s" "block_size s' = block_size s" "enable_caching s' = enable_caching s"
    "max_blocks s' = max_blocks s" "allocated_blocks s' = allocated_blocks s"
    unfolding assms(3) [symmetric] by blast
  then have "keeps_used s s'" using inv_below [OF assms(1)] by (simp add: keeps_used_def)
  with s' show ?thesis by blast
qed

text \<open>
  The eviction of a popped block's hash passes no block id to the map: it removes nothing.
\<close>

lemma maybe_evict_nothing:
  "fst (maybe_evict_cached_block b s) = False"
  "snd (maybe_evict_cached_block b s) = (case block_hash (meta s b) of None \<Rightarrow> s
     | Some h \<Rightarrow> s\<lparr>cached_blocks := snd (hash_pop h None (cached_blocks s))\<rparr>)"
proof -
  have "hash_pop h None d = (None, snd (hash_pop h None d))" for h d
    using hash_pop_None(1) [of h d] by (metis prod.collapse)
  then show "fst (maybe_evict_cached_block b s) = False"
    "snd (maybe_evict_cached_block b s) = (case block_hash (meta s b) of None \<Rightarrow> s
       | Some h \<Rightarrow> s\<lparr>cached_blocks := snd (hash_pop h None (cached_blocks s))\<rparr>)"
    by (auto simp: maybe_evict_cached_block_def Let_def split: option.split prod.split)
      (metis prod.inject option.distinct(1) snd_conv)+
qed

lemma take_block_inv:
  assumes "paged_inv xs (b # fl) k s"
  shows "paged_inv xs fl (shift (- 1) 0 k) (take_block b s)"
    "allocated_blocks (take_block b s) = allocated_blocks s @ [b]"
    "free_block_queue (take_block b s) = free_block_queue s"
    "current_allocated_count (take_block b s) = current_allocated_count s"
    "ref_count (meta (take_block b s) b) = 1"
    "keeps_used s (take_block b s)"
proof -
  have b: "b \<notin> set xs" "b \<notin> set (allocated_blocks s)" using inv_distinct [OF assms] by auto
  define s1 where "s1 = (if enable_caching s then snd (maybe_evict_cached_block b s) else s)"
  have s1: "paged_inv xs (b # fl) k s1" "meta s1 = meta s" "allocated_blocks s1 = allocated_blocks s"
    "free_block_queue s1 = free_block_queue s" "current_allocated_count s1 = current_allocated_count s"
    "keeps_used s s1"
    using assms by (auto simp: s1_def maybe_evict_nothing keeps_used_def hash_pop_None inv_hash_pop split: option.split)
  have t: "take_block b s = alloc_add b (touch_block b (upd_block b (\<lambda>m. m\<lparr>ref_count := 1\<rparr>) s1))"
    by (simp add: take_block_def s1_def)
  have "paged_inv xs (b # fl) k (touch_block b (upd_block b (\<lambda>m. m\<lparr>ref_count := 1\<rparr>) s1))"
    using s1(1) b(1) inv_ref_count [of xs "b # fl" k s1 b "\<lambda>_. 1"] by simp
  then show "paged_inv xs fl (shift (- 1) 0 k) (take_block b s)"
    unfolding t by (rule inv_alloc_add)
  show "allocated_blocks (take_block b s) = allocated_blocks s @ [b]" using b(2) s1(3) by (simp add: t)
  show "free_block_queue (take_block b s) = free_block_queue s"
    "current_allocated_count (take_block b s) = current_allocated_count s"
    "ref_count (meta (take_block b s) b) = 1" using s1 by (simp_all add: t)
  have "meta (take_block b s) c = meta s c" if "c \<noteq> b" for c
    using that s1(2) by (simp add: t touch_block_def read_clock_def)
  moreover have "cached_blocks (take_block b s) = cached_blocks s1" "tables (take_block b s) = tables s1"
    "block_size (take_block b s) = block_size s1" "enable_caching (take_block b s) = enable_caching s1"
    "max_blocks (take_block b s) = max_blocks s1" by (simp_all add: t)
  ultimately show "keeps_used s (take_block b s)"
    using s1(6) b(2) unfolding keeps_used_def by metis
qed

lemma count_allocated_inv: "paged_inv xs fl k s \<Longrightarrow> paged_inv xs fl (shift n (- n) k) (count_allocated n s)"
  unfolding count_allocated_def by (rule inv_upd_stats) auto

lemma count_allocated_sel [simp]:
  "allocated_blocks (count_allocated n s) = allocated_blocks s" "meta (count_allocated n s) = meta s"
  "keeps_used t (count_allocated n s) = keeps_used t s"
  "current_allocated_count (count_allocated n s) = current_allocated_count s"
  by (simp_all add: count_allocated_def keeps_used_def)

lemma keeps_used_queue [simp]: "keeps_used s (s\<lparr>free_block_queue := q\<rparr>)"
  by (simp add: keeps_used_def)

text \<open>Popping the head of the queue and taking it.\<close>

lemma pop_take_inv:
  assumes "paged_inv (x # xs) [] k s"
  shows "\<exists>s'. and_then (on_queue popleft s) (\<lambda>b s2. returns (Some b) (count_allocated 1 (take_block b s2))) =
      returns (Some x) s' \<and> paged_inv xs [] k s' \<and> allocated_blocks s' = allocated_blocks s @ [x] \<and>
      ref_count (meta s' x) = 1 \<and> x \<noteq> 0 \<and> keeps_used s s' \<and>
      current_allocated_count s' = current_allocated_count s"
proof -
  from inv_popleft [OF assms] obtain q where q: "on_queue popleft s = returns x (s\<lparr>free_block_queue := q\<rparr>)"
    "paged_inv xs [x] (shift 0 1 k) (s\<lparr>free_block_queue := q\<rparr>)" by blast
  let ?t = "take_block x (s\<lparr>free_block_queue := q\<rparr>)"
  note t = take_block_inv [OF q(2)]
  have "keeps_used s ?t" using keeps_used_trans [OF keeps_used_queue t(6)] by simp
  moreover have "paged_inv xs [] k (count_allocated 1 ?t)" using count_allocated_inv [OF t(1), of 1] by simp
  moreover have "x \<noteq> 0" using inv_null_alloc [OF assms] inv_distinct [OF assms] by auto
  ultimately show ?thesis using q(1) t by simp
qed

lemma grow_blocks_full: "max_blocks s \<le> current_allocated_count s \<Longrightarrow> grow_blocks add s = returns 0 s"
  by (auto simp: grow_blocks_def Let_def min_def)

definition next_block :: "int list \<Rightarrow> paged_cache \<Rightarrow> int" where
  "next_block xs s = (case xs of [] \<Rightarrow> current_allocated_count s | x # _ \<Rightarrow> x)"

lemma allocate_internal_full:
  assumes "paged_inv [] [] k s" "current_allocated_count s = max_blocks s"
  shows "allocate_block_internal s = returns None (record_oob ''paged'' s)"
  using assms(2) inv_num_free [OF assms(1)] by (simp add: allocate_block_internal_def grow_blocks_full)

lemma allocate_internal_inv:
  assumes inv: "paged_inv xs [] k s" and k: "balanced k"
    and room: "xs \<noteq> [] \<or> current_allocated_count s < max_blocks s"
  shows "\<exists>s' xs'. allocate_block_internal s = returns (Some (next_block xs s)) s' \<and> paged_inv xs' [] k s' \<and>
      allocated_blocks s' = allocated_blocks s @ [next_block xs s] \<and>
      ref_count (meta s' (next_block xs s)) = 1 \<and> next_block xs s \<noteq> 0 \<and> keeps_used s s'"
proof (cases xs)
  case (Cons x ys)
  with inv inv_num_free [OF inv] pop_take_inv [of x ys k s] show ?thesis
    by (auto simp: allocate_block_internal_def next_block_def)
next
  case Nil
  let ?c = "current_allocated_count s"
  define n where "n = min 256 (max_blocks s - ?c)"
  have n: "0 < n" using room Nil by (simp add: n_def)
  from grow_blocks_used [OF inv k, of n n] obtain s1 where s1: "grow_blocks n s = returns n s1"
    "paged_inv (pyrange ?c (?c + n)) [] k s1" "keeps_used s s1" "allocated_blocks s1 = allocated_blocks s"
    using n Nil by (auto simp: n_def)
  from s1(2) n have "paged_inv (?c # pyrange (?c + 1) (?c + n)) [] k s1" by (simp add: pyrange_Cons)
  from pop_take_inv [OF this] obtain s2 where s2:
    "and_then (on_queue popleft s1) (\<lambda>b s2. returns (Some b) (count_allocated 1 (take_block b s2))) = returns (Some ?c) s2"
    "paged_inv (pyrange (?c + 1) (?c + n)) [] k s2" "allocated_blocks s2 = allocated_blocks s1 @ [?c]"
    "ref_count (meta s2 ?c) = 1" "?c \<noteq> 0" "keeps_used s1 s2" by blast
  have "allocate_block_internal s = returns (Some ?c) s2"
    using s1(1) s2(1) n inv_num_free [OF inv] Nil by (simp add: allocate_block_internal_def n_def)
  with s1 s2 Nil keeps_used_trans [OF s1(3) s2(6)] show ?thesis by (auto simp: next_block_def)
qed

section \<open>Allocating several blocks\<close>

lemma inv_popleft_n:
  assumes "paged_inv xs fl k s" "0 \<le> n" "n \<le> int (length xs)"
  shows "\<exists>q. on_queue (popleft_n n) s = returns (take (nat n) xs) (s\<lparr>free_block_queue := q\<rparr>) \<and>
    paged_inv (drop (nat n) xs) (take (nat n) xs @ fl) (shift 0 n k) (s\<lparr>free_block_queue := q\<rparr>)"
proof -
  from rep_popleft_n [OF inv_queue [OF assms(1)] assms(2,3)] obtain q
    where q: "popleft_n n (free_block_queue s) = returns (take (nat n) xs) q" "queue_rep q (drop (nat n) xs)"
    by (rule givesE)
  have "paged_inv (drop (nat n) xs) (take (nat n) xs @ fl) (shift 0 n k) (s\<lparr>free_block_queue := q\<rparr>)"
  proof (rule inv_move [OF assms(1)])
    have "mset (drop (nat n) xs) + mset (take (nat n) xs) = mset xs"
      by (metis append_take_drop_id mset_append union_commute)
    then show "mset (drop (nat n) xs @ (take (nat n) xs @ fl) @ allocated_blocks (s\<lparr>free_block_queue := q\<rparr>)) =
        mset (xs @ fl @ allocated_blocks s)" by (simp add: ac_simps)
    show "ref_count (meta s b) \<le> 0" if "b \<in> set (drop (nat n) xs)" for b
      using that inv_unreferenced [OF assms(1)] by (meson in_set_dropD)
  qed (use q(2) assms(2,3) in auto)
  with on_queue_returns [of "popleft_n n" s, OF q(1)] show ?thesis by blast
qed

lemma fold_take_inv:
  assumes "paged_inv xs (bs @ fl) k s"
  shows "paged_inv xs fl (shift (- int (length bs)) 0 k) (fold take_block bs s) \<and>
    allocated_blocks (fold take_block bs s) = allocated_blocks s @ bs \<and>
    (\<forall>b \<in> set bs. ref_count (meta (fold take_block bs s) b) = 1) \<and> keeps_used s (fold take_block bs s)"
  using assms
proof (induction bs arbitrary: s k)
  case Nil
  then show ?case by simp
next
  case (Cons b bs)
  note t = take_block_inv [OF Cons.prems [unfolded append_Cons]]
  from Cons.IH [OF t(1)] have IH:
    "paged_inv xs fl (shift (- int (length (b # bs))) 0 k) (fold take_block (b # bs) s)"
    "allocated_blocks (fold take_block (b # bs) s) = allocated_blocks s @ b # bs"
    "\<forall>c \<in> set bs. ref_count (meta (fold take_block (b # bs) s) c) = 1"
    "keeps_used (take_block b s) (fold take_block (b # bs) s)"
    using t(2) by (simp_all add: algebra_simps)
  moreover have "keeps_used s (fold take_block (b # bs) s)"
    using keeps_used_trans [OF t(6) IH(4)] t(2) by auto
  moreover have "ref_count (meta (fold take_block (b # bs) s) b) = 1"
    using IH(4) t(2,5) unfolding keeps_used_def by simp
  ultimately show ?case by auto
qed

text \<open>The blocks that can still be handed out: those on the queue and those not created yet.\<close>

definition available :: "int list \<Rightarrow> paged_cache \<Rightarrow> int" where
  "available xs s = int (length xs) + (max_blocks s - current_allocated_count s)"

lemma get_new_blocks_enough:
  assumes inv: "paged_inv xs [] k s" and k: "balanced k" and num: "0 \<le> num" "num \<le> available xs s"
  shows "\<exists>s' xs' bs. get_new_blocks num s = returns bs s' \<and> paged_inv xs' [] k s' \<and>
    length bs = nat num \<and> allocated_blocks s' = allocated_blocks s @ bs \<and>
    (\<forall>b \<in> set bs. ref_count (meta s' b) = 1) \<and> keeps_used s s'"
proof -
  let ?c = "current_allocated_count s"
  define n where "n = (if num > int (length xs)
     then max 0 (min (num - int (length xs) + 128) (max_blocks s - ?c)) else 0)"
  define ys where "ys = xs @ pyrange ?c (?c + n)"
  have room: "num \<le> int (length ys)"
    using num inv_bound [OF inv] by (auto simp: n_def ys_def available_def)
  obtain s1 where s1: "(if num > num_free_blocks (free_block_queue s)
        then and_then (grow_blocks (num - num_free_blocks (free_block_queue s) + 128) s) (\<lambda>_ s1. returns () s1)
        else returns () s) = returns () s1"
    "paged_inv ys [] k s1" "keeps_used s s1" "allocated_blocks s1 = allocated_blocks s"
  proof (cases "num > int (length xs)")
    case True
    from grow_blocks_used [OF inv k, of n "num - int (length xs) + 128"] True obtain s1 where
      "grow_blocks (num - int (length xs) + 128) s = returns n s1" "paged_inv ys [] k s1"
      "keeps_used s s1" "allocated_blocks s1 = allocated_blocks s"
      by (auto simp: n_def ys_def)
    with True that show thesis by (simp add: inv_num_free [OF inv])
  next
    case False
    with that inv show thesis by (simp add: inv_num_free [OF inv] ys_def n_def)
  qed
  from inv_popleft_n [OF s1(2) num(1) room] obtain q where
    q: "on_queue (popleft_n num) s1 = returns (take (nat num) ys) (s1\<lparr>free_block_queue := q\<rparr>)"
    "paged_inv (drop (nat num) ys) (take (nat num) ys @ []) (shift 0 num k) (s1\<lparr>free_block_queue := q\<rparr>)" by blast
  let ?bs = "take (nat num) ys"
  let ?s2 = "fold take_block ?bs (s1\<lparr>free_block_queue := q\<rparr>)"
  have len: "length ?bs = nat num" using room num by simp
  from fold_take_inv [OF q(2)] have f: "paged_inv (drop (nat num) ys) [] (shift (- num) num k) ?s2"
    "allocated_blocks ?s2 = allocated_blocks s1 @ ?bs" "\<forall>b \<in> set ?bs. ref_count (meta ?s2 b) = 1"
    "keeps_used (s1\<lparr>free_block_queue := q\<rparr>) ?s2"
    using len num by simp_all
  have "keeps_used s ?s2"
    using keeps_used_trans [OF keeps_used_trans [OF s1(3) keeps_used_queue] f(4)] s1(4) by simp
  moreover have "paged_inv (drop (nat num) ys) [] k (count_allocated num ?s2)"
    using count_allocated_inv [OF f(1), of num] by simp
  moreover have "get_new_blocks num s = returns ?bs (count_allocated num ?s2)"
    unfolding get_new_blocks_def s1(1) using room q(1) by (simp add: inv_num_free [OF s1(2)])
  moreover have "length ?bs = nat num" "allocated_blocks (count_allocated num ?s2) = allocated_blocks s @ ?bs"
    "\<forall>b \<in> set ?bs. ref_count (meta (count_allocated num ?s2) b) = 1"
    "keeps_used s (count_allocated num ?s2) = keeps_used s ?s2"
    using len f(2,3) s1(4) by simp_all
  ultimately show ?thesis by blast
qed

lemma get_new_blocks_short:
  assumes inv: "paged_inv xs [] k s" and k: "balanced k" and num: "available xs s < num"
  shows "\<exists>s' xs'. get_new_blocks num s = raises ValueError s' \<and> paged_inv xs' [] k s' \<and>
    allocated_blocks s' = allocated_blocks s \<and> keeps_used s s'"
proof -
  let ?c = "current_allocated_count s"
  define n where "n = max_blocks s - ?c"
  have big: "num > int (length xs)" using num inv_bound [OF inv] by (simp add: available_def)
  have n: "max 0 (min (num - int (length xs) + 128) (max_blocks s - ?c)) = n"
    using num inv_bound [OF inv] by (simp add: n_def available_def)
  from grow_blocks_used [OF inv k n [symmetric]] obtain s1 where s1:
      "grow_blocks (num - int (length xs) + 128) s = returns n s1"
      "paged_inv (xs @ pyrange ?c (?c + n)) [] k s1" "keeps_used s s1" "allocated_blocks s1 = allocated_blocks s"
    by blast
  have "num > int (length (xs @ pyrange ?c (?c + n)))"
    using num inv_bound [OF inv] by (simp add: available_def n_def)
  with s1(1) big have "get_new_blocks num s = raises ValueError s1"
    by (simp add: get_new_blocks_def inv_num_free [OF inv] inv_num_free [OF s1(2)])
  with s1 show ?thesis by blast
qed

end
