(* ===== verification/PagedRelease.thy ===== *)
theory PagedRelease
  imports PagedSafe
begin

text \<open>
  Freeing, reference counting and eviction keep \<open>paged_inv\<close>. A freed block joins the end of
  the free queue exactly when its last reference is dropped; the null block is never freed;
  the walks along the free queue end.
\<close>

section \<open>Dropping a reference\<close>

lemma inv_add_to_ref:
  assumes "paged_inv xs fl k s" "b \<in> set (allocated_blocks s)"
  shows "paged_inv xs fl k (upd_block b (\<lambda>m. m\<lparr>ref_count := ref_count m + d\<rparr>) s)"
  using inv_ref_count [OF assms(1), of b "\<lambda>r. r + d"] assms(2) inv_distinct [OF assms(1)] by auto

lemma inv_drop_ref:
  assumes "paged_inv xs fl k s" "b \<in> set (allocated_blocks s)"
  shows "paged_inv xs fl k (upd_block b (\<lambda>m. m\<lparr>ref_count := ref_count m - 1\<rparr>) s)"
  using inv_ref_count [OF assms(1), of b "\<lambda>r. r - 1"] assms(2) inv_distinct [OF assms(1)] by auto

lemma unlisted_own:
  assumes "hash_sound s" "block_hash (meta s b) = None"
  shows "unlisted b s"
  using assms soundD [OF assms(1)] by (auto simp: unlisted_def)

lemma unlisted_pop_own:
  assumes "hash_sound s" "block_hash (meta s b) = Some h"
  shows "unlisted b (s\<lparr>cached_blocks := snd (hash_pop h (Some b) (cached_blocks s))\<rparr>)"
  using assms(2) soundD [OF assms(1)] by (intro unlisted_pop) auto

text \<open>The hash bookkeeping of a freed block, with the cascade: only hashes change.\<close>

definition forget_hash :: "int \<Rightarrow> paged_cache \<Rightarrow> paged_cache" where
  "forget_hash b s = (case block_hash (meta s b) of None \<Rightarrow> s
     | Some h \<Rightarrow> snd (cascade_evict_orphans_locked h (notify_block_content_invalidated b
         (s\<lparr>cached_blocks := snd (hash_pop h (Some b) (cached_blocks s))\<rparr>))))"

lemma quiet_pop: "quiet s (s\<lparr>cached_blocks := snd (hash_pop h c (cached_blocks s))\<rparr>)"
  by (simp add: quiet_def unlisted_pop_mono)

lemma quiet_notify: "quiet s (notify_block_content_invalidated b s)"
  by (simp add: quiet_def)

lemma forget_hash_inv:
  assumes "paged_inv xs fl k s"
  shows "paged_inv xs fl k (forget_hash b s) \<and> quiet s (forget_hash b s) \<and> unlisted b (forget_hash b s)"
proof (cases "block_hash (meta s b)")
  case None
  then show ?thesis using assms unlisted_own [OF inv_sound [OF assms]] by (simp add: forget_hash_def)
next
  case (Some h)
  let ?s1 = "s\<lparr>cached_blocks := snd (hash_pop h (Some b) (cached_blocks s))\<rparr>"
  let ?s2 = "notify_block_content_invalidated b ?s1"
  have 2: "paged_inv xs fl k ?s2" "quiet s ?s2" "unlisted b ?s2"
    using inv_hash_pop [OF assms] quiet_trans [OF quiet_pop quiet_notify]
      unlisted_pop_own [OF inv_sound [OF assms] Some] by simp_all
  have "forget_hash b s = snd (cascade_evict_orphans_locked h ?s2)" by (simp add: forget_hash_def Some)
  then show ?thesis
    using cascade_inv [OF 2(1), of h] 2(3) quietD(10) [OF cascade_inv(2) [OF 2(1)]]
      quiet_trans [OF 2(2) cascade_inv(2) [OF 2(1)]] by auto
qed

lemma free_locked_unfold: "free_block_locked b s =
    (if is_null (meta s b) then returns False s
     else
       let s1 = upd_block b (\<lambda>m. m\<lparr>ref_count := ref_count m - 1\<rparr>) s
       in if ref_count (meta s b) > 1 then returns False s1
          else
            let s2 = forget_hash b s1
            in if b \<notin> set (allocated_blocks s2) then raises KeyError s2
               else returns True
                 (upd_stats (\<lambda>st. st\<lparr>st_allocated_blocks := st_allocated_blocks st - 1,
                      st_free_blocks := st_free_blocks st + 1,
                      st_total_tokens_cached := st_total_tokens_cached st - token_count (meta s2 b)\<rparr>)
                   (alloc_del b s2)))"
  by (simp add: free_block_locked_def forget_hash_def Let_def)

lemma free_locked_shared:
  assumes "paged_inv xs fl k s" "b \<in> set (allocated_blocks s)" "b \<noteq> 0" "1 < ref_count (meta s b)"
  shows "free_block_locked b s = returns False (upd_block b (\<lambda>m. m\<lparr>ref_count := ref_count m - 1\<rparr>) s)"
  using assms inv_null [OF assms(1)] by (simp add: free_locked_unfold)

lemma free_locked_last:
  assumes inv: "paged_inv xs fl k s" and b: "b \<in> set (allocated_blocks s)" "b \<noteq> 0" "ref_count (meta s b) \<le> 1"
  shows "\<exists>s'. free_block_locked b s = returns True s' \<and> paged_inv xs (b # fl) (shift 0 1 k) s' \<and>
    ref_count (meta s' b) \<le> 0 \<and> allocated_blocks s' = remove1 b (allocated_blocks s) \<and>
    (\<forall>c. c \<noteq> b \<longrightarrow> ref_count (meta s' c) = ref_count (meta s c))"
proof -
  let ?s1 = "upd_block b (\<lambda>m. m\<lparr>ref_count := ref_count m - 1\<rparr>) s"
  let ?s2 = "forget_hash b ?s1"
  let ?s3 = "upd_stats (\<lambda>st. st\<lparr>st_allocated_blocks := st_allocated_blocks st - 1,
                      st_free_blocks := st_free_blocks st + 1,
                      st_total_tokens_cached := st_total_tokens_cached st - token_count (meta ?s2 b)\<rparr>)
                   (alloc_del b ?s2)"
  from forget_hash_inv [OF inv_drop_ref [OF inv b(1)], of b] have 2: "paged_inv xs fl k ?s2"
    "quiet ?s1 ?s2" "unlisted b ?s2" by auto
  note q = quietD [OF 2(2)]
  have "paged_inv xs (b # fl) (shift 1 0 k) (alloc_del b ?s2)"
    by (rule inv_alloc_del [OF 2(1) _ 2(3) b(2)]) (use q(1) b(1) in simp)
  from inv_upd_stats [OF this, of _ "- 1" 1] have "paged_inv xs (b # fl) (shift 0 1 k) ?s3" by simp
  moreover have "free_block_locked b s = returns True ?s3"
    using b q(1) inv_null [OF inv, of b] by (simp add: free_locked_unfold Let_def)
  ultimately show ?thesis using q(1,9) b(3) by (intro exI [of _ ?s3]) simp
qed

section \<open>Freeing one block\<close>

definition drops :: "int \<Rightarrow> paged_cache \<Rightarrow> bool" where
  "drops b s \<longleftrightarrow> b \<in> set (allocated_blocks s) \<and> b \<noteq> 0 \<and> ref_count (meta s b) \<le> 1"

lemma flush_sel [simp]:
  "allocated_blocks (flush_content_invalidated s) = allocated_blocks s"
  "meta (flush_content_invalidated s) = meta s" "stats (flush_content_invalidated s) = stats s"
  "free_block_queue (flush_content_invalidated s) = free_block_queue s"
  "cached_blocks (flush_content_invalidated s) = cached_blocks s"
  "max_blocks (flush_content_invalidated s) = max_blocks s"
  "current_allocated_count (flush_content_invalidated s) = current_allocated_count s"
  "tables (flush_content_invalidated s) = tables s" "blocks (flush_content_invalidated s) = blocks s"
  "block_size (flush_content_invalidated s) = block_size s"
  by (simp_all add: flush_content_invalidated_def)

lemma free_block_drops:
  assumes inv: "paged_inv xs [] k s" and "drops b s"
  shows "\<exists>s'. free_block b s = returns True s' \<and> paged_inv (xs @ [b]) [] k s' \<and>
    allocated_blocks s' = remove1 b (allocated_blocks s) \<and>
    (\<forall>c. c \<noteq> b \<longrightarrow> ref_count (meta s' c) = ref_count (meta s c))"
proof -
  from assms(2) have b: "b \<in> set (allocated_blocks s)" "b \<noteq> 0" "ref_count (meta s b) \<le> 1" by (auto simp: drops_def)
  from free_locked_last [OF inv b] obtain s1 where s1: "free_block_locked b s = returns True s1"
    "paged_inv xs [b] (shift 0 1 k) s1" "ref_count (meta s1 b) \<le> 0"
    "allocated_blocks s1 = remove1 b (allocated_blocks s)"
    "\<forall>c. c \<noteq> b \<longrightarrow> ref_count (meta s1 c) = ref_count (meta s c)" by blast
  from inv_append [OF s1(2,3)] obtain q where "on_queue (append_block b) s1 = returns () (s1\<lparr>free_block_queue := q\<rparr>)"
    "paged_inv (xs @ [b]) [] k (s1\<lparr>free_block_queue := q\<rparr>)" by auto
  with s1 b show ?thesis by (simp add: free_block_def)
qed

lemma free_block_keeps:
  assumes inv: "paged_inv xs [] k s" and "\<not> drops b s"
  shows "\<exists>s'. free_block b s = returns False s' \<and> paged_inv xs [] k s' \<and>
    allocated_blocks s' = allocated_blocks s \<and> free_block_queue s' = free_block_queue s \<and>
    (\<forall>c. ref_count (meta s' c) = ref_count (meta s c) -
       (if c = b \<and> b \<in> set (allocated_blocks s) \<and> b \<noteq> 0 then 1 else 0))"
proof (cases "b \<in> set (allocated_blocks s) \<and> b \<noteq> 0")
  case True
  with assms(2) have r: "1 < ref_count (meta s b)" by (auto simp: drops_def)
  from True free_locked_shared [OF inv _ _ r] show ?thesis
    by (auto simp: free_block_def inv_drop_ref [OF inv])
next
  case False
  then have "free_block b s = returns False (if b \<in> set (allocated_blocks s) then flush_content_invalidated s else s)"
    using inv_null [OF inv, of b] by (auto simp: free_block_def free_locked_unfold)
  with False inv show ?thesis by auto
qed

lemma free_block_inv:
  assumes "paged_inv xs [] k s"
  shows "\<exists>r s' xs'. free_block b s = returns r s' \<and> paged_inv xs' [] k s' \<and>
     set (allocated_blocks s') = set (allocated_blocks s) - (if drops b s then {b} else {})"
proof (cases "drops b s")
  case True
  have "distinct (allocated_blocks s)" using inv_distinct [OF assms] by simp
  with free_block_drops [OF assms True] True show ?thesis by (fastforce simp: set_remove1_distinct)
next
  case False
  with free_block_keeps [OF assms False] show ?thesis by fastforce
qed

lemma free_all_inv:
  assumes "paged_inv xs [] k s"
  shows "\<exists>s' xs'. free_all bs s = returns () s' \<and> paged_inv xs' [] k s'"
  using assms
proof (induction bs arbitrary: s xs)
  case Nil
  then show ?case by auto
next
  case (Cons b bs)
  from free_block_inv [OF Cons.prems, of b] obtain r s1 xs1 where
    "free_block b s = returns r s1" "paged_inv xs1 [] k s1" by blast
  with Cons.IH [of xs1 s1] show ?case by auto
qed

section \<open>Freeing a batch\<close>

text \<open>
  A batch without repetitions, of blocks in use: all dropped blocks join the queue together,
  in the order of the batch.
\<close>

lemma free_each_inv:
  assumes "paged_inv xs fl k s" "distinct bs" "set bs \<subseteq> set (allocated_blocks s)"
    and "set fr = set fl" "distinct fr" "\<forall>b \<in> set fl. ref_count (meta s b) \<le> 0"
  shows "\<exists>s'. free_each bs fr s = returns (fr @ filter (\<lambda>b. drops b s) bs) s' \<and>
    paged_inv xs (rev (filter (\<lambda>b. drops b s) bs) @ fl) (shift 0 (int (length (filter (\<lambda>b. drops b s) bs))) k) s' \<and>
    (\<forall>b \<in> set fl \<union> set (filter (\<lambda>b. drops b s) bs). ref_count (meta s' b) \<le> 0)"
  using assms
proof (induction bs arbitrary: s fl fr k)
  case Nil
  then show ?case by simp
next
  case (Cons b bs)
  show ?case
  proof (cases "drops b s")
    case True
    then have b: "b \<in> set (allocated_blocks s)" "b \<noteq> 0" "ref_count (meta s b) \<le> 1" by (auto simp: drops_def)
    from free_locked_last [OF Cons.prems(1) b] obtain s1 where s1: "free_block_locked b s = returns True s1"
      "paged_inv xs (b # fl) (shift 0 1 k) s1" "ref_count (meta s1 b) \<le> 0"
      "allocated_blocks s1 = remove1 b (allocated_blocks s)"
      "\<forall>c. c \<noteq> b \<longrightarrow> ref_count (meta s1 c) = ref_count (meta s c)" by blast
    have d: "distinct (allocated_blocks s)" "b \<notin> set fl"
      using inv_distinct [OF Cons.prems(1)] b(1) by auto
    have same: "filter (\<lambda>c. drops c s1) bs = filter (\<lambda>c. drops c s) bs"
      using Cons.prems(2) s1(4,5) d by (intro filter_cong) (auto simp: drops_def set_remove1_distinct)
    have "\<exists>s'. free_each bs (fr @ [b]) s1 = returns ((fr @ [b]) @ filter (\<lambda>b. drops b s1) bs) s' \<and>
      paged_inv xs (rev (filter (\<lambda>b. drops b s1) bs) @ b # fl)
        (shift 0 (int (length (filter (\<lambda>b. drops b s1) bs))) (shift 0 1 k)) s' \<and>
      (\<forall>c \<in> set (b # fl) \<union> set (filter (\<lambda>b. drops b s1) bs). ref_count (meta s' c) \<le> 0)"
      by (rule Cons.IH [OF s1(2)])
        (use Cons.prems s1 d in \<open>auto simp: set_remove1_distinct\<close>)
    then show ?thesis using True s1(1) by (auto simp: same algebra_simps)
  next
    case False
    then have "b = 0 \<or> 1 < ref_count (meta s b)" using Cons.prems(3) by (auto simp: drops_def)
    then obtain s1 where s1: "free_block_locked b s = returns False s1" "paged_inv xs fl k s1"
      "allocated_blocks s1 = allocated_blocks s" "\<forall>c. c \<noteq> b \<longrightarrow> ref_count (meta s1 c) = ref_count (meta s c)"
    proof (cases "b = 0")
      case True
      with that Cons.prems(1) inv_null [OF Cons.prems(1)] show ?thesis by (auto simp: free_locked_unfold)
    next
      case False
      assume "b = 0 \<or> 1 < ref_count (meta s b)"
      with False Cons.prems have "b \<in> set (allocated_blocks s)" "1 < ref_count (meta s b)" by auto
      with that free_locked_shared [OF Cons.prems(1) this(1) False this(2)] inv_drop_ref [OF Cons.prems(1) this(1)]
      show ?thesis by simp
    qed
    have d: "b \<notin> set fl" using inv_distinct [OF Cons.prems(1)] Cons.prems(3) by auto
    have same: "filter (\<lambda>c. drops c s1) bs = filter (\<lambda>c. drops c s) bs"
      using Cons.prems(2) s1(3,4) by (intro filter_cong) (auto simp: drops_def)
    have "\<exists>s'. free_each bs fr s1 = returns (fr @ filter (\<lambda>b. drops b s1) bs) s' \<and>
      paged_inv xs (rev (filter (\<lambda>b. drops b s1) bs) @ fl)
        (shift 0 (int (length (filter (\<lambda>b. drops b s1) bs))) k) s' \<and>
      (\<forall>c \<in> set fl \<union> set (filter (\<lambda>b. drops b s1) bs). ref_count (meta s' c) \<le> 0)"
      by (rule Cons.IH [OF s1(2)]) (use Cons.prems s1 d in auto)
    then show ?thesis using False s1(1) by (simp add: same)
  qed
qed

lemma inv_append_n:
  assumes "paged_inv xs (rev bs) k s" "\<forall>b \<in> set bs. ref_count (meta s b) \<le> 0"
  shows "\<exists>q. on_queue (append_n bs) s = returns () (s\<lparr>free_block_queue := q\<rparr>) \<and>
    paged_inv (xs @ bs) [] (shift 0 (- int (length bs)) k) (s\<lparr>free_block_queue := q\<rparr>)"
proof -
  have "distinct (xs @ bs)" using inv_distinct [OF assms(1)] by auto
  moreover have "fake_head \<notin> set bs" "fake_tail \<notin> set bs"
    using inv_nonneg [OF assms(1)] by (auto dest: nonneg_sentinel)
  ultimately obtain q where q: "append_n bs (free_block_queue s) = returns () q" "queue_rep q (xs @ bs)"
    using rep_append_n [OF inv_queue [OF assms(1)]] by (meson givesE)
  have "paged_inv (xs @ bs) [] (shift 0 (- int (length bs)) k) (s\<lparr>free_block_queue := q\<rparr>)"
    by (rule inv_move [OF assms(1)]) (use q(2) inv_unreferenced [OF assms(1)] assms(2) in auto)
  with on_queue_returns [of "append_n bs" s, OF q(1)] show ?thesis by blast
qed

lemma free_blocks_batch_inv:
  assumes "paged_inv xs [] k s" "distinct bs" "set bs \<subseteq> set (allocated_blocks s)"
  shows "\<exists>s'. free_blocks_batch bs s = returns () s' \<and>
    paged_inv (xs @ filter (\<lambda>b. drops b s) bs) [] k s'"
proof -
  let ?fs = "filter (\<lambda>b. drops b s) bs"
  from free_each_inv [OF assms, of "[]"] obtain s1 where s1: "free_each bs [] s = returns ?fs s1"
    "paged_inv xs (rev ?fs) (shift 0 (int (length ?fs)) k) s1" "\<forall>b \<in> set ?fs. ref_count (meta s1 b) \<le> 0"
    by auto
  from inv_append_n [OF s1(2,3)] s1(1) show ?thesis by (auto simp: free_blocks_batch_def)
qed

end
