(* ===== verification/PagedReclaim.thy ===== *)
theory PagedReclaim
  imports PagedRelease
begin

text \<open>
  Reference counting and the eviction operations keep \<open>paged_inv\<close>; the walks along the free
  queue end, and the block-level evictions put a block on the queue exactly once.
\<close>

section \<open>Taking and returning references\<close>

lemma add_ref_inv:
  assumes "paged_inv xs fl k s" "b \<in> set (allocated_blocks s)"
  shows "paged_inv xs fl k (add_ref b s)"
  unfolding add_ref_def Let_def
  by (auto simp: inv_add_to_ref [OF assms] intro!: inv_upd_stats_same)

lemma add_ref_sel [simp]:
  "allocated_blocks (add_ref b s) = allocated_blocks s" "free_block_queue (add_ref b s) = free_block_queue s"
  "cached_blocks (add_ref b s) = cached_blocks s" "block_size (add_ref b s) = block_size s"
  "enable_caching (add_ref b s) = enable_caching s" "model_name (add_ref b s) = model_name s"
  "current_allocated_count (add_ref b s) = current_allocated_count s"
  "ref_count (meta (add_ref b s) c) = ref_count (meta s c) + (if c = b then 1 else 0)"
  "tables (add_ref b s) = tables s" "ssd_has_block (add_ref b s) = ssd_has_block s"
  "block_hash (meta (add_ref b s) c) = block_hash (meta s c)"
  by (auto simp: add_ref_def Let_def)

text \<open>A touched block that is free leaves the queue; nothing else moves.\<close>

lemma claim_inv:
  assumes "paged_inv xs fl k s" "b \<in> set xs \<Longrightarrow> ref_count (meta s b) < 0"
  shows "paged_inv xs fl k (touch_block b (upd_block b (\<lambda>m. m\<lparr>ref_count := ref_count m + 1\<rparr>) s))"
  using inv_ref_count [OF assms(1), of b "\<lambda>r. r + 1"] assms(2) by fastforce

lemma touch_one_inv:
  assumes inv: "paged_inv xs [] k s" and b: "0 \<le> b"
  shows "\<exists>xs'. paged_inv xs' [] k (touch_one b s)"
proof (cases "ref_count (meta s b) = 0 \<and> \<not> is_null (meta s b)")
  case False
  have "b \<in> set xs \<Longrightarrow> ref_count (meta s b) < 0"
    using False inv_unreferenced [OF inv, of b] inv_null [OF inv, of b] inv_null_alloc [OF inv]
      inv_distinct [OF inv] by force
  from claim_inv [OF inv this] False show ?thesis by (auto simp: touch_one_def)
next
  case True
  show ?thesis
  proof (cases "b \<in> set xs")
    case False
    have "remove_block b (free_block_queue s) = raises RuntimeError (free_block_queue s)"
      by (rule fq.remove_no [OF inv_queue [OF inv] False]) (simp add: is_block_id_def b)
    with True inv show ?thesis
      by (auto simp: touch_one_def on_queue_raises raises_def intro!: inv_upd_stats_same)
  next
    case in_q: True
    let ?u = "upd_stats (\<lambda>st. st\<lparr>st_free_blocks := st_free_blocks st - 1,
                    st_allocated_blocks := st_allocated_blocks st + 1\<rparr>)"
    from inv_remove [OF inv in_q] obtain q where
      q: "on_queue (remove_block b) s = returns () (s\<lparr>free_block_queue := q\<rparr>)"
      "paged_inv (remove1 b xs) [b] (shift 0 1 k) (s\<lparr>free_block_queue := q\<rparr>)" by blast
    have "paged_inv (remove1 b xs) [b] (shift 1 (- 1) (shift 0 1 k)) (?u (s\<lparr>free_block_queue := q\<rparr>))"
      by (rule inv_upd_stats [OF q(2)]) simp_all
    from inv_alloc_add [OF this] have 2: "paged_inv (remove1 b xs) [] k (alloc_add b (?u (s\<lparr>free_block_queue := q\<rparr>)))"
      by simp
    have "b \<notin> set (remove1 b xs)" using inv_distinct [OF inv] by (simp add: set_remove1_distinct)
    with claim_inv [OF 2, of b] True q(1) show ?thesis by (auto simp: touch_one_def returns_def)
  qed
qed

lemma touch_inv:
  assumes "paged_inv xs [] k s" "\<forall>b \<in> set bs. 0 \<le> b"
  shows "\<exists>xs'. paged_inv xs' [] k (touch bs s)"
  using assms
proof (induction bs arbitrary: s xs)
  case Nil
  then show ?case by (auto simp: touch_def)
next
  case (Cons b bs)
  from touch_one_inv [OF Cons.prems(1)] Cons.prems(2) obtain ys where "paged_inv ys [] k (touch_one b s)" by auto
  from Cons.IH [OF this] Cons.prems(2) show ?case by (simp add: touch_def)
qed

lemma increment_ref_inv: "paged_inv xs [] k s \<Longrightarrow> paged_inv xs [] k (snd (increment_ref b s))"
  by (simp add: increment_ref_def add_ref_inv)

lemma release_each_inv:
  assumes "paged_inv xs [] k s" "release_each bs n s = (n', s')"
  shows "paged_inv xs [] k s' \<and> allocated_blocks s' = allocated_blocks s"
  using assms
proof (induction bs arbitrary: n s)
  case Nil
  then show ?case by simp
next
  case (Cons b bs)
  let ?s1 = "upd_block b (\<lambda>m. m\<lparr>ref_count := ref_count m - 1\<rparr>) s"
  let ?s2 = "if ref_count (meta ?s1 b) = 1
    then upd_stats (\<lambda>st. st\<lparr>st_shared_blocks := max 0 (st_shared_blocks st - 1)\<rparr>) ?s1 else ?s1"
  show ?case
  proof (cases "b \<notin> set (allocated_blocks s) \<or> is_null (meta s b) \<or> \<not> ref_count (meta s b) > 0")
    case True
    then have "release_each bs n s = (n', s')" using Cons.prems(2) by (auto split: if_splits)
    with Cons.IH Cons.prems(1) show ?thesis by blast
  next
    case False
    then have "paged_inv xs [] k ?s2"
      using inv_drop_ref [OF Cons.prems(1), of b] by (auto intro!: inv_upd_stats_same)
    moreover from False have "release_each bs (n + 1) ?s2 = (n', s')"
      using Cons.prems(2) by (simp add: Let_def)
    ultimately show ?thesis using Cons.IH [of ?s2 "n + 1"] by auto
  qed
qed

section \<open>Eviction along the free queue\<close>

lemma evict_node_inv:
  assumes inv: "paged_inv xs [] k s" and c: "c \<in> set xs"
  shows "paged_inv xs [] k (evict_node c s) \<and> free_block_queue (evict_node c s) = free_block_queue s \<and>
    allocated_blocks (evict_node c s) = allocated_blocks s \<and>
    (\<forall>b. ref_count (meta (evict_node c s) b) = ref_count (meta s b))"
proof -
  let ?s1 = "case block_hash (meta s c) of None \<Rightarrow> s
     | Some h \<Rightarrow> s\<lparr>cached_blocks := snd (hash_pop h None (cached_blocks s))\<rparr>"
  let ?s2 = "upd_stats (\<lambda>st. st\<lparr>st_total_tokens_cached :=
                 st_total_tokens_cached st - token_count (meta ?s1 c)\<rparr>) ?s1"
  let ?s3 = "notify_block_content_invalidated c (upd_block c reset_hash ?s2)"
  let ?s4 = "upd_block c (\<lambda>m. m\<lparr>token_count := 0\<rparr>) ?s3"
  have c': "c \<notin> set (allocated_blocks s)" using inv_distinct [OF inv] c by auto
  have 1: "paged_inv xs [] k ?s1" using inv_hash_pop [OF inv] inv by (simp split: option.split)
  have same: "free_block_queue ?s1 = free_block_queue s" "allocated_blocks ?s1 = allocated_blocks s"
    "meta ?s1 = meta s" by (simp_all split: option.split)
  have 2: "paged_inv xs [] k ?s2" by (rule inv_upd_stats_same [OF 1]) simp_all
  have 4: "paged_inv xs [] k ?s4"
    using inv_reset_hash [OF 2 unlisted_free [OF 2]] c by (intro inv_token_count) simp
  have e: "evict_node c s = upd_stats (\<lambda>st. st\<lparr>st_evictions := st_evictions st + 1\<rparr>) ?s4"
    using c' same by (simp add: evict_node_def Let_def)
  show ?thesis unfolding e using inv_upd_stats_same [OF 4] same by simp
qed

lemma evict_step_inv:
  assumes inv: "paged_inv xs [] k s" and c: "c \<in> set xs" and e: "evict_step c e s = (e', s')"
  shows "paged_inv xs [] k s' \<and> free_block_queue s' = free_block_queue s \<and>
    allocated_blocks s' = allocated_blocks s \<and> e' = e + 1 \<and>
    (\<forall>b. ref_count (meta s' b) = ref_count (meta s b))"
proof -
  note n = evict_node_inv [OF inv c]
  have "\<not> is_null (meta s c)" using inv_null [OF inv] inv_null_alloc [OF inv] inv_distinct [OF inv] c by auto
  moreover have "\<not> ref_count (meta s c) > 0" using inv_unreferenced [OF inv c] by simp
  ultimately have "e' = e + 1" "s' = (case block_hash (meta s c) of None \<Rightarrow> evict_node c s
      | Some h \<Rightarrow> snd (cascade_evict_orphans_locked h (evict_node c s)))"
    using e by (auto simp: evict_step_def Let_def)
  then show ?thesis
    using n cascade_inv(1) [of xs "[]" k "evict_node c s"] quietD(1,2,9) [OF cascade_inv(2) [OF conjunct1 [OF n]]]
    by (auto split: option.split)
qed

lemma evict_walk_inv:
  assumes "paged_inv xs [] k s" "xs = us @ ys"
  shows "\<exists>n s'. evict_lru_walk num (Some (hd (ys @ [fake_tail]))) e s = Some (n, s') \<and> paged_inv xs [] k s' \<and>
    n = max e (min num (e + int (length ys))) \<and> allocated_blocks s' = allocated_blocks s \<and>
    (\<forall>b. ref_count (meta s' b) = ref_count (meta s b))"
  using assms
proof (induction ys arbitrary: us e s)
  case Nil
  then show ?case by (subst evict_lru_walk.simps) auto
next
  case (Cons c ys)
  have c: "c \<in> set xs" "c \<noteq> fake_tail"
    using Cons.prems inv_nonneg [OF Cons.prems(1), of c] nonneg_sentinel by auto
  show ?case
  proof (cases "e \<ge> num")
    case True
    with Cons.prems(1) show ?thesis by (subst evict_lru_walk.simps) auto
  next
    case False
    obtain e1 s1 where st: "evict_step c e s = (e1, s1)" by force
    note 1 = evict_step_inv [OF Cons.prems(1) c(1) st]
    have "chain (next_free (free_block_queue s)) (prev_free (free_block_queue s)) fake_head
        (us @ c # ys) fake_tail"
      using queue_repD(1) [OF inv_queue [OF Cons.prems(1)]] Cons.prems(2) by simp
    then have nx: "next_free (free_block_queue s1) c = Some (hd (ys @ [fake_tail]))"
      using 1 by (cases ys) (auto simp: chain_append)
    from Cons.IH [of s1 "us @ [c]" e1] 1 Cons.prems(2) obtain n s' where
      "evict_lru_walk num (Some (hd (ys @ [fake_tail]))) e1 s1 = Some (n, s')" "paged_inv xs [] k s'"
      "n = max e1 (min num (e1 + int (length ys)))" "allocated_blocks s' = allocated_blocks s1"
      "\<forall>b. ref_count (meta s' b) = ref_count (meta s1 b)" by auto
    moreover have "evict_lru_walk num (Some c) e s = evict_lru_walk num (next_free (free_block_queue s1) c) e1 s1"
      using c(2) False st by (subst evict_lru_walk.simps) simp
    ultimately show ?thesis using nx False 1 by auto
  qed
qed

text \<open>The walk ends; it evicts as many free blocks as were asked for, or all of them.\<close>

lemma evict_lru_locked_inv:
  assumes "paged_inv xs [] k s"
  shows "\<exists>s'. evict_lru_blocks_locked num s = Some (max 0 (min num (int (length xs))), s') \<and> paged_inv xs [] k s' \<and>
    allocated_blocks s' = allocated_blocks s \<and> (\<forall>b. ref_count (meta s' b) = ref_count (meta s b))"
proof -
  have "next_free (free_block_queue s) fake_head = Some (hd (xs @ [fake_tail]))"
    using queue_repD(1) [OF inv_queue [OF assms]] by (cases xs) auto
  with evict_walk_inv [OF assms, of "[]" xs num 0] show ?thesis by (auto simp: evict_lru_blocks_locked_def)
qed

section \<open>Reclaiming unreferenced cached blocks\<close>

lemma pop_own_hash_inv:
  assumes "paged_inv xs fl k s"
  shows "paged_inv xs fl k (pop_own_hash b s) \<and> unlisted b (pop_own_hash b s) \<and> quiet s (pop_own_hash b s) \<and>
    meta (pop_own_hash b s) = meta s \<and> blocks (pop_own_hash b s) = blocks s"
  using assms inv_hash_pop [OF assms] unlisted_own [OF inv_sound [OF assms]] unlisted_pop_own [OF inv_sound [OF assms]]
  by (auto simp: pop_own_hash_def quiet_pop split: option.split)

text \<open>Clearing a block's metadata and taking it out of the allocated map.\<close>

lemma strip_inv:
  assumes inv: "paged_inv xs [] k s" and b: "b \<in> set (allocated_blocks s)" "b \<noteq> 0" and u: "unlisted b s"
  shows "paged_inv xs [b] k (upd_stats (\<lambda>st. st\<lparr>st_allocated_blocks := st_allocated_blocks st - 1\<rparr>)
     (alloc_del b (upd_block b (\<lambda>m. m\<lparr>token_count := 0\<rparr>) (upd_block b reset_hash s))))"
proof -
  have "paged_inv xs [] k (upd_block b (\<lambda>m. m\<lparr>token_count := 0\<rparr>) (upd_block b reset_hash s))"
    by (intro inv_token_count inv_reset_hash inv u)
  from inv_alloc_del [OF this, of b] b u
  have "paged_inv xs [b] (shift 1 0 k) (alloc_del b (upd_block b (\<lambda>m. m\<lparr>token_count := 0\<rparr>) (upd_block b reset_hash s)))"
    by simp
  from inv_upd_stats [OF this, of "\<lambda>st. st\<lparr>st_allocated_blocks := st_allocated_blocks st - 1\<rparr>" "- 1" 0]
  show ?thesis by simp
qed

lemma notify_commute: "notify_block_content_invalidated b (upd_block c f s) =
    upd_block c f (notify_block_content_invalidated b s)"
  by (simp add: notify_block_content_invalidated_def upd_block_def)

lemma reclaim_node_inv:
  assumes inv: "paged_inv xs [] k s" and b: "b \<in> set (allocated_blocks s)" "b \<noteq> 0" "ref_count (meta s b) \<le> 0"
  shows "\<exists>s'. reclaim_node b s = returns () s' \<and> paged_inv (xs @ [b]) [] k s' \<and>
    allocated_blocks s' = remove1 b (allocated_blocks s) \<and> (\<forall>c. ref_count (meta s' c) = ref_count (meta s c))"
proof -
  let ?s1 = "pop_own_hash b s"
  let ?s2 = "notify_block_content_invalidated b (upd_stats (\<lambda>st. st\<lparr>st_total_tokens_cached :=
                 st_total_tokens_cached st - token_count (meta ?s1 b)\<rparr>) ?s1)"
  let ?s5 = "upd_stats (\<lambda>st. st\<lparr>st_allocated_blocks := st_allocated_blocks st - 1\<rparr>)
     (alloc_del b (upd_block b (\<lambda>m. m\<lparr>token_count := 0\<rparr>) (upd_block b reset_hash ?s2)))"
  let ?s6 = "upd_stats (\<lambda>st. st\<lparr>st_free_blocks := st_free_blocks st + 1\<rparr>) ?s5"
  have 1: "paged_inv xs [] k ?s1" "unlisted b ?s1" "quiet s ?s1" "meta ?s1 = meta s"
    using pop_own_hash_inv [OF inv] by auto
  note q = quietD [OF 1(3)]
  have "paged_inv xs [] k ?s2" using inv_upd_stats_same [OF 1(1)] by simp
  then have "paged_inv xs [b] k ?s5" by (rule strip_inv) (use b 1(2) q(1) in simp_all)
  from inv_upd_stats [OF this, of "\<lambda>st. st\<lparr>st_free_blocks := st_free_blocks st + 1\<rparr>" 0 1]
  have 6: "paged_inv xs [b] (shift 0 1 k) ?s6" by simp
  have "ref_count (meta ?s6 b) \<le> 0" using b(3) 1(4) by simp
  from inv_append [OF 6 this] obtain qq where
    qq: "on_queue (append_block b) ?s6 = returns () (?s6\<lparr>free_block_queue := qq\<rparr>)"
    "paged_inv (xs @ [b]) [] k (?s6\<lparr>free_block_queue := qq\<rparr>)" by auto
  have "reclaim_node b s = returns () (upd_stats (\<lambda>st. st\<lparr>st_evictions := st_evictions st + 1\<rparr>) (?s6\<lparr>free_block_queue := qq\<rparr>))"
    using qq(1) b(1) q(1) by (simp add: reclaim_node_def Let_def notify_commute)
  with inv_upd_stats_same [OF qq(2)] q(1,9) 1(4) show ?thesis by simp
qed

lemma reclaim_loop_inv:
  assumes "paged_inv xs [] k s" "distinct cs" "\<forall>c \<in> set cs. c \<in> set (allocated_blocks s) \<and> c \<noteq> 0 \<and> ref_count (meta s c) \<le> 0"
  shows "\<exists>n m s'. reclaim_loop num cs e s = returns n s' \<and> paged_inv (xs @ take m cs) [] k s' \<and>
    e + int m \<le> n \<and> (n < num \<longrightarrow> m = length cs) \<and> (cs \<noteq> [] \<longrightarrow> e < num \<longrightarrow> 0 < m) \<and> m \<le> length cs \<and>
    (\<forall>c. ref_count (meta s' c) = ref_count (meta s c)) \<and>
    set (allocated_blocks s') = set (allocated_blocks s) - set (take m cs)"
  using assms
proof (induction cs arbitrary: xs e s)
  case Nil
  then show ?case by auto
next
  case (Cons b cs)
  show ?case
  proof (cases "e \<ge> num")
    case True
    with Cons.prems(1) show ?thesis by (intro exI [of _ e] exI [of _ 0] exI [of _ s]) simp
  next
    case False
    from reclaim_node_inv [OF Cons.prems(1), of b] Cons.prems(3) obtain s1 where
      s1: "reclaim_node b s = returns () s1" "paged_inv (xs @ [b]) [] k s1"
        "allocated_blocks s1 = remove1 b (allocated_blocks s)" "\<forall>c. ref_count (meta s1 c) = ref_count (meta s c)" by auto
    obtain n1 s2 where 2: "(case block_hash (meta s b) of None \<Rightarrow> (0, s1)
        | Some h \<Rightarrow> cascade_evict_orphans_locked h s1) = (n1, s2)" by force
    have inv2: "paged_inv (xs @ [b]) [] k s2" "quiet s1 s2" "0 \<le> n1"
      using 2 s1(2) cascade_inv [OF s1(2)] by (auto simp: prod_eq_iff split: option.splits)
    have step: "reclaim_loop num (b # cs) e s = reclaim_loop num cs (e + 1 + n1) s2"
      using False s1(1) 2 by (auto simp: Let_def split: option.splits)
    have d: "distinct (allocated_blocks s)" using inv_distinct [OF Cons.prems(1)] by simp
    have "\<forall>c \<in> set cs. c \<in> set (allocated_blocks s2) \<and> c \<noteq> 0 \<and> ref_count (meta s2 c) \<le> 0"
      using Cons.prems(2,3) s1(3,4) quietD(1,9) [OF inv2(2)] d by (auto simp: set_remove1_distinct)
    from Cons.IH [OF inv2(1) _ this, of "e + 1 + n1"] Cons.prems(2) obtain n m s' where
      "reclaim_loop num cs (e + 1 + n1) s2 = returns n s'" "paged_inv ((xs @ [b]) @ take m cs) [] k s'"
      "e + 1 + n1 + int m \<le> n" "n < num \<longrightarrow> m = length cs" "m \<le> length cs"
      "\<forall>c. ref_count (meta s' c) = ref_count (meta s2 c)"
      "set (allocated_blocks s') = set (allocated_blocks s2) - set (take m cs)" by auto
    with step s1(3,4) quietD(1,9) [OF inv2(2)] inv2(3) d show ?thesis
      by (intro exI [of _ n] exI [of _ "Suc m"] exI [of _ s']) (auto simp: set_remove1_distinct)
  qed
qed

lemma evict_candidates_ok:
  assumes "paged_inv xs [] k s"
  shows "distinct (evict_candidates s)"
    "\<forall>c \<in> set (evict_candidates s). c \<in> set (allocated_blocks s) \<and> c \<noteq> 0 \<and> ref_count (meta s c) \<le> 0"
  using inv_distinct [OF assms] inv_null [OF assms] by (auto simp: evict_candidates_def)

lemma evict_cached_inv:
  assumes "paged_inv xs [] k s"
  shows "\<exists>n m s'. evict_cached_blocks_locked num s = returns n s' \<and>
    paged_inv (xs @ take m (evict_candidates s)) [] k s' \<and> int m \<le> n \<and>
    (0 < num \<longrightarrow> evict_candidates s \<noteq> [] \<longrightarrow> 0 < m) \<and> (0 < num \<longrightarrow> n < num \<longrightarrow> m = length (evict_candidates s)) \<and>
    m \<le> length (evict_candidates s) \<and> (\<forall>c. ref_count (meta s' c) = ref_count (meta s c)) \<and>
    set (allocated_blocks s') = set (allocated_blocks s) - set (take m (evict_candidates s))"
proof (cases "num \<le> 0")
  case True
  with assms show ?thesis
    by (intro exI [of _ 0] exI [of _ 0] exI [of _ s]) (simp add: evict_cached_blocks_locked_def)
next
  case False
  with reclaim_loop_inv [OF assms evict_candidates_ok [OF assms], of num 0] show ?thesis
    by (auto simp: evict_cached_blocks_locked_def)
qed

text \<open>Memory pressure: the call ends, raises nothing and reports the truth.\<close>

lemma handle_memory_pressure_inv:
  assumes "paged_inv xs [] k s"
  shows "\<exists>s' xs'. handle_memory_pressure requested s = Some (returns (requested \<le> int (length xs')) s') \<and>
    paged_inv xs' [] k s' \<and> length xs \<le> length xs' \<and>
    (\<forall>b \<in> set (allocated_blocks s). 0 < ref_count (meta s b) \<longrightarrow> b \<in> set (allocated_blocks s'))"
proof (cases "num_free_blocks (free_block_queue s) \<ge> requested")
  case True
  with assms inv_num_free [OF assms] show ?thesis by (auto simp: handle_memory_pressure_def)
next
  case False
  from evict_lru_locked_inv [OF assms, of "requested - num_free_blocks (free_block_queue s)"] obtain n s1 where
    s1: "evict_lru_blocks_locked (requested - num_free_blocks (free_block_queue s)) s = Some (n, s1)"
    "paged_inv xs [] k s1" "allocated_blocks s1 = allocated_blocks s"
    "\<forall>b. ref_count (meta s1 b) = ref_count (meta s b)" by blast
  from evict_cached_inv [OF s1(2), of "requested - num_free_blocks (free_block_queue s1)"] obtain n2 m s2 where
    s2: "evict_cached_blocks_locked (requested - num_free_blocks (free_block_queue s1)) s1 = returns n2 s2"
    "paged_inv (xs @ take m (evict_candidates s1)) [] k s2"
    "set (allocated_blocks s2) = set (allocated_blocks s1) - set (take m (evict_candidates s1))" by blast
  have "num_free_blocks (free_block_queue s1) < requested"
    using False inv_num_free [OF assms] inv_num_free [OF s1(2)] by simp
  with False s1(1) s2(1) have "handle_memory_pressure requested s =
      Some (returns (requested \<le> int (length (xs @ take m (evict_candidates s1)))) (flush_content_invalidated s2))"
    by (simp add: handle_memory_pressure_def inv_num_free [OF s2(2)] del: length_append)
  moreover have "b \<in> set (allocated_blocks s2)" if "b \<in> set (allocated_blocks s)" "0 < ref_count (meta s b)" for b
    using that s1(3,4) s2(3) evict_candidates_ok(2) [OF s1(2)] by (auto dest!: in_set_takeD)
  ultimately show ?thesis using s2(2)
    by (intro exI [of _ "flush_content_invalidated s2"] exI [of _ "xs @ take m (evict_candidates s1)"]) simp
qed

section \<open>Evicting one block\<close>

lemma block_at_id:
  assumes "paged_inv xs fl k s" "0 \<le> b"
  shows "block_at b s = Inr (if b < current_allocated_count s then Some b else None)"
  using assms(2) inv_blocks [OF assms(1)] inv_count_pos [OF assms(1)]
  by (simp add: block_at_def pyindex_nonneg)

lemma retire_block_inv:
  assumes inv: "paged_inv xs [] k s" and b: "b \<noteq> 0" "0 \<le> b" "b < current_allocated_count s"
    and r: "ref_count (meta s b) \<le> 0" and u: "unlisted b s"
  shows "\<exists>s'. retire_block b b s = returns True s' \<and> paged_inv (if b \<in> set xs then xs else xs @ [b]) [] k s'"
proof -
  let ?s1 = "upd_block b (\<lambda>m. m\<lparr>token_count := 0\<rparr>) (upd_block b reset_hash s)"
  have 1: "paged_inv xs [] k ?s1" by (intro inv_token_count inv_reset_hash inv u)
  have part: "b \<in> set xs \<longleftrightarrow> b \<notin> set (allocated_blocks s)"
    using inv_ids [OF inv] inv_distinct [OF inv] b(2,3) by auto
  have memq: "is_in_queue b (free_block_queue s) \<longleftrightarrow> b \<in> set xs"
    by (rule fq.mem_iff [OF inv_queue [OF inv]]) (simp add: is_block_id_def b)
  show ?thesis
  proof (cases "b \<in> set xs")
    case True
    with part memq 1 show ?thesis by (auto simp: retire_block_def Let_def intro!: inv_upd_stats_same)
  next
    case False
    let ?s2 = "upd_stats (\<lambda>st. st\<lparr>st_allocated_blocks := st_allocated_blocks st - 1\<rparr>) (alloc_del b ?s1)"
    have "paged_inv xs [b] k ?s2" by (rule strip_inv [OF inv]) (use False part b u in auto)
    from inv_append [OF this] r obtain q where
      q: "on_queue (append_block b) ?s2 = returns () (?s2\<lparr>free_block_queue := q\<rparr>)"
      "paged_inv (xs @ [b]) [] (shift 0 (- 1) k) (?s2\<lparr>free_block_queue := q\<rparr>)" by auto
    let ?s3 = "upd_stats (\<lambda>st. st\<lparr>st_free_blocks := st_free_blocks st + 1\<rparr>) (?s2\<lparr>free_block_queue := q\<rparr>)"
    from inv_upd_stats [OF q(2), of "\<lambda>st. st\<lparr>st_free_blocks := st_free_blocks st + 1\<rparr>" 0 1]
    have "paged_inv (xs @ [b]) [] k ?s3" by simp
    with inv_upd_stats_same [OF this] False part memq q(1) show ?thesis
      by (auto simp: retire_block_def Let_def)
  qed
qed

definition evictable :: "int \<Rightarrow> paged_cache \<Rightarrow> bool" where
  "evictable b s \<longleftrightarrow> 0 < b \<and> b < current_allocated_count s \<and> ref_count (meta s b) \<le> 0"

lemma evict_permanently_inv:
  assumes inv: "paged_inv xs [] k s" and b: "0 \<le> b"
  shows "\<exists>s'. evict_block_permanently b s = returns (evictable b s) s' \<and>
    paged_inv (if evictable b s \<and> b \<notin> set xs then xs @ [b] else xs) [] k s'"
proof (cases "evictable b s")
  case False
  with b inv inv_null [OF inv, of b] show ?thesis
    by (auto simp: evict_block_permanently_def block_at_id [OF inv b] evictable_def)
next
  case True
  then have b': "b \<noteq> 0" "b < current_allocated_count s" "ref_count (meta s b) \<le> 0" by (auto simp: evictable_def)
  define s1 where "s1 = (case block_hash (meta s b) of None \<Rightarrow> s
     | Some _ \<Rightarrow> notify_block_content_invalidated b (pop_own_hash b s))"
  have s1: "paged_inv xs [] k s1" "unlisted b s1" "current_allocated_count s1 = current_allocated_count s"
    "meta s1 = meta s"
    using inv pop_own_hash_inv [OF inv, of b] unlisted_own [OF inv_sound [OF inv], of b]
    by (auto simp: s1_def dest: quietD split: option.split)
  from retire_block_inv [OF s1(1) b'(1) b _ _ s1(2)] b' s1(3,4) obtain s' where
    "retire_block b b s1 = returns True s'" "paged_inv (if b \<in> set xs then xs else xs @ [b]) [] k s'" by auto
  moreover have "evict_block_permanently b s = retire_block b b s1"
    using True b' inv_null [OF inv, of b] by (simp add: evict_block_permanently_def block_at_id [OF inv b] s1_def)
  ultimately show ?thesis using True by auto
qed

lemma evict_inline_inv:
  assumes inv: "paged_inv xs [] k s" and b: "0 \<le> b"
  shows "\<exists>s'. evict_block_permanently_inline b s = returns (evictable b s) s' \<and>
    paged_inv (if evictable b s \<and> b \<notin> set xs then xs @ [b] else xs) [] k s'"
proof -
  have ix: "b < current_allocated_count s \<Longrightarrow> pyindex (blocks s) b = Inr b"
    "int (length (blocks s)) = current_allocated_count s"
    using b inv_blocks [OF inv] inv_count_pos [OF inv] by (simp_all add: pyindex_nonneg)
  show ?thesis
  proof (cases "evictable b s")
    case False
    with b inv ix inv_null [OF inv, of b] show ?thesis
      by (auto simp: evict_block_permanently_inline_def evictable_def)
  next
    case True
    then have b': "b \<noteq> 0" "b < current_allocated_count s" "ref_count (meta s b) \<le> 0" by (auto simp: evictable_def)
    have p: "paged_inv xs [] k (pop_own_hash b s)" "unlisted b (pop_own_hash b s)" "quiet s (pop_own_hash b s)"
      "meta (pop_own_hash b s) = meta s" using pop_own_hash_inv [OF inv, of b] by auto
    have "evict_block_permanently_inline b s = retire_block b b (pop_own_hash b s)"
      using b' ix inv_null [OF inv, of b] by (simp add: evict_block_permanently_inline_def)
    with retire_block_inv [OF p(1) b'(1) b _ _ p(2)] b' p(4) quietD(4) [OF p(3)] True show ?thesis by auto
  qed
qed

end
