(* ===== verification/PagedShare.thy ===== *)
theory PagedShare
  imports PagedReclaim
begin

text \<open>
  Prefix registration and lookup, block tables, copy-on-write, construction and resetting keep
  \<open>paged_inv\<close>; the blocks handed out for generation are not shared.
\<close>

section \<open>Registering hashes\<close>

text \<open>Giving an unlisted block a hash and entering it in the map.\<close>

definition list_under :: "string \<Rightarrow> int \<Rightarrow> (cache_block \<Rightarrow> cache_block) \<Rightarrow> paged_cache \<Rightarrow> paged_cache" where
  "list_under h b f s = (let s1 = upd_block b f s in s1\<lparr>cached_blocks := hash_insert h b (cached_blocks s1)\<rparr>)"

lemma list_under_inv:
  assumes inv: "paged_inv xs fl k s" and b: "b \<in> set (allocated_blocks s)" and own: "only_at s (h, b)"
    and f: "block_hash (f (meta s b)) = Some h" "is_null (f (meta s b)) = is_null (meta s b)"
  shows "paged_inv xs fl k (list_under h b f s)"
proof (cases "unlisted b s")
  case True
  have "b \<notin> set xs" using inv_distinct [OF inv] b by auto
  with True f have "paged_inv xs fl k (upd_block b f s)" by (intro inv_upd_block [OF inv]) auto
  from inv_hash_insert [OF this, of b h] b f(1) show ?thesis by (simp add: list_under_def)
next
  case False
  then have "b \<in> ids_at (cached_blocks s) h" using own by (auto simp: unlisted_def only_at_def)
  then have "block_hash (meta s b) = Some h" using soundD [OF inv_sound [OF inv]] by blast
  moreover have "b \<notin> set xs" using inv_distinct [OF inv] b by auto
  ultimately have "paged_inv xs fl k (upd_block b f s)" using f by (intro inv_upd_block [OF inv]) auto
  from inv_hash_insert [OF this, of b h] b f(1) show ?thesis by (simp add: list_under_def)
qed

lemma list_under_sel [simp]:
  "allocated_blocks (list_under h b f s) = allocated_blocks s" "block_size (list_under h b f s) = block_size s"
  "enable_caching (list_under h b f s) = enable_caching s" "model_name (list_under h b f s) = model_name s"
  "meta (list_under h b f s) = (meta s)(b := f (meta s b))"
  "cached_blocks (list_under h b f s) = hash_insert h b (cached_blocks s)"
  "free_block_queue (list_under h b f s) = free_block_queue s" "stats (list_under h b f s) = stats s"
  "current_allocated_count (list_under h b f s) = current_allocated_count s"
  "tables (list_under h b f s) = tables s" "ssd_has_block (list_under h b f s) = ssd_has_block s"
  by (simp_all add: list_under_def Let_def)

lemma unlisted_only_at: "unlisted b s \<Longrightarrow> only_at s (h, b)"
  by (simp add: unlisted_def only_at_def)

lemma register_block_hash_inv:
  assumes "paged_inv xs [] k s" "b \<in> set (allocated_blocks s)"
    and "only_at s (compute_block_hash E parent tokens extra_keys (Some (model_name s)), b)"
  shows "paged_inv xs [] k (register_block_hash E b tokens parent extra_keys s)"
proof -
  let ?h = "compute_block_hash E parent tokens extra_keys (Some (model_name s))"
  have "register_block_hash E b tokens parent extra_keys s =
      (if enable_caching s then list_under ?h b (\<lambda>m. m\<lparr>block_hash := Some ?h\<rparr>) s else s)"
    by (simp add: register_block_hash_def list_under_def Let_def)
  with assms list_under_inv [OF assms, of "\<lambda>m. m\<lparr>block_hash := Some ?h\<rparr>"] show ?thesis by simp
qed

lemma store_inv:
  assumes "paged_inv xs [] k s" "\<And>h b. key = Bytes h \<Longrightarrow> v = Some b \<Longrightarrow> b \<in> set (allocated_blocks s) \<and> only_at s (h, b)"
  shows "paged_inv xs [] k (snd (store key v s))"
proof (cases "\<exists>h b. key = Bytes h \<and> v = Some b")
  case True
  then obtain h b where hb: "key = Bytes h" "v = Some b" by blast
  then have "snd (store key v s) = list_under h b (\<lambda>m. m\<lparr>block_hash := Some h\<rparr>) s"
    by (simp add: store_def list_under_def Let_def)
  with assms(2) [OF hb] list_under_inv [OF assms(1), of b h] show ?thesis by simp
next
  case False
  then have "snd (store key v s) = s" by (cases key; cases v) (auto simp: store_def)
  with assms(1) show ?thesis by simp
qed

lemma cache_loop_inv:
  assumes "paged_inv xs [] k s" "set bs \<subseteq> set (allocated_blocks s)"
  shows "paged_inv xs [] k (snd (cache_loop E bs toks keys is parent s)) \<and>
    allocated_blocks (snd (cache_loop E bs toks keys is parent s)) = allocated_blocks s"
  using assms
proof (induction "is" arbitrary: parent s)
  case Nil
  then show ?case by simp
next
  case (Cons i "is")
  show ?case
  proof (cases "i < length bs")
    case False
    with Cons.prems show ?thesis by simp
  next
    case True
    then have b: "bs ! i \<in> set (allocated_blocks s)" using Cons.prems(2) by auto
    show ?thesis
    proof (cases "block_hash (meta s (bs ! i))")
      case (Some h)
      with True Cons.IH [OF Cons.prems] show ?thesis by simp
    next
      case None
      let ?t = "block_tokens (block_size s) i toks"
      let ?h = "compute_block_hash E parent ?t keys (Some (model_name s))"
      let ?s = "list_under ?h (bs ! i) (\<lambda>m. m\<lparr>block_hash := Some ?h, parent_hash := parent, token_count := int (length ?t)\<rparr>) s"
      have own: "only_at s (?h, bs ! i)"
        by (rule unlisted_only_at [OF unlisted_own [OF inv_sound [OF Cons.prems(1)] None]])
      from list_under_inv [OF Cons.prems(1) b own] have "paged_inv xs [] k ?s" by simp
      from Cons.IH [OF this, of "Some ?h"] True None Cons.prems(2) show ?thesis
        by (simp add: list_under_def Let_def)
    qed
  qed
qed

lemma cache_full_blocks_inv:
  assumes "paged_inv xs [] k s" "set bs \<subseteq> set (allocated_blocks s)"
  shows "paged_inv xs [] k (snd (cache_full_blocks E bs toks nc nf keys s))"
  using assms cache_loop_inv [OF assms, of E toks keys "[nc..<nf]"] by (simp add: cache_full_blocks_def Let_def)

section \<open>Looking up a prefix\<close>

lemma hit_miss_inv [simp]: "paged_inv xs fl k (hit s) = paged_inv xs fl k s" "paged_inv xs fl k (miss s) = paged_inv xs fl k s"
proof -
  have "paged_inv xs fl k (upd_stats f s) = paged_inv xs fl k s"
    if f: "\<And>st. st_allocated_blocks (f st) = st_allocated_blocks st" "\<And>st. st_free_blocks (f st) = st_free_blocks st"
      "\<And>st. st_total_blocks (f st) = st_total_blocks st" for f
  proof
    assume "paged_inv xs fl k (upd_stats f s)"
    then show "paged_inv xs fl k s"
      using f by (cases k rule: option_pair_cases) (auto simp: paged_inv_def pool_ok_def hash_sound_def tally_Some)
  qed (use inv_upd_stats_same f in blast)
  then show "paged_inv xs fl k (hit s) = paged_inv xs fl k s" "paged_inv xs fl k (miss s) = paged_inv xs fl k s"
    by (simp_all add: hit_def miss_def)
qed

lemma get_cached_block_inv: "paged_inv xs [] k s \<Longrightarrow> paged_inv xs [] k (snd (get_cached_block h s))"
  by (simp add: get_cached_block_def split: option.split)

lemma fetch_inv: "paged_inv xs [] k s \<Longrightarrow> paged_inv xs [] k (snd (fetch key s))"
  using get_cached_block_inv [of xs k s]
  by (auto simp: fetch_def split: cache_key.split prod.split option.split) (metis snd_conv)+

lemma find_cached_block_inv:
  "paged_inv xs [] k s \<Longrightarrow> paged_inv xs [] k (snd (find_cached_block E toks parent keys s))"
  by (simp add: find_cached_block_def Let_def split: option.split)

lemma lazy_restore_inv:
  assumes inv: "paged_inv xs [] k s" and k: "balanced k"
  shows "\<exists>r s' xs'. lazy_restore claim h parent s = returns r s' \<and> paged_inv xs' [] k s'"
proof (cases "ssd_has_block s")
  case None
  with inv show ?thesis by (auto simp: lazy_restore_def)
next
  case (Some has)
  show ?thesis
  proof (cases "claim \<and> has h")
    case False
    with Some inv show ?thesis by (auto simp: lazy_restore_def)
  next
    case True
    show ?thesis
    proof (cases "xs \<noteq> [] \<or> current_allocated_count s < max_blocks s")
      case False
      then have "xs = []" "current_allocated_count s = max_blocks s" using inv_bound [OF inv] by auto
      with Some True inv allocate_internal_full [of k s] show ?thesis by (auto simp: lazy_restore_def)
    next
      case room: True
      let ?b = "next_block xs s"
      from allocate_internal_inv [OF inv k room] obtain s1 ys where
        s1: "allocate_block_internal s = returns (Some ?b) s1" "paged_inv ys [] k s1"
          "allocated_blocks s1 = allocated_blocks s @ [?b]" "keeps_used s s1" by blast
      have "?b \<notin> set (allocated_blocks s)" using inv_distinct [OF s1(2)] s1(3) by auto
      then have "unlisted ?b s1"
        using s1(4) soundD [OF inv_sound [OF inv]] by (auto simp: unlisted_def keeps_used_def)
      from list_under_inv [OF s1(2) _ unlisted_only_at [OF this], where h = h and
        f = "\<lambda>m. m\<lparr>block_hash := Some h, parent_hash := parent, token_count := block_size s1\<rparr>"] s1(3)
      have "paged_inv ys [] k (list_under h ?b
        (\<lambda>m. m\<lparr>block_hash := Some h, parent_hash := parent, token_count := block_size s1\<rparr>) s1)" by simp
      with Some True s1(1) show ?thesis by (auto simp: lazy_restore_def list_under_def Let_def)
    qed
  qed
qed

lemma computed_loop_inv:
  assumes "paged_inv xs [] k s" "balanced k"
  shows "\<exists>xs'. paged_inv xs' [] k (snd (computed_loop E toks ka claim is parent found n restored s))"
  using assms(1)
proof (induction "is" arbitrary: xs parent found n restored s)
  case Nil
  then show ?case by auto
next
  case (Cons i "is")
  let ?t = "block_tokens (block_size s) i toks"
  let ?res = "resolve_block_extra_keys (int i * block_size s + block_size s) (ka_keys ka) (ka_token_start ka) (ka_ranges ka)"
  show ?case
  proof (cases ?res)
    case (Inl e)
    with Cons.prems show ?thesis by (auto simp: Let_def)
  next
    case (Inr keys)
    let ?h = "compute_block_hash E parent ?t keys (Some (model_name s))"
    let ?m = "case get_block ?h (cached_blocks s) of
                     Some b \<Rightarrow> returns (Some (b, b \<in> restored)) s
                   | None \<Rightarrow> and_then (lazy_restore claim ?h parent s) (\<lambda>r s1.
                       returns (map_option (\<lambda>b. (b, True)) r) s1)"
    obtain r s1 ys where 1: "?m = returns r s1" "paged_inv ys [] k s1"
      "\<And>b. r = Some (b, False) \<Longrightarrow> b \<in> set (allocated_blocks s1)"
    proof (cases "get_block ?h (cached_blocks s)")
      case (Some b)
      then have "b \<in> set (allocated_blocks s)" using soundD [OF inv_sound [OF Cons.prems] get_block_ids] by blast
      with Some that [of "Some (b, b \<in> restored)" s xs] Cons.prems show ?thesis by auto
    next
      case None
      from lazy_restore_inv [OF Cons.prems assms(2), of claim ?h parent] obtain r s1 ys where
        "lazy_restore claim ?h parent s = returns r s1" "paged_inv ys [] k s1" by blast
      with None that [of "map_option (\<lambda>b. (b, True)) r" s1 ys] show ?thesis by (cases r) auto
    qed
    show ?thesis
    proof (cases r)
      case None
      with Inr 1 show ?thesis by (auto simp: Let_def)
    next
      case (Some p)
      obtain b held where p: "p = (b, held)" by force
      let ?s2 = "if claim \<and> \<not> held then add_ref b s1 else s1"
      have "paged_inv ys [] k (hit ?s2)" using 1(2,3) Some p by (auto simp: add_ref_inv)
      from Cons.IH [OF this] Inr 1(1) Some p show ?thesis by (simp add: Let_def)
    qed
  qed
qed

lemma get_computed_blocks_inv:
  assumes "paged_inv xs [] k s" "balanced k"
  shows "\<exists>xs'. paged_inv xs' [] k (snd (get_computed_blocks E toks ka claim s))"
proof -
  let ?m = "computed_loop E toks ka claim [0..<nat (int (length toks) div block_size s)] None [] 0 {} s"
  from computed_loop_inv [OF assms] obtain ys where ys: "paged_inv ys [] k (snd ?m)" by blast
  show ?thesis
  proof (cases ?m rule: outcome_cases)
    case (Returns a t)
    with ys assms(1) show ?thesis by (auto simp: get_computed_blocks_def)
  next
    case (Raises e t)
    with ys assms(1) show ?thesis by (auto simp: get_computed_blocks_def)
  qed
qed

lemma find_shared_prefix_inv:
  assumes "paged_inv xs [] k s" "balanced k"
  shows "\<exists>xs'. paged_inv xs' [] k (snd (find_shared_prefix E toks ka s))"
proof (cases "get_computed_blocks E toks ka False s" rule: outcome_cases)
  case (Returns a t)
  with get_computed_blocks_inv [OF assms, of E toks ka False] show ?thesis
    by (cases a) (auto simp: find_shared_prefix_def)
next
  case (Raises e t)
  with get_computed_blocks_inv [OF assms, of E toks ka False] show ?thesis by (auto simp: find_shared_prefix_def)
qed

section \<open>Block tables\<close>

lemma new_table_inv: "paged_inv xs [] k s \<Longrightarrow> paged_inv xs [] k (snd (new_table rid t s))"
  by (simp add: new_table_def Let_def)

lemma fork_refs_inv: "paged_inv xs [] k s \<Longrightarrow> paged_inv xs [] k (fold fork_ref bs s)"
  by (induction bs arbitrary: s) (auto simp: fork_ref_def add_ref_inv)

lemma fork_block_table_inv: "paged_inv xs [] k s \<Longrightarrow> paged_inv xs [] k (snd (fork_block_table src rid s))"
  by (simp add: fork_block_table_def Let_def new_table_inv fork_refs_inv)

lemma add_block_to_table_inv: "paged_inv xs [] k s \<Longrightarrow> paged_inv xs [] k (add_block_to_table r b n s)"
  unfolding add_block_to_table_def by (intro inv_upd_stats_same inv_token_count) simp_all

lemma delete_block_table_inv:
  assumes "paged_inv xs [] k s"
  shows "\<exists>s' xs'. delete_block_table rid s = returns () s' \<and> paged_inv xs' [] k s'"
  using assms free_all_inv [of xs k "s\<lparr>request_tables := dict_del rid (request_tables s)\<rparr>"]
  by (auto simp: delete_block_table_def Let_def split: option.split)

section \<open>Copy-on-write\<close>

text \<open>
  Copy-on-write takes a block off the queue without counting it as allocated, so nothing is
  claimed of the counters here (\<open>None\<close>).
\<close>

lemma inv_forget_tally: "paged_inv xs fl k s \<Longrightarrow> paged_inv xs fl None s"
  by (simp add: paged_inv_def)

lemma balanced_None [simp]: "balanced None" and balanced_zero [simp]: "balanced (Some (0, 0))"
  by (simp_all add: balanced_def)

lemma grow_refs:
  assumes "paged_inv xs [] None s" "grow_blocks add s = returns n s'"
  shows "ref_count (meta s' b) \<le> 1 \<longleftrightarrow> ref_count (meta s b) \<le> 1 \<or> current_allocated_count s \<le> b \<and> b < current_allocated_count s + n"
proof (cases "min add (max_blocks s - current_allocated_count s) \<le> 0")
  case True
  with assms(2) show ?thesis by (auto simp: grow_blocks_def Let_def)
next
  case False
  let ?c = "current_allocated_count s"
  from grow_blocks_used [OF assms(1) balanced_None refl, of add] assms(2) False
  have "n = min add (max_blocks s - ?c)" by (auto simp: max_def)
  moreover have "meta s' = meta (create_blocks (pyrange ?c (?c + min add (max_blocks s - ?c))) s)"
  proof -
    let ?s2 = "(create_blocks (pyrange ?c (?c + min add (max_blocks s - ?c))) s)
      \<lparr>blocks := blocks s @ pyrange ?c (?c + min add (max_blocks s - ?c))\<rparr>"
    let ?m = "on_queue (append_n (pyrange ?c (?c + min add (max_blocks s - ?c)))) ?s2"
    have "meta (snd ?m) = meta ?s2" by (simp add: on_queue_def split: prod.split)
    then show ?thesis using assms(2) False
      by (cases ?m rule: outcome_cases) (auto simp: grow_blocks_def Let_def)
  qed
  ultimately show ?thesis by (auto simp: create_blocks_meta)
qed

definition unshared :: "int list \<Rightarrow> paged_cache \<Rightarrow> bool" where
  "unshared bs s \<longleftrightarrow> (\<forall>b \<in> set bs. ref_count (meta s b) \<le> 1)"

lemma cow_make_room_inv:
  assumes inv: "paged_inv xs [] None s" and b: "b \<in> set (allocated_blocks s)" "1 < ref_count (meta s b)"
    and un: "unshared out s"
  obtains (Room) x ys s' where "cow_make_room s = returns () s'" "paged_inv (x # ys) [] None s'"
      "b \<in> set (allocated_blocks s')" "1 < ref_count (meta s' b)" "unshared out s'"
  | (Full) s' where "cow_make_room s = raises CacheEvictionError s'" "paged_inv [] [] None s'"
proof (cases xs)
  case (Cons x ys)
  with inv inv_num_free [OF inv] b un Room [of s x ys] show ?thesis by (auto simp: cow_make_room_def)
next
  case Nil
  let ?c = "current_allocated_count s"
  define n where "n = max 0 (min (min 256 (max_blocks s - ?c)) (max_blocks s - ?c))"
  from grow_blocks_used [OF inv balanced_None n_def] obtain s1 where s1:
    "grow_blocks (min 256 (max_blocks s - ?c)) s = returns n s1"
    "paged_inv (pyrange ?c (?c + n)) [] None s1" "keeps_used s s1" "allocated_blocks s1 = allocated_blocks s"
    using Nil by auto
  have b1: "b \<in> set (allocated_blocks s1)" "1 < ref_count (meta s1 b)"
    using b s1(3,4) by (auto simp: keeps_used_def)
  have un1: "unshared out s1" using un grow_refs [OF inv s1(1)] by (auto simp: unshared_def)
  show ?thesis
  proof (cases "0 < n")
    case True
    then have "pyrange ?c (?c + n) = ?c # pyrange (?c + 1) (?c + n)" by (simp add: pyrange_Cons)
    with s1(2) have "paged_inv (?c # pyrange (?c + 1) (?c + n)) [] None s1" by simp
    from Room [OF _ this b1 un1] s1(1) inv_num_free [OF inv] inv_num_free [OF this] Nil show ?thesis
      by (simp add: cow_make_room_def)
  next
    case False
    then have inv1: "paged_inv [] [] None s1" and nf: "num_free_blocks (free_block_queue s1) = 0"
      using s1(2) inv_num_free [OF s1(2)] by simp_all
    from evict_cached_inv [OF inv1, of 1] obtain n2 m s2 where
      s2: "evict_cached_blocks_locked 1 s1 = returns n2 s2" "paged_inv (take m (evict_candidates s1)) [] None s2"
        "\<forall>c. ref_count (meta s2 c) = ref_count (meta s1 c)"
        "set (allocated_blocks s2) = set (allocated_blocks s1) - set (take m (evict_candidates s1))" by auto
    have b2: "b \<in> set (allocated_blocks s2)" "1 < ref_count (meta s2 b)"
      using b1 s2(3,4) evict_candidates_ok(2) [OF inv1] by (auto dest!: in_set_takeD)
    have un2: "unshared out s2" using un1 s2(3) by (simp add: unshared_def)
    note num = inv_num_free [OF s2(2)]
    show ?thesis
    proof (cases "take m (evict_candidates s1)")
      case Nil' : Nil
      with s2 num have "cow_make_room s = raises CacheEvictionError (record_oob ''cow'' s2)"
        using s1(1) nf inv_num_free [OF inv] Nil by (simp add: cow_make_room_def)
      with Full s2(2) Nil' show ?thesis by simp
    next
      case (Cons x ys)
      with s2 num have "cow_make_room s = returns () s2"
        using s1(1) nf inv_num_free [OF inv] Nil by (simp add: cow_make_room_def)
      with Room [OF _ _ b2 un2] s2(2) Cons show ?thesis by simp
    qed
  qed
qed

lemma cow_copy_inv:
  assumes inv: "paged_inv (x # xs) [] None s" and b: "b \<in> set (allocated_blocks s)" and un: "unshared out s"
  shows "\<exists>s'. cow_copy r i b s = returns x s' \<and> paged_inv xs [] None s' \<and> unshared (out @ [x]) s' \<and>
    x \<noteq> b \<and> x \<in> set (allocated_blocks s') \<and> block_hash (meta s' x) = None \<and>
    ref_count (meta s' b) = ref_count (meta s b) - 1 \<and>
    token_count (meta s' x) = token_count (meta s b) \<and>
    tables s' = (tables s)(r := (tables s r)\<lparr>block_ids := (block_ids (tables s r))[i := x]\<rparr>)"
proof -
  from inv_popleft [OF inv] obtain q where q: "on_queue popleft s = returns x (s\<lparr>free_block_queue := q\<rparr>)"
    "paged_inv xs [x] None (s\<lparr>free_block_queue := q\<rparr>)" by auto
  let ?s1 = "s\<lparr>free_block_queue := q\<rparr>"
  let ?s2 = "if enable_caching ?s1 then pop_own_hash x ?s1 else ?s1"
  let ?s4 = "alloc_add x (touch_block x (upd_block x (\<lambda>m. m\<lparr>ref_count := 1\<rparr>) ?s2))"
  let ?s5 = "upd_block x reset_hash (upd_block x (\<lambda>m. m\<lparr>token_count := token_count (meta ?s4 b)\<rparr>) ?s4)"
  let ?s6 = "upd_block b (\<lambda>m. m\<lparr>ref_count := ref_count m - 1\<rparr>) ?s5"
  let ?s7 = "if ref_count (meta ?s6 b) = 1
     then upd_stats (\<lambda>st. st\<lparr>st_shared_blocks := st_shared_blocks st - 1\<rparr>) ?s6 else ?s6"
  let ?s8 = "?s7\<lparr>tables := (tables ?s7)(r := (tables ?s7 r)\<lparr>block_ids := (block_ids (tables ?s7 r))[i := x]\<rparr>)\<rparr>"
  let ?s9 = "upd_stats (\<lambda>st. st\<lparr>st_cow_copies := st_cow_copies st + 1\<rparr>) ?s8"
  have e: "cow_copy r i b s = returns x ?s9" using q(1) by (simp add: cow_copy_def Let_def)
  have x: "x \<noteq> b" "x \<notin> set xs" using inv_distinct [OF inv] b by auto
  have 2: "paged_inv xs [x] None ?s2" "quiet ?s1 ?s2" "meta ?s2 = meta s"
    using q(2) pop_own_hash_inv [OF q(2), of x] by auto
  note same = quietD(1,7) [OF 2(2)]
  have "paged_inv xs [x] None (touch_block x (upd_block x (\<lambda>m. m\<lparr>ref_count := 1\<rparr>) ?s2))"
    using inv_ref_count [OF 2(1), of x "\<lambda>_. 1"] x(2) by simp
  from inv_alloc_add [OF this] have 4: "paged_inv xs [] None ?s4" by simp
  have "unlisted x ?s2" using unlisted_free [OF 2(1), of x] by simp
  then have "paged_inv xs [] None ?s5"
    by (intro inv_reset_hash inv_token_count 4) simp
  then have 6: "paged_inv xs [] None ?s6" by (rule inv_drop_ref) (use b same(1) in simp)
  have 7: "paged_inv xs [] None ?s7"
    using 6 inv_upd_stats_same [OF 6, of "\<lambda>st. st\<lparr>st_shared_blocks := st_shared_blocks st - 1\<rparr>"] by simp
  then have "paged_inv xs [] None ?s9" by (intro inv_upd_stats_same) simp_all
  moreover have "unshared (out @ [x]) ?s9" using un x(1) 2(3) by (auto simp: unshared_def)
  moreover have "x \<in> set (allocated_blocks ?s9)" by simp
  moreover have "block_hash (meta ?s9 x) = None" "token_count (meta ?s9 x) = token_count (meta s b)"
    "ref_count (meta ?s9 b) = ref_count (meta s b) - 1" using x(1) 2(3) by simp_all
  moreover have "tables ?s9 = (tables s)(r := (tables s r)\<lparr>block_ids := (block_ids (tables s r))[i := x]\<rparr>)"
    using same(2) by simp
  ultimately show ?thesis using e x(1) by (intro exI [of _ ?s9] conjI)
qed

lemma unshared_touch [simp]: "unshared bs (touch_block b s) = unshared bs s"
  and unshared_flush [simp]: "unshared bs (flush_content_invalidated s) = unshared bs s"
  by (simp_all add: unshared_def)

text \<open>The loop hands out unshared blocks only, or stops with the exception of a full pool.\<close>

lemma generation_loop_inv:
  assumes "paged_inv xs [] None s" "unshared out s"
  shows "(\<exists>res copied s' xs'. generation_loop r ps out copied0 s = returns (res, copied) s' \<and>
      paged_inv xs' [] None s' \<and> unshared res s') \<or>
    (\<exists>s'. generation_loop r ps out copied0 s = raises CacheEvictionError s' \<and> (\<exists>xs'. paged_inv xs' [] None s'))"
  using assms
proof (induction ps arbitrary: xs out copied0 s)
  case Nil
  then show ?case by auto
next
  case (Cons p ps)
  obtain i b where p: "p = (i, b)" by force
  show ?case
  proof (cases "b \<in> set (allocated_blocks s)")
    case False
    with p Cons.IH [OF Cons.prems] show ?thesis by simp
  next
    case True
    show ?thesis
    proof (cases "is_shared (meta s b)")
      case False
      then have "unshared (out @ [b]) (touch_block b s)" using Cons.prems(2) by (auto simp: unshared_def is_shared_def)
      from Cons.IH [OF _ this, of xs copied0] Cons.prems(1) p True False show ?thesis by simp
    next
      case sh: True
      then have many: "1 < ref_count (meta s b)" by (simp add: is_shared_def)
      show ?thesis
      proof (cases rule: cow_make_room_inv [OF Cons.prems(1) True many Cons.prems(2), case_names Room Full])
        case (Room x ys s1)
        from cow_copy_inv [OF Room(2,3,5), of r i] obtain s2 where
          s2: "cow_copy r i b s1 = returns x s2" "paged_inv ys [] None s2" "unshared (out @ [x]) s2" by blast
        from Cons.IH [of ys "touch_block b s2" "out @ [x]" True] s2 Room(1) p True sh show ?thesis by simp
      next
        case (Full s1)
        with p True sh show ?thesis by auto
      qed
    qed
  qed
qed

section \<open>Construction and resetting\<close>

lemma build_pool_inv:
  fixes s :: paged_cache
  defines "n \<equiv> current_allocated_count s"
  assumes n: "0 < n" "n \<le> max_blocks s" "0 < initial_blocks s" and h: "cached_blocks s = []"
    and nulls: "\<forall>b. n \<le> b \<or> b < 0 \<longrightarrow> \<not> is_null (meta s b)"
  shows "\<exists>s'. build_pool s = returns () s' \<and> paged_inv (pyrange 1 n) [] None s' \<and>
    allocated_blocks s' = [0] \<and> current_allocated_count s' = n \<and> stats s' = stats s \<and> tables s' = tables s \<and>
    max_blocks s' = max_blocks s"
proof -
  let ?ids = "pyrange 0 n"
  let ?s2 = "(create_blocks ?ids s)\<lparr>blocks := ?ids, free_block_queue := queue_init ?ids, allocated_blocks := []\<rparr>"
  have c: "?ids = 0 # pyrange 1 n" using n(1) by (simp add: pyrange_Cons)
  have "queue_rep (queue_init ?ids) ?ids"
    by (rule rep_queue_init) (auto simp: fake_head_def fake_tail_def)
  then have "queue_rep (queue_init ?ids) (0 # pyrange 1 n)" by (simp only: c)
  from rep_popleft_Cons [OF this] obtain q where q: "popleft (queue_init ?ids) = returns 0 q" "queue_rep q (pyrange 1 n)"
    by (rule givesE)
  let ?s3 = "?s2\<lparr>free_block_queue := q\<rparr>"
  let ?s5 = "alloc_add 0 ((upd_block 0 (\<lambda>m. m\<lparr>is_null := True, ref_count := 1\<rparr>) ?s3)\<lparr>null_block := 0\<rparr>)"
  have "on_queue popleft ?s2 = returns 0 ?s3" using q(1) by (intro on_queue_returns) simp
  then have "build_pool s = returns () ?s5" by (simp add: build_pool_def Let_def n_def)
  moreover have "paged_inv (pyrange 1 n) [] None ?s5"
  proof -
    have "pool_ok (pyrange 1 n) [] ?s5"
      using n q(2) by (auto simp: pool_ok_def n_def [symmetric])
    moreover have "is_null (meta ?s5 b) \<longleftrightarrow> b = 0" for b
      using nulls by (auto simp: create_blocks_meta)
    moreover have "\<forall>b \<in> set (pyrange 1 n). ref_count (meta ?s5 b) \<le> 0" by (auto simp: create_blocks_meta)
    moreover have "hash_sound ?s5" by (simp add: hash_sound_def h)
    ultimately show ?thesis by (simp add: paged_inv_def)
  qed
  ultimately show ?thesis by (intro exI [of _ ?s5]) (simp add: n_def)
qed

lemma inv_set_stats:
  assumes "paged_inv xs fl None s" "tally k (s\<lparr>stats := st\<rparr>)"
  shows "paged_inv xs fl k (s\<lparr>stats := st\<rparr>)"
  using assms by (simp add: paged_inv_def pool_ok_def hash_sound_def)

lemma new_stats_tally:
  assumes "paged_inv xs [] None s" "allocated_blocks s = [0]" "stats s = new_stats (current_allocated_count s)"
  shows "paged_inv xs [] (Some (0, 0)) s"
proof -
  have "card (set (xs @ [] @ allocated_blocks s)) = length (xs @ [] @ allocated_blocks s)"
    using inv_distinct [OF assms(1)] by (rule distinct_card)
  then have "nat (current_allocated_count s) = Suc (length xs)"
    unfolding inv_ids [OF assms(1)] using assms(2) by simp
  then have "tally (Some (0, 0)) s"
    using assms(2,3) inv_num_free [OF assms(1)] by (simp add: tally_Some new_stats_def)
  with assms(1) show ?thesis by (simp add: paged_inv_def)
qed

lemma paged_init_inv:
  assumes "0 < initb" "0 < maxb"
  shows "\<exists>s. paged_init signature bsize maxb caching mname initb clk = returns () s \<and>
    paged_inv (pyrange 1 (min initb maxb)) [] (Some (0, 0)) s \<and> current_allocated_count s = min initb maxb \<and>
    max_blocks s = maxb"
proof -
  let ?s = "blank_cache signature bsize maxb caching mname initb clk"
  have f: "current_allocated_count ?s = min initb maxb" "max_blocks ?s = maxb" "initial_blocks ?s = initb"
    "cached_blocks ?s = []" "stats ?s = new_stats (min initb maxb)" "\<not> is_null (meta ?s b)" for b
    by (simp_all add: blank_cache_def fresh_block_def)
  from build_pool_inv [of ?s] f assms obtain s where s: "build_pool ?s = returns () s"
    "paged_inv (pyrange 1 (min initb maxb)) [] None s" "allocated_blocks s = [0]"
    "current_allocated_count s = min initb maxb" "stats s = new_stats (min initb maxb)" "max_blocks s = maxb" by auto
  with new_stats_tally [OF s(2,3)] show ?thesis by (simp add: paged_init_def)
qed

lemma notify_all_inv [simp]: "paged_inv xs fl k (fold notify_block_content_invalidated bs s) = paged_inv xs fl k s"
  by (induction bs arbitrary: s) auto

lemma notify_all_sel [simp]:
  "allocated_blocks (fold notify_block_content_invalidated bs s) = allocated_blocks s"
  "pending_invalidated (fold notify_block_content_invalidated bs s) = pending_invalidated s @ bs"
  "callback_log (fold notify_block_content_invalidated bs s) = callback_log s"
  "current_allocated_count (fold notify_block_content_invalidated bs s) = current_allocated_count s"
  by (induction bs arbitrary: s) (auto simp: notify_block_content_invalidated_def)

lemma clear_inv:
  assumes inv: "paged_inv xs [] k s"
  shows "\<exists>s'. clear s = returns (int (length (allocated_blocks s)) - 1) s' \<and>
    paged_inv (pyrange 1 (min (initial_blocks s) (max_blocks s))) [] (Some (0, 0)) s' \<and> allocated_blocks s' = [0]"
proof -
  let ?n = "min (initial_blocks s) (max_blocks s)"
  let ?s1 = "s\<lparr>current_allocated_count := ?n, cached_blocks := hash_clear (cached_blocks s), request_tables := []\<rparr>"
  have pos: "0 < ?n" using inv_initial [OF inv] inv_count_pos [OF inv] inv_bound [OF inv] by simp
  have "\<forall>b. ?n \<le> b \<or> b < 0 \<longrightarrow> \<not> is_null (meta s b)" using inv_null [OF inv] pos by auto
  with build_pool_inv [of ?s1] pos inv_initial [OF inv] obtain s2 where s2: "build_pool ?s1 = returns () s2"
    "paged_inv (pyrange 1 ?n) [] None s2" "allocated_blocks s2 = [0]" "current_allocated_count s2 = ?n"
    by (auto simp: hash_clear_def)
  let ?s3 = "s2\<lparr>stats := new_stats ?n\<rparr>"
  have "paged_inv (pyrange 1 ?n) [] None ?s3" by (rule inv_set_stats [OF s2(2)]) simp
  from new_stats_tally [OF this] s2(3,4) have "paged_inv (pyrange 1 ?n) [] (Some (0, 0)) ?s3" by simp
  moreover have "max 0 (int (length (allocated_blocks s)) - 1) = int (length (allocated_blocks s)) - 1"
    using inv_null_alloc [OF inv] by (cases "allocated_blocks s") auto
  ultimately show ?thesis using s2(1,3) by (simp add: clear_def Let_def)
qed

lemma reset_each_inv:
  assumes "paged_inv xs fl k s" "cached_blocks s = []"
  shows "paged_inv xs fl k (fold (\<lambda>b. upd_block b reset_hash) bs s)"
  using assms
proof (induction bs arbitrary: s)
  case Nil
  then show ?case by simp
next
  case (Cons b bs)
  then have "unlisted b s" by (simp add: unlisted_def)
  from inv_reset_hash [OF Cons.prems(1) this] Cons.IH [of "upd_block b reset_hash s"] Cons.prems(2)
  show ?case by simp
qed

lemma reset_prefix_cache_inv: "paged_inv xs [] k s \<Longrightarrow> paged_inv xs [] k (snd (reset_prefix_cache s))"
proof -
  assume inv: "paged_inv xs [] k s"
  let ?s1 = "s\<lparr>cached_blocks := hash_clear (cached_blocks s)\<rparr>"
  have "hash_sound ?s1" by (simp add: hash_sound_def) (simp add: hash_clear_def)
  moreover have "tally k ?s1" by (rule tally_frame [OF inv_tally [OF inv]]) simp_all
  ultimately have "paged_inv xs [] k ?s1"
    by (intro inv_frame [OF inv]) (auto simp: inv_unreferenced [OF inv])
  then have "paged_inv xs [] k (fold (\<lambda>b. upd_block b reset_hash) (blocks ?s1) ?s1)"
    by (rule reset_each_inv) (simp add: hash_clear_def)
  from inv_upd_stats_same [OF this] inv show ?thesis by (simp add: reset_prefix_cache_def Let_def)
qed

lemma get_stats_inv:
  assumes "paged_inv xs [] k s" "balanced k"
  shows "paged_inv xs [] k (snd (get_stats s))"
proof -
  have "tally k (snd (get_stats s))"
    using assms(2) by (rule balanced_cases) (use inv_tally [OF assms(1)] in \<open>simp_all add: tally_Some get_stats_def\<close>)
  moreover have "hash_sound (snd (get_stats s))"
    by (rule hash_sound_frame [OF inv_sound [OF assms(1)]]) (simp_all add: get_stats_def)
  ultimately show ?thesis
    by (intro inv_frame [OF assms(1)]) (auto simp: get_stats_def inv_unreferenced [OF assms(1)])
qed

end
