(* ===== verification/PagedReach.thy ===== *)
theory PagedReach
  imports PagedShare
begin

text \<open>
  The paged cache as a state machine: one step per public method of \<open>PagedCacheManager\<close>, under
  the conditions its callers keep, also when the method raises. The states reachable from a
  construction satisfy \<open>paged_inv\<close>; without copy-on-write the block counters of the statistics
  are exact.
\<close>

section \<open>Steps\<close>

inductive paged_step :: "'k hash_env \<Rightarrow> bool \<Rightarrow> paged_cache \<Rightarrow> paged_cache \<Rightarrow> bool"
  for E :: "'k hash_env" and cow :: bool where
  allocate: "paged_step E cow s (snd (allocate_block s))"
| get_new: "0 \<le> n \<Longrightarrow> paged_step E cow s (snd (get_new_blocks n s))"
| for_tokens: "0 \<le> n \<Longrightarrow> 0 < block_size s \<Longrightarrow> paged_step E cow s (snd (allocate_blocks_for_tokens n s))"
| free: "paged_step E cow s (snd (free_block b s))"
| free_batch: "distinct bs \<Longrightarrow> set bs \<subseteq> set (allocated_blocks s) \<Longrightarrow>
    paged_step E cow s (snd (free_blocks_batch bs s))"
| touched: "\<forall>b \<in> set bs. 0 \<le> b \<Longrightarrow> paged_step E cow s (touch bs s)"
| increment: "paged_step E cow s (snd (increment_ref b s))"
| release: "paged_step E cow s (snd (release_for_eviction bs s))"
| lru: "evict_lru_blocks n s = Some (m, s') \<Longrightarrow> paged_step E cow s s'"
| pressure: "handle_memory_pressure n s = Some m \<Longrightarrow> paged_step E cow s (snd m)"
| evict_one: "0 \<le> b \<Longrightarrow> paged_step E cow s (snd (evict_block_permanently b s))"
| evict_inline: "0 \<le> b \<Longrightarrow> paged_step E cow s (snd (evict_block_permanently_inline b s))"
| evict_key: "(\<And>b. key = Int_key b \<Longrightarrow> 0 \<le> b) \<Longrightarrow> paged_step E cow s (snd (evict key s))"
| mark_cold: "0 \<le> b \<Longrightarrow> paged_step E cow s (snd (mark_block_cold b s))"
| restore: "0 \<le> b \<Longrightarrow> paged_step E cow s (snd (restore_block b s))"
| get_cached: "paged_step E cow s (snd (get_cached_block h s))"
| find_cached: "paged_step E cow s (snd (find_cached_block E toks parent keys s))"
| fetched: "paged_step E cow s (snd (fetch key s))"
| stored: "(\<And>h b. key = Bytes h \<Longrightarrow> v = Some b \<Longrightarrow> b \<in> set (allocated_blocks s) \<and> only_at s (h, b)) \<Longrightarrow>
    paged_step E cow s (snd (store key v s))"
| register: "b \<in> set (allocated_blocks s) \<Longrightarrow>
    only_at s (compute_block_hash E parent toks keys (Some (model_name s)), b) \<Longrightarrow>
    paged_step E cow s (register_block_hash E b toks parent keys s)"
| cache_full: "set bs \<subseteq> set (allocated_blocks s) \<Longrightarrow>
    paged_step E cow s (snd (cache_full_blocks E bs toks nc nf keys s))"
| computed: "paged_step E cow s (snd (get_computed_blocks E toks ka claim s))"
| shared_prefix: "paged_step E cow s (snd (find_shared_prefix E toks ka s))"
| create_table: "paged_step E cow s (snd (create_block_table rid s))"
| get_or_create: "paged_step E cow s (snd (get_or_create_block_table rid s))"
| delete_table: "paged_step E cow s (snd (delete_block_table rid s))"
| detach: "paged_step E cow s (snd (detach_request_table rid s))"
| add_to_table: "paged_step E cow s (add_block_to_table r b n s)"
| fork: "paged_step E cow s (snd (fork_block_table r rid s))"
| generation: "cow \<Longrightarrow> paged_step E cow s (snd (get_blocks_for_generation r s))"
| read_stats: "paged_step E cow s (snd (get_stats s))"
| zero_stats: "paged_step E cow s (reset_stats s)"
| reset: "paged_step E cow s (snd (reset_prefix_cache s))"
| clear_all: "paged_step E cow s (snd (clear s))"
| set_ssd: "paged_step E cow s (set_paged_ssd_cache_manager m s)"
| add_callback: "paged_step E cow s (register_block_freed_callback cb s)"

inductive paged_reachable :: "'k hash_env \<Rightarrow> bool \<Rightarrow> paged_cache \<Rightarrow> bool"
  for E :: "'k hash_env" and cow :: bool where
  init: "0 < initb \<Longrightarrow> 0 < maxb \<Longrightarrow>
    paged_init signature bsize maxb caching mname initb clk = returns () s \<Longrightarrow> paged_reachable E cow s"
| step: "paged_reachable E cow s \<Longrightarrow> paged_step E cow s s' \<Longrightarrow> paged_reachable E cow s'"

section \<open>Every step keeps the invariant\<close>

lemma allocate_block_inv:
  assumes inv: "paged_inv xs [] k s" and k: "balanced k"
  shows "\<exists>xs'. paged_inv xs' [] k (snd (allocate_block s))"
proof (cases "xs \<noteq> [] \<or> current_allocated_count s < max_blocks s")
  case True
  from allocate_internal_inv [OF inv k this] show ?thesis by (auto simp: allocate_block_def)
next
  case False
  then have "xs = []" "current_allocated_count s = max_blocks s" using inv_bound [OF inv] by auto
  with inv allocate_internal_full [of k s] show ?thesis by (auto simp: allocate_block_def)
qed

lemma get_new_blocks_inv:
  assumes "paged_inv xs [] k s" "balanced k" "0 \<le> n"
  shows "\<exists>xs'. paged_inv xs' [] k (snd (get_new_blocks n s))"
  using get_new_blocks_enough [OF assms] get_new_blocks_short [OF assms(1,2), of n]
  by (cases "n \<le> available xs s") force+

lemma for_tokens_inv:
  assumes "paged_inv xs [] k s" "balanced k" "0 \<le> n" "0 < block_size s"
  shows "\<exists>xs'. paged_inv xs' [] k (snd (allocate_blocks_for_tokens n s))"
proof -
  have "0 \<le> (n + block_size s - 1) div block_size s" using assms(3,4) by (simp add: pos_imp_zdiv_nonneg_iff)
  from get_new_blocks_inv [OF assms(1,2) this] assms(4) show ?thesis by (simp add: allocate_blocks_for_tokens_def)
qed

lemma evict_key_inv:
  assumes "paged_inv xs [] k s" "\<And>b. key = Int_key b \<Longrightarrow> 0 \<le> b"
  shows "\<exists>xs'. paged_inv xs' [] k (snd (evict key s))"
proof -
  have one: "\<exists>xs'. paged_inv xs' [] k (snd (evict_block_permanently b s))" if "0 \<le> b" for b
    using evict_permanently_inv [OF assms(1) that] by force
  have "b \<in> set (allocated_blocks s)" if "get_block h (cached_blocks s) = Some b" for h b
    using soundD [OF inv_sound [OF assms(1)] get_block_ids [OF that]] by blast
  then have "0 \<le> b" if "get_block h (cached_blocks s) = Some b" for h b
    using inv_nonneg [OF assms(1), of b] that by blast
  with one assms show ?thesis by (auto simp: evict_def split: cache_key.split option.split)
qed

lemma mark_restore_inv:
  assumes "paged_inv xs [] k s" "0 \<le> b"
  shows "paged_inv xs [] k (snd (mark_block_cold b s))" "paged_inv xs [] k (snd (restore_block b s))"
  using assms by (auto simp: mark_block_cold_def restore_block_def block_at_id [OF assms] intro!: inv_upd_stats_same)

lemma generation_inv:
  assumes "paged_inv xs [] None s"
  shows "\<exists>xs'. paged_inv xs' [] None (snd (get_blocks_for_generation r s))"
proof -
  have "unshared [] s" by (simp add: unshared_def)
  from generation_loop_inv [OF assms this, of r "enumerate 0 (block_ids (tables s r))" False]
  show ?thesis by (auto simp: get_blocks_for_generation_def)
qed

lemma paged_step_inv:
  assumes "paged_step E cow s s'" "paged_inv xs [] k s" "balanced k" "cow \<Longrightarrow> k = None"
  shows "\<exists>xs'. paged_inv xs' [] k s'"
  using assms
proof (induction rule: paged_step.induct)
  case (allocate s) then show ?case by (intro allocate_block_inv)
next
  case (get_new n s) then show ?case by (intro get_new_blocks_inv)
next
  case (for_tokens n s) then show ?case by (intro for_tokens_inv)
next
  case (free s b) with free_block_inv [of xs k s b] show ?case by force
next
  case (free_batch bs s) with free_blocks_batch_inv [of xs k s bs] show ?case by force
next
  case (touched bs s) then show ?case by (intro touch_inv)
next
  case (increment s b) then show ?case by (intro exI increment_ref_inv)
next
  case (release s bs)
  with release_each_inv [of xs k s bs 0] show ?case by (metis prod.collapse release_for_eviction_def)
next
  case (lru n s m s')
  with evict_lru_locked_inv [of xs k s n] show ?case by (auto simp: evict_lru_blocks_def)
next
  case (pressure n s m) with handle_memory_pressure_inv [of xs k s n] show ?case by force
next
  case (evict_one b s) with evict_permanently_inv [of xs k s b] show ?case by force
next
  case (evict_inline b s) with evict_inline_inv [of xs k s b] show ?case by force
next
  case (evict_key key s) then show ?case by (intro evict_key_inv) auto
next
  case (mark_cold b s) then show ?case by (intro exI mark_restore_inv)
next
  case (restore b s) then show ?case by (intro exI mark_restore_inv)
next
  case (get_cached s h) then show ?case by (intro exI get_cached_block_inv)
next
  case (find_cached s toks parent keys) then show ?case by (intro exI find_cached_block_inv)
next
  case (fetched s key) then show ?case by (intro exI fetch_inv)
next
  case (stored key v s) then show ?case by (intro exI store_inv) auto
next
  case (register b s parent toks keys) then show ?case by (intro exI register_block_hash_inv)
next
  case (cache_full bs s toks nc nf keys) then show ?case by (intro exI cache_full_blocks_inv)
next
  case (computed s toks ka claim) then show ?case by (intro get_computed_blocks_inv)
next
  case (shared_prefix s toks ka) then show ?case by (intro find_shared_prefix_inv)
next
  case (create_table s rid) then show ?case by (auto simp: create_block_table_def intro: new_table_inv)
next
  case (get_or_create s rid)
  then show ?case by (auto simp: get_or_create_block_table_def create_block_table_def intro: new_table_inv split: option.split)
next
  case (delete_table s rid) with delete_block_table_inv [of xs k s rid] show ?case by force
next
  case (detach s rid) then show ?case by (auto simp: detach_request_table_def)
next
  case (add_to_table s r b n) then show ?case by (intro exI add_block_to_table_inv)
next
  case (fork s r rid) then show ?case by (intro exI fork_block_table_inv)
next
  case (generation s r) then show ?case using generation_inv [of xs s r] by auto
next
  case (read_stats s) then show ?case by (intro exI get_stats_inv)
next
  case (zero_stats s) then show ?case by (auto simp: reset_stats_def intro!: inv_upd_stats_same)
next
  case (reset s) then show ?case by (intro exI reset_prefix_cache_inv)
next
  case (clear_all s)
  from clear_inv [OF clear_all.prems(1)] obtain s' where "clear s = returns (int (length (allocated_blocks s)) - 1) s'"
    "paged_inv (pyrange 1 (min (initial_blocks s) (max_blocks s))) [] (Some (0, 0)) s'" by blast
  with clear_all.prems(2) show ?case by (auto simp: balanced_def dest: inv_forget_tally)
next
  case (set_ssd s m) then show ?case by (auto simp: set_paged_ssd_cache_manager_def)
next
  case (add_callback s cb) then show ?case by (auto simp: register_block_freed_callback_def)
qed

lemma paged_reachable_inv:
  assumes "paged_reachable E cow s"
  shows "\<exists>xs. paged_inv xs [] (if cow then None else Some (0, 0)) s"
  using assms
proof (induction rule: paged_reachable.induct)
  case (init initb maxb signature bsize caching mname clk s)
  from paged_init_inv [OF init(1,2), of signature bsize caching mname clk] init(3)
  show ?case by (auto dest: inv_forget_tally)
next
  case (step s s')
  then obtain xs where "paged_inv xs [] (if cow then None else Some (0, 0)) s" by blast
  from paged_step_inv [OF step.hyps(2) this] show ?case by (auto simp: balanced_def)
qed

end
