(* ===== verification/PagedLookup.thy ===== *)
theory PagedLookup
  imports PagedReach
begin

text \<open>
  What prefix lookup computes: the longest prefix of the request's chain hashes that the hash
  map knows. Registering the full blocks of a request and asking again finds them, also for a
  longer request.
\<close>

section \<open>Lookup is the longest known prefix of the chain\<close>

definition known :: "paged_cache \<Rightarrow> string \<Rightarrow> bool" where
  "known s h = (get_block h (cached_blocks s) \<noteq> None)"

definition keys_at :: "'k key_args \<Rightarrow> int \<Rightarrow> nat \<Rightarrow> py_error + 'k list option" where
  "keys_at ka bsize i =
     resolve_block_extra_keys (int i * bsize + bsize) (ka_keys ka) (ka_token_start ka) (ka_ranges ka)"

text \<open>The chain hashes of the blocks \<open>is\<close> of a request whose keys are \<open>kf\<close>.\<close>

definition request_chain ::
  "'k hash_env \<Rightarrow> int list \<Rightarrow> (nat \<Rightarrow> 'k list option) \<Rightarrow> int \<Rightarrow> string \<Rightarrow> string option \<Rightarrow> nat list \<Rightarrow> string list" where
  "request_chain E toks kf bsize mname parent is =
     chain_from E parent (map (\<lambda>i. (block_tokens bsize i toks, kf i)) is) (Some mname)"

lemma request_chain_simps [simp]:
  "request_chain E toks kf bsize mname parent [] = []"
  "request_chain E toks kf bsize mname parent (i # is) =
     (let h = compute_block_hash E parent (block_tokens bsize i toks) (kf i) (Some mname)
      in h # request_chain E toks kf bsize mname (Some h) is)"
  by (simp_all add: request_chain_def)

lemma length_request_chain [simp]: "length (request_chain E toks kf bsize mname parent is) = length is"
  by (simp add: request_chain_def)

lemma hit_sel [simp]:
  "cached_blocks (hit s) = cached_blocks s" "allocated_blocks (hit s) = allocated_blocks s"
  "meta (hit s) = meta s" "block_size (hit s) = block_size s" "model_name (hit s) = model_name s"
  "ssd_has_block (hit s) = ssd_has_block s" "st_hits (stats (hit s)) = st_hits (stats s) + 1"
  "st_misses (stats (hit s)) = st_misses (stats s)" "enable_caching (hit s) = enable_caching s"
  by (simp_all add: hit_def)

lemma miss_sel [simp]:
  "cached_blocks (miss s) = cached_blocks s" "allocated_blocks (miss s) = allocated_blocks s"
  "meta (miss s) = meta s" "block_size (miss s) = block_size s" "model_name (miss s) = model_name s"
  "ssd_has_block (miss s) = ssd_has_block s" "st_hits (stats (miss s)) = st_hits (stats s)"
  "st_misses (stats (miss s)) = st_misses (stats s) + 1" "enable_caching (miss s) = enable_caching s"
  by (simp_all add: miss_def)

lemma add_ref_counts [simp]:
  "st_hits (stats (add_ref b s)) = st_hits (stats s)" "st_misses (stats (add_ref b s)) = st_misses (stats s)"
  by (auto simp: add_ref_def Let_def)

text \<open>One unfolding of the loop when no block can be restored from the SSD.\<close>

lemma computed_loop_step:
  assumes "keys_at ka (block_size s) i = Inr keys" "claim \<longrightarrow> ssd_has_block s = None"
    and "h = compute_block_hash E parent (block_tokens (block_size s) i toks) keys (Some (model_name s))"
  shows "computed_loop E toks ka claim (i # js) parent found n {} s =
    (case get_block h (cached_blocks s) of
       None \<Rightarrow> returns (found, n) (miss s)
     | Some b \<Rightarrow> computed_loop E toks ka claim js (Some h) (found @ [b]) (n + block_size s) {}
                  (hit (if claim then add_ref b s else s)))"
proof -
  have "lazy_restore claim h parent s = returns None s"
    using assms(2) by (auto simp: lazy_restore_def split: option.split)
  then show ?thesis using assms(1) by (simp add: keys_at_def Let_def assms(3) split: option.split)
qed

declare computed_loop.simps(2) [simp del]

lemma computed_loop_hits:
  fixes s :: paged_cache and E :: "'k hash_env" and toks :: "int list" and parent :: "string option"
  defines "d \<equiv> cached_blocks s" and "bsize \<equiv> block_size s"
  assumes keys: "\<And>i. i \<in> set js \<Longrightarrow> keys_at ka (block_size s) i = Inr (kf i)"
    and ssd: "claim \<longrightarrow> ssd_has_block s = None"
  defines "hs \<equiv> takeWhile (known s) (request_chain E toks kf (block_size s) (model_name s) parent js)"
  shows "\<exists>s'. computed_loop E toks ka claim js parent found n {} s =
      returns (found @ map (\<lambda>h. the (get_block h d)) hs, n + bsize * int (length hs)) s' \<and>
    cached_blocks s' = d \<and> allocated_blocks s' = allocated_blocks s \<and>
    (\<forall>b. ref_count (meta s' b) = ref_count (meta s b) +
       (if claim then int (count_list (map (\<lambda>h. the (get_block h d)) hs) b) else 0)) \<and>
    (\<forall>b. block_hash (meta s' b) = block_hash (meta s b)) \<and>
    st_hits (stats s') = st_hits (stats s) + int (length hs) \<and>
    st_misses (stats s') = st_misses (stats s) + (if length hs < length js then 1 else 0)"
  using keys ssd unfolding d_def bsize_def hs_def
proof (induction js arbitrary: parent found n s)
  case Nil
  then show ?case by simp
next
  case (Cons i js)
  define h where "h = compute_block_hash E parent (block_tokens (block_size s) i toks) (kf i) (Some (model_name s))"
  have ki: "keys_at ka (block_size s) i = Inr (kf i)" using Cons.prems(1) by simp
  note step = computed_loop_step [OF ki Cons.prems(2) h_def, where js = js and found = found and n = n]
  show ?case
  proof (cases "get_block h (cached_blocks s)")
    case None
    then have "\<not> known s h" by (simp add: known_def)
    with None step show ?thesis by (auto simp: Let_def h_def [symmetric])
  next
    case (Some b)
    let ?s1 = "hit (if claim then add_ref b s else s)"
    have k: "known s h" using Some by (simp add: known_def)
    have kn: "known ?s1 = known s" by (rule ext) (simp add: known_def)
    have same: "block_size ?s1 = block_size s" "model_name ?s1 = model_name s" "cached_blocks ?s1 = cached_blocks s"
      "allocated_blocks ?s1 = allocated_blocks s"
      "st_hits (stats ?s1) = st_hits (stats s) + 1" "st_misses (stats ?s1) = st_misses (stats s)"
      "\<And>c. ref_count (meta ?s1 c) = ref_count (meta s c) + (if claim \<and> c = b then 1 else 0)"
      "\<And>c. block_hash (meta ?s1 c) = block_hash (meta s c)"
      by auto
    have "\<And>i. i \<in> set js \<Longrightarrow> keys_at ka (block_size ?s1) i = Inr (kf i)" "claim \<longrightarrow> ssd_has_block ?s1 = None"
      using Cons.prems by (auto simp: same)
    from Cons.IH [OF this, of "Some h" "found @ [b]" "n + block_size s"] show ?thesis
      unfolding step Some request_chain_simps Let_def h_def [symmetric] kn same using k Some
      by (auto simp: algebra_simps)
  qed
qed

lemma get_computed_blocks_hits:
  fixes s :: paged_cache and E :: "'k hash_env" and toks :: "int list"
  assumes on: "enable_caching s" "0 < block_size s"
    and keys: "\<And>i. i < nat (int (length toks) div block_size s) \<Longrightarrow> keys_at ka (block_size s) i = Inr (kf i)"
    and ssd: "claim \<longrightarrow> ssd_has_block s = None"
  defines "hs \<equiv> takeWhile (known s) (request_chain E toks kf (block_size s) (model_name s) None
      [0..<nat (int (length toks) div block_size s)])"
  shows "\<exists>s'. get_computed_blocks E toks ka claim s =
      returns (map (\<lambda>h. the (get_block h (cached_blocks s))) hs, block_size s * int (length hs)) s' \<and>
    cached_blocks s' = cached_blocks s \<and> allocated_blocks s' = allocated_blocks s \<and>
    (\<forall>b. ref_count (meta s' b) = ref_count (meta s b) +
       (if claim then int (count_list (map (\<lambda>h. the (get_block h (cached_blocks s))) hs) b) else 0)) \<and>
    (\<forall>b. block_hash (meta s' b) = block_hash (meta s b)) \<and>
    st_hits (stats s') = st_hits (stats s) + int (length hs) \<and>
    st_misses (stats s') = st_misses (stats s) +
      (if length hs < nat (int (length toks) div block_size s) then 1 else 0)"
proof -
  have "\<And>i. i \<in> set [0..<nat (int (length toks) div block_size s)] \<Longrightarrow> keys_at ka (block_size s) i = Inr (kf i)"
    using keys by simp
  from computed_loop_hits [OF this ssd, where js = "[0..<nat (int (length toks) div block_size s)]" and E = E and toks = toks and parent = None and found = "[]" and n = 0] on show ?thesis
    unfolding hs_def [symmetric] by (auto simp: get_computed_blocks_def)
qed

section \<open>Registering and finding again\<close>

lemma cache_loop_fresh:
  assumes "distinct (map ((!) bs) is)" "\<forall>i \<in> set is. i < length bs \<and> block_hash (meta s (bs ! i)) = None"
  shows "\<exists>s'. cache_loop E bs toks keys is parent s = returns () s' \<and>
    (\<forall>h. ids_at (cached_blocks s) h \<subseteq> ids_at (cached_blocks s') h) \<and>
    (\<forall>j < length is. bs ! (is ! j) \<in> ids_at (cached_blocks s')
        (request_chain E toks (\<lambda>_. keys) (block_size s) (model_name s) parent is ! j)) \<and>
    block_size s' = block_size s \<and> model_name s' = model_name s \<and> enable_caching s' = enable_caching s \<and>
    ssd_has_block s' = ssd_has_block s"
  using assms
proof (induction "is" arbitrary: parent s)
  case Nil
  then show ?case by simp
next
  case (Cons i "is")
  let ?t = "block_tokens (block_size s) i toks"
  define h where "h = compute_block_hash E parent ?t keys (Some (model_name s))"
  let ?s = "list_under h (bs ! i) (\<lambda>m. m\<lparr>block_hash := Some h, parent_hash := parent, token_count := int (length ?t)\<rparr>) s"
  have i: "i < length bs" "block_hash (meta s (bs ! i)) = None" using Cons.prems by auto
  have rest: "\<forall>j \<in> set is. j < length bs \<and> block_hash (meta ?s (bs ! j)) = None"
    using Cons.prems by (auto simp: image_iff)
  from Cons.IH [OF _ rest, of "Some h"] Cons.prems(1) obtain s' where
    s': "cache_loop E bs toks keys is (Some h) ?s = returns () s'"
      "\<forall>h'. ids_at (cached_blocks ?s) h' \<subseteq> ids_at (cached_blocks s') h'"
      "\<forall>j < length is. bs ! (is ! j) \<in> ids_at (cached_blocks s')
        (request_chain E toks (\<lambda>_. keys) (block_size ?s) (model_name ?s) (Some h) is ! j)"
      "block_size s' = block_size ?s" "model_name s' = model_name ?s" "enable_caching s' = enable_caching ?s"
      "ssd_has_block s' = ssd_has_block ?s" by auto
  have loop: "cache_loop E bs toks keys (i # is) parent s = cache_loop E bs toks keys is (Some h) ?s"
    using i by (simp add: list_under_def h_def Let_def)
  have here: "bs ! i \<in> ids_at (cached_blocks s') h"
    using s'(2) [rule_format, of h] by (auto simp: ids_at_insert)
  have mono: "ids_at (cached_blocks s) h' \<subseteq> ids_at (cached_blocks s') h'" for h'
    using s'(2) [rule_format, of h'] by (auto simp: ids_at_insert split: if_splits)
  show ?case
    unfolding loop using s' here mono
    by (intro exI [of _ s']) (auto simp: Let_def h_def [symmetric] nth_Cons split: nat.split)
qed

lemma block_tokens_prefix:
  assumes "0 < bsize" "int (Suc i) * bsize \<le> int (length toks)"
  shows "block_tokens bsize i (toks @ extra) = block_tokens bsize i toks"
proof -
  let ?a = "nat (int i * bsize)" let ?n = "nat bsize"
  have nn: "0 \<le> int i * bsize" using assms(1) by simp
  have "?a + ?n \<le> length toks" using assms nn by (simp add: algebra_simps nat_add_distrib [symmetric])
  then show ?thesis
    using assms(1) nn by (simp add: block_tokens_def pyslice_nonneg)
qed

lemma take_while_all:
  assumes "n \<le> length xs" "\<And>j. j < n \<Longrightarrow> P (xs ! j)"
  shows "n \<le> length (takeWhile P xs)"
  using assms by (meson leI nth_length_takeWhile order_less_le_trans)

lemma request_chain_prefix:
  assumes "\<And>i. i < n \<Longrightarrow> block_tokens bsize i toks' = block_tokens bsize i toks" "n \<le> m"
  shows "take n (request_chain E toks' kf bsize mname None [0..<m]) = request_chain E toks kf bsize mname None [0..<n]"
proof -
  let ?f = "\<lambda>t i. (block_tokens bsize i t, kf i)"
  have "[0..<m] = [0..<n] @ [n..<m]" using assms(2) by (metis le_add_diff_inverse upt_add_eq_append zero_le)
  then have "request_chain E toks' kf bsize mname None [0..<m] =
      chain_from E None (map (?f toks') [0..<n]) (Some mname) @
      chain_from E (if map (?f toks') [0..<n] = [] then None
        else Some (last (chain_from E None (map (?f toks') [0..<n]) (Some mname)))) (map (?f toks') [n..<m]) (Some mname)"
    by (simp only: request_chain_def map_append chain_from_append)
  moreover have "map (?f toks') [0..<n] = map (?f toks) [0..<n]" using assms(1) by simp
  ultimately show ?thesis by (simp add: request_chain_def)
qed

text \<open>The request without extra keys.\<close>

definition plain_keys :: "'k key_args" where
  "plain_keys = \<lparr>ka_keys = None, ka_token_start = None, ka_ranges = []\<rparr>"

lemma keys_at_plain [simp]: "keys_at plain_keys bsize i = Inr None"
  by (simp add: keys_at_def plain_keys_def resolve_block_extra_keys_def)

lemma cache_then_lookup:
  fixes s :: paged_cache
  assumes inv: "paged_inv xs [] k s" and on: "enable_caching s" "0 < block_size s"
    and bs: "distinct bs" "set bs \<subseteq> set (allocated_blocks s)" "\<forall>b \<in> set bs. block_hash (meta s b) = None"
    and len: "int (length bs) * block_size s \<le> int (length toks)"
  shows "\<exists>s1 found n s2. cache_full_blocks E bs toks 0 (length bs) None s = returns () s1 \<and>
    get_computed_blocks E (toks @ extra) plain_keys False s1 = returns (found, n) s2 \<and>
    length bs \<le> length found \<and>
    (\<forall>j < length bs. block_hash (meta s2 (found ! j)) =
       Some (request_chain E toks (\<lambda>_. None) (block_size s) (model_name s) None [0..<length bs] ! j))"
proof (cases "bs = []")
  case True
  have "cache_full_blocks E bs toks 0 (length bs) None s = returns () s" using True by (simp add: cache_full_blocks_def)
  moreover obtain found n s2 where "get_computed_blocks E (toks @ extra) plain_keys False s = returns (found, n) s2"
    using get_computed_blocks_hits [OF on, where E = E and toks = "toks @ extra" and ka = plain_keys and
      kf = "\<lambda>_. None" and claim = False] by auto
  ultimately show ?thesis using True by auto
next
  case False
  let ?bsz = "block_size s"
  let ?rc = "request_chain E toks (\<lambda>_. None) ?bsz (model_name s) None [0..<length bs]"
  have dm: "distinct (map ((!) bs) [0..<length bs])" using bs(1) by (simp add: map_nth)
  from cache_loop_fresh [OF dm, of s E toks None None] bs(3) obtain s1 where
    s1: "cache_loop E bs toks None [0..<length bs] None s = returns () s1"
      "\<forall>j < length bs. bs ! j \<in> ids_at (cached_blocks s1) (?rc ! j)"
      "block_size s1 = ?bsz" "model_name s1 = model_name s" "enable_caching s1" using on by auto
  have c: "cache_full_blocks E bs toks 0 (length bs) None s = returns () s1"
    using on False s1(1) by (simp add: cache_full_blocks_def)
  have inv1: "paged_inv xs [] k s1"
    using cache_full_blocks_inv [OF inv bs(2), of E toks 0 "length bs" None] c by simp
  define m where "m = nat (int (length (toks @ extra)) div ?bsz)"
  let ?full = "request_chain E (toks @ extra) (\<lambda>_. None) ?bsz (model_name s) None [0..<m]"
  let ?hs = "takeWhile (known s1) ?full"
  from get_computed_blocks_hits [where s = s1 and E = E and toks = "toks @ extra" and ka = plain_keys and
      kf = "\<lambda>_. None" and claim = False] on s1 obtain s2 where
    s2: "get_computed_blocks E (toks @ extra) plain_keys False s1 =
      returns (map (\<lambda>h. the (get_block h (cached_blocks s1))) ?hs, ?bsz * int (length ?hs)) s2"
    "\<forall>b. block_hash (meta s2 b) = block_hash (meta s1 b)" unfolding m_def by (auto simp del: length_append)
  have "int (length bs) \<le> int (length (toks @ extra)) div ?bsz"
    using zdiv_mono1 [of "int (length bs) * ?bsz" "int (length (toks @ extra))" ?bsz] len on(2) by simp
  then have m: "length bs \<le> m" by (simp add: m_def)
  have pre: "take (length bs) ?full = ?rc"
  proof (rule request_chain_prefix [OF _ m])
    fix i assume "i < length bs"
    then have "int (Suc i) * ?bsz \<le> int (length bs) * ?bsz" using on(2) by simp
    with len on(2) show "block_tokens ?bsz i (toks @ extra) = block_tokens ?bsz i toks"
      by (intro block_tokens_prefix) linarith+
  qed
  have at: "?full ! j = ?rc ! j" if "j < length bs" for j
    using that m by (simp flip: pre)
  have kn: "known s1 (?full ! j)" if "j < length bs" for j
    using s1(2) that by (auto simp: at [OF that] known_def get_block_None)
  have l: "length bs \<le> length ?hs" using m kn by (intro take_while_all) auto
  have "block_hash (meta s2 (map (\<lambda>h. the (get_block h (cached_blocks s1))) ?hs ! j)) = Some (?rc ! j)"
    if j: "j < length bs" for j
  proof -
    have "?hs ! j = ?rc ! j" using j l at [OF j] by (simp add: takeWhile_nth)
    moreover from kn [OF j] at [OF j] obtain b where b: "get_block (?rc ! j) (cached_blocks s1) = Some b"
      by (auto simp: known_def)
    moreover have "block_hash (meta s1 b) = Some (?rc ! j)"
      using soundD [OF inv_sound [OF inv1] get_block_ids [OF b]] by simp
    ultimately show ?thesis using j l s2(2) by simp
  qed
  with c s2(1) l show ?thesis by auto
qed

end
