(* ===== verification/PagedRun.thy ===== *)
theory PagedRun
  imports PagedLookup
begin

text \<open>
  Running the paged cache on concrete states inside the kernel: \<open>run\<close> collects the
  definitions of the operations, and the congruences keep the simplifier out of the
  continuations until the state they act on is a value. \<open>code_simp\<close> evaluates
  those continuations symbolically and does not end on longer runs.
\<close>

named_theorems run \<open>definitions and rules that evaluate the operations on a concrete state\<close>

lemma and_then_weak: "m = m' \<Longrightarrow> and_then m f = and_then m' f"
  by simp

lemma fold_weak: "xs = ys \<Longrightarrow> s = t \<Longrightarrow> fold f xs s = fold f ys t"
  by simp

lemma on_queue_weak: "s = t \<Longrightarrow> on_queue f s = on_queue f t"
  by simp

declare and_then_weak [cong] fold_weak [cong] on_queue_weak [cong]

lemma pyrange_rec [run]: "pyrange a b = (if b \<le> a then [] else a # pyrange (a + 1) b)"
  by (simp add: pyrange_Cons)

lemma upt_rec_numeral [run]: "[i..<j] = (if i < j then i # [Suc i..<j] else [])"
  by (rule upt_rec)

lemma digit_chars [run]:
  "char_of (48 :: nat) = CHR ''0''" "char_of (49 :: nat) = CHR ''1''" "char_of (50 :: nat) = CHR ''2''"
  "char_of (51 :: nat) = CHR ''3''" "char_of (52 :: nat) = CHR ''4''" "char_of (53 :: nat) = CHR ''5''"
  "char_of (54 :: nat) = CHR ''6''" "char_of (55 :: nat) = CHR ''7''" "char_of (56 :: nat) = CHR ''8''"
  "char_of (57 :: nat) = CHR ''9''"
  by code_simp+

lemma cascade_loop_run [run]:
  "cascade_loop n [] e s = (e, s)"
  "cascade_loop n (p # w) e s = (if n = 0 then (e, s)
     else case clear_orphans (orphans_of (last (p # w)) s) (butlast (p # w)) e s of
       (w', e', s') \<Rightarrow> cascade_loop (n - 1) w' e' s')"
  by (cases n; simp)+

lemmas [run] =
  fake_head_def fake_tail_def set_next_def set_prev_def queue_init_def link_neighbours_def popleft_def
  popleft_n_def append_block_def append_n_def remove_block_def is_in_queue_def
  on_queue_def returns_def raises_def and_then_def
  upd_block_def upd_stats_def alloc_add_def alloc_del_def touch_block_def read_clock_def fresh_block_def
  new_stats_def paged_init_def blank_cache_def build_pool_def grow_blocks_def is_shared_def reset_hash_def
  notify_block_content_invalidated_def flush_content_invalidated_def register_block_freed_callback_def
  orphans_of_def max_cascade_def cascade_evict_orphans_locked_def maybe_evict_cached_block_def take_block_def
  count_allocated_def record_oob_def allocate_block_internal_def allocate_block_def
  get_new_blocks_def free_block_locked_def free_block_def release_for_eviction_def add_ref_def
  hash_pop_def hash_insert_def get_block_def evict_node_def evict_step_def evict_lru_blocks_locked_def
  evict_candidates_def pop_own_hash_def reclaim_node_def evict_cached_blocks_locked_def
  handle_memory_pressure_def hit_def miss_def block_tokens_def pyslice_def slice_bound_def cache_full_blocks_def
  compute_block_hash_def hash_payload_def root_seed_def tuple_str_def
  get_computed_blocks_def new_table_def create_block_table_def table_copy_def table_add_block_def
  add_block_to_table_def fork_ref_def fork_block_table_def cow_make_room_def cow_copy_def
  get_blocks_for_generation_def walk_free.simps get_all_free_blocks_def evict_lru_walk.simps
  clear_orphans.simps computed_loop.simps(2) resolve_block_extra_keys_def plain_keys_def lazy_restore_def
  reset_prefix_cache_def hash_clear_def clear_def int_str_def nat_str.simps Let_def

end
