(* ===== verification/PagedProps.thy ===== *)
theory PagedProps
  imports PagedRun
begin

text \<open>
  The properties of the paged cache: of its reachable states, of its operations, of prefix
  lookup and of the chain hash, each with a concrete state it applies to, and the theorems
  behind the findings.
\<close>

section \<open>Concrete states\<close>

text \<open>
  A pool of three blocks of two tokens (two of them usable), and states it reaches. The digest
  of \<open>toy_env\<close> is the last digit of the block's tokens.
\<close>

definition toy_env :: "unit hash_env" where
  "toy_env = \<lparr>sha256 = (\<lambda>x. [last (butlast x)]), keys_str = (\<lambda>_. [])\<rparr>"

definition small :: paged_cache where
  "small = snd (paged_init (\<lambda>d. d) 2 3 True [] 3 (\<lambda>_. 0))"

definition lazy_pool :: paged_cache where
  "lazy_pool = snd (paged_init (\<lambda>d. d) 2 4 True [] 2 (\<lambda>_. 0))"

text \<open>Blocks 1 and 2 in use, holding the chain of the tokens 1, 2, 3, 4.\<close>

definition filled :: paged_cache where
  "filled = snd (cache_full_blocks toy_env [1, 2] [1, 2, 3, 4] 0 2 None (snd (allocate_block (snd (allocate_block small)))))"

text \<open>The same with both references released for eviction.\<close>

definition released :: paged_cache where
  "released = snd (release_for_eviction [1, 2] filled)"

text \<open>A table with block 1, shared with a fork of it.\<close>

definition forked :: paged_cache where
  "forked = snd (fork_block_table 0 ''b''
     (add_block_to_table 0 1 2 (snd (create_block_table ''a'' (snd (allocate_block small))))))"

lemmas toy = small_def lazy_pool_def filled_def released_def forked_def toy_env_def

lemma small_reachable: "paged_reachable toy_env cow small"
proof -
  have "paged_init (\<lambda>d. d) 2 3 True [] 3 (\<lambda>_. 0) = returns () small"
    using paged_init_inv [of 3 3 "\<lambda>d. d" 2 True "[]" "\<lambda>_. 0"] by (auto simp: small_def)
  then show ?thesis by (intro paged_reachable.init) auto
qed

lemma lazy_pool_reachable: "paged_reachable toy_env cow lazy_pool"
proof -
  have "paged_init (\<lambda>d. d) 2 4 True [] 2 (\<lambda>_. 0) = returns () lazy_pool"
    using paged_init_inv [of 2 4 "\<lambda>d. d" 2 True "[]" "\<lambda>_. 0"] by (auto simp: lazy_pool_def)
  then show ?thesis by (intro paged_reachable.init) auto
qed

lemma filled_reachable: "paged_reachable toy_env cow filled"
  unfolding filled_def
  by (rule paged_reachable.step [OF paged_reachable.step [OF paged_reachable.step [OF small_reachable
    paged_step.allocate] paged_step.allocate] paged_step.cache_full]) (simp add: run toy del: pyrange_empty)

lemma released_reachable: "paged_reachable toy_env cow released"
  unfolding released_def by (rule paged_reachable.step [OF filled_reachable paged_step.release])

lemma forked_reachable: "paged_reachable toy_env cow forked"
  unfolding forked_def
  by (rule paged_reachable.step [OF paged_reachable.step [OF paged_reachable.step [OF paged_reachable.step
    [OF small_reachable paged_step.allocate] paged_step.create_table] paged_step.add_to_table] paged_step.fork])

section \<open>Reachable states\<close>

text \<open>C1: In every state the public methods of the paged cache reach, copy-on-write included,
  the free queue and the allocated map partition the created block ids: no block is lost, none
  is in both places or twice in one, the free counter is the length of the queue, no free
  block is referenced, the null block is in use and the pool never exceeds its maximum.\<close>

theorem pool_partition:
  assumes "paged_reachable E cow s"
  shows "\<exists>xs. get_all_free_blocks (free_block_queue s) = Some xs \<and>
    num_free_blocks (free_block_queue s) = int (length xs) \<and>
    distinct (xs @ allocated_blocks s) \<and>
    set (xs @ allocated_blocks s) = {0..<current_allocated_count s} \<and>
    (\<forall>b \<in> set xs. ref_count (meta s b) \<le> 0) \<and>
    null_block s \<in> set (allocated_blocks s) \<and> is_null (meta s (null_block s)) \<and>
    current_allocated_count s \<le> max_blocks s"
proof -
  from paged_reachable_inv [OF assms] obtain xs k where inv: "paged_inv xs [] k s" by blast
  show ?thesis
    using rep_get_all [OF inv_queue [OF inv]] inv_num_free [OF inv] inv_distinct [OF inv] inv_ids [OF inv]
      inv_unreferenced [OF inv] inv_null_alloc [OF inv] inv_null_block [OF inv] inv_null [OF inv] inv_bound [OF inv]
    by auto
qed

theorem pool_partition_witness:
  "\<exists>xs. get_all_free_blocks (free_block_queue released) = Some xs \<and>
    num_free_blocks (free_block_queue released) = int (length xs) \<and>
    distinct (xs @ allocated_blocks released) \<and>
    set (xs @ allocated_blocks released) = {0..<current_allocated_count released} \<and>
    (\<forall>b \<in> set xs. ref_count (meta released b) \<le> 0) \<and>
    null_block released \<in> set (allocated_blocks released) \<and> is_null (meta released (null_block released)) \<and>
    current_allocated_count released \<le> max_blocks released"
  by (rule pool_partition [OF released_reachable])

text \<open>C2: Whatever a reachable hash map offers for a hash is a block in use that carries that
  very hash: a prefix lookup never returns a freed block or one whose content was replaced.\<close>

theorem hash_map_sound:
  assumes "paged_reachable E cow s" "get_block h (cached_blocks s) = Some b"
  shows "b \<in> set (allocated_blocks s) \<and> block_hash (meta s b) = Some h"
proof -
  from paged_reachable_inv [OF assms(1)] obtain xs k where inv: "paged_inv xs [] k s" by blast
  show ?thesis using soundD [OF inv_sound [OF inv] get_block_ids [OF assms(2)]] .
qed

theorem hash_map_sound_witness:
  "1 \<in> set (allocated_blocks filled) \<and> block_hash (meta filled 1) = Some ''2''"
proof (rule hash_map_sound [OF filled_reachable])
  show "get_block ''2'' (cached_blocks filled) = Some 1" by (simp add: run toy del: pyrange_empty)
qed

text \<open>C16: As long as no copy-on-write has happened the block counters of the statistics are
  exact: allocated blocks are the entries of the allocated map, free blocks the length of the
  free queue and total blocks the blocks created.\<close>

theorem counters_exact:
  assumes "paged_reachable E False s"
  shows "st_allocated_blocks (stats s) = int (length (allocated_blocks s)) \<and>
    st_free_blocks (stats s) = num_free_blocks (free_block_queue s) \<and>
    st_total_blocks (stats s) = st_allocated_blocks (stats s) + st_free_blocks (stats s)"
proof -
  from paged_reachable_inv [OF assms] obtain xs where inv: "paged_inv xs [] (Some (0, 0)) s" by auto
  have "length (xs @ [] @ allocated_blocks s) = nat (current_allocated_count s)"
    using distinct_card [OF inv_distinct [OF inv]] inv_ids [OF inv] by simp
  with inv_tally [OF inv] inv_num_free [OF inv] inv_count_pos [OF inv] show ?thesis by (simp add: tally_Some)
qed

theorem counters_exact_witness:
  "st_allocated_blocks (stats released) = int (length (allocated_blocks released)) \<and>
    st_free_blocks (stats released) = num_free_blocks (free_block_queue released) \<and>
    st_total_blocks (stats released) = st_allocated_blocks (stats released) + st_free_blocks (stats released)"
  by (rule counters_exact [OF released_reachable])

section \<open>Allocation and release\<close>

text \<open>On a reachable state without copy-on-write, allocating one block never raises. It
  answers \<open>None\<close> exactly when the queue is empty and the pool is fully grown; otherwise the
  head of the queue, or the first new block, becomes the one reference of a block in use that
  was not in use before, and the blocks in use keep their metadata.\<close>

theorem allocate_block_spec:
  assumes "paged_reachable E False s"
  shows "\<exists>r s'. allocate_block s = returns r s' \<and>
    (r = None \<longleftrightarrow> num_free_blocks (free_block_queue s) = 0 \<and> current_allocated_count s = max_blocks s) \<and>
    (\<forall>b. r = Some b \<longrightarrow> b \<noteq> 0 \<and> b \<notin> set (allocated_blocks s) \<and>
       allocated_blocks s' = allocated_blocks s @ [b] \<and> ref_count (meta s' b) = 1 \<and>
       (\<forall>c \<in> set (allocated_blocks s). meta s' c = meta s c))"
proof -
  from paged_reachable_inv [OF assms] obtain xs where inv: "paged_inv xs [] (Some (0, 0)) s" by auto
  show ?thesis
  proof (cases "xs \<noteq> [] \<or> current_allocated_count s < max_blocks s")
    case True
    from allocate_internal_inv [OF inv balanced_zero True] obtain s1 ys where
      s1: "allocate_block_internal s = returns (Some (next_block xs s)) s1" "paged_inv ys [] (Some (0, 0)) s1"
        "allocated_blocks s1 = allocated_blocks s @ [next_block xs s]" "ref_count (meta s1 (next_block xs s)) = 1"
        "next_block xs s \<noteq> 0" "keeps_used s s1" by blast
    have "next_block xs s \<notin> set (allocated_blocks s)" using inv_distinct [OF s1(2)] s1(3) by auto
    with True s1 inv_num_free [OF inv] show ?thesis
      by (intro exI [of _ "Some (next_block xs s)"] exI [of _ "flush_content_invalidated s1"])
        (auto simp: allocate_block_def keeps_used_def)
  next
    case False
    then have "xs = []" "current_allocated_count s = max_blocks s" using inv_bound [OF inv] by auto
    with inv allocate_internal_full [of _ s] inv_num_free [OF inv] show ?thesis by (auto simp: allocate_block_def)
  qed
qed

theorem allocate_block_spec_witness:
  "\<exists>r s'. allocate_block filled = returns r s' \<and>
    (r = None \<longleftrightarrow> num_free_blocks (free_block_queue filled) = 0 \<and> current_allocated_count filled = max_blocks filled) \<and>
    (\<forall>b. r = Some b \<longrightarrow> b \<noteq> 0 \<and> b \<notin> set (allocated_blocks filled) \<and>
       allocated_blocks s' = allocated_blocks filled @ [b] \<and> ref_count (meta s' b) = 1 \<and>
       (\<forall>c \<in> set (allocated_blocks filled). meta s' c = meta filled c))"
  by (rule allocate_block_spec [OF filled_reachable])

text \<open>A bulk allocation is all or nothing: when the free queue and the room left to grow
  hold enough blocks it returns that many distinct blocks, each with one reference; otherwise
  it raises \<open>ValueError\<close> and no block has been taken.\<close>

theorem get_new_blocks_spec:
  assumes "paged_reachable E False s" "0 \<le> num"
  shows "\<exists>s'. (\<exists>bs. get_new_blocks num s = returns bs s' \<and> int (length bs) = num \<and> distinct bs \<and>
        set bs \<inter> set (allocated_blocks s) = {} \<and> allocated_blocks s' = allocated_blocks s @ bs \<and>
        (\<forall>b \<in> set bs. ref_count (meta s' b) = 1) \<and>
        num \<le> num_free_blocks (free_block_queue s) + (max_blocks s - current_allocated_count s)) \<or>
    (get_new_blocks num s = raises ValueError s' \<and> allocated_blocks s' = allocated_blocks s \<and>
        num > num_free_blocks (free_block_queue s) + (max_blocks s - current_allocated_count s))"
proof -
  from paged_reachable_inv [OF assms(1)] obtain xs where inv: "paged_inv xs [] (Some (0, 0)) s" by auto
  have av: "available xs s = num_free_blocks (free_block_queue s) + (max_blocks s - current_allocated_count s)"
    by (simp add: available_def inv_num_free [OF inv])
  show ?thesis
  proof (cases "num \<le> available xs s")
    case True
    from get_new_blocks_enough [OF inv balanced_zero assms(2) True] obtain s' ys bs where
      s': "get_new_blocks num s = returns bs s'" "paged_inv ys [] (Some (0, 0)) s'" "length bs = nat num"
        "allocated_blocks s' = allocated_blocks s @ bs" "\<forall>b \<in> set bs. ref_count (meta s' b) = 1" by blast
    have "distinct (allocated_blocks s @ bs)" using inv_distinct [OF s'(2)] s'(4) by simp
    with s' True av assms(2) show ?thesis by auto
  next
    case False
    with get_new_blocks_short [OF inv balanced_zero, of num] av show ?thesis by fastforce
  qed
qed

theorem get_new_blocks_spec_witness:
  "\<exists>s'. (\<exists>bs. get_new_blocks 2 small = returns bs s' \<and> int (length bs) = 2 \<and> distinct bs \<and>
        set bs \<inter> set (allocated_blocks small) = {} \<and> allocated_blocks s' = allocated_blocks small @ bs \<and>
        (\<forall>b \<in> set bs. ref_count (meta s' b) = 1) \<and>
        2 \<le> num_free_blocks (free_block_queue small) + (max_blocks small - current_allocated_count small)) \<or>
    (get_new_blocks 2 small = raises ValueError s' \<and> allocated_blocks s' = allocated_blocks small \<and>
        2 > num_free_blocks (free_block_queue small) + (max_blocks small - current_allocated_count small))"
  by (rule get_new_blocks_spec [OF small_reachable]) simp

text \<open>Freeing a block of a reachable state never raises and answers whether the block left
  the allocated map, which happens exactly with its last reference; it then joins the end of
  the free queue. The null block and blocks not in use are left alone.\<close>

theorem free_block_spec:
  assumes "paged_reachable E cow s" "get_all_free_blocks (free_block_queue s) = Some xs"
  shows "\<exists>s'. free_block b s =
      returns (b \<in> set (allocated_blocks s) \<and> b \<noteq> 0 \<and> ref_count (meta s b) \<le> 1) s' \<and>
    (if b \<in> set (allocated_blocks s) \<and> b \<noteq> 0 \<and> ref_count (meta s b) \<le> 1
     then get_all_free_blocks (free_block_queue s') = Some (xs @ [b]) \<and>
          allocated_blocks s' = remove1 b (allocated_blocks s)
     else get_all_free_blocks (free_block_queue s') = Some xs \<and> allocated_blocks s' = allocated_blocks s \<and>
          ref_count (meta s' b) = ref_count (meta s b) - (if b \<in> set (allocated_blocks s) \<and> b \<noteq> 0 then 1 else 0))"
proof -
  from paged_reachable_inv [OF assms(1)] obtain ys k where inv: "paged_inv ys [] k s" by blast
  have "ys = xs" using rep_get_all [OF inv_queue [OF inv]] assms(2) by simp
  show ?thesis
  proof (cases "drops b s")
    case True
    from free_block_drops [OF inv True] rep_get_all [OF inv_queue] True \<open>ys = xs\<close> show ?thesis
      unfolding drops_def [symmetric] by fastforce
  next
    case False
    from free_block_keeps [OF inv False] rep_get_all [OF inv_queue [OF inv]] False \<open>ys = xs\<close> show ?thesis
      unfolding drops_def [symmetric] by fastforce
  qed
qed

theorem free_block_spec_witness:
  "\<exists>s'. free_block 1 filled =
      returns (1 \<in> set (allocated_blocks filled) \<and> 1 \<noteq> (0::int) \<and> ref_count (meta filled 1) \<le> 1) s' \<and>
    (if 1 \<in> set (allocated_blocks filled) \<and> 1 \<noteq> (0::int) \<and> ref_count (meta filled 1) \<le> 1
     then get_all_free_blocks (free_block_queue s') = Some ([] @ [1]) \<and>
          allocated_blocks s' = remove1 1 (allocated_blocks filled)
     else get_all_free_blocks (free_block_queue s') = Some [] \<and> allocated_blocks s' = allocated_blocks filled \<and>
          ref_count (meta s' 1) = ref_count (meta filled 1) - (if 1 \<in> set (allocated_blocks filled) \<and> 1 \<noteq> (0::int) then 1 else 0))"
  by (rule free_block_spec [OF filled_reachable]) (simp add: run toy del: pyrange_empty)

text \<open>Freeing a whole batch of distinct blocks in use never raises and puts exactly those
  with one reference left at the end of the free queue, in the order of the batch.\<close>

theorem free_blocks_batch_spec:
  assumes "paged_reachable E cow s" "get_all_free_blocks (free_block_queue s) = Some xs"
    and "distinct bs" "set bs \<subseteq> set (allocated_blocks s)"
  shows "\<exists>s'. free_blocks_batch bs s = returns () s' \<and>
    get_all_free_blocks (free_block_queue s') = Some (xs @ filter (\<lambda>b. b \<noteq> 0 \<and> ref_count (meta s b) \<le> 1) bs)"
proof -
  from paged_reachable_inv [OF assms(1)] obtain ys k where inv: "paged_inv ys [] k s" by blast
  have "ys = xs" using rep_get_all [OF inv_queue [OF inv]] assms(2) by simp
  moreover have "filter (\<lambda>b. drops b s) bs = filter (\<lambda>b. b \<noteq> 0 \<and> ref_count (meta s b) \<le> 1) bs"
    using assms(4) by (intro filter_cong) (auto simp: drops_def)
  ultimately show ?thesis
    using free_blocks_batch_inv [OF inv assms(3,4)] rep_get_all [OF inv_queue] by fastforce
qed

theorem free_blocks_batch_spec_witness:
  "\<exists>s'. free_blocks_batch [2, 1] filled = returns () s' \<and>
    get_all_free_blocks (free_block_queue s') = Some ([] @ filter (\<lambda>b. b \<noteq> 0 \<and> ref_count (meta filled b) \<le> 1) [2, 1])"
proof (rule free_blocks_batch_spec [OF filled_reachable])
  show "get_all_free_blocks (free_block_queue filled) = Some []" by (simp add: run toy del: pyrange_empty)
  show "distinct [2, 1 :: int]" by simp
  show "set [2, 1] \<subseteq> set (allocated_blocks filled)" by (simp add: run toy del: pyrange_empty)
qed

end
