(* ===== verification/PagedFacts.thy ===== *)
theory PagedFacts
  imports PagedProps
begin

text \<open>
  Further properties of the paged cache: eviction, sharing, prefix lookup, the chain hash,
  notices and resetting, and the theorems behind the findings.
\<close>

section \<open>Eviction and sharing\<close>

text \<open>C17: On every reachable state \<open>handle_memory_pressure\<close> ends without an exception, its answer
  says whether the free queue now holds the requested number of blocks, the queue never gets
  shorter, and no referenced block is reclaimed.\<close>

theorem memory_pressure_spec:
  assumes "paged_reachable E cow s"
  shows "\<exists>s'. handle_memory_pressure requested s =
      Some (returns (requested \<le> num_free_blocks (free_block_queue s')) s') \<and>
    num_free_blocks (free_block_queue s) \<le> num_free_blocks (free_block_queue s') \<and>
    (\<forall>b \<in> set (allocated_blocks s). 0 < ref_count (meta s b) \<longrightarrow> b \<in> set (allocated_blocks s'))"
proof -
  from paged_reachable_inv [OF assms] obtain xs k where inv: "paged_inv xs [] k s" by blast
  from handle_memory_pressure_inv [OF inv, of requested] obtain s' ys where
    s': "handle_memory_pressure requested s = Some (returns (requested \<le> int (length ys)) s')" "paged_inv ys [] k s'"
      "length xs \<le> length ys"
      "\<forall>b \<in> set (allocated_blocks s). 0 < ref_count (meta s b) \<longrightarrow> b \<in> set (allocated_blocks s')" by blast
  with inv_num_free [OF inv] inv_num_free [OF s'(2)] show ?thesis by auto
qed

theorem memory_pressure_spec_witness:
  "\<exists>s'. handle_memory_pressure 1 released =
      Some (returns (1 \<le> num_free_blocks (free_block_queue s')) s') \<and>
    num_free_blocks (free_block_queue released) \<le> num_free_blocks (free_block_queue s') \<and>
    (\<forall>b \<in> set (allocated_blocks released). 0 < ref_count (meta released b) \<longrightarrow> b \<in> set (allocated_blocks s'))"
  by (rule memory_pressure_spec [OF released_reachable])

text \<open>The least-recently-used eviction walks the linked free queue to its end or until it
  has evicted enough: on every reachable state it returns, having evicted \<open>min num\<close> (the
  length of the queue) blocks, and no block changes place or reference count.\<close>

theorem evict_lru_spec:
  assumes "paged_reachable E cow s" "get_all_free_blocks (free_block_queue s) = Some xs"
  shows "\<exists>s'. evict_lru_blocks num s = Some (max 0 (min num (int (length xs))), s') \<and>
    get_all_free_blocks (free_block_queue s') = Some xs \<and> allocated_blocks s' = allocated_blocks s \<and>
    (\<forall>b. ref_count (meta s' b) = ref_count (meta s b))"
proof -
  from paged_reachable_inv [OF assms(1)] obtain ys k where inv: "paged_inv ys [] k s" by blast
  have "ys = xs" using rep_get_all [OF inv_queue [OF inv]] assms(2) by simp
  from evict_lru_locked_inv [OF inv, of num] obtain s' where
    s': "evict_lru_blocks_locked num s = Some (max 0 (min num (int (length ys))), s')" "paged_inv ys [] k s'"
      "allocated_blocks s' = allocated_blocks s" "\<forall>b. ref_count (meta s' b) = ref_count (meta s b)" by blast
  with rep_get_all [OF inv_queue [OF s'(2)]] \<open>ys = xs\<close> show ?thesis by (simp add: evict_lru_blocks_def)
qed

theorem evict_lru_spec_witness:
  "\<exists>s'. evict_lru_blocks 1 small = Some (max 0 (min 1 (int (length [1, 2 :: int]))), s') \<and>
    get_all_free_blocks (free_block_queue s') = Some [1, 2] \<and> allocated_blocks s' = allocated_blocks small \<and>
    (\<forall>b. ref_count (meta s' b) = ref_count (meta small b))"
  by (rule evict_lru_spec [OF small_reachable]) (simp add: run toy del: pyrange_empty)

text \<open>C13: The blocks handed out for generation are never shared: after copy-on-write each of
  them has at most one reference. The only exception is the \<open>CacheEvictionError\<close> of a pool in
  which no block can be freed.\<close>

theorem generation_blocks_unshared:
  assumes "paged_reachable E True s"
  shows "\<exists>s'. (\<exists>res copied. get_blocks_for_generation r s = returns (res, copied) s' \<and>
      (\<forall>b \<in> set res. ref_count (meta s' b) \<le> 1)) \<or>
    get_blocks_for_generation r s = raises CacheEvictionError s'"
proof -
  from paged_reachable_inv [OF assms] obtain xs where inv: "paged_inv xs [] None s" by auto
  have "unshared [] s" by (simp add: unshared_def)
  from generation_loop_inv [OF inv this, of r "enumerate 0 (block_ids (tables s r))" False] show ?thesis
  proof (elim disjE exE conjE, goal_cases)
    case (1 res copied s' xs')
    then have "get_blocks_for_generation r s = returns (res, copied) (flush_content_invalidated s')"
      by (simp add: get_blocks_for_generation_def)
    with 1 show ?case by (auto simp: unshared_def intro!: exI [of _ "flush_content_invalidated s'"])
  next
    case (2 s' xs')
    then show ?case by (auto simp: get_blocks_for_generation_def)
  qed
qed

theorem generation_blocks_unshared_witness:
  "\<exists>s'. (\<exists>res copied. get_blocks_for_generation 0 forked = returns (res, copied) s' \<and>
      (\<forall>b \<in> set res. ref_count (meta s' b) \<le> 1)) \<or>
    get_blocks_for_generation 0 forked = raises CacheEvictionError s'"
  by (rule generation_blocks_unshared [OF forked_reachable])

section \<open>Prefix lookup\<close>

text \<open>C3: Prefix lookup returns exactly the longest prefix of the request's chain hashes that the
  map knows, one block per hash and the tokens of those blocks; with a claim (and no SSD
  index) every returned block gains one reference per occurrence, and one miss is counted
  exactly when the prefix is not the whole request.\<close>

theorem lookup_longest_prefix:
  fixes s :: paged_cache and E :: "'k hash_env" and toks :: "int list"
  assumes "enable_caching s" "0 < block_size s"
    and "\<And>i. i < nat (int (length toks) div block_size s) \<Longrightarrow> keys_at ka (block_size s) i = Inr (kf i)"
    and "claim \<longrightarrow> ssd_has_block s = None"
    and "hs = takeWhile (known s) (request_chain E toks kf (block_size s) (model_name s) None
      [0..<nat (int (length toks) div block_size s)])"
  shows "\<exists>s'. get_computed_blocks E toks ka claim s =
      returns (map (\<lambda>h. the (get_block h (cached_blocks s))) hs, block_size s * int (length hs)) s' \<and>
    (\<forall>b. ref_count (meta s' b) = ref_count (meta s b) +
       (if claim then int (count_list (map (\<lambda>h. the (get_block h (cached_blocks s))) hs) b) else 0)) \<and>
    st_hits (stats s') = st_hits (stats s) + int (length hs) \<and>
    st_misses (stats s') = st_misses (stats s) +
      (if length hs < nat (int (length toks) div block_size s) then 1 else 0)"
  using get_computed_blocks_hits [OF assms(1,2), where E = E and toks = toks and ka = ka and kf = kf and claim = claim, OF assms(3,4)]
  unfolding assms(5) by auto

theorem lookup_longest_prefix_witness:
  "\<exists>s'. get_computed_blocks toy_env [1, 2, 3, 4, 5] plain_keys True filled =
      returns (map (\<lambda>h. the (get_block h (cached_blocks filled))) [''2'', ''4''], block_size filled * int (length [''2'', ''4''])) s' \<and>
    (\<forall>b. ref_count (meta s' b) = ref_count (meta filled b) +
       (if True then int (count_list (map (\<lambda>h. the (get_block h (cached_blocks filled))) [''2'', ''4'']) b) else 0)) \<and>
    st_hits (stats s') = st_hits (stats filled) + int (length [''2'', ''4'']) \<and>
    st_misses (stats s') = st_misses (stats filled) +
      (if length [''2'', ''4''] < nat (int (length [1, 2, 3, 4, 5 :: int]) div block_size filled) then 1 else 0)"
proof (rule lookup_longest_prefix [where kf = "\<lambda>_. None"])
  show "enable_caching filled" "0 < block_size filled" by (simp_all add: run toy del: pyrange_empty)
  show "True \<longrightarrow> ssd_has_block filled = None" by (simp add: run toy del: pyrange_empty)
  show "[''2'', ''4''] = takeWhile (known filled) (request_chain toy_env [1, 2, 3, 4, 5] (\<lambda>_. None) (block_size filled)
      (model_name filled) None [0..<nat (int (length [1, 2, 3, 4, 5 :: int]) div block_size filled)])"
    by (simp add: run toy known_def request_chain_def del: pyrange_empty)
qed simp

text \<open>C4: Round trip: after the full blocks of a request have been registered on fresh blocks in
  use, the same request, or one that extends it, is answered with at least those blocks, and
  the answer carries the chain hashes of the request block by block.\<close>

theorem registered_blocks_are_found:
  assumes "paged_reachable E cow s" "enable_caching s" "0 < block_size s"
    and "distinct bs" "set bs \<subseteq> set (allocated_blocks s)" "\<forall>b \<in> set bs. block_hash (meta s b) = None"
    and "int (length bs) * block_size s \<le> int (length toks)"
  shows "\<exists>s1 found n s2. cache_full_blocks E bs toks 0 (length bs) None s = returns () s1 \<and>
    get_computed_blocks E (toks @ extra) plain_keys False s1 = returns (found, n) s2 \<and>
    length bs \<le> length found \<and>
    (\<forall>j < length bs. block_hash (meta s2 (found ! j)) =
       Some (request_chain E toks (\<lambda>_. None) (block_size s) (model_name s) None [0..<length bs] ! j))"
proof -
  from paged_reachable_inv [OF assms(1)] obtain xs k where "paged_inv xs [] k s" by blast
  from cache_then_lookup [OF this assms(2-7)] show ?thesis .
qed

definition two_blocks :: paged_cache where
  "two_blocks = snd (allocate_block (snd (allocate_block small)))"

theorem registered_blocks_are_found_witness:
  "\<exists>s1 found n s2. cache_full_blocks toy_env [2, 1] [7, 8, 9, 1] 0 (length [2, 1 :: int]) None two_blocks = returns () s1 \<and>
    get_computed_blocks toy_env ([7, 8, 9, 1] @ [5]) plain_keys False s1 = returns (found, n) s2 \<and>
    length [2, 1 :: int] \<le> length found \<and>
    (\<forall>j < length [2, 1 :: int]. block_hash (meta s2 (found ! j)) =
       Some (request_chain toy_env [7, 8, 9, 1] (\<lambda>_. None) (block_size two_blocks) (model_name two_blocks) None
         [0..<length [2, 1 :: int]] ! j))"
proof (rule registered_blocks_are_found)
  show "paged_reachable toy_env False two_blocks" unfolding two_blocks_def
    by (rule paged_reachable.step [OF paged_reachable.step [OF small_reachable paged_step.allocate] paged_step.allocate])
  show "enable_caching two_blocks" "0 < block_size two_blocks" "set [2, 1] \<subseteq> set (allocated_blocks two_blocks)"
    "\<forall>b \<in> set [2, 1]. block_hash (meta two_blocks b) = None"
    "int (length [2, 1 :: int]) * block_size two_blocks \<le> int (length [7, 8, 9, 1 :: int])"
    by (simp_all add: run toy two_blocks_def del: pyrange_empty)
qed simp

text \<open>C18: The chain hash identifies the prefix: when SHA-256 does not collide on the payloads
  involved (digests of one length, none starting with the root seed), two chains of blocks of
  one model with the same last hash consist of the same token blocks, at every position and
  even when their numbers of blocks were not known to be equal.\<close>

theorem chain_hash_identifies_tokens:
  assumes "no_collision E n S" "seed_free E S" "length root_seed \<le> n"
    and "chain_payloads E None bs m \<subseteq> S" "chain_payloads E None bs' m \<subseteq> S"
    and "bs \<noteq> []" "bs' \<noteq> []" "last (chain_from E None bs m) = last (chain_from E None bs' m)"
  shows "map fst bs = map fst bs'"
  by (rule chain_last_inject [OF assms(1-5)]) (use assms(6-8) in \<open>simp add: chain_parent_def\<close>)

definition wide_env :: "unit hash_env" where
  "wide_env = \<lparr>sha256 = (\<lambda>x. map (\<lambda>_. last (butlast x)) root_seed), keys_str = (\<lambda>_. [])\<rparr>"

theorem chain_hash_identifies_tokens_witness:
  "map fst [([1, 2 :: int], None :: unit list option), ([3, 4], None)] = map fst [([1, 2], None :: unit list option), ([3, 4], Some [])]"
proof (rule chain_hash_identifies_tokens)
  let ?S = "{root_seed @ ''(1, 2)'', map (\<lambda>_. CHR ''2'') root_seed @ ''(3, 4)''}"
  show "no_collision wide_env (length root_seed) ?S" "seed_free wide_env ?S" "length root_seed \<le> length root_seed"
    by (simp_all add: no_collision_def seed_free_def wide_env_def root_seed_def)
  show "chain_payloads wide_env None [([1, 2], None), ([3, 4], None)] (Some []) \<subseteq> ?S"
    "chain_payloads wide_env None [([1, 2], None), ([3, 4], Some [])] (Some []) \<subseteq> ?S"
    by (simp_all add: wide_env_def run)
  show "last (chain_from wide_env None [([1, 2], None), ([3, 4], None)] (Some [])) =
      last (chain_from wide_env None [([1, 2], None), ([3, 4], Some [])] (Some []))"
    by (simp add: run)
qed simp_all

end
