(* ===== verification/PagedFindings.thy ===== *)
theory PagedFindings
  imports PagedFacts
begin

text \<open>
  Notices and resetting, the bulk operations of the free queue, and the places where the paged
  cache does not do what its comments say.
\<close>

section \<open>Notices\<close>

lemma count_list_concat: "count_list (concat xss) x = sum_list (map (\<lambda>xs. count_list xs x) xss)"
  by (induction xss) simp_all

lemma count_list_pairs: "count_list (map (\<lambda>cb. (cb, c)) cbs) (cb, b) = (if c = b then count_list cbs cb else 0)"
  by (induction cbs) auto

lemma count_list_product:
  "count_list (concat (map (\<lambda>b. map (\<lambda>cb. (cb, b)) cbs) bs)) (cb, b) = count_list cbs cb * count_list bs b"
  by (induction bs) (auto simp: count_list_pairs)

text \<open>A flush calls every registered callback once per pending notice and keeps no notice; a
  second flush calls nothing. Without callbacks the notices are kept.\<close>

theorem flush_delivers_once:
  "count_list (callback_log (flush_content_invalidated s)) (cb, b) = count_list (callback_log s) (cb, b) +
     count_list (block_freed_callbacks s) cb * count_list (pending_invalidated s) b \<and>
   pending_invalidated (flush_content_invalidated s) =
     (if block_freed_callbacks s = [] then pending_invalidated s else []) \<and>
   flush_content_invalidated (flush_content_invalidated s) = flush_content_invalidated s"
  by (auto simp: flush_content_invalidated_def count_list_product)

section \<open>Resetting\<close>

lemma create_blocks_notices [simp]:
  "pending_invalidated (create_blocks is s) = pending_invalidated s"
  "callback_log (create_blocks is s) = callback_log s"
  by (induction "is" arbitrary: s) (simp_all add: read_clock_def Let_def)

lemma build_pool_notices:
  "pending_invalidated (snd (build_pool s)) = pending_invalidated s"
  "callback_log (snd (build_pool s)) = callback_log s"
proof -
  let ?s2 = "(create_blocks (pyrange 0 (current_allocated_count s)) s)\<lparr>blocks := pyrange 0 (current_allocated_count s),
    free_block_queue := queue_init (pyrange 0 (current_allocated_count s)), allocated_blocks := []\<rparr>"
  have "pending_invalidated (snd (on_queue popleft ?s2)) = pending_invalidated s"
    "callback_log (snd (on_queue popleft ?s2)) = callback_log s"
    by (simp_all add: on_queue_def split: prod.split)
  then show "pending_invalidated (snd (build_pool s)) = pending_invalidated s"
    "callback_log (snd (build_pool s)) = callback_log s"
    by (cases "on_queue popleft ?s2" rule: outcome_cases; auto simp: build_pool_def Let_def)+
qed

text \<open>\<open>clear\<close> on a reachable state never raises, returns the number of blocks in use without
  the null block and leaves only the null block in use, with a queue of the initial size; the
  notices for the dropped blocks are queued but no callback is called.\<close>

theorem clear_spec:
  assumes "paged_reachable E cow s"
  shows "\<exists>s'. clear s = returns (int (length (allocated_blocks s)) - 1) s' \<and>
    get_all_free_blocks (free_block_queue s') = Some (pyrange 1 (min (initial_blocks s) (max_blocks s))) \<and>
    allocated_blocks s' = [0] \<and>
    pending_invalidated s' = pending_invalidated s @ filter (\<lambda>b. b \<noteq> 0) (allocated_blocks s) \<and>
    callback_log s' = callback_log s"
proof -
  from paged_reachable_inv [OF assms] obtain xs k where inv: "paged_inv xs [] k s" by blast
  from clear_inv [OF inv] obtain s' where s': "clear s = returns (int (length (allocated_blocks s)) - 1) s'"
    "paged_inv (pyrange 1 (min (initial_blocks s) (max_blocks s))) [] (Some (0, 0)) s'" "allocated_blocks s' = [0]"
    by blast
  let ?s1 = "s\<lparr>current_allocated_count := min (initial_blocks s) (max_blocks s),
    cached_blocks := hash_clear (cached_blocks s), request_tables := []\<rparr>"
  have "filter (\<lambda>b. \<not> is_null (meta s b)) (allocated_blocks s) = filter (\<lambda>b. b \<noteq> 0) (allocated_blocks s)"
    using inv_null [OF inv] by (intro filter_cong) auto
  with s'(1) build_pool_notices [of ?s1]
  have "pending_invalidated s' = pending_invalidated s @ filter (\<lambda>b. b \<noteq> 0) (allocated_blocks s) \<and>
      callback_log s' = callback_log s"
    by (cases "build_pool ?s1" rule: outcome_cases) (auto simp: clear_def Let_def)
  with s' rep_get_all [OF inv_queue [OF s'(2)]] show ?thesis by blast
qed

theorem clear_spec_witness:
  "\<exists>s'. clear filled = returns (int (length (allocated_blocks filled)) - 1) s' \<and>
    get_all_free_blocks (free_block_queue s') = Some (pyrange 1 (min (initial_blocks filled) (max_blocks filled))) \<and>
    allocated_blocks s' = [0] \<and>
    pending_invalidated s' = pending_invalidated filled @ filter (\<lambda>b. b \<noteq> 0) (allocated_blocks filled) \<and>
    callback_log s' = callback_log filled"
  by (rule clear_spec [OF filled_reachable])

text \<open>\<open>reset_prefix_cache\<close> succeeds exactly when no block but the null block is in use and
  the pool has grown to its maximum: the blocks not created yet count as used, so a pool that
  starts small refuses to be reset although nothing is in use.\<close>

theorem reset_needs_full_pool:
  assumes "paged_reachable E cow s"
  shows "fst (reset_prefix_cache s) \<longleftrightarrow>
    allocated_blocks s = [0] \<and> current_allocated_count s = max_blocks s"
proof -
  from paged_reachable_inv [OF assms] obtain xs k where inv: "paged_inv xs [] k s" by blast
  have "length (xs @ [] @ allocated_blocks s) = nat (current_allocated_count s)"
    using distinct_card [OF inv_distinct [OF inv]] inv_ids [OF inv] by simp
  then have len: "int (length xs) + int (length (allocated_blocks s)) = current_allocated_count s"
    using inv_count_pos [OF inv] by simp
  have one: "length (allocated_blocks s) = Suc 0 \<longleftrightarrow> allocated_blocks s = [0]"
    using inv_null_alloc [OF inv] by (cases "allocated_blocks s") auto
  have "1 \<le> int (length (allocated_blocks s))" using inv_null_alloc [OF inv] by (cases "allocated_blocks s") auto
  then have "max_blocks s - int (length xs) \<le> 1 \<longleftrightarrow>
      int (length (allocated_blocks s)) = 1 \<and> current_allocated_count s = max_blocks s"
    using len inv_bound [OF inv] by linarith
  moreover have "fst (reset_prefix_cache s) \<longleftrightarrow> max_blocks s - int (length xs) \<le> 1"
    by (auto simp: reset_prefix_cache_def Let_def inv_num_free [OF inv])
  ultimately show ?thesis unfolding one [symmetric] by simp
qed

theorem reset_needs_full_pool_witness:
  "(fst (reset_prefix_cache lazy_pool) \<longleftrightarrow>
    allocated_blocks lazy_pool = [0] \<and> current_allocated_count lazy_pool = max_blocks lazy_pool) \<and>
   \<not> fst (reset_prefix_cache lazy_pool) \<and> allocated_blocks lazy_pool = [0]"
  using reset_needs_full_pool [OF lazy_pool_reachable] by (simp add: run toy del: pyrange_empty)

section \<open>Bulk operations of the free queue\<close>

text \<open>\<open>popleft_n\<close> takes the same blocks and leaves the same queue as that many calls of
  \<open>popleft\<close>, and \<open>append_n\<close> leaves the same queue as appending its blocks one by one; both hold
  the blocks in the order in which they became free.\<close>

theorem bulk_queue_operations:
  assumes "queue_rep q xs" "n \<le> length xs" "distinct (xs @ bs)" "\<forall>b \<in> set bs. is_block_id b"
  shows "(\<exists>q1 q2. popleft_n (int n) q = returns (take n xs) q1 \<and> block_queue.pops popleft n q = returns (take n xs) q2 \<and>
      get_all_free_blocks q1 = Some (drop n xs) \<and> get_all_free_blocks q2 = Some (drop n xs)) \<and>
    (\<exists>q1 q2. append_n bs q = returns () q1 \<and> block_queue.pushes append_block bs q = returns () q2 \<and>
      get_all_free_blocks q1 = Some (xs @ bs) \<and> get_all_free_blocks q2 = Some (xs @ bs))"
proof
  from rep_popleft_n [OF assms(1), of "int n"] assms(2) obtain q1 where
    "popleft_n (int n) q = returns (take n xs) q1" "queue_rep q1 (drop n xs)" by (auto elim: givesE)
  with fq.pops_take [OF assms(1,2)] show "\<exists>q1 q2. popleft_n (int n) q = returns (take n xs) q1 \<and>
      block_queue.pops popleft n q = returns (take n xs) q2 \<and>
      get_all_free_blocks q1 = Some (drop n xs) \<and> get_all_free_blocks q2 = Some (drop n xs)"
    by (meson rep_get_all)
  have "fake_head \<notin> set bs" "fake_tail \<notin> set bs" using assms(4) by (auto dest: block_id_sentinels)
  from rep_append_n [OF assms(1,3) this] obtain q1 where
    "append_n bs q = returns () q1" "queue_rep q1 (xs @ bs)" by (rule givesE)
  with fq.pushes_append [OF assms(1,3,4)] show "\<exists>q1 q2. append_n bs q = returns () q1 \<and>
      block_queue.pushes append_block bs q = returns () q2 \<and>
      get_all_free_blocks q1 = Some (xs @ bs) \<and> get_all_free_blocks q2 = Some (xs @ bs)"
    by (meson rep_get_all)
qed

theorem bulk_queue_operations_witness:
  "(\<exists>q1 q2. popleft_n (int 2) (queue_init [4, 5, 6]) = returns (take 2 [4, 5, 6]) q1 \<and>
      block_queue.pops popleft 2 (queue_init [4, 5, 6]) = returns (take 2 [4, 5, 6]) q2 \<and>
      get_all_free_blocks q1 = Some (drop 2 [4, 5, 6]) \<and> get_all_free_blocks q2 = Some (drop 2 [4, 5, 6])) \<and>
    (\<exists>q1 q2. append_n [7] (queue_init [4, 5, 6]) = returns () q1 \<and>
      block_queue.pushes append_block [7] (queue_init [4, 5, 6]) = returns () q2 \<and>
      get_all_free_blocks q1 = Some ([4, 5, 6] @ [7]) \<and> get_all_free_blocks q2 = Some ([4, 5, 6] @ [7]))"
proof (rule bulk_queue_operations)
  show "queue_rep (queue_init [4, 5, 6]) [4, 5, 6]"
    by (rule rep_queue_init) (simp_all add: fake_head_def fake_tail_def)
  show "2 \<le> length [4, 5, 6 :: int]" "distinct ([4, 5, 6 :: int] @ [7])" "\<forall>b \<in> set [7]. is_block_id b"
    by (simp_all add: is_block_id_def)
qed

section \<open>Where the code falls short\<close>

text \<open>Copy-on-write takes a block off the free queue without counting it: after generating
  from a forked table two blocks besides the null block are in use, the statistics say one.\<close>

lemma cow_miscounts:
  "let s' = snd (get_blocks_for_generation 0 forked)
   in length (allocated_blocks s') = 3 \<and> st_allocated_blocks (stats s') = 2 \<and>
      num_free_blocks (free_block_queue s') = 0 \<and> st_free_blocks (stats s') = 1"
  by (simp add: run toy del: pyrange_empty)

text \<open>A block is cached, freed, allocated again and registered for other tokens.\<close>

definition reused_again :: paged_cache where
  "reused_again = snd (cache_full_blocks toy_env [1] [5, 6] 0 1 None
     (snd (allocate_block (snd (free_block 1 filled)))))"

text \<open>A block that was cached, freed and allocated again still carries its old hash, since
  the eviction on allocation passes no block id and so never evicts: registering it for new
  tokens is skipped as already cached, and those tokens are not found afterwards.\<close>

lemma reused_block_is_not_cached:
  "fst (maybe_evict_cached_block b s) = False \<and>
   block_hash (meta (snd (maybe_evict_cached_block b s)) b) = block_hash (meta s b) \<and>
   allocated_blocks reused_again = [0, 2, 1] \<and> block_hash (meta reused_again 1) = Some ''2'' \<and>
   fst (get_computed_blocks toy_env [5, 6] plain_keys False reused_again) = Inr ([], 0)"
proof (intro conjI)
  show "fst (maybe_evict_cached_block b s) = False" by (rule maybe_evict_nothing)
  show "block_hash (meta (snd (maybe_evict_cached_block b s)) b) = block_hash (meta s b)"
    by (simp add: maybe_evict_nothing split: option.split)
  show "allocated_blocks reused_again = [0, 2, 1]" "block_hash (meta reused_again 1) = Some ''2''"
    by (simp_all add: run toy reused_again_def del: pyrange_empty)
  show "fst (get_computed_blocks toy_env [5, 6] plain_keys False reused_again) = Inr ([], 0)"
    by (simp add: run toy reused_again_def del: pyrange_empty)
qed

text \<open>Reclaiming counts the orphans whose hash entries the cascade purges as evicted blocks:
  with two unreferenced cached blocks a request for two free blocks fails, one block is freed,
  and the purged child stays in the allocated map, unreferenced, without a hash and no longer
  a candidate of any later reclaiming.\<close>

lemma cascade_strands_child:
  "let s' = snd (the (handle_memory_pressure 2 released))
   in evict_candidates released = [1, 2] \<and> fst (the (handle_memory_pressure 2 released)) = Inr False \<and>
      num_free_blocks (free_block_queue s') = 1 \<and> allocated_blocks s' = [0, 2] \<and>
      ref_count (meta s' 2) = 0 \<and> block_hash (meta s' 2) = None \<and> evict_candidates s' = []"
  by (simp add: run toy del: pyrange_empty)

end
