(* ===== verification/Json.thy ===== *)
theory Json
  imports BlockHash Complex_Main "HOL-Library.List_Lexorder" "HOL-Library.Char_ord"
begin

text \<open>
  Parsed JSON values and the text \<open>json.dumps\<close> writes for them (\<open>ensure_ascii\<close>, the default,
  with the separators \<open>","\<close> and \<open>":"\<close> the caches pass). Strings are lists of 8-bit
  characters, numbers with a fraction are rational; their textual form is the parameter
  \<open>fl\<close> of the definitions that print them.
\<close>

datatype json = JNull | JBool bool | JInt int | JFloat rat | JStr string | JList "json list"
  | JObj "(string, json) pydict"

fun join :: "string \<Rightarrow> string list \<Rightarrow> string" where
  "join sep [] = []"
| "join sep [x] = x"
| "join sep (x # y # xs) = x @ sep @ join sep (y # xs)"

definition hex_digit :: "nat \<Rightarrow> char" where
  "hex_digit n = char_of (if n < 10 then 48 + n else 87 + n)"

definition escape_char :: "char \<Rightarrow> string" where
  "escape_char c =
     (let n = of_char c :: nat in
      if c = CHR 0x22 then [CHR 0x5C, CHR 0x22]
      else if c = CHR 0x5C then [CHR 0x5C, CHR 0x5C]
      else if n = 10 then [CHR 0x5C, CHR ''n'']
      else if n = 13 then [CHR 0x5C, CHR ''r'']
      else if n = 9 then [CHR 0x5C, CHR ''t'']
      else if n = 12 then [CHR 0x5C, CHR ''f'']
      else if n = 8 then [CHR 0x5C, CHR ''b'']
      else if 32 \<le> n \<and> n \<le> 126 then [c]
      else [CHR 0x5C, CHR ''u'', CHR ''0'', CHR ''0'', hex_digit (n div 16), hex_digit (n mod 16)])"

definition json_string :: "string \<Rightarrow> string" where
  "json_string s = [CHR 0x22] @ concat (map escape_char s) @ [CHR 0x22]"

fun dumps :: "(rat \<Rightarrow> string) \<Rightarrow> bool \<Rightarrow> json \<Rightarrow> string" where
  "dumps fl sk JNull = ''null''"
| "dumps fl sk (JBool b) = (if b then ''true'' else ''false'')"
| "dumps fl sk (JInt i) = int_str i"
| "dumps fl sk (JFloat q) = fl q"
| "dumps fl sk (JStr s) = json_string s"
| "dumps fl sk (JList vs) = ''['' @ join '','' (map (dumps fl sk) vs) @ '']''"
| "dumps fl sk (JObj d) =
     (let texts = map (\<lambda>p. (fst p, dumps fl sk (snd p))) d;
          ordered = (if sk then sort_key fst texts else texts)
      in ''{'' @ join '','' (map (\<lambda>(k, t). json_string k @ '':'' @ t) ordered) @ ''}'')"

end
