(* ===== verification/SsdIndex.thy ===== *)
theory SsdIndex
  imports Json
begin

text \<open>
  The two data structures under the SSD block store (\<^verbatim>\<open>fusion_mlx/cache/paged_ssd_cache.py\<close>):
  \<open>PagedSSDCacheIndex\<close>, the metadata of the blocks of a cache directory with their tot size,
  and \<open>SharedHotCacheBudget\<close>, the byte budget that all managers of the process share for the
  blocks they keep in memory. A block hash is its hexadecimal text.
\<close>

section \<open>Metadata of a block\<close>

text \<open>
  \<open>PagedSSDBlockMetadata\<close>. Objects are shared between the index, the write queue and the
  memory cache and then changed in place, so \<open>md_id\<close> is the identity of the object. The hash is
  the key under which an index keeps the object (\<open>add\<close> takes the key from the object and no code
  changes it later); \<open>md_file\<close> is the name of the file in the directory, which for a block found on disk
  need not be its hash.
\<close>

record ssd_meta =
  md_id :: nat
  md_file :: string
  md_size :: int
  md_tokens :: int
  md_created :: rat
  md_access :: rat
  md_layers :: int
  md_model :: string
  md_block_size :: int
  md_signature :: string
  md_content :: string
  md_types :: "string list option"
  md_states :: "int list list option"

section \<open>The index\<close>

record ssd_index =
  ix_max :: int
  ix_blocks :: "(string, ssd_meta) pydict"
  ix_total :: int

definition index_new :: "int \<Rightarrow> ssd_index" where
  "index_new m = \<lparr>ix_max = m, ix_blocks = [], ix_total = 0\<rparr>"

definition index_count :: "ssd_index \<Rightarrow> int" where
  "index_count x = int (length (ix_blocks x))"

definition index_add :: "string \<Rightarrow> ssd_meta \<Rightarrow> ssd_index \<Rightarrow> ssd_index" where
  "index_add h m x =
     (let t = (case map_of (ix_blocks x) h of
                 None \<Rightarrow> ix_total x
               | Some old \<Rightarrow> max 0 (ix_total x - md_size old))
      in x\<lparr>ix_blocks := dict_set h m (ix_blocks x), ix_total := t + md_size m\<rparr>)"

definition index_get :: "string \<Rightarrow> ssd_index \<Rightarrow> ssd_meta option" where
  "index_get h x = map_of (ix_blocks x) h"

definition index_remove :: "string \<Rightarrow> ssd_index \<Rightarrow> ssd_meta option \<times> ssd_index" where
  "index_remove h x =
     (case map_of (ix_blocks x) h of
        None \<Rightarrow> (None, x)
      | Some m \<Rightarrow> (Some m, x\<lparr>ix_blocks := dict_del h (ix_blocks x), ix_total := max 0 (ix_total x - md_size m)\<rparr>))"

definition index_touch :: "rat \<Rightarrow> string \<Rightarrow> ssd_index \<Rightarrow> ssd_index" where
  "index_touch now h x =
     (case map_of (ix_blocks x) h of
        None \<Rightarrow> x
      | Some m \<Rightarrow> x\<lparr>ix_blocks := dict_del h (ix_blocks x) @ [(h, m\<lparr>md_access := now\<rparr>)]\<rparr>)"

definition get_lru_entries :: "int \<Rightarrow> ssd_index \<Rightarrow> (string \<times> ssd_meta) list" where
  "get_lru_entries n x = pyslice 0 n (sort_key (\<lambda>p. md_access (snd p)) (ix_blocks x))"

definition sort_lru :: "ssd_index \<Rightarrow> ssd_index" where
  "sort_lru x = x\<lparr>ix_blocks := sort_key (\<lambda>p. md_access (snd p)) (ix_blocks x)\<rparr>"

text \<open>Python's \<open>min\<close> with a key: the first of the least recently used blocks.\<close>

fun first_lru :: "string \<times> ssd_meta \<Rightarrow> (string, ssd_meta) pydict \<Rightarrow> string \<times> ssd_meta" where
  "first_lru best [] = best"
| "first_lru best (p # ps) = first_lru (if md_access (snd p) < md_access (snd best) then p else best) ps"

lemma first_lru_in: "first_lru p ps \<in> set (p # ps)"
  by (induction p ps rule: first_lru.induct) auto

lemma length_dict_del_le: "length (dict_del k d) \<le> length d"
  by (induction d) auto

lemma length_dict_del_less: "k \<in> set (dict_keys d) \<Longrightarrow> length (dict_del k d) < length d"
proof (induction d)
  case Nil
  then show ?case by simp
next
  case (Cons p d)
  then show ?case by (cases "fst p = k") (simp_all add: length_dict_del_le less_Suc_eq_le)
qed

lemma find_in: "find P xs = Some x \<Longrightarrow> x \<in> set xs"
  by (induction xs) (auto split: if_splits)

function evict_loop :: "int \<Rightarrow> (string, ssd_meta) pydict \<Rightarrow> int \<Rightarrow> (string \<times> ssd_meta) list \<Rightarrow>
    (string, ssd_meta) pydict \<times> int \<times> (string \<times> ssd_meta) list" where
  "evict_loop target [] tot evicted = ([], tot, evicted)"
| "evict_loop target (p # ps) tot evicted =
     (if tot > target
      then let (h, m) = first_lru p ps
           in evict_loop target (dict_del h (p # ps)) (max 0 (tot - md_size m)) (evicted @ [(h, m)])
      else (p # ps, tot, evicted))"
  by pat_completeness auto
termination
proof (relation "measure (\<lambda>(target, d, tot, evicted). length d)", goal_cases)
  case 1
  then show ?case by simp
next
  case (2 target p ps tot evicted hm h m)
  have "hm \<in> set (p # ps)" using first_lru_in [of p ps] 2(2) by simp
  with 2(3) have "h \<in> set (dict_keys (p # ps))" by force
  from length_dict_del_less [OF this] show ?case by simp
qed

definition evict_until_size :: "int \<Rightarrow> ssd_index \<Rightarrow> (string \<times> ssd_meta) list \<times> ssd_index" where
  "evict_until_size target x =
     (let (d, t, evicted) = evict_loop target (ix_blocks x) (ix_total x) []
      in (evicted, x\<lparr>ix_blocks := d, ix_total := t\<rparr>))"

definition index_contains :: "string \<Rightarrow> ssd_index \<Rightarrow> bool" where
  "index_contains h x = (map_of (ix_blocks x) h \<noteq> None)"

definition get_all_hashes :: "ssd_index \<Rightarrow> string list" where
  "get_all_hashes x = dict_keys (ix_blocks x)"

definition update_file_size :: "string \<Rightarrow> int \<Rightarrow> ssd_index \<Rightarrow> ssd_index" where
  "update_file_size h n x =
     (case map_of (ix_blocks x) h of
        None \<Rightarrow> x
      | Some m \<Rightarrow> x\<lparr>ix_blocks := dict_set h (m\<lparr>md_size := n\<rparr>) (ix_blocks x), ix_total := max 0 (ix_total x - md_size m + n)\<rparr>)"

text \<open>An assignment to \<open>file_size\<close> of a metadata object, wherever the index holds that object.\<close>

definition set_object_size :: "nat \<Rightarrow> int \<Rightarrow> ssd_index \<Rightarrow> ssd_index" where
  "set_object_size i n x =
     x\<lparr>ix_blocks := map (\<lambda>(h, m). (h, if md_id m = i then m\<lparr>md_size := n\<rparr> else m)) (ix_blocks x)\<rparr>"

section \<open>The shared budget\<close>

text \<open>The managers of the process are numbered; \<open>id(owner)\<close> is that number.\<close>

type_synonym hot_key = "nat \<times> string"

record hot_budget =
  hb_max :: int
  hb_entries :: "(hot_key, int) pydict"
  hb_total :: int
  hb_shutting_down :: "nat list"

definition budget_new :: "int \<Rightarrow> hot_budget" where
  "budget_new m = \<lparr>hb_max = max 0 m, hb_entries = [], hb_total = 0, hb_shutting_down = []\<rparr>"

definition remaining_bytes :: "hot_budget \<Rightarrow> int" where
  "remaining_bytes b = max 0 (hb_max b - hb_total b)"

definition budget_touch :: "hot_key \<Rightarrow> hot_budget \<Rightarrow> hot_budget" where
  "budget_touch k b =
     (case map_of (hb_entries b) k of
        None \<Rightarrow> b
      | Some n \<Rightarrow> b\<lparr>hb_entries := dict_del k (hb_entries b) @ [(k, n)]\<rparr>)"

definition forget :: "hot_key \<Rightarrow> hot_budget \<Rightarrow> hot_budget" where
  "forget k b =
     (case map_of (hb_entries b) k of
        None \<Rightarrow> b
      | Some n \<Rightarrow> b\<lparr>hb_entries := dict_del k (hb_entries b), hb_total := max 0 (hb_total b - n)\<rparr>)"

text \<open>The owner is marked for as long as its entries are taken out, all under one lock.\<close>

definition forget_owner :: "nat \<Rightarrow> hot_budget \<Rightarrow> hot_budget" where
  "forget_owner i b =
     (let b1 = b\<lparr>hb_shutting_down := List.insert i (hb_shutting_down b)\<rparr>;
          b2 = fold forget (filter (\<lambda>k. fst k = i) (dict_keys (hb_entries b1))) b1
      in b2\<lparr>hb_shutting_down := removeAll i (hb_shutting_down b2)\<rparr>)"

text \<open>The eviction loop of \<open>put\<close>: the oldest entries go until the tot fits or only the new one is left.\<close>

fun put_loop :: "int \<Rightarrow> hot_key \<Rightarrow> (hot_key, int) pydict \<Rightarrow> int \<Rightarrow> hot_key list \<Rightarrow>
    (hot_key, int) pydict \<times> int \<times> hot_key list" where
  "put_loop mx key [] tot victims = ([], tot, victims)"
| "put_loop mx key ((k, n) # es) tot victims =
     (if tot > mx
      then if k = key \<and> es = [] then ([(k, n)], tot, victims)
           else put_loop mx key es (max 0 (tot - n)) (victims @ [k])
      else ((k, n) # es, tot, victims))"

definition budget_put :: "hot_key \<Rightarrow> int \<Rightarrow> hot_budget \<Rightarrow> hot_key list \<times> hot_budget" where
  "budget_put key size_bytes b =
     (if fst key \<in> set (hb_shutting_down b) then ([], b)
      else
        let n = max 0 size_bytes;
            t = (case map_of (hb_entries b) key of None \<Rightarrow> hb_total b | Some old \<Rightarrow> max 0 (hb_total b - old));
            (es, t', victims) = put_loop (hb_max b) key (dict_del key (hb_entries b) @ [(key, n)]) (t + n) []
        in (victims, b\<lparr>hb_entries := es, hb_total := t'\<rparr>))"

text \<open>The selection loop of \<open>shrink_to\<close>: the oldest entries whose hash is not protected.\<close>

function shrink_loop :: "int \<Rightarrow> string list \<Rightarrow> (hot_key, int) pydict \<Rightarrow> int \<Rightarrow> (hot_key \<times> int) list \<Rightarrow>
    (hot_key, int) pydict \<times> int \<times> (hot_key \<times> int) list" where
  "shrink_loop target protected es tot victims =
     (if tot > target \<and> es \<noteq> []
      then case find (\<lambda>p. snd (fst p) \<notin> set protected) es of
             None \<Rightarrow> (es, tot, victims)
           | Some (k, n) \<Rightarrow> shrink_loop target protected (dict_del k es) (max 0 (tot - n)) (victims @ [(k, n)])
      else (es, tot, victims))"
  by pat_completeness auto
termination
proof (relation "measure (\<lambda>(target, protected, es, tot, victims). length es)", goal_cases)
  case 1
  then show ?case by simp
next
  case (2 target protected es tot victims kn k n)
  then have "(k, n) \<in> set es" by (simp add: find_in)
  then have "k \<in> set (dict_keys es)" by force
  from length_dict_del_less [OF this] show ?case by simp
qed

declare shrink_loop.simps [simp del]

definition budget_shrink :: "int \<Rightarrow> string list \<Rightarrow> hot_budget \<Rightarrow> (hot_key \<times> int) list \<times> hot_budget" where
  "budget_shrink target_bytes protected b =
     (let (es, t, victims) = shrink_loop (max 0 target_bytes) protected (hb_entries b) (hb_total b) []
      in (victims, b\<lparr>hb_entries := es, hb_total := t\<rparr>))"

text \<open>The owners that \<open>clear_all_owners\<close> asks to clear their memory cache, in the order of their oldest entries.\<close>

definition budget_owners :: "hot_budget \<Rightarrow> nat list" where
  "budget_owners b = rev (remdups (rev (map fst (dict_keys (hb_entries b)))))"

end
