(* ===== verification/SsdHot.thy ===== *)
theory SsdHot
  imports SsdIndex
begin

text \<open>
  The state of the SSD block store (\<open>PagedSSDCacheManager\<close> in
  \<^verbatim>\<open>fusion_mlx/cache/paged_ssd_cache.py\<close>) and its memory cache. Several managers live in one
  process: they share the byte budget, the registries of live managers and the files. The raw
  tensors of a block are the type \<open>'d\<close>; the header written with them is a record.
\<close>

section \<open>State\<close>

record ssd_header =
  hd_version :: "string option"
  hd_hash :: string
  hd_tokens :: int
  hd_layers :: int
  hd_model :: string
  hd_block_size :: int
  hd_created :: rat
  hd_types :: "string list option"
  hd_states :: "int list list option"
  hd_signature :: string

record 'd hot_entry =
  he_data :: 'd
  he_header :: ssd_header
  he_bytes :: int
  he_model :: "string option"

record ssd_counters =
  sc_hits :: int
  sc_misses :: int
  sc_saves :: int
  sc_deduped :: int
  sc_persisted :: int
  sc_loads :: int
  sc_errors :: int
  sc_hot_hits :: int
  sc_promotions :: int
  sc_evictions :: int
  sc_preloaded :: int
  sc_preload_calls :: int
  sc_unlink_failures :: int
  sc_write_drops :: int
  sc_inline_writes :: int

definition zero_counters :: ssd_counters where
  "zero_counters = \<lparr>sc_hits = 0, sc_misses = 0, sc_saves = 0, sc_deduped = 0, sc_persisted = 0, sc_loads = 0,
     sc_errors = 0, sc_hot_hits = 0, sc_promotions = 0, sc_evictions = 0, sc_preloaded = 0, sc_preload_calls = 0,
     sc_unlink_failures = 0, sc_write_drops = 0, sc_inline_writes = 0\<rparr>"

text \<open>An item of the write queue; the sentinel that ends the writer is \<open>None\<close>.\<close>

type_synonym 'd queue_item = "(string \<times> 'd \<times> ssd_header \<times> ssd_meta) option"

text \<open>
  \<open>sm_key\<close> is the registered directory (\<open>_cache_dir_key\<close>), \<open>sm_shared\<close> says whether the manager
  was given the shared budget. The set of pending hashes always holds the keys of
  \<open>sm_pending\<close> and is left out.
\<close>

record 'd ssd_manager =
  sm_dir :: "string option"
  sm_key :: "string option"
  sm_max :: int
  sm_configured :: int
  sm_model :: string
  sm_layers :: int
  sm_block_size :: int
  sm_types :: "string list option"
  sm_swept :: bool
  sm_hot_only :: bool
  sm_hot_max :: int
  sm_shared :: bool
  sm_queue_max :: nat
  sm_queue :: "'d queue_item list"
  sm_pending :: "(string, 'd hot_entry) pydict"
  sm_index :: ssd_index
  sm_incompatible :: ssd_index
  sm_stats :: ssd_counters
  sm_hot :: "(string, 'd hot_entry) pydict"
  sm_hot_total :: int
  sm_disk :: "(int \<times> rat) option"
  sm_last_sweep :: rat
  sm_shutting_down :: bool
  sm_writer :: bool

record 'd ssd_file =
  sf_data :: 'd
  sf_header :: ssd_header
  sf_mtime :: rat

text \<open>A file is named by its directory and the hash of its block; the list order is that of the file system.\<close>

record 'd ssd_world =
  w_managers :: "nat \<Rightarrow> 'd ssd_manager"
  w_budget :: hot_budget
  w_files :: "(string \<times> string, 'd ssd_file) pydict"
  w_active :: "(string, int) pydict"
  w_models :: "(string, string list) pydict"
  w_next :: nat

definition man :: "nat \<Rightarrow> 'd ssd_world \<Rightarrow> 'd ssd_manager" where
  "man i w = w_managers w i"

definition upd_man :: "nat \<Rightarrow> ('d ssd_manager \<Rightarrow> 'd ssd_manager) \<Rightarrow> 'd ssd_world \<Rightarrow> 'd ssd_world" where
  "upd_man i f w = w\<lparr>w_managers := (w_managers w)(i := f (w_managers w i))\<rparr>"

definition tick :: "(ssd_counters \<Rightarrow> ssd_counters) \<Rightarrow> nat \<Rightarrow> 'd ssd_world \<Rightarrow> 'd ssd_world" where
  "tick f i = upd_man i (\<lambda>m. m\<lparr>sm_stats := f (sm_stats m)\<rparr>)"

definition upd_budget :: "(hot_budget \<Rightarrow> hot_budget) \<Rightarrow> 'd ssd_world \<Rightarrow> 'd ssd_world" where
  "upd_budget f w = w\<lparr>w_budget := f (w_budget w)\<rparr>"

section \<open>The memory cache\<close>

definition effective_hot_max :: "nat \<Rightarrow> 'd ssd_world \<Rightarrow> int" where
  "effective_hot_max i w = (if sm_shared (man i w) then hb_max (w_budget w) else sm_hot_max (man i w))"

definition hot_available :: "nat \<Rightarrow> 'd ssd_world \<Rightarrow> int" where
  "hot_available i w =
     (if sm_shared (man i w) then remaining_bytes (w_budget w)
      else max 0 (sm_hot_max (man i w) - sm_hot_total (man i w)))"

definition hot_get :: "nat \<Rightarrow> string \<Rightarrow> 'd ssd_world \<Rightarrow> 'd hot_entry option \<times> 'd ssd_world" where
  "hot_get i h w =
     (case map_of (sm_hot (man i w)) h of
        None \<Rightarrow> (None, w)
      | Some e \<Rightarrow>
          (let w1 = upd_man i (\<lambda>m. m\<lparr>sm_hot := dict_del h (sm_hot m) @ [(h, e)]\<rparr>) w
           in (Some e, if sm_shared (man i w) then upd_budget (budget_touch (i, h)) w1 else w1)))"

definition hot_remove :: "nat \<Rightarrow> string \<Rightarrow> bool \<Rightarrow> 'd ssd_world \<Rightarrow> 'd hot_entry option \<times> 'd ssd_world" where
  "hot_remove i h update_budget w =
     (case map_of (sm_hot (man i w)) h of
        None \<Rightarrow> (None, w)
      | Some e \<Rightarrow>
          (let w1 = upd_man i (\<lambda>m. m\<lparr>sm_hot := dict_del h (sm_hot m),
                      sm_hot_total := max 0 (sm_hot_total m - he_bytes e)\<rparr>) w
           in (Some e, if update_budget \<and> sm_shared (man i w) then upd_budget (forget (i, h)) w1 else w1)))"

definition handle_hot_cache_eviction :: "nat \<Rightarrow> 'd ssd_world \<Rightarrow> 'd ssd_world" where
  "handle_hot_cache_eviction i = tick (\<lambda>c. c\<lparr>sc_evictions := sc_evictions c + 1\<rparr>) i"

text \<open>A victim of the budget leaves the memory cache of its owner; \<open>put\<close> counts that eviction once more.\<close>

definition drop_victim :: "hot_key \<Rightarrow> 'd ssd_world \<Rightarrow> 'd ssd_world" where
  "drop_victim k w =
     (let (e, w1) = hot_remove (fst k) (snd k) False w
      in if e = None then w1
         else tick (\<lambda>c. c\<lparr>sc_evictions := sc_evictions c + 1\<rparr>) (fst k) (handle_hot_cache_eviction (fst k) w1))"

text \<open>The manager's own limit: the oldest entries go, but never the last one.\<close>

fun trim_loop :: "int \<Rightarrow> (string, 'd hot_entry) pydict \<Rightarrow> int \<Rightarrow> string list \<Rightarrow>
    (string, 'd hot_entry) pydict \<times> int \<times> string list" where
  "trim_loop mx (p # q # ps) tot victims =
     (if mx > 0 \<and> tot > mx then trim_loop mx (q # ps) (max 0 (tot - he_bytes (snd p))) (victims @ [fst p])
      else (p # q # ps, tot, victims))"
| "trim_loop mx ps tot victims = (ps, tot, victims)"

definition hot_trim :: "nat \<Rightarrow> 'd ssd_world \<Rightarrow> 'd ssd_world" where
  "hot_trim i w =
     (let (d, t, victims) = trim_loop (sm_hot_max (man i w)) (sm_hot (man i w)) (sm_hot_total (man i w)) [];
          w1 = upd_man i (\<lambda>m. m\<lparr>sm_hot := d, sm_hot_total := t\<rparr>) w;
          w2 = tick (\<lambda>c. c\<lparr>sc_evictions := sc_evictions c + int (length victims)\<rparr>) i w1
      in if sm_shared (man i w) then upd_budget (fold (\<lambda>h. forget (i, h)) victims) w2 else w2)"

text \<open>\<open>_hot_cache_put\<close>; the size of the entry is computed from its tensors.\<close>

definition insert_hot :: "string \<Rightarrow> 'd hot_entry \<Rightarrow> 'd ssd_manager \<Rightarrow> 'd ssd_manager" where
  "insert_hot h e m =
     m\<lparr>sm_hot := dict_del h (sm_hot m) @ [(h, e)],
       sm_hot_total := (case map_of (sm_hot m) h of
                          None \<Rightarrow> sm_hot_total m
                        | Some old \<Rightarrow> max 0 (sm_hot_total m - he_bytes old)) + he_bytes e\<rparr>"

definition hot_put :: "('d \<Rightarrow> nat) \<Rightarrow> nat \<Rightarrow> string \<Rightarrow> 'd hot_entry \<Rightarrow> 'd ssd_world \<Rightarrow> 'd ssd_world" where
  "hot_put bytes i h entry w =
     (let e = entry\<lparr>he_bytes := int (bytes (he_data entry))\<rparr>;
          w1 = upd_man i (insert_hot h e) w;
          w2 = (if sm_shared (man i w)
                then let (victims, b) = budget_put (i, h) (he_bytes e) (w_budget w1)
                     in fold drop_victim victims (w1\<lparr>w_budget := b\<rparr>)
                else w1)
      in hot_trim i w2)"

text \<open>\<open>shrink_to\<close> of the budget, run on the memory caches of all owners.\<close>

definition shrink_victim :: "hot_key \<times> int \<Rightarrow> int \<times> 'd ssd_world \<Rightarrow> int \<times> 'd ssd_world" where
  "shrink_victim v s =
     (case hot_remove (fst (fst v)) (snd (fst v)) False (snd s) of
        (None, w1) \<Rightarrow> (fst s, w1)
      | (Some e, w1) \<Rightarrow> (fst s + snd v, handle_hot_cache_eviction (fst (fst v)) w1))"

definition shrink_to :: "int \<Rightarrow> string list \<Rightarrow> 'd ssd_world \<Rightarrow> int \<times> 'd ssd_world" where
  "shrink_to target_bytes protected w =
     (let (victims, b) = budget_shrink target_bytes protected (w_budget w)
      in fold shrink_victim victims (0, w\<lparr>w_budget := b\<rparr>))"

text \<open>The loop of \<open>shrink_hot_cache_to\<close> for a manager without the shared budget.\<close>

function own_shrink_loop :: "int \<Rightarrow> string list \<Rightarrow> (string, 'd hot_entry) pydict \<Rightarrow> int \<Rightarrow> int \<Rightarrow> nat \<Rightarrow>
    (string, 'd hot_entry) pydict \<times> int \<times> int \<times> nat" where
  "own_shrink_loop target protected d tot freed n =
     (if tot > target \<and> d \<noteq> []
      then case find (\<lambda>p. fst p \<notin> set protected) d of
             None \<Rightarrow> (d, tot, freed, n)
           | Some (h, e) \<Rightarrow> own_shrink_loop target protected (dict_del h d) (max 0 (tot - he_bytes e))
                              (freed + he_bytes e) (n + 1)
      else (d, tot, freed, n))"
  by pat_completeness auto
termination
proof (relation "measure (\<lambda>(target, protected, d, tot, freed, n). length d)", goal_cases)
  case 1
  then show ?case by simp
next
  case (2 target protected d tot freed n he h e)
  then have "(h, e) \<in> set d" by (simp add: find_in)
  then have "h \<in> set (dict_keys d)" by force
  from length_dict_del_less [OF this] show ?case by simp
qed

declare own_shrink_loop.simps [simp del]

definition shrink_hot_cache_to :: "nat \<Rightarrow> int \<Rightarrow> string list \<Rightarrow> 'd ssd_world \<Rightarrow> int \<times> 'd ssd_world" where
  "shrink_hot_cache_to i target_bytes protected w =
     (if sm_shared (man i w) then shrink_to (max 0 target_bytes) protected w
      else
        let (d, t, freed, n) = own_shrink_loop (max 0 target_bytes) protected (sm_hot (man i w)) (sm_hot_total (man i w)) 0 0;
            w1 = upd_man i (\<lambda>m. m\<lparr>sm_hot := d, sm_hot_total := t\<rparr>) w
        in (freed, tick (\<lambda>c. c\<lparr>sc_evictions := sc_evictions c + int n\<rparr>) i w1))"

definition clear_hot_cache :: "nat \<Rightarrow> 'd ssd_world \<Rightarrow> int \<times> 'd ssd_world" where
  "clear_hot_cache i w =
     (let w1 = upd_man i (\<lambda>m. m\<lparr>sm_hot := [], sm_hot_total := 0\<rparr>) w
      in (int (length (sm_hot (man i w))), if sm_shared (man i w) then upd_budget (forget_owner i) w1 else w1))"

definition clear_all_owners :: "'d ssd_world \<Rightarrow> int \<times> 'd ssd_world" where
  "clear_all_owners w =
     fold (\<lambda>i (n, w). let (c, w1) = clear_hot_cache i w in (n + c, w1)) (budget_owners (w_budget w)) (0, w)"

end
