(* ===== verification/PyText.thy ===== *)
theory PyText
  imports BlockHash
begin

text \<open>
  The text operations of Python the components use, on strings of 8-bit characters: case,
  white space, splitting and the reading of integers.
\<close>

section \<open>Characters and white space\<close>

text \<open>\<open>str.lower\<close> and \<open>str.strip\<close>.\<close>

definition lower_char :: "char \<Rightarrow> char" where
  "lower_char c = (let n = of_char c :: nat in
     if 65 \<le> n \<and> n \<le> 90 \<or> 192 \<le> n \<and> n \<le> 222 \<and> n \<noteq> 215 then char_of (n + 32) else c)"

definition space_char :: "char \<Rightarrow> bool" where
  "space_char c = (let n = of_char c :: nat in
     9 \<le> n \<and> n \<le> 13 \<or> 28 \<le> n \<and> n \<le> 32 \<or> n = 133 \<or> n = 160)"

definition strip :: "string \<Rightarrow> string" where
  "strip s = rev (dropWhile space_char (rev (dropWhile space_char s)))"

text \<open>\<open>bytes.lower\<close> and \<open>bytes.strip\<close> know ASCII only.\<close>

definition lower_byte :: "char \<Rightarrow> char" where
  "lower_byte c = (let n = of_char c :: nat in if 65 \<le> n \<and> n \<le> 90 then char_of (n + 32) else c)"

definition space_byte :: "char \<Rightarrow> bool" where
  "space_byte c = (let n = of_char c :: nat in 9 \<le> n \<and> n \<le> 13 \<or> n = 32)"

definition starts_with :: "string \<Rightarrow> string \<Rightarrow> bool" where
  "starts_with s p = (take (length p) s = p)"

definition ends_with :: "string \<Rightarrow> string \<Rightarrow> bool" where
  "ends_with s p = (length p \<le> length s \<and> drop (length s - length p) s = p)"

section \<open>Reading integers\<close>

text \<open>The digits of \<open>int(text)\<close>: single underscores may stand between two of them.\<close>

fun read_int_digits :: "string \<Rightarrow> nat \<Rightarrow> bool \<Rightarrow> nat option" where
  "read_int_digits [] acc digit_before = (if digit_before then Some acc else None)"
| "read_int_digits (c # cs) acc digit_before =
     (let n = of_char c :: nat in
      if 48 \<le> n \<and> n \<le> 57 then read_int_digits cs (acc * 10 + (n - 48)) True
      else if c = CHR ''_'' \<and> digit_before then read_int_digits cs acc False
      else None)"

text \<open>\<open>int(text)\<close> of a stripped text; more than 4300 digits raise like a wrong character does.\<close>

definition py_int :: "string \<Rightarrow> int option" where
  "py_int s =
     (case s of
        [] \<Rightarrow> None
      | c # cs \<Rightarrow>
          (let body = (if c = CHR ''-'' \<or> c = CHR ''+'' then cs else s)
           in if 4300 < length (filter (\<lambda>d. d \<noteq> CHR ''_'') body) then None
              else map_option (\<lambda>n. if c = CHR ''-'' then - int n else int n) (read_int_digits body 0 False)))"

end
