(* ===== verification/SsdStore.thy ===== *)
theory SsdStore
  imports SsdHot PyText
begin

text \<open>
  The operations of \<open>PagedSSDCacheManager\<close> (\<^verbatim>\<open>fusion_mlx/cache/paged_ssd_cache.py\<close>) on single
  blocks: saving, the writer, loading and deleting, with the enforcement of the size limit. A method
  is one step; the writer handles one item of the queue in a step of its own, so that its writes are
  interleaved with everything else. The tensor code is a parameter.
\<close>

section \<open>Parameters\<close>

text \<open>
  What the tensor code does: the layers of a block as raw tensors (or the exception of the
  extraction), the number of bytes of the tensors, their content signature, the size of the file they
  make, and the layers restored from memory or from a file (\<open>None\<close> when that fails).
\<close>

record ('l, 'd) ssd_codec =
  cd_encode :: "'l list \<Rightarrow> py_error + 'd"
  cd_bytes :: "'d \<Rightarrow> nat"
  cd_content :: "'d \<Rightarrow> string"
  cd_file_size :: "'d \<Rightarrow> ssd_header \<Rightarrow> nat"
  cd_restore :: "'d \<Rightarrow> ssd_header \<Rightarrow> 'l list option"
  cd_restore_file :: "'d \<Rightarrow> ssd_header \<Rightarrow> 'l list option"

text \<open>
  What the system answers during one call: the time, whether writing, unlinking and reading the
  file of a block succeed, and the free bytes of the disk (\<open>None\<close> when asking raises).
\<close>

record sys_calls =
  io_now :: rat
  io_write :: "string \<Rightarrow> bool"
  io_unlink :: "string \<Rightarrow> bool"
  io_read :: "string \<Rightarrow> bool"
  io_free :: "int option"

section \<open>Sizes\<close>

definition tracked_ssd_size :: "'d ssd_manager \<Rightarrow> int" where
  "tracked_ssd_size m = ix_total (sm_index m) + ix_total (sm_incompatible m)"

definition tracked_ssd_count :: "'d ssd_manager \<Rightarrow> int" where
  "tracked_ssd_count m = index_count (sm_index m) + index_count (sm_incompatible m)"

text \<open>The limit is kept for 30 seconds; the factor 0.99 is exact here.\<close>

definition disk_limit :: "sys_calls \<Rightarrow> 'd ssd_manager \<Rightarrow> int" where
  "disk_limit io m =
     (case io_free io of
        None \<Rightarrow> sm_max m
      | Some free \<Rightarrow> min (sm_max m) \<lfloor>(of_int (tracked_ssd_size m + free) * 99 / 100 :: rat)\<rfloor>)"

definition get_effective_max_size :: "sys_calls \<Rightarrow> nat \<Rightarrow> 'd ssd_world \<Rightarrow> int \<times> 'd ssd_world" where
  "get_effective_max_size io i w =
     (let m = man i w; v = disk_limit io m;
          fresh = (v, upd_man i (\<lambda>m. m\<lparr>sm_disk := Some (v, io_now io)\<rparr>) w)
      in if sm_dir m = None then (sm_max m, w)
         else case sm_disk m of
                None \<Rightarrow> fresh
              | Some (old, t) \<Rightarrow> if io_now io - t < 30 then (old, w) else fresh)"

section \<open>Files\<close>

definition file_exists :: "nat \<Rightarrow> string \<Rightarrow> 'd ssd_world \<Rightarrow> bool" where
  "file_exists i h w =
     (case sm_dir (man i w) of None \<Rightarrow> False | Some d \<Rightarrow> map_of (w_files w) (d, h) \<noteq> None)"

text \<open>Unlinking a file that exists; the answer is \<open>False\<close> when that raises.\<close>

definition unlink :: "sys_calls \<Rightarrow> nat \<Rightarrow> string \<Rightarrow> 'd ssd_world \<Rightarrow> bool \<times> 'd ssd_world" where
  "unlink io i h w =
     (case sm_dir (man i w) of
        None \<Rightarrow> (True, w)
      | Some d \<Rightarrow>
          if map_of (w_files w) (d, h) = None then (True, w)
          else if io_unlink io h then (True, w\<lparr>w_files := dict_del (d, h) (w_files w)\<rparr>)
          else (False, w))"

text \<open>The files of evicted blocks are unlinked one after the other; failures are counted.\<close>

definition unlink_victim :: "sys_calls \<Rightarrow> nat \<Rightarrow> string \<Rightarrow> 'd ssd_world \<Rightarrow> 'd ssd_world" where
  "unlink_victim io i h w =
     (let (ok, w1) = unlink io i h w
      in if ok then w1 else tick (\<lambda>c. c\<lparr>sc_unlink_failures := sc_unlink_failures c + 1\<rparr>) i w1)"

definition upd_index :: "(ssd_index \<Rightarrow> ssd_index) \<Rightarrow> nat \<Rightarrow> 'd ssd_world \<Rightarrow> 'd ssd_world" where
  "upd_index f i = upd_man i (\<lambda>m. m\<lparr>sm_index := f (sm_index m)\<rparr>)"

definition drop_index :: "string \<Rightarrow> nat \<Rightarrow> 'd ssd_world \<Rightarrow> 'd ssd_world" where
  "drop_index h = upd_index (\<lambda>x. snd (index_remove h x))"

section \<open>Enforcing the size limit\<close>

definition max_inline_unlinks :: nat where
  "max_inline_unlinks = 32"

definition max_enforce_iterations :: nat where
  "max_enforce_iterations = 1000"

definition live_foreign_models :: "nat \<Rightarrow> 'd ssd_world \<Rightarrow> string list" where
  "live_foreign_models i w =
     (case sm_key (man i w) of
        None \<Rightarrow> []
      | Some k \<Rightarrow> removeAll (sm_model (man i w)) (case map_of (w_models w) k of None \<Rightarrow> [] | Some ms \<Rightarrow> ms))"

text \<open>The filter is applied to the \<open>n\<close> least recently used blocks, not the other way round.\<close>

definition reclaimable :: "string list \<Rightarrow> int \<Rightarrow> ssd_index \<Rightarrow> (string \<times> ssd_meta) list" where
  "reclaimable foreign n x =
     filter (\<lambda>p. md_model (snd p) = [] \<or> md_model (snd p) \<notin> set foreign) (get_lru_entries (max 1 n) x)"

definition pick_reclaimable :: "string list \<Rightarrow> ssd_index \<Rightarrow> (string \<times> ssd_meta) option" where
  "pick_reclaimable foreign x =
     (case reclaimable foreign (max 1 (index_count x)) x of [] \<Rightarrow> None | p # _ \<Rightarrow> Some p)"

lemma get_lru_in: "set (get_lru_entries n x) \<subseteq> set (ix_blocks x)"
  using set_drop_subset set_take_subset by (fastforce simp: get_lru_entries_def pyslice_def)

lemma pick_in: "pick_reclaimable foreign x = Some p \<Longrightarrow> p \<in> set (ix_blocks x)"
proof -
  assume "pick_reclaimable foreign x = Some p"
  then have "p \<in> set (reclaimable foreign (max 1 (index_count x)) x)"
    by (auto simp: pick_reclaimable_def split: list.splits)
  with get_lru_in show ?thesis by (auto simp: reclaimable_def)
qed

lemma length_index_remove: "(h, m) \<in> set (ix_blocks x) \<Longrightarrow>
    length (ix_blocks (snd (index_remove h x))) < length (ix_blocks x)"
proof -
  assume "(h, m) \<in> set (ix_blocks x)"
  then have h: "h \<in> set (dict_keys (ix_blocks x))" by force
  then obtain m' where "map_of (ix_blocks x) h = Some m'" using map_of_keys_iff [of "ix_blocks x" h] by auto
  with length_dict_del_less [OF h] show ?thesis by (simp add: index_remove_def)
qed

text \<open>
  After a save: blocks of other models first, then at most 32 of the least recently used blocks
  of this one. The files of the victims are unlinked after the lock is released.
\<close>

function ssd_reclaim_loop :: "string list \<Rightarrow> int \<Rightarrow> nat \<Rightarrow> ssd_index \<Rightarrow> ssd_index \<Rightarrow> string list \<Rightarrow>
    ssd_index \<times> ssd_index \<times> string list" where
  "ssd_reclaim_loop foreign effective n x inc victims =
     (if ix_total x + ix_total inc \<le> effective then (x, inc, victims)
      else case pick_reclaimable foreign inc of
        Some (h, m) \<Rightarrow> ssd_reclaim_loop foreign effective n x (snd (index_remove h inc)) (victims @ [h])
      | None \<Rightarrow>
          if ix_blocks x = [] \<or> n \<ge> max_inline_unlinks then (x, inc, victims)
          else case get_lru_entries 1 x of
            [] \<Rightarrow> (x, inc, victims)
          | (h, m) # _ \<Rightarrow> ssd_reclaim_loop foreign effective (n + 1) (snd (index_remove h x)) inc (victims @ [h]))"
  by pat_completeness auto
termination
proof (relation "measure (\<lambda>(foreign, effective, n, x, inc, victims). length (ix_blocks x) + length (ix_blocks inc))", goal_cases)
  case 1
  then show ?case by simp
next
  case (2 foreign effective n x inc victims p ps h m)
  then have "(h, m) \<in> set (ix_blocks x)" using get_lru_in [of 1 x] by auto
  then show ?case using length_index_remove [of h m x] by simp
next
  case (3 foreign effective n x inc victims p h m)
  then show ?case using length_index_remove [of h m inc] pick_in [of foreign inc "(h, m)"] by simp
qed

declare ssd_reclaim_loop.simps [simp del]

definition enforce_size_limit_for_new_block :: "sys_calls \<Rightarrow> nat \<Rightarrow> 'd ssd_world \<Rightarrow> 'd ssd_world" where
  "enforce_size_limit_for_new_block io i w =
     (let (effective, w1) = get_effective_max_size io i w;
          (x, inc, victims) = ssd_reclaim_loop (live_foreign_models i w1) effective 0
             (sm_index (man i w1)) (sm_incompatible (man i w1)) []
      in fold (unlink_victim io i) victims (upd_man i (\<lambda>m. m\<lparr>sm_index := x, sm_incompatible := inc\<rparr>) w1))"

text \<open>One \<open>for\<close> loop of a batch of \<open>enforce_size_limit\<close>; \<open>other\<close> is the size of the other index.\<close>

fun batch_loop :: "int \<Rightarrow> int \<Rightarrow> (string \<times> ssd_meta) list \<Rightarrow> nat \<Rightarrow> ssd_index \<Rightarrow> int \<Rightarrow> string list \<Rightarrow>
    nat \<times> ssd_index \<times> int \<times> string list" where
  "batch_loop effective other [] n x freed victims = (n, x, freed, victims)"
| "batch_loop effective other ((h, m) # ps) n x freed victims =
     (if ix_total x + other \<le> effective \<or> n \<ge> max_inline_unlinks then (n, x, freed, victims)
      else batch_loop effective other ps (n + 1) (snd (index_remove h x)) (freed + md_size m) (victims @ [h]))"

definition enforce_batch :: "string list \<Rightarrow> int \<Rightarrow> ssd_index \<Rightarrow> ssd_index \<Rightarrow>
    ssd_index \<times> ssd_index \<times> int \<times> string list" where
  "enforce_batch foreign effective x inc =
     (let (n, inc1, freed, victims) =
            (if ix_total x + ix_total inc > effective \<and> ix_blocks inc \<noteq> []
             then batch_loop effective (ix_total x) (reclaimable foreign (int max_inline_unlinks) inc) 0 inc 0 []
             else (0, inc, 0, []));
          (n2, x2, freed2, victims2) =
            (if ix_total x + ix_total inc1 > effective \<and> n < max_inline_unlinks \<and> ix_blocks x \<noteq> []
             then batch_loop effective (ix_total inc1) (get_lru_entries (int max_inline_unlinks - int n) x) n x freed victims
             else (n, x, freed, victims))
      in (x2, inc1, freed2, victims2))"

fun enforce_batches :: "nat \<Rightarrow> sys_calls \<Rightarrow> nat \<Rightarrow> int \<Rightarrow> int \<Rightarrow> 'd ssd_world \<Rightarrow> int \<times> 'd ssd_world" where
  "enforce_batches 0 io i effective freed w = (freed, w)"
| "enforce_batches (Suc k) io i effective freed w =
     (let (x, inc, batch_freed, victims) = enforce_batch (live_foreign_models i w) effective
            (sm_index (man i w)) (sm_incompatible (man i w));
          w1 = fold (unlink_victim io i) victims (upd_man i (\<lambda>m. m\<lparr>sm_index := x, sm_incompatible := inc\<rparr>) w)
      in if victims = [] then (freed, w)
         else if tracked_ssd_size (man i w1) \<le> effective then (freed + batch_freed, w1)
         else enforce_batches k io i effective (freed + batch_freed) w1)"

definition enforce_size_limit :: "sys_calls \<Rightarrow> nat \<Rightarrow> 'd ssd_world \<Rightarrow> int \<times> 'd ssd_world" where
  "enforce_size_limit io i w =
     (let (effective, w1) = get_effective_max_size io i w
      in enforce_batches max_enforce_iterations io i effective 0 w1)"

section \<open>Saving a block\<close>

definition canonical_type :: "string \<Rightarrow> string" where
  "canonical_type t =
     (if t = ''SizedArraysCache'' then ''ArraysCache''
      else if t = ''PrefillReadyRotatingKVCache'' then ''RotatingKVCache'' else t)"

definition cache_compat_signature :: "string \<Rightarrow> int \<Rightarrow> int \<Rightarrow> string list option \<Rightarrow> string" where
  "cache_compat_signature model layers bsize types =
     dumps (\<lambda>_. []) True (JObj
       [(''model_name'', JStr model), (''num_layers'', JInt layers), (''block_size'', JInt bsize),
        (''layer_cache_types'', JList (map (\<lambda>t. JStr (canonical_type t)) (case types of None \<Rightarrow> [] | Some ts \<Rightarrow> ts)))])"

record 'l save_request =
  sv_hash :: "string option"
  sv_data :: "'l list option"
  sv_tokens :: int
  sv_model :: string
  sv_types :: "string list option"
  sv_states :: "int list list option"
  sv_verify :: bool

definition has_resident_data :: "nat \<Rightarrow> string \<Rightarrow> 'd ssd_world \<Rightarrow> bool \<times> 'd ssd_world" where
  "has_resident_data i h w =
     (if \<not> sm_hot_only (man i w) then (True, w)
      else let (e, w1) = hot_get i h w in (e \<noteq> None, w1))"

text \<open>
  Writing the file and renaming it, then the bookkeeping of the size: of the indexed object, or of
  the object that was queued, which the other index may hold by now.
\<close>

definition persist_block_file ::
  "('l, 'd) ssd_codec \<Rightarrow> sys_calls \<Rightarrow> nat \<Rightarrow> string \<Rightarrow> 'd \<Rightarrow> ssd_header \<Rightarrow> ssd_meta \<Rightarrow> 'd ssd_world \<Rightarrow> bool \<times> 'd ssd_world" where
  "persist_block_file cd io i h d hdr md w =
     (case sm_dir (man i w) of
        None \<Rightarrow> (False, w)
      | Some dir \<Rightarrow>
          if \<not> io_write io h then (False, w)
          else
            let w1 = w\<lparr>w_files := dict_set (dir, h) \<lparr>sf_data = d, sf_header = hdr, sf_mtime = io_now io\<rparr> (w_files w)\<rparr>;
                n = int (cd_file_size cd d hdr)
            in (True,
                if index_contains h (sm_index (man i w1)) then upd_index (update_file_size h n) i w1
                else upd_man i (\<lambda>m. m\<lparr>sm_incompatible := set_object_size (md_id md) n (sm_incompatible m)\<rparr>) w1))"

text \<open>The writer handles an item of the queue the same way.\<close>

definition write_block_inline ::
  "('l, 'd) ssd_codec \<Rightarrow> sys_calls \<Rightarrow> nat \<Rightarrow> string \<Rightarrow> 'd \<Rightarrow> ssd_header \<Rightarrow> ssd_meta \<Rightarrow> 'd ssd_world \<Rightarrow> 'd ssd_world" where
  "write_block_inline cd io i h d hdr md w =
     (let (ok, w1) = persist_block_file cd io i h d hdr md w;
          w2 = (if ok then tick (\<lambda>c. c\<lparr>sc_persisted := sc_persisted c + 1\<rparr>) i w1
                else drop_index h i (tick (\<lambda>c. c\<lparr>sc_errors := sc_errors c + 1\<rparr>) i w1))
      in upd_man i (\<lambda>m. m\<lparr>sm_pending := dict_del h (sm_pending m)\<rparr>) w2)"

definition or_int :: "int \<Rightarrow> int \<Rightarrow> int" where
  "or_int a b = (if a \<noteq> 0 then a else b)"

definition or_str :: "string \<Rightarrow> string \<Rightarrow> string" where
  "or_str a b = (if a \<noteq> [] then a else b)"

definition save_header :: "sys_calls \<Rightarrow> 'd ssd_manager \<Rightarrow> string \<Rightarrow> 'l save_request \<Rightarrow> 'l list \<Rightarrow> ssd_header" where
  "save_header io m h r ls =
     (let model = or_str (sv_model r) (sm_model m); bsize = or_int (sm_block_size m) (sv_tokens r)
      in \<lparr>hd_version = Some ''3'', hd_hash = h, hd_tokens = sv_tokens r, hd_layers = int (length ls),
          hd_model = model, hd_block_size = bsize, hd_created = io_now io, hd_types = sv_types r,
          hd_states = sv_states r,
          hd_signature = cache_compat_signature model (int (length ls)) bsize (sv_types r)\<rparr>)"

definition save_meta :: "('l, 'd) ssd_codec \<Rightarrow> sys_calls \<Rightarrow> nat \<Rightarrow> 'd \<Rightarrow> ssd_header \<Rightarrow> ssd_meta" where
  "save_meta cd io new_id d hdr =
     \<lparr>md_id = new_id, md_file = hd_hash hdr, md_size = int (cd_bytes cd d), md_tokens = hd_tokens hdr, md_created = io_now io,
      md_access = io_now io, md_layers = hd_layers hdr, md_model = hd_model hdr, md_block_size = hd_block_size hdr,
      md_signature = hd_signature hdr, md_content = cd_content cd d, md_types = hd_types hdr, md_states = hd_states hdr\<rparr>"

text \<open>A queue that is full for the second the caller waits makes it write the block itself.\<close>

definition queue_or_write ::
  "('l, 'd) ssd_codec \<Rightarrow> sys_calls \<Rightarrow> nat \<Rightarrow> string \<Rightarrow> 'd \<Rightarrow> ssd_header \<Rightarrow> ssd_meta \<Rightarrow> 'd ssd_world \<Rightarrow> 'd ssd_world" where
  "queue_or_write cd io i h d hdr md w =
     (if length (sm_queue (man i w)) < sm_queue_max (man i w)
      then upd_man i (\<lambda>m. m\<lparr>sm_queue := sm_queue m @ [Some (h, d, hdr, md)]\<rparr>) w
      else write_block_inline cd io i h d hdr md (tick (\<lambda>c. c\<lparr>sc_inline_writes := sc_inline_writes c + 1\<rparr>) i w))"

text \<open>The part of \<open>save_block\<close> after the tensors are extracted and found to be new.\<close>

definition save_new ::
  "('l, 'd) ssd_codec \<Rightarrow> sys_calls \<Rightarrow> nat \<Rightarrow> string \<Rightarrow> 'd \<Rightarrow> ssd_header \<Rightarrow> 'd ssd_world \<Rightarrow> 'd ssd_world" where
  "save_new cd io i h d hdr w =
     (let md = save_meta cd io (w_next w) d hdr;
          e = \<lparr>he_data = d, he_header = hdr, he_bytes = int (cd_bytes cd d), he_model = Some (hd_model hdr)\<rparr>;
          w1 = hot_put (cd_bytes cd) i h e (w\<lparr>w_next := Suc (w_next w)\<rparr>);
          w2 = tick (\<lambda>c. c\<lparr>sc_saves := sc_saves c + 1\<rparr>) i (upd_index (index_add h md) i w1)
      in if sm_hot_only (man i w2) then w2
         else
           let w3 = upd_man i (\<lambda>m. m\<lparr>sm_pending := dict_set h e (sm_pending m)\<rparr>) w2
           in enforce_size_limit_for_new_block io i (queue_or_write cd io i h d hdr md w3))"

definition deduped :: "sys_calls \<Rightarrow> nat \<Rightarrow> string \<Rightarrow> 'd ssd_world \<Rightarrow> 'd ssd_world" where
  "deduped io i h w =
     tick (\<lambda>c. c\<lparr>sc_deduped := sc_deduped c + 1\<rparr>) i (upd_index (index_touch (io_now io) h) i w)"

definition same_content :: "('l, 'd) ssd_codec \<Rightarrow> nat \<Rightarrow> string \<Rightarrow> 'd \<Rightarrow> 'd ssd_world \<Rightarrow> bool" where
  "same_content cd i h d w =
     (case index_get h (sm_index (man i w)) of None \<Rightarrow> False | Some m \<Rightarrow> md_content m = cd_content cd d)"

definition save_block ::
  "('l, 'd) ssd_codec \<Rightarrow> sys_calls \<Rightarrow> nat \<Rightarrow> 'l save_request \<Rightarrow> 'd ssd_world \<Rightarrow> ('d ssd_world, bool) outcome" where
  "save_block cd io i r w =
     (case sv_hash r of
        None \<Rightarrow> returns False w
      | Some h \<Rightarrow>
          let already = index_contains h (sm_index (man i w));
              (resident, w1) = (if already \<and> \<not> sv_verify r then has_resident_data i h w else (False, w))
          in if already \<and> \<not> sv_verify r \<and> resident then returns True (deduped io i h w1)
             else
               let w2 = (if already \<and> \<not> sv_verify r then drop_index h i w1 else w1)
               in case sv_data r of
                    None \<Rightarrow> returns False w2
                  | Some ls \<Rightarrow>
                      (case cd_encode cd ls of
                         Inl e \<Rightarrow> raises e w2
                       | Inr d \<Rightarrow>
                           if already \<and> sv_verify r \<and> same_content cd i h d w2 then returns True (deduped io i h w2)
                           else returns True (save_new cd io i h d (save_header io (man i w2) h r ls) w2)))"

text \<open>\<open>store_block\<close> derives the hash from the number of the block and therefore verifies the content.\<close>

definition hex_text :: "string \<Rightarrow> string" where
  "hex_text s = concat (map (\<lambda>c. let n = of_char c :: nat in [hex_digit (n div 16), hex_digit (n mod 16)]) s)"

definition store_hash :: "int \<Rightarrow> string" where
  "store_hash block_id =
     (let t = int_str block_id in hex_text (take 20 (t @ replicate (20 - length t) (CHR ''_''))))"

definition store_block ::
  "('l, 'd) ssd_codec \<Rightarrow> sys_calls \<Rightarrow> nat \<Rightarrow> int \<Rightarrow> 'l list \<Rightarrow> 'd ssd_world \<Rightarrow> ('d ssd_world, bool) outcome" where
  "store_block cd io i block_id ls w =
     (if ls = [] then returns False w
      else save_block cd io i \<lparr>sv_hash = Some (store_hash block_id), sv_data = Some ls, sv_tokens = 0, sv_model = [],
             sv_types = None, sv_states = None, sv_verify = True\<rparr> w)"

section \<open>Loading a block\<close>

definition recover_from_block_error :: "sys_calls \<Rightarrow> nat \<Rightarrow> string \<Rightarrow> 'd ssd_world \<Rightarrow> 'd ssd_world" where
  "recover_from_block_error io i h w = drop_index h i (snd (unlink io i h w))"

definition loaded :: "nat \<Rightarrow> 'd ssd_world \<Rightarrow> 'd ssd_world" where
  "loaded = tick (\<lambda>c. c\<lparr>sc_loads := sc_loads c + 1, sc_hits := sc_hits c + 1\<rparr>)"

definition failed_load :: "sys_calls \<Rightarrow> nat \<Rightarrow> string \<Rightarrow> 'd ssd_world \<Rightarrow> 'd ssd_world" where
  "failed_load io i h w =
     tick (\<lambda>c. c\<lparr>sc_errors := sc_errors c + 1, sc_misses := sc_misses c + 1\<rparr>) i (recover_from_block_error io i h w)"

definition missed :: "nat \<Rightarrow> 'd ssd_world \<Rightarrow> 'd ssd_world" where
  "missed = tick (\<lambda>c. c\<lparr>sc_misses := sc_misses c + 1\<rparr>)"

text \<open>The last part of \<open>load_block\<close>: the file is read, restored and put into the memory cache.\<close>

definition load_file ::
  "('l, 'd) ssd_codec \<Rightarrow> sys_calls \<Rightarrow> nat \<Rightarrow> string \<Rightarrow> 'd ssd_file \<Rightarrow> 'd ssd_world \<Rightarrow> 'l list option \<times> 'd ssd_world" where
  "load_file cd io i h f w =
     (if \<not> io_read io h then (None, failed_load io i h w)
      else case cd_restore_file cd (sf_data f) (sf_header f) of
        None \<Rightarrow> (None, failed_load io i h w)
      | Some ls \<Rightarrow>
          let e = \<lparr>he_data = sf_data f, he_header = sf_header f, he_bytes = int (cd_bytes cd (sf_data f)),
                   he_model = map_option md_model (index_get h (sm_index (man i w)))\<rparr>;
              w1 = hot_put (cd_bytes cd) i h e w;
              w2 = tick (\<lambda>c. c\<lparr>sc_promotions := sc_promotions c + 1\<rparr>) i (loaded i w1)
          in (Some ls, upd_index (index_touch (io_now io) h) i w2))"

text \<open>Without a directory the path is \<open>None\<close> and asking whether it exists raises.\<close>

definition load_block ::
  "('l, 'd) ssd_codec \<Rightarrow> sys_calls \<Rightarrow> nat \<Rightarrow> string \<Rightarrow> 'd ssd_world \<Rightarrow> ('d ssd_world, 'l list option) outcome" where
  "load_block cd io i h w =
     (case map_of (sm_pending (man i w)) h of
        Some e \<Rightarrow> returns (cd_restore cd (he_data e) (he_header e)) (loaded i (snd (hot_get i h w)))
      | None \<Rightarrow>
          (case hot_get i h w of
             (Some e, w1) \<Rightarrow> returns (cd_restore cd (he_data e) (he_header e))
               (tick (\<lambda>c. c\<lparr>sc_hot_hits := sc_hot_hits c + 1\<rparr>) i (loaded i w1))
           | (None, w1) \<Rightarrow>
               if \<not> index_contains h (sm_index (man i w1)) then returns None (missed i w1)
               else case sm_dir (man i w1) of
                 None \<Rightarrow> raises AttributeError w1
               | Some dir \<Rightarrow>
                   (case map_of (w_files w1) (dir, h) of
                      None \<Rightarrow> returns None (missed i (drop_index h i w1))
                    | Some f \<Rightarrow> let (r, w2) = load_file cd io i h f w1 in returns r w2)))"

definition fetch_block ::
  "('l, 'd) ssd_codec \<Rightarrow> sys_calls \<Rightarrow> nat \<Rightarrow> string \<Rightarrow> 'd ssd_world \<Rightarrow> ('d ssd_world, 'l list option \<times> bool) outcome" where
  "fetch_block cd io i h w = and_then (load_block cd io i h w) (\<lambda>r w1. returns (r, r \<noteq> None) w1)"

text \<open>The metadata a load reports, from the header of the entry or from the index.\<close>

record block_info =
  bi_layers :: int
  bi_tokens :: int
  bi_model :: string
  bi_block_size :: int
  bi_signature :: string
  bi_types :: "string list option"
  bi_states :: "int list list option"

definition metadata_from_pending :: "ssd_header \<Rightarrow> block_info" where
  "metadata_from_pending hdr = \<lparr>bi_layers = hd_layers hdr, bi_tokens = hd_tokens hdr, bi_model = hd_model hdr,
     bi_block_size = hd_block_size hdr, bi_signature = hd_signature hdr, bi_types = hd_types hdr, bi_states = hd_states hdr\<rparr>"

definition metadata_from_index :: "ssd_meta \<Rightarrow> block_info" where
  "metadata_from_index m = \<lparr>bi_layers = md_layers m, bi_tokens = md_tokens m, bi_model = md_model m,
     bi_block_size = md_block_size m, bi_signature = md_signature m, bi_types = md_types m, bi_states = md_states m\<rparr>"

definition load_block_with_metadata ::
  "('l, 'd) ssd_codec \<Rightarrow> sys_calls \<Rightarrow> nat \<Rightarrow> string \<Rightarrow> 'd ssd_world \<Rightarrow>
     ('d ssd_world, 'l list option \<times> block_info option) outcome" where
  "load_block_with_metadata cd io i h w =
     (case map_of (sm_pending (man i w)) h of
        Some e \<Rightarrow> returns (cd_restore cd (he_data e) (he_header e), Some (metadata_from_pending (he_header e))) w
      | None \<Rightarrow>
          (case hot_get i h w of
             (Some e, w1) \<Rightarrow> returns (cd_restore cd (he_data e) (he_header e), Some (metadata_from_pending (he_header e))) w1
           | (None, w1) \<Rightarrow>
               (case index_get h (sm_index (man i w1)) of
                  None \<Rightarrow> returns (None, None) w1
                | Some m \<Rightarrow>
                    if sm_hot_only (man i w1) then returns (None, None) (missed i (drop_index h i w1))
                    else and_then (load_block cd io i h w1) (\<lambda>r w2.
                      returns (case r of None \<Rightarrow> (None, None) | Some ls \<Rightarrow> (Some ls, Some (metadata_from_index m))) w2))))"

section \<open>Deleting\<close>

definition delete_block :: "sys_calls \<Rightarrow> nat \<Rightarrow> string \<Rightarrow> 'd ssd_world \<Rightarrow> bool \<times> 'd ssd_world" where
  "delete_block io i h w =
     (if \<not> index_contains h (sm_index (man i w)) then (False, w)
      else
        let w1 = drop_index h i w;
            w2 = (if sm_hot_only (man i w1) then w1 else snd (unlink io i h w1));
            w3 = snd (hot_remove i h True w2)
        in (True, upd_man i (\<lambda>m. m\<lparr>sm_pending := dict_del h (sm_pending m)\<rparr>) w3))"

definition forget_block :: "nat \<Rightarrow> string \<Rightarrow> 'd ssd_world \<Rightarrow> bool \<times> 'd ssd_world" where
  "forget_block i h w =
     (case index_remove h (sm_index (man i w)) of
        (None, x) \<Rightarrow> (False, w)
      | (Some md, x) \<Rightarrow>
          (True, upd_man i (\<lambda>m. m\<lparr>sm_index := x, sm_incompatible := index_add h md (sm_incompatible m)\<rparr>) w))"

text \<open>The blocks of one index are unlinked one by one; only successful unlinks of existing files count.\<close>

definition clear_file :: "sys_calls \<Rightarrow> nat \<Rightarrow> string \<Rightarrow> int \<times> 'd ssd_world \<Rightarrow> int \<times> 'd ssd_world" where
  "clear_file io i h s =
     (if file_exists i h (snd s)
      then let (ok, w1) = unlink io i h (snd s) in (if ok then fst s + 1 else fst s, w1)
      else s)"

text \<open>Neither the shared budget nor the pending writes are told.\<close>

definition ssd_clear :: "sys_calls \<Rightarrow> nat \<Rightarrow> 'd ssd_world \<Rightarrow> int \<times> 'd ssd_world" where
  "ssd_clear io i w =
     (let m = man i w;
          (n, w1) = (if sm_hot_only m then (tracked_ssd_count m, w)
                     else fold (clear_file io i) (get_all_hashes (sm_index m) @ get_all_hashes (sm_incompatible m)) (0, w))
      in (n, upd_man i (\<lambda>m. m\<lparr>sm_index := index_new (sm_max m), sm_incompatible := index_new (sm_max m),
                 sm_hot := [], sm_hot_total := 0\<rparr>) w1))"

definition sort_lru_by_last_access :: "nat \<Rightarrow> 'd ssd_world \<Rightarrow> 'd ssd_world" where
  "sort_lru_by_last_access = upd_index sort_lru"

end
