(* ===== verification/SsdLife.thy ===== *)
theory SsdLife
  imports SsdStore
begin

text \<open>
  The rest of \<open>PagedSSDCacheManager\<close> (\<^verbatim>\<open>fusion_mlx/cache/paged_ssd_cache.py\<close>): opening a
  manager with the scan of its directory, the writer thread, the sweeps that reconcile index and
  files, preloading, the signature of the cache layers, closing and statistics; and the step relation
  of a process with several managers.
\<close>

section \<open>Reconciling the index with the files\<close>

definition is_hex_digit :: "char \<Rightarrow> bool" where
  "is_hex_digit c = (let n = of_char c :: nat in 48 \<le> n \<and> n \<le> 57 \<or> 65 \<le> n \<and> n \<le> 70 \<or> 97 \<le> n \<and> n \<le> 102)"

definition hex_lower :: "char \<Rightarrow> char" where
  "hex_lower c = (let n = of_char c :: nat in if 65 \<le> n \<and> n \<le> 70 then char_of (n + 32) else c)"

definition hex_space :: "char \<Rightarrow> bool" where
  "hex_space c = (let n = of_char c :: nat in n = 32 \<or> 9 \<le> n \<and> n \<le> 13)"

text \<open>\<open>bytes.fromhex\<close>: white space between bytes is skipped, the digits may be of either case.\<close>

fun from_hex :: "string \<Rightarrow> string option" where
  "from_hex [] = Some []"
| "from_hex (c # cs) =
     (if hex_space c then from_hex cs
      else case cs of [] \<Rightarrow> None
      | d # ds \<Rightarrow> if is_hex_digit c \<and> is_hex_digit d
                   then map_option (\<lambda>t. hex_lower c # hex_lower d # t) (from_hex ds) else None)"

definition is_hex_blob_name :: "string \<Rightarrow> bool" where
  "is_hex_blob_name s = (even (length s) \<and> from_hex s \<noteq> None)"

text \<open>The files of the shard directories, shard by shard.\<close>

definition shard_files :: "string \<Rightarrow> 'd ssd_world \<Rightarrow> (string \<times> 'd ssd_file) list" where
  "shard_files dir w =
     concat (map (\<lambda>c. map (\<lambda>p. (snd (fst p), snd p))
         (filter (\<lambda>p. fst (fst p) = dir \<and> take 1 (snd (fst p)) = [c]) (w_files w)))
       ''0123456789abcdef'')"

text \<open>Orphans: files without an entry in either index, at least 30 seconds old; never in a shared directory.\<close>

definition sweep_one :: "sys_calls \<Rightarrow> nat \<Rightarrow> string \<times> 'd ssd_file \<Rightarrow> int \<times> 'd ssd_world \<Rightarrow> int \<times> 'd ssd_world" where
  "sweep_one io i p s =
     (let (name, f) = p; m = man i (snd s)
      in if \<not> is_hex_blob_name name then s
         else case from_hex name of
           None \<Rightarrow> s
         | Some h \<Rightarrow>
             if index_contains h (sm_index m) \<or> index_contains h (sm_incompatible m) \<or> io_now io - sf_mtime f < 30 then s
             else let (ok, w1) = unlink io i name (snd s) in (if ok then fst s + 1 else fst s, w1))"

definition sweep_orphaned_files :: "sys_calls \<Rightarrow> nat \<Rightarrow> 'd ssd_world \<Rightarrow> int \<times> 'd ssd_world" where
  "sweep_orphaned_files io i w =
     (case sm_dir (man i w) of
        None \<Rightarrow> (0, w)
      | Some dir \<Rightarrow>
          let active = (case sm_key (man i w) of None \<Rightarrow> 1
                        | Some k \<Rightarrow> (case map_of (w_active w) k of None \<Rightarrow> 1 | Some n \<Rightarrow> n))
          in if active > 1 then (0, w) else fold (sweep_one io i) (shard_files dir w) (0, w))"

definition repair_one :: "nat \<Rightarrow> string \<Rightarrow> int \<times> 'd ssd_world \<Rightarrow> int \<times> 'd ssd_world" where
  "repair_one i h s =
     (case index_get h (sm_index (man i (snd s))) of
        None \<Rightarrow> s
      | Some m \<Rightarrow> if file_exists i (md_file m) (snd s) \<or> file_exists i h (snd s) then s
                  else (fst s + 1, drop_index h i (snd s)))"

text \<open>The stale entries; temporary files of crashed writes are not part of the model.\<close>

definition verify_and_repair_index :: "nat \<Rightarrow> 'd ssd_world \<Rightarrow> int \<times> 'd ssd_world" where
  "verify_and_repair_index i w =
     (if sm_dir (man i w) = None then (0, w)
      else fold (repair_one i) (get_all_hashes (sm_index (man i w))) (0, w))"

section \<open>The writer thread\<close>

definition writer_step :: "('l, 'd) ssd_codec \<Rightarrow> sys_calls \<Rightarrow> nat \<Rightarrow> 'd ssd_world \<Rightarrow> 'd ssd_world" where
  "writer_step cd io i w =
     (if \<not> sm_writer (man i w) then w
      else case sm_queue (man i w) of
        [] \<Rightarrow>
          (let w1 = (if io_now io - sm_last_sweep (man i w) \<ge> 60
                     then snd (sweep_orphaned_files io i (upd_man i (\<lambda>m. m\<lparr>sm_last_sweep := io_now io\<rparr>) w))
                     else w)
           in if sm_shutting_down (man i w1) then upd_man i (\<lambda>m. m\<lparr>sm_writer := False\<rparr>) w1 else w1)
      | None # q \<Rightarrow> upd_man i (\<lambda>m. m\<lparr>sm_queue := q, sm_writer := False\<rparr>) w
      | Some (h, d, hdr, md) # q \<Rightarrow> write_block_inline cd io i h d hdr md (upd_man i (\<lambda>m. m\<lparr>sm_queue := q\<rparr>) w))"

section \<open>Opening a manager\<close>

definition is_compatible_block :: "'d ssd_manager \<Rightarrow> ssd_meta \<Rightarrow> bool" where
  "is_compatible_block m md =
     (if sm_model m = [] then True
      else if sm_layers m > 0 \<and> md_layers md \<noteq> sm_layers m then False
      else if md_model md \<noteq> [] \<and> md_model md \<noteq> sm_model m then False
      else if sm_block_size m > 0 \<and> md_block_size md > 0 \<and> md_block_size md \<noteq> sm_block_size m then False
      else case sm_types m of
        None \<Rightarrow> True
      | Some ts \<Rightarrow>
          if ts = [] \<or> md_signature md = [] then True
          else md_signature md = cache_compat_signature (sm_model m) (or_int (sm_layers m) (md_layers md))
                 (or_int (sm_block_size m) (md_block_size md)) (Some ts))"

text \<open>The object built from a header; \<open>full\<close> is off for the index of incompatible blocks.\<close>

definition scanned_meta :: "('l, 'd) ssd_codec \<Rightarrow> bool \<Rightarrow> nat \<Rightarrow> string \<Rightarrow> 'd ssd_file \<Rightarrow> ssd_meta" where
  "scanned_meta cd full new_id name f =
     (let hdr = sf_header f
      in \<lparr>md_id = new_id, md_file = name, md_size = int (cd_file_size cd (sf_data f) hdr), md_tokens = hd_tokens hdr,
          md_created = hd_created hdr, md_access = max (sf_mtime f) 0, md_layers = hd_layers hdr, md_model = hd_model hdr,
          md_block_size = (if full then hd_block_size hdr else 0), md_signature = (if full then hd_signature hdr else []),
          md_content = [], md_types = (if full then hd_types hdr else None),
          md_states = (if full then hd_states hdr else None)\<rparr>)"

definition add_incompatible :: "('l, 'd) ssd_codec \<Rightarrow> nat \<Rightarrow> string \<times> 'd ssd_file \<Rightarrow> 'd ssd_world \<Rightarrow> 'd ssd_world" where
  "add_incompatible cd i p w =
     (let hex = hd_hash (sf_header (snd p)); md = scanned_meta cd False (w_next w) (fst p) (snd p)
      in if hex = [] then w
         else case from_hex hex of
           None \<Rightarrow> w
         | Some h \<Rightarrow> upd_man i (\<lambda>m. m\<lparr>sm_incompatible := index_add h md (sm_incompatible m)\<rparr>) (w\<lparr>w_next := Suc (w_next w)\<rparr>))"

definition scan_file :: "('l, 'd) ssd_codec \<Rightarrow> sys_calls \<Rightarrow> nat \<Rightarrow> string \<times> 'd ssd_file \<Rightarrow> 'd ssd_world \<Rightarrow> 'd ssd_world" where
  "scan_file cd io i p w =
     (let hdr = sf_header (snd p); hex = hd_hash hdr; md = scanned_meta cd True (w_next w) (fst p) (snd p)
      in if \<not> io_read io (fst p) then w
         else if hd_version hdr = None then add_incompatible cd i p w
         else if hex = [] then w
         else case from_hex hex of
           None \<Rightarrow> w
         | Some h \<Rightarrow> if \<not> is_compatible_block (man i w) md then add_incompatible cd i p w
                     else upd_index (index_add h md) i (w\<lparr>w_next := Suc (w_next w)\<rparr>))"

text \<open>Startup: blocks of models without a live manager go until the size fits.\<close>

function startup_loop :: "string list \<Rightarrow> int \<Rightarrow> int \<Rightarrow> ssd_index \<Rightarrow> string list \<Rightarrow> ssd_index \<times> string list" where
  "startup_loop foreign effective other inc victims =
     (if other + ix_total inc > effective \<and> ix_blocks inc \<noteq> []
      then case pick_reclaimable foreign inc of
             None \<Rightarrow> (inc, victims)
           | Some (h, m) \<Rightarrow> startup_loop foreign effective other (snd (index_remove h inc)) (victims @ [h])
      else (inc, victims))"
  by pat_completeness auto
termination
proof (relation "measure (\<lambda>(foreign, effective, other, inc, victims). length (ix_blocks inc))", goal_cases)
  case 1
  then show ?case by simp
next
  case (2 foreign effective other inc victims p h m)
  then show ?case using length_index_remove [of h m inc] pick_in [of foreign inc "(h, m)"] by simp
qed

declare startup_loop.simps [simp del]

definition enforce_incompatible_at_startup :: "sys_calls \<Rightarrow> nat \<Rightarrow> 'd ssd_world \<Rightarrow> 'd ssd_world" where
  "enforce_incompatible_at_startup io i w =
     (let (effective, w1) = get_effective_max_size io i w;
          (inc, victims) = startup_loop (live_foreign_models i w1) effective (ix_total (sm_index (man i w1)))
             (sm_incompatible (man i w1)) []
      in fold (unlink_victim io i) victims (upd_man i (\<lambda>m. m\<lparr>sm_incompatible := inc\<rparr>) w1))"

definition scan_disk_index :: "('l, 'd) ssd_codec \<Rightarrow> sys_calls \<Rightarrow> nat \<Rightarrow> string \<Rightarrow> 'd ssd_world \<Rightarrow> 'd ssd_world" where
  "scan_disk_index cd io i dir w =
     snd (verify_and_repair_index i
       (enforce_incompatible_at_startup io i (fold (scan_file cd io i) (shard_files dir w) w)))"

text \<open>
  The arguments of the constructor, with the defaults resolved: the directory, the limit, what is
  expected of the blocks, the memory cache and the length of the write queue, which depends on the
  memory of the machine.
\<close>

record ssd_config =
  cf_dir :: "string option"
  cf_max :: int
  cf_model :: string
  cf_layers :: int
  cf_block_size :: int
  cf_types :: "string list option"
  cf_hot_max :: int
  cf_shared :: bool
  cf_hot_only :: bool
  cf_queue_max :: nat

definition default_dir :: string where
  "default_dir = ''/tmp/fusion_mlx_ssd_cache''"

definition config_dir :: "ssd_config \<Rightarrow> string option" where
  "config_dir c =
     (case cf_dir c of Some d \<Rightarrow> Some d | None \<Rightarrow> if cf_hot_only c then None else Some default_dir)"

definition new_manager :: "ssd_config \<Rightarrow> 'd ssd_manager" where
  "new_manager c =
     \<lparr>sm_dir = config_dir c, sm_key = (if cf_hot_only c then None else config_dir c), sm_max = cf_max c,
      sm_configured = cf_max c, sm_model = cf_model c, sm_layers = cf_layers c, sm_block_size = cf_block_size c,
      sm_types = cf_types c, sm_swept = False, sm_hot_only = cf_hot_only c, sm_hot_max = cf_hot_max c,
      sm_shared = cf_shared c, sm_queue_max = cf_queue_max c, sm_queue = [], sm_pending = [],
      sm_index = index_new (cf_max c), sm_incompatible = index_new (cf_max c), sm_stats = zero_counters,
      sm_hot = [], sm_hot_total = 0, sm_disk = None, sm_last_sweep = 0, sm_shutting_down = False,
      sm_writer = \<not> cf_hot_only c\<rparr>"

definition register_manager :: "string option \<Rightarrow> string \<Rightarrow> 'd ssd_world \<Rightarrow> 'd ssd_world" where
  "register_manager key model w =
     (case key of
        None \<Rightarrow> w
      | Some k \<Rightarrow>
          w\<lparr>w_active := dict_set k ((case map_of (w_active w) k of None \<Rightarrow> 0 | Some n \<Rightarrow> n) + 1) (w_active w),
            w_models := (if model = [] then w_models w
                         else dict_set k (List.insert model (case map_of (w_models w) k of None \<Rightarrow> [] | Some ms \<Rightarrow> ms)) (w_models w))\<rparr>)"

definition open_manager :: "('l, 'd) ssd_codec \<Rightarrow> sys_calls \<Rightarrow> nat \<Rightarrow> ssd_config \<Rightarrow> 'd ssd_world \<Rightarrow> 'd ssd_world" where
  "open_manager cd io i c w =
     (let m = new_manager c;
          w1 = register_manager (sm_key m) (sm_model m) (w\<lparr>w_managers := (w_managers w)(i := m)\<rparr>)
      in if cf_hot_only c then w1
         else case sm_dir m of None \<Rightarrow> w1 | Some dir \<Rightarrow> scan_disk_index cd io i dir w1)"

section \<open>Closing\<close>

definition deregister_manager :: "string option \<Rightarrow> string \<Rightarrow> 'd ssd_world \<Rightarrow> 'd ssd_world" where
  "deregister_manager key model w =
     (case key of
        None \<Rightarrow> w
      | Some k \<Rightarrow>
          let remaining = (case map_of (w_active w) k of None \<Rightarrow> 1 | Some n \<Rightarrow> n) - 1;
              models = (case map_of (w_models w) k of None \<Rightarrow> w_models w
                        | Some ms \<Rightarrow> let ms' = removeAll model ms
                                     in if ms' = [] then dict_del k (w_models w) else dict_set k ms' (w_models w))
          in w\<lparr>w_active := (if remaining > 0 then dict_set k remaining (w_active w) else dict_del k (w_active w)),
               w_models := models\<rparr>)"

text \<open>The sentinel is dropped when the queue stays full; while the caller joins the thread the writer handles \<open>n\<close> items.\<close>

definition close_manager :: "('l, 'd) ssd_codec \<Rightarrow> sys_calls \<Rightarrow> nat \<Rightarrow> nat \<Rightarrow> 'd ssd_world \<Rightarrow> 'd ssd_world" where
  "close_manager cd io n i w =
     (let w1 = deregister_manager (sm_key (man i w)) (sm_model (man i w)) (upd_man i (\<lambda>m. m\<lparr>sm_shutting_down := True\<rparr>) w);
          w2 = (if sm_shared (man i w) then upd_budget (forget_owner i) w1 else w1);
          w3 = (if sm_hot_only (man i w) then w2
                else (writer_step cd io i ^^ n)
                  (if length (sm_queue (man i w2)) < sm_queue_max (man i w2)
                   then upd_man i (\<lambda>m. m\<lparr>sm_queue := sm_queue m @ [None]\<rparr>) w2 else w2))
      in upd_man i (\<lambda>m. m\<lparr>sm_pending := []\<rparr>) w3)"

section \<open>Preloading\<close>

fun cold_hashes :: "nat \<Rightarrow> string list \<Rightarrow> 'd ssd_world \<Rightarrow> string list \<times> 'd ssd_world" where
  "cold_hashes i [] w = ([], w)"
| "cold_hashes i (h # hs) w =
     (if \<not> index_contains h (sm_index (man i w)) then cold_hashes i hs w
      else case hot_get i h w of
        (Some e, w1) \<Rightarrow> cold_hashes i hs w1
      | (None, w1) \<Rightarrow> let (cs, w2) = cold_hashes i hs w1 in (h # cs, w2))"

fun preload_loop :: "('l, 'd) ssd_codec \<Rightarrow> sys_calls \<Rightarrow> nat \<Rightarrow> string list \<Rightarrow> int \<Rightarrow> 'd ssd_world \<Rightarrow> int \<times> 'd ssd_world" where
  "preload_loop cd io i [] n w = (n, w)"
| "preload_loop cd io i (h # hs) n w =
     (case index_get h (sm_index (man i w)) of
        None \<Rightarrow> preload_loop cd io i hs n w
      | Some md \<Rightarrow>
          if sm_hot_total (man i w) + md_size md > sm_hot_max (man i w) then (n, w)
          else if sm_shared (man i w) \<and> remaining_bytes (w_budget w) < md_size md then (n, w)
          else case sm_dir (man i w) of
            None \<Rightarrow> preload_loop cd io i hs n w
          | Some dir \<Rightarrow>
              (case map_of (w_files w) (dir, h) of
                 None \<Rightarrow> preload_loop cd io i hs n w
               | Some f \<Rightarrow>
                   if \<not> io_read io h then preload_loop cd io i hs n w
                   else
                     let e = \<lparr>he_data = sf_data f, he_header = sf_header f, he_bytes = 0, he_model = Some (md_model md)\<rparr>;
                         w1 = hot_put (cd_bytes cd) i h e w
                     in preload_loop cd io i hs (n + 1) (tick (\<lambda>c. c\<lparr>sc_promotions := sc_promotions c + 1\<rparr>) i w1)))"

definition preload_matched_blocks :: "('l, 'd) ssd_codec \<Rightarrow> sys_calls \<Rightarrow> nat \<Rightarrow> string list \<Rightarrow> 'd ssd_world \<Rightarrow> int \<times> 'd ssd_world" where
  "preload_matched_blocks cd io i hs w =
     (if hs = [] \<or> sm_hot_max (man i w) = 0 then (0, w)
      else
        let (cold, w1) = cold_hashes i hs w
        in if length cold < 4 then (0, w1)
           else if sm_hot_max (man i w1) - sm_hot_total (man i w1) \<le> 0 then (0, w1)
           else let (n, w2) = preload_loop cd io i cold 0 w1
                in (n, tick (\<lambda>c. c\<lparr>sc_preloaded := sc_preloaded c + n, sc_preload_calls := sc_preload_calls c + 1\<rparr>) i w2))"

section \<open>The signature of the cache layers\<close>

definition adopt_layer_signature :: "nat \<Rightarrow> string list \<Rightarrow> 'd ssd_world \<Rightarrow> bool \<times> 'd ssd_world" where
  "adopt_layer_signature i types w =
     (if types = [] \<or> sm_types (man i w) \<noteq> None then (False, w)
      else (True, upd_man i (\<lambda>m. m\<lparr>sm_types := Some types, sm_swept := False\<rparr>) w))"

definition set_expected_signature :: "nat \<Rightarrow> string list \<Rightarrow> 'd ssd_world \<Rightarrow> bool \<times> 'd ssd_world" where
  "set_expected_signature i types w =
     (if types = [] then (False, w)
      else
        let old = (case sm_types (man i w) of None \<Rightarrow> None
                   | Some ts \<Rightarrow> if ts = [] then None else Some (map canonical_type ts));
            w1 = upd_man i (\<lambda>m. m\<lparr>sm_types := Some types\<rparr>) w
        in if old = Some (map canonical_type types) then (False, w1)
           else (True, upd_man i (\<lambda>m. m\<lparr>sm_swept := False\<rparr>) w1))"

definition stale_signature :: "'d ssd_manager \<Rightarrow> string list \<Rightarrow> ssd_meta \<Rightarrow> bool" where
  "stale_signature m ts md =
     (md_model md \<noteq> [] \<and> md_model md = sm_model m \<and>
      (case md_types md of None \<Rightarrow> False | Some us \<Rightarrow> map canonical_type us \<noteq> map canonical_type ts))"

definition invalidate_stale_signature :: "nat \<Rightarrow> 'd ssd_world \<Rightarrow> int \<times> 'd ssd_world" where
  "invalidate_stale_signature i w =
     (let m = man i w
      in case sm_types m of
           None \<Rightarrow> (0, w)
         | Some ts \<Rightarrow>
             if ts = [] \<or> sm_model m = [] \<or> sm_swept m then (0, w)
             else let stale = map fst (filter (\<lambda>p. stale_signature m ts (snd p)) (ix_blocks (sm_index m)))
                  in (int (length stale), upd_man i (\<lambda>m. m\<lparr>sm_swept := True\<rparr>) (fold (\<lambda>h. drop_index h i) stale w)))"

section \<open>Statistics\<close>

record ssd_stats =
  ss_counters :: ssd_counters
  ss_configured :: int
  ss_max :: int
  ss_total :: int
  ss_blocks :: int
  ss_utilization :: rat

definition stats_of :: "'d ssd_manager \<Rightarrow> int \<Rightarrow> int \<Rightarrow> int \<Rightarrow> ssd_stats" where
  "stats_of m effective tot n = \<lparr>ss_counters = sm_stats m, ss_configured = sm_configured m, ss_max = effective,
     ss_total = tot, ss_blocks = n, ss_utilization = (if effective > 0 then of_int tot / of_int effective else 0)\<rparr>"

definition ssd_get_stats :: "sys_calls \<Rightarrow> nat \<Rightarrow> 'd ssd_world \<Rightarrow> ssd_stats \<times> 'd ssd_world" where
  "ssd_get_stats io i w =
     (let (effective, w1) = get_effective_max_size io i w; m = man i w1
      in (stats_of m effective (tracked_ssd_size m) (tracked_ssd_count m), w1))"

definition strip_slashes :: "string \<Rightarrow> string" where
  "strip_slashes s = rev (dropWhile (\<lambda>c. c = CHR ''/'') (rev s))"

definition path_basename :: "string \<Rightarrow> string" where
  "path_basename s = rev (takeWhile (\<lambda>c. c \<noteq> CHR ''/'') (rev s))"

definition model_matches :: "string \<Rightarrow> string \<Rightarrow> bool" where
  "model_matches model candidate =
     (let n = strip_slashes model; c = strip_slashes candidate
      in c \<noteq> [] \<and> (c = n \<or> n \<noteq> [] \<and> path_basename n \<noteq> [] \<and> path_basename c = path_basename n))"

definition get_stats_for_model :: "sys_calls \<Rightarrow> nat \<Rightarrow> string \<Rightarrow> 'd ssd_world \<Rightarrow> ssd_stats \<times> 'd ssd_world" where
  "get_stats_for_model io i model w =
     (let ms = filter (\<lambda>md. model_matches model (md_model md)) (dict_values (ix_blocks (sm_index (man i w))));
          (effective, w1) = get_effective_max_size io i w
      in (stats_of (man i w1) effective (sum_list (map md_size ms)) (int (length ms)), w1))"

section \<open>A process with several managers\<close>

text \<open>
  A world before any manager is opened, over the files of earlier processes. A slot that was never
  opened holds an empty memory-only manager.
\<close>

definition blank_config :: ssd_config where
  "blank_config = \<lparr>cf_dir = None, cf_max = 0, cf_model = [], cf_layers = 0, cf_block_size = 0, cf_types = None,
     cf_hot_max = 0, cf_shared = False, cf_hot_only = True, cf_queue_max = 0\<rparr>"

definition start_world :: "int \<Rightarrow> (string \<times> string, 'd ssd_file) pydict \<Rightarrow> 'd ssd_world" where
  "start_world budget files =
     \<lparr>w_managers = (\<lambda>_. new_manager blank_config), w_budget = budget_new budget, w_files = files, w_active = [],
      w_models = [], w_next = 0\<rparr>"

definition unopened :: "nat \<Rightarrow> 'd ssd_world \<Rightarrow> bool" where
  "unopened i w \<longleftrightarrow> man i w = new_manager blank_config"

text \<open>
  The calls of a careful process: one manager per directory, no \<open>clear\<close> and no call after
  \<open>close\<close>, no block forgotten while its write is queued, and no block saved under a hash that the
  index of incompatible blocks holds.
\<close>

definition careful_open :: "ssd_config \<Rightarrow> 'd ssd_world \<Rightarrow> bool" where
  "careful_open c w \<longleftrightarrow> (\<forall>j. config_dir c = None \<or> sm_dir (man j w) \<noteq> config_dir c)"

definition careful_forget :: "nat \<Rightarrow> string \<Rightarrow> 'd ssd_world \<Rightarrow> bool" where
  "careful_forget i h w \<longleftrightarrow> list_all (\<lambda>q. case q of None \<Rightarrow> True | Some (k, _) \<Rightarrow> k \<noteq> h) (sm_queue (man i w))"

definition careful_save :: "nat \<Rightarrow> string \<Rightarrow> 'd ssd_world \<Rightarrow> bool" where
  "careful_save i h w \<longleftrightarrow> \<not> index_contains h (sm_incompatible (man i w))"

text \<open>
  The steps of a process in which the layers \<open>ls\<close> are saved under the hash \<open>h\<close> only if
  \<open>content h ls\<close> holds. A call that raises leaves the world as it is at that moment.
\<close>

inductive ssd_step :: "('l, 'd) ssd_codec \<Rightarrow> (string \<Rightarrow> 'l list \<Rightarrow> bool) \<Rightarrow> bool \<Rightarrow> 'd ssd_world \<Rightarrow> 'd ssd_world \<Rightarrow> bool"
  for cd content careful where
  open_new: "unopened i w \<Longrightarrow> careful \<longrightarrow> careful_open c w \<Longrightarrow> ssd_step cd content careful w (open_manager cd io i c w)"
| save: "sv_hash r = Some h \<Longrightarrow> sv_data r = Some ls \<Longrightarrow> content h ls \<Longrightarrow> careful \<longrightarrow> careful_save i h w \<Longrightarrow>
    ssd_step cd content careful w (snd (save_block cd io i r w))"
| touch_save: "sv_hash r = None \<or> sv_data r = None \<Longrightarrow> ssd_step cd content careful w (snd (save_block cd io i r w))"
| store: "content (store_hash b) ls \<Longrightarrow> careful \<longrightarrow> careful_save i (store_hash b) w \<Longrightarrow>
    ssd_step cd content careful w (snd (store_block cd io i b ls w))"
| load: "ssd_step cd content careful w (snd (load_block cd io i h w))"
| load_meta: "ssd_step cd content careful w (snd (load_block_with_metadata cd io i h w))"
| writer: "ssd_step cd content careful w (writer_step cd io i w)"
| delete: "ssd_step cd content careful w (snd (delete_block io i h w))"
| forgetting: "careful \<longrightarrow> careful_forget i h w \<Longrightarrow> ssd_step cd content careful w (snd (forget_block i h w))"
| enforce: "ssd_step cd content careful w (snd (enforce_size_limit io i w))"
| shrink: "ssd_step cd content careful w (snd (shrink_hot_cache_to i n protected w))"
| clear_hot: "ssd_step cd content careful w (snd (clear_hot_cache i w))"
| clear_owners: "ssd_step cd content careful w (snd (clear_all_owners w))"
| preload: "ssd_step cd content careful w (snd (preload_matched_blocks cd io i hs w))"
| adopt: "ssd_step cd content careful w (snd (adopt_layer_signature i types w))"
| expect: "ssd_step cd content careful w (snd (set_expected_signature i types w))"
| invalidate: "ssd_step cd content careful w (snd (invalidate_stale_signature i w))"
| sweep: "ssd_step cd content careful w (snd (sweep_orphaned_files io i w))"
| repair: "ssd_step cd content careful w (snd (verify_and_repair_index i w))"
| sort: "ssd_step cd content careful w (sort_lru_by_last_access i w)"
| stats: "ssd_step cd content careful w (snd (ssd_get_stats io i w))"
| clear_all: "\<not> careful \<Longrightarrow> ssd_step cd content careful w (snd (ssd_clear io i w))"
| close: "\<not> careful \<Longrightarrow> ssd_step cd content careful w (close_manager cd io n i w)"

inductive ssd_reachable :: "('l, 'd) ssd_codec \<Rightarrow> (string \<Rightarrow> 'l list \<Rightarrow> bool) \<Rightarrow> bool \<Rightarrow> 'd ssd_world \<Rightarrow> 'd ssd_world \<Rightarrow> bool"
  for cd content careful w0 where
  start: "ssd_reachable cd content careful w0 w0"
| step: "ssd_reachable cd content careful w0 w \<Longrightarrow> ssd_step cd content careful w w' \<Longrightarrow> ssd_reachable cd content careful w0 w'"

end
