(* ===== verification/SsdFrame.thy ===== *)
theory SsdFrame
  imports SsdLife
begin

text \<open>
  What the operations of the SSD block store leave alone. The operations on the memory cache
  change only memory caches, budget and counters (\<open>hot_frame\<close>); the operations on indices, queue
  and files change neither memory caches nor the budget (\<open>store_frame\<close>).
\<close>

named_theorems ssd_defs \<open>selectors of updated worlds\<close>

section \<open>Selectors of updated worlds\<close>

lemma man_upd_man [simp]: "man j (upd_man i f w) = (if j = i then f (man i w) else man j w)"
  by (simp add: man_def upd_man_def)

lemma upd_man_sel [simp]:
  "w_budget (upd_man i f w) = w_budget w" "w_files (upd_man i f w) = w_files w" "w_active (upd_man i f w) = w_active w"
  "w_models (upd_man i f w) = w_models w" "w_next (upd_man i f w) = w_next w"
  by (simp_all add: upd_man_def)

lemma upd_budget_sel [simp]:
  "man j (upd_budget g w) = man j w" "w_budget (upd_budget g w) = g (w_budget w)" "w_files (upd_budget g w) = w_files w"
  "w_active (upd_budget g w) = w_active w" "w_models (upd_budget g w) = w_models w" "w_next (upd_budget g w) = w_next w"
  by (simp_all add: man_def upd_budget_def)

lemma man_world_upd [simp]:
  "man j (w\<lparr>w_budget := b\<rparr>) = man j w" "man j (w\<lparr>w_files := fs\<rparr>) = man j w" "man j (w\<lparr>w_next := n\<rparr>) = man j w"
  "man j (w\<lparr>w_active := a\<rparr>) = man j w" "man j (w\<lparr>w_models := ms\<rparr>) = man j w"
  by (simp_all add: man_def)

section \<open>Operations on memory caches\<close>

definition core :: "'d ssd_manager \<Rightarrow> 'd ssd_manager" where
  "core m = m\<lparr>sm_hot := [], sm_hot_total := 0, sm_stats := zero_counters\<rparr>"

definition hot_frame :: "'d ssd_world \<Rightarrow> 'd ssd_world \<Rightarrow> bool" where
  "hot_frame w w' \<longleftrightarrow> (\<forall>j. core (man j w') = core (man j w)) \<and> w_files w' = w_files w \<and> w_active w' = w_active w \<and>
     w_models w' = w_models w \<and> w_next w' = w_next w"

lemma core_sel:
  assumes "core m' = core m"
  shows "sm_dir m' = sm_dir m" "sm_key m' = sm_key m" "sm_max m' = sm_max m" "sm_model m' = sm_model m"
    "sm_layers m' = sm_layers m" "sm_block_size m' = sm_block_size m" "sm_types m' = sm_types m" "sm_swept m' = sm_swept m"
    "sm_hot_only m' = sm_hot_only m" "sm_hot_max m' = sm_hot_max m" "sm_shared m' = sm_shared m"
    "sm_queue_max m' = sm_queue_max m" "sm_queue m' = sm_queue m" "sm_pending m' = sm_pending m"
    "sm_index m' = sm_index m" "sm_incompatible m' = sm_incompatible m" "sm_disk m' = sm_disk m"
    "sm_last_sweep m' = sm_last_sweep m" "sm_shutting_down m' = sm_shutting_down m" "sm_writer m' = sm_writer m"
    "sm_configured m' = sm_configured m"
  using arg_cong [OF assms, of "\<lambda>m. (sm_dir m, sm_key m, sm_max m, sm_model m, sm_layers m, sm_block_size m, sm_types m, sm_swept m, sm_hot_only m, sm_hot_max m, sm_shared m, sm_queue_max m, sm_queue m, sm_pending m, sm_index m, sm_incompatible m, sm_disk m, sm_last_sweep m, sm_shutting_down m, sm_writer m, sm_configured m)"]
  by (simp_all add: core_def)

lemmas hot_frame_sel = core_sel [OF spec [OF conjunct1 [OF hot_frame_def [THEN iffD1]]]]

lemma hot_frame_world: "hot_frame w w' \<Longrightarrow> w_files w' = w_files w" "hot_frame w w' \<Longrightarrow> w_active w' = w_active w"
    "hot_frame w w' \<Longrightarrow> w_models w' = w_models w" "hot_frame w w' \<Longrightarrow> w_next w' = w_next w"
  by (simp_all add: hot_frame_def)

lemma hot_frame_refl [simp, intro]: "hot_frame w w"
  by (simp add: hot_frame_def)

lemma hot_frame_trans [trans]: "hot_frame u v \<Longrightarrow> hot_frame v w \<Longrightarrow> hot_frame u w"
  by (simp add: hot_frame_def)

lemma hot_frame_upd_man: "(\<And>m. core (f m) = core m) \<Longrightarrow> hot_frame w (upd_man i f w)"
  by (simp add: hot_frame_def)

lemma hot_frame_upd_budget [simp]: "hot_frame w (upd_budget g w')\<longleftrightarrow> hot_frame w w'"
  by (simp add: hot_frame_def)

lemma hot_frame_budget [simp]: "hot_frame w (w'\<lparr>w_budget := b\<rparr>) \<longleftrightarrow> hot_frame w w'"
  by (simp add: hot_frame_def)

lemma core_man_count: "core (man j (tick f i w)) = core (man j w)"
  by (simp add: tick_def core_def)

lemma hot_frame_count [simp]: "hot_frame w (tick f i w') \<longleftrightarrow> hot_frame w w'"
  by (simp add: hot_frame_def core_man_count) (simp add: tick_def)

lemma hot_frame_get: "hot_frame w (snd (hot_get i h w))"
  by (auto simp: hot_get_def Let_def core_def intro!: hot_frame_upd_man split: option.splits)

lemma hot_frame_remove: "hot_frame w (snd (hot_remove i h u w))"
  by (auto simp: hot_remove_def Let_def core_def intro!: hot_frame_upd_man split: option.splits)

lemma hot_frame_fold: "(\<And>x w. hot_frame w (f x w)) \<Longrightarrow> hot_frame w (fold f xs w)"
  by (induction xs arbitrary: w) (auto intro: hot_frame_trans)

lemma hot_frame_fold_pair: "(\<And>x s. hot_frame (snd s) (snd (f x s))) \<Longrightarrow> hot_frame (snd s) (snd (fold f xs s))"
proof (induction xs arbitrary: s)
  case Nil
  then show ?case by simp
next
  case (Cons x xs)
  show ?case using hot_frame_trans [OF Cons.prems [of s x] Cons.IH [OF Cons.prems, of "f x s"]] by simp
qed

lemma hot_frame_drop_victim: "hot_frame w (drop_victim k w)"
  unfolding drop_victim_def handle_hot_cache_eviction_def Let_def case_prod_beta
  by (simp add: hot_frame_remove)

lemma hot_frame_trim: "hot_frame w (hot_trim i w)"
proof -
  have "hot_frame w (upd_man i (\<lambda>m. m\<lparr>sm_hot := d, sm_hot_total := t\<rparr>) w)" for d t
    by (rule hot_frame_upd_man) (simp add: core_def)
  then show ?thesis by (simp add: hot_trim_def Let_def split: prod.splits)
qed

lemma hot_frame_drop_victims: "hot_frame w (fold drop_victim vs (w\<lparr>w_budget := b\<rparr>))"
  by (rule hot_frame_trans [OF _ hot_frame_fold [of drop_victim, OF hot_frame_drop_victim]]) simp

lemma hot_frame_put: "hot_frame w (hot_put bytes i h e w)"
proof -
  have 1: "hot_frame w (upd_man i (insert_hot h e') w)" for e'
    by (rule hot_frame_upd_man) (simp add: core_def insert_hot_def)
  show ?thesis
    unfolding hot_put_def Let_def case_prod_beta
    by (rule hot_frame_trans [OF _ hot_frame_trim]) (simp add: 1 hot_frame_trans [OF 1 hot_frame_drop_victims])
qed

lemma hot_frame_shrink_to: "hot_frame w (snd (shrink_to n protected w))"
proof -
  have "hot_frame (snd s) (snd (shrink_victim v s))" for v and s :: "int \<times> 'a ssd_world"
    using hot_frame_remove [of "snd s" "fst (fst v)" "snd (fst v)" False]
    by (auto simp: shrink_victim_def handle_hot_cache_eviction_def split: prod.splits option.splits)
  from hot_frame_fold_pair [of shrink_victim "(0, w\<lparr>w_budget := b\<rparr>)" for b, OF this]
  have "hot_frame w (snd (fold shrink_victim vs (0, w\<lparr>w_budget := b\<rparr>)))" for vs b
    by (rule hot_frame_trans [rotated]) simp
  then show ?thesis by (simp add: shrink_to_def Let_def split: prod.splits)
qed

lemma hot_frame_shrink: "hot_frame w (snd (shrink_hot_cache_to i n protected w))"
proof -
  have "hot_frame w (upd_man i (\<lambda>m. m\<lparr>sm_hot := d, sm_hot_total := t\<rparr>) w)" for d t
    by (rule hot_frame_upd_man) (simp add: core_def)
  then show ?thesis
    by (simp add: shrink_hot_cache_to_def hot_frame_shrink_to Let_def split: prod.splits)
qed

lemma hot_frame_clear_hot: "hot_frame w (snd (clear_hot_cache i w))"
proof -
  have "hot_frame w (upd_man i (\<lambda>m. m\<lparr>sm_hot := [], sm_hot_total := 0\<rparr>) w)"
    by (rule hot_frame_upd_man) (simp add: core_def)
  then show ?thesis by (simp add: clear_hot_cache_def Let_def)
qed

lemma hot_frame_clear_all_owners: "hot_frame w (snd (clear_all_owners w))"
proof -
  let ?f = "\<lambda>i (n, w). let (c, w1) = clear_hot_cache i w in (n + c, w1)"
  have "hot_frame (snd s) (snd (?f i s))" for i and s :: "int \<times> 'a ssd_world"
    using hot_frame_clear_hot [of "snd s" i] by (simp add: Let_def case_prod_beta)
  from hot_frame_fold_pair [of ?f "(0, w)", OF this] show ?thesis by (simp add: clear_all_owners_def)
qed

lemma hot_frame_cold: "hot_frame w (snd (cold_hashes i hs w))"
proof (induction i hs w rule: cold_hashes.induct)
  case (1 i w)
  then show ?case by simp
next
  case (2 i h hs w)
  obtain e w1 where g: "hot_get i h w = (e, w1)" by force
  then have "hot_frame w w1" using hot_frame_get [of w i h] by simp
  with 2 g show ?case by (auto simp: case_prod_beta Let_def split: option.splits intro: hot_frame_trans)
qed

lemma hot_frame_preload_loop: "hot_frame w (snd (preload_loop cd io i hs n w))"
proof (induction hs arbitrary: n w)
  case Nil
  then show ?case by simp
next
  case (Cons h hs)
  have put: "hot_frame w (snd (preload_loop cd io i hs k (tick g i (hot_put b i h e w))))" for k g b e
    by (rule hot_frame_trans [OF _ Cons.IH]) (simp add: hot_frame_put)
  show ?case by (simp add: Let_def Cons.IH put split: option.splits)
qed

lemma hot_frame_preload: "hot_frame w (snd (preload_matched_blocks cd io i hs w))"
proof -
  have "hot_frame w (snd (preload_loop cd io i cs 0 (snd (cold_hashes i hs w))))" for cs
    by (rule hot_frame_trans [OF hot_frame_cold hot_frame_preload_loop])
  then show ?thesis by (simp add: preload_matched_blocks_def Let_def case_prod_beta hot_frame_cold)
qed

section \<open>What is kept by the parts is kept by the whole\<close>

lemma save_block_keeps:
  assumes "P w" and get: "\<And>h w. P w \<Longrightarrow> P (snd (hot_get i h w))" and dedup: "\<And>h w. P w \<Longrightarrow> P (deduped io i h w)"
    and drop: "\<And>h w. P w \<Longrightarrow> P (drop_index h i w)"
    and new: "\<And>h ls d w'. sv_hash r = Some h \<Longrightarrow> sv_data r = Some ls \<Longrightarrow> cd_encode cd ls = Inr d \<Longrightarrow> P w' \<Longrightarrow>
      sm_incompatible (man i w') = sm_incompatible (man i w) \<Longrightarrow> P (save_new cd io i h d (save_header io (man i w') h r ls) w')"
  shows "P (snd (save_block cd io i r w))"
proof (cases "sv_hash r")
  case None
  with assms(1) show ?thesis by (simp add: save_block_def)
next
  case (Some h)
  define already where "already = index_contains h (sm_index (man i w))"
  define w1 where "w1 = snd (if already \<and> \<not> sv_verify r then has_resident_data i h w else (False, w))"
  define res where "res = fst (if already \<and> \<not> sv_verify r then has_resident_data i h w else (False, w))"
  define w2 where "w2 = (if already \<and> \<not> sv_verify r then drop_index h i w1 else w1)"
  have 1: "P w1"
    using assms(1) get by (auto simp: w1_def has_resident_data_def case_prod_beta Let_def)
  have i1: "sm_incompatible (man i w1) = sm_incompatible (man i w)"
    using hot_frame_sel(16) [OF hot_frame_get [of w i h]] by (auto simp: w1_def has_resident_data_def case_prod_beta Let_def)
  have 2: "P w2" using 1 drop by (simp add: w2_def)
  have i2: "sm_incompatible (man i w2) = sm_incompatible (man i w)"
    using i1 by (simp add: w2_def drop_index_def upd_index_def)
  have "snd (save_block cd io i r w) =
    (if already \<and> \<not> sv_verify r \<and> res then deduped io i h w1
     else case sv_data r of None \<Rightarrow> w2
       | Some ls \<Rightarrow> (case cd_encode cd ls of Inl e \<Rightarrow> w2
           | Inr d \<Rightarrow> if already \<and> sv_verify r \<and> same_content cd i h d w2 then deduped io i h w2
               else save_new cd io i h d (save_header io (man i w2) h r ls) w2))"
    by (simp add: save_block_def Some Let_def case_prod_beta w1_def w2_def res_def already_def split: option.split sum.split)
  then show ?thesis
    using 1 2 dedup new [OF Some _ _ 2 i2] by (auto split: option.split sum.split)
qed

lemma load_file_keeps:
  assumes "P w" and fail: "\<And>w. P w \<Longrightarrow> P (recover_from_block_error io i h w)" and tick: "\<And>f w. P w \<Longrightarrow> P (tick f i w)"
    and touch: "\<And>w. P w \<Longrightarrow> P (upd_index (index_touch (io_now io) h) i w)"
    and put: "\<And>m. P (hot_put (cd_bytes cd) i h
      \<lparr>he_data = sf_data f, he_header = sf_header f, he_bytes = int (cd_bytes cd (sf_data f)), he_model = m\<rparr> w)"
  shows "P (snd (load_file cd io i h f w))"
  using assms by (simp add: load_file_def failed_load_def loaded_def Let_def split: option.split)

lemma load_block_keeps:
  assumes "P w" and get: "\<And>w. P w \<Longrightarrow> P (snd (hot_get i h w))"
    and fail: "\<And>w. P w \<Longrightarrow> P (recover_from_block_error io i h w)" and tick: "\<And>f w. P w \<Longrightarrow> P (tick f i w)"
    and drop: "\<And>w'. P w' \<Longrightarrow> w' = snd (hot_get i h w) \<Longrightarrow> P (drop_index h i w')"
    and touch: "\<And>w. P w \<Longrightarrow> P (upd_index (index_touch (io_now io) h) i w)"
    and put: "\<And>dir f m w'. P w' \<Longrightarrow> sm_dir (man i w') = Some dir \<Longrightarrow> map_of (w_files w') (dir, h) = Some f \<Longrightarrow>
      index_contains h (sm_index (man i w')) \<Longrightarrow> P (hot_put (cd_bytes cd) i h
      \<lparr>he_data = sf_data f, he_header = sf_header f, he_bytes = int (cd_bytes cd (sf_data f)), he_model = m\<rparr> w')"
  shows "P (snd (load_block cd io i h w))"
proof -
  obtain e w1 where g: "hot_get i h w = (e, w1)" by force
  have 1: "P w1" using get [OF assms(1)] g by simp
  have "P (snd (load_file cd io i h f w1))" if "sm_dir (man i w1) = Some dir" "map_of (w_files w1) (dir, h) = Some f"
      "index_contains h (sm_index (man i w1))" for dir f
    using 1 fail tick touch put [OF 1 that] by (rule load_file_keeps)
  then show ?thesis
    using 1 g tick drop [OF 1] by (auto simp: load_block_def loaded_def missed_def case_prod_beta Let_def split: option.split)
qed

lemma snd_and_then_returns: "snd (and_then m (\<lambda>r w2. returns (f r) w2)) = snd m"
  by (cases m rule: outcome_cases) auto

lemma load_meta_keeps:
  assumes "P w" and get: "\<And>w. P w \<Longrightarrow> P (snd (hot_get i h w))" and tick: "\<And>f w. P w \<Longrightarrow> P (tick f i w)"
    and drop: "\<And>w. P w \<Longrightarrow> P (drop_index h i w)" and load: "\<And>w. P w \<Longrightarrow> P (snd (load_block cd io i h w))"
  shows "P (snd (load_block_with_metadata cd io i h w))"
proof -
  obtain e w1 where g: "hot_get i h w = (e, w1)" by force
  have "P w1" using get [OF assms(1)] g by simp
  then show ?thesis
    using assms(1) g tick drop load by (auto simp: load_block_with_metadata_def missed_def snd_and_then_returns split: option.split)
qed

lemma write_keeps:
  assumes "P (snd (persist_block_file cd io i h d hdr md w))" and "\<And>f w. P w \<Longrightarrow> P (tick f i w)"
    and "\<And>w. P w \<Longrightarrow> P (drop_index h i w)" and "\<And>w. P w \<Longrightarrow> P (upd_man i (\<lambda>m. m\<lparr>sm_pending := dict_del h (sm_pending m)\<rparr>) w)"
  shows "P (write_block_inline cd io i h d hdr md w)"
  using assms by (simp add: write_block_inline_def Let_def case_prod_beta)

lemma fold_keeps: "P s \<Longrightarrow> (\<And>x s. x \<in> set xs \<Longrightarrow> P s \<Longrightarrow> P (f x s)) \<Longrightarrow> P (fold f xs s)"
  by (induction xs arbitrary: s) auto

lemma unlink_victims_keep:
  assumes "P w" "\<And>h w. P w \<Longrightarrow> P (snd (unlink io i h w))" "\<And>f w. P w \<Longrightarrow> P (tick f i w)"
  shows "P (fold (unlink_victim io i) hs w)"
  by (rule fold_keeps) (use assms in \<open>auto simp: unlink_victim_def Let_def case_prod_beta\<close>)

end
