(* ===== verification/SsdSizes.thy ===== *)
theory SsdSizes
  imports SsdFrame "HOL-Library.Multiset"
begin

text \<open>
  The accounting of the SSD block store: the total of an index is the sum of the file sizes of its
  blocks, in every state of a process with any number of managers.
\<close>

section \<open>Exact indices\<close>

definition size_of :: "(string, ssd_meta) pydict \<Rightarrow> int" where
  "size_of d = sum_list (map (\<lambda>p. md_size (snd p)) d)"

definition exact :: "ssd_index \<Rightarrow> bool" where
  "exact x \<longleftrightarrow> distinct (dict_keys (ix_blocks x)) \<and> (\<forall>p \<in> set (ix_blocks x). 0 \<le> md_size (snd p)) \<and>
     ix_total x = size_of (ix_blocks x)"

lemma size_of_simps [simp]: "size_of [] = 0" "size_of (p # ps) = md_size (snd p) + size_of ps"
    "size_of (xs @ ys) = size_of xs + size_of ys"
  by (simp_all add: size_of_def)

lemma size_of_nonneg: "(\<And>p. p \<in> set d \<Longrightarrow> 0 \<le> md_size (snd p)) \<Longrightarrow> 0 \<le> size_of d"
  unfolding size_of_def by (rule sum_list_nonneg) auto

lemma size_of_del: "distinct (dict_keys d) \<Longrightarrow> map_of d h = Some m \<Longrightarrow> size_of (dict_del h d) = size_of d - md_size m"
  using sum_list_dict_del [of d h m md_size] by (simp add: size_of_def comp_def)

lemma size_of_set: "distinct (dict_keys d) \<Longrightarrow> size_of (dict_set h m d) = size_of d + md_size m -
    (case map_of d h of None \<Rightarrow> 0 | Some old \<Rightarrow> md_size old)"
  unfolding size_of_def by (rule sum_list_dict_set)

lemma size_of_mset: "mset d = mset d' \<Longrightarrow> size_of d = size_of d'"
proof -
  assume "mset d = mset d'"
  then have "mset (map (\<lambda>p. md_size (snd p)) d) = mset (map (\<lambda>p. md_size (snd p)) d')" by simp
  then have "sum_mset (mset (map (\<lambda>p. md_size (snd p)) d)) = sum_mset (mset (map (\<lambda>p. md_size (snd p)) d'))"
    by (rule arg_cong)
  then show ?thesis by (simp only: size_of_def sum_mset_sum_list)
qed

lemma exact_del_nonneg: "exact x \<Longrightarrow> 0 \<le> size_of (dict_del h (ix_blocks x))"
  by (rule size_of_nonneg) (auto simp: exact_def set_dict_del)

lemma exact_member: "exact x \<Longrightarrow> map_of (ix_blocks x) h = Some m \<Longrightarrow> 0 \<le> md_size m"
  by (force simp: exact_def dest: map_of_SomeD)

lemma exact_remove: "exact x \<Longrightarrow> exact (snd (index_remove h x))"
  using exact_del_nonneg [of x h]
  by (auto simp: index_remove_def exact_def size_of_del set_dict_del split: option.splits)

lemma total_remove: "exact x \<Longrightarrow> (h, m) \<in> set (ix_blocks x) \<Longrightarrow> ix_total (snd (index_remove h x)) = ix_total x - md_size m"
  using exact_del_nonneg [of x h] by (auto simp: index_remove_def exact_def size_of_del)

lemma blocks_remove: "ix_blocks (snd (index_remove h x)) = dict_del h (ix_blocks x)"
  by (auto simp: index_remove_def map_of_eq_None_iff dict_del_absent split: option.splits)

lemma exact_add: "exact x \<Longrightarrow> 0 \<le> md_size m \<Longrightarrow> exact (index_add h m x)"
  using exact_del_nonneg [of x h]
  by (auto simp: index_add_def exact_def size_of_set size_of_del set_dict_set split: option.splits)

lemma exact_touch: "exact x \<Longrightarrow> exact (index_touch now h x)"
  by (auto simp: index_touch_def exact_def size_of_del set_dict_del keys_dict_del split: option.splits dest: map_of_SomeD)

lemma exact_sort: "exact x \<Longrightarrow> exact (sort_lru x)"
proof -
  assume x: "exact x"
  let ?d = "sort_key (\<lambda>p. md_access (snd p)) (ix_blocks x)"
  have "mset (map fst ?d) = mset (map fst (ix_blocks x))" by simp
  then have "distinct (dict_keys ?d)" using x by (metis exact_def mset_eq_imp_distinct_iff)
  with x show ?thesis using size_of_mset [of ?d "ix_blocks x"] by (simp add: exact_def sort_lru_def)
qed

lemma exact_update: "exact x \<Longrightarrow> 0 \<le> n \<Longrightarrow> exact (update_file_size h n x)"
  using exact_del_nonneg [of x h]
  by (auto simp: update_file_size_def exact_def size_of_set size_of_del set_dict_set split: option.splits)

lemma exact_new [simp]: "exact (index_new n)"
  by (simp add: exact_def index_new_def)

lemma exact_set_object: "exact x \<Longrightarrow> (\<And>h m. (h, m) \<in> set (ix_blocks x) \<Longrightarrow> md_id m \<noteq> i) \<Longrightarrow> set_object_size i n x = x"
  unfolding set_object_size_def by (rule ssd_index.equality) (auto intro!: map_idI)

lemma evict_loop_exact:
  assumes "evict_loop target d tot vs = (d', tot', vs')" "exact \<lparr>ix_max = k, ix_blocks = d, ix_total = tot\<rparr>"
  shows "exact \<lparr>ix_max = k, ix_blocks = d', ix_total = tot'\<rparr> \<and> (tot' \<le> target \<or> d' = [])"
  using assms
proof (induction target d tot vs arbitrary: d' tot' vs' rule: evict_loop.induct)
  case (1 target tot evicted)
  then show ?case by simp
next
  case (2 target p ps tot evicted)
  obtain h m where hm: "first_lru p ps = (h, m)" by force
  let ?x = "\<lparr>ix_max = k, ix_blocks = p # ps, ix_total = tot\<rparr>"
  have "(h, m) \<in> set (p # ps)" using first_lru_in [of p ps] hm by simp
  with 2(3) have get: "map_of (p # ps) h = Some m"
    unfolding exact_def by (intro map_of_is_SomeI) simp_all
  have "snd (index_remove h ?x) = \<lparr>ix_max = k, ix_blocks = dict_del h (p # ps), ix_total = max 0 (tot - md_size m)\<rparr>"
    using get by (simp add: index_remove_def del: dict_del_simps)
  with exact_remove [OF 2(3), of h] have
    "exact \<lparr>ix_max = k, ix_blocks = dict_del h (p # ps), ix_total = max 0 (tot - md_size m)\<rparr>" by simp
  with 2 hm show ?case by (cases "tot > target") (auto simp del: dict_del_simps)
qed

lemma exact_evict_until: "exact x \<Longrightarrow> exact (snd (evict_until_size target x))"
  using evict_loop_exact [of target "ix_blocks x" "ix_total x" "[]" _ _ _ "ix_max x"]
  by (cases x) (auto simp: evict_until_size_def split: prod.splits)

section \<open>Indices that get no new blocks\<close>

text \<open>The hashes with the identities of their objects.\<close>

definition tags :: "ssd_index \<Rightarrow> (string \<times> nat) set" where
  "tags x = (\<lambda>p. (fst p, md_id (snd p))) ` set (ix_blocks x)"

definition shrunk :: "ssd_index \<Rightarrow> ssd_index \<Rightarrow> bool" where
  "shrunk x y \<longleftrightarrow> (exact x \<longrightarrow> exact y) \<and> tags y \<subseteq> tags x"

lemma tags_new [simp]: "tags (index_new n) = {}"
  by (simp add: tags_def index_new_def)

lemma tags_del: "ix_blocks y = dict_del h (ix_blocks x) \<Longrightarrow> tags y \<subseteq> tags x"
  by (auto simp: tags_def set_dict_del)

lemma tags_add: "exact x \<Longrightarrow> tags (index_add h m x) \<subseteq> insert (h, md_id m) (tags x)"
  by (auto simp: tags_def index_add_def exact_def set_dict_set)

lemma tags_touch: "tags (index_touch now h x) \<subseteq> tags x"
  by (auto simp: tags_def index_touch_def set_dict_del split: option.splits dest!: map_of_SomeD intro: rev_image_eqI)

lemma tags_update: "exact x \<Longrightarrow> tags (update_file_size h n x) \<subseteq> tags x"
  by (auto simp: tags_def update_file_size_def exact_def set_dict_set split: option.splits dest!: map_of_SomeD intro: rev_image_eqI)

lemma tags_index: "index_contains h x \<longleftrightarrow> h \<in> fst ` tags x"
  using map_of_keys_iff [of "ix_blocks x" h] by (simp add: index_contains_def tags_def image_image)

lemma shrunk_refl [simp, intro]: "shrunk x x"
  by (simp add: shrunk_def)

lemma shrunk_trans: "shrunk x y \<Longrightarrow> shrunk y z \<Longrightarrow> shrunk x z"
  by (auto simp: shrunk_def)

lemma shrunk_remove [simp, intro]: "shrunk x (snd (index_remove h x))"
  by (simp add: shrunk_def exact_remove tags_del [OF blocks_remove])

lemma shrunk_touch [simp, intro]: "shrunk x (index_touch now h x)"
  by (simp add: shrunk_def exact_touch tags_touch)

lemma shrunk_sort [simp, intro]: "shrunk x (sort_lru x)"
  using exact_sort [of x] by (simp add: shrunk_def tags_def sort_lru_def)

lemma shrunk_new [simp, intro]: "shrunk x (index_new n)"
  by (simp add: shrunk_def)

lemma reclaim_shrunk: "ssd_reclaim_loop foreign eff n x inc vs = (x', inc', vs') \<Longrightarrow> shrunk x x' \<and> shrunk inc inc'"
proof (induction foreign eff n x inc vs rule: ssd_reclaim_loop.induct)
  case (1 foreign eff n x inc vs)
  show ?case
  proof (cases "ix_total x + ix_total inc \<le> eff")
    case True
    with 1(3) show ?thesis by (simp add: ssd_reclaim_loop.simps [of foreign eff n x inc vs])
  next
    case over: False
    show ?thesis
    proof (cases "pick_reclaimable foreign inc")
      case (Some p)
      with over 1(3) have "ssd_reclaim_loop foreign eff n x (snd (index_remove (fst p) inc)) (vs @ [fst p]) = (x', inc', vs')"
        by (simp add: ssd_reclaim_loop.simps [of foreign eff n x inc vs] case_prod_beta)
      with 1(2) [OF over Some, of "fst p" "snd p"] show ?thesis by (auto intro: shrunk_trans)
    next
      case None
      show ?thesis
      proof (cases "ix_blocks x = [] \<or> max_inline_unlinks \<le> n \<or> get_lru_entries 1 x = []")
        case True
        with over None 1(3) show ?thesis by (auto simp: ssd_reclaim_loop.simps [of foreign eff n x inc vs] split: if_splits)
      next
        case False
        then obtain p ps where lru: "get_lru_entries 1 x = p # ps" by (cases "get_lru_entries 1 x") auto
        with over None False 1(3)
        have "ssd_reclaim_loop foreign eff (n + 1) (snd (index_remove (fst p) x)) inc (vs @ [fst p]) = (x', inc', vs')"
          by (simp add: ssd_reclaim_loop.simps [of foreign eff n x inc vs] case_prod_beta)
        with 1(1) [OF over None _ lru, of "fst p" "snd p"] False show ?thesis by (auto intro: shrunk_trans)
      qed
    qed
  qed
qed

lemma batch_shrunk: "batch_loop eff other ps n x freed vs = (n', x', freed', vs') \<Longrightarrow> shrunk x x'"
proof (induction eff other ps n x freed vs rule: batch_loop.induct)
  case (1 eff other n x freed vs)
  then show ?case by simp
next
  case (2 eff other h m ps n x freed vs)
  then show ?case by (auto split: if_splits intro: shrunk_trans)
qed

lemma enforce_batch_shrunk: "enforce_batch foreign eff x inc = (x', inc', freed, vs) \<Longrightarrow> shrunk x x' \<and> shrunk inc inc'"
  by (auto simp: enforce_batch_def Let_def dest: batch_shrunk split: prod.splits if_splits)

lemma startup_shrunk: "startup_loop foreign eff other inc vs = (inc', vs') \<Longrightarrow> shrunk inc inc'"
proof (induction foreign eff other inc vs rule: startup_loop.induct)
  case (1 foreign eff other inc vs)
  show ?case
  proof (cases "other + ix_total inc > eff \<and> ix_blocks inc \<noteq> []")
    case False
    with 1(2) show ?thesis by (auto simp: startup_loop.simps [of foreign eff other inc vs])
  next
    case over: True
    show ?thesis
    proof (cases "pick_reclaimable foreign inc")
      case None
      with over 1(2) show ?thesis by (simp add: startup_loop.simps [of foreign eff other inc vs])
    next
      case (Some p)
      with over 1(2) have "startup_loop foreign eff other (snd (index_remove (fst p) inc)) (vs @ [fst p]) = (inc', vs')"
        by (simp add: startup_loop.simps [of foreign eff other inc vs] case_prod_beta)
      with 1(1) [OF over Some, of "fst p" "snd p"] show ?thesis by (auto intro: shrunk_trans)
    qed
  qed
qed

section \<open>The invariant\<close>

text \<open>
  Objects of queued writes are younger than the next identity and never in the index of
  incompatible blocks, so that no size is changed behind its total.
\<close>

definition queued :: "'d ssd_manager \<Rightarrow> (string \<times> nat) set" where
  "queued m = {(h, md_id md) | h d hdr md. Some (h, d, hdr, md) \<in> set (sm_queue m)}"

definition ids_ok :: "nat \<Rightarrow> 'd ssd_manager \<Rightarrow> bool" where
  "ids_ok n m \<longleftrightarrow> (\<forall>q \<in> queued m. snd q < n) \<and> (\<forall>t \<in> tags (sm_index m) \<union> tags (sm_incompatible m). snd t < n) \<and>
     (\<forall>q \<in> queued m. \<forall>t \<in> tags (sm_incompatible m). snd t \<noteq> snd q) \<and>
     (\<forall>q \<in> queued m. \<forall>t \<in> tags (sm_index m). snd t = snd q \<longrightarrow> t = q)"

lemma ids_ok_sub:
  assumes "ids_ok n m" "queued m' \<subseteq> queued m" "tags (sm_index m') \<subseteq> tags (sm_index m)"
    "tags (sm_incompatible m') \<subseteq> tags (sm_incompatible m)"
  shows "ids_ok n m'"
  using assms unfolding ids_ok_def by blast

lemma queued_upd [simp]: "queued (m\<lparr>sm_index := x\<rparr>) = queued m" "queued (m\<lparr>sm_incompatible := x\<rparr>) = queued m"
    "queued (m\<lparr>sm_pending := ps\<rparr>) = queued m" "queued (m\<lparr>sm_stats := c\<rparr>) = queued m"
  by (simp_all add: queued_def)

definition man_sizes :: "bool \<Rightarrow> nat \<Rightarrow> 'd ssd_manager \<Rightarrow> bool" where
  "man_sizes careful n m \<longleftrightarrow> exact (sm_index m) \<and> (careful \<longrightarrow> exact (sm_incompatible m) \<and> ids_ok n m)"

definition sizes_ok :: "bool \<Rightarrow> 'd ssd_world \<Rightarrow> bool" where
  "sizes_ok careful w \<longleftrightarrow> (\<forall>j. man_sizes careful (w_next w) (man j w))"

text \<open>Only the indices, the queue and the next identity matter.\<close>

definition same_blocks :: "'d ssd_world \<Rightarrow> 'd ssd_world \<Rightarrow> bool" where
  "same_blocks w w' \<longleftrightarrow> w_next w' = w_next w \<and> (\<forall>j. sm_index (man j w') = sm_index (man j w) \<and>
     sm_incompatible (man j w') = sm_incompatible (man j w) \<and> sm_queue (man j w') = sm_queue (man j w))"

lemma sizes_same: "sizes_ok c w \<Longrightarrow> same_blocks w w' \<Longrightarrow> sizes_ok c w'"
  by (simp add: sizes_ok_def same_blocks_def man_sizes_def ids_ok_def queued_def)

lemma same_blocks_hot: "hot_frame w w' \<Longrightarrow> same_blocks w w'"
  by (simp add: same_blocks_def hot_frame_world hot_frame_sel)

lemma sizes_hot: "sizes_ok c w \<Longrightarrow> hot_frame w w' \<Longrightarrow> sizes_ok c w'"
  by (rule sizes_same [OF _ same_blocks_hot])

lemma man_sizes_mono: "man_sizes c n m \<Longrightarrow> n \<le> n' \<Longrightarrow> man_sizes c n' m"
  unfolding man_sizes_def ids_ok_def by (meson less_le_trans)

lemma sizes_upd: "sizes_ok c w \<Longrightarrow> man_sizes c (w_next w) (f (man i w)) \<Longrightarrow> sizes_ok c (upd_man i f w)"
  by (simp add: sizes_ok_def)

lemma man_sizes_shrunk:
  assumes "man_sizes c n m" "shrunk (sm_index m) x" "shrunk (sm_incompatible m) inc"
  shows "man_sizes c n (m\<lparr>sm_index := x, sm_incompatible := inc\<rparr>)"
  using assms ids_ok_sub [of n m "m\<lparr>sm_index := x, sm_incompatible := inc\<rparr>"] by (simp add: man_sizes_def shrunk_def)

lemma sizes_shrunk:
  assumes "sizes_ok c w" "shrunk (sm_index (man i w)) x" "shrunk (sm_incompatible (man i w)) inc"
  shows "sizes_ok c (upd_man i (\<lambda>m. m\<lparr>sm_index := x, sm_incompatible := inc\<rparr>) w)"
  by (rule sizes_upd [OF assms(1)]) (use assms in \<open>auto simp: sizes_ok_def intro: man_sizes_shrunk\<close>)

lemma sizes_shrunk_index:
  assumes "sizes_ok c w" "shrunk (sm_index (man i w)) (f (sm_index (man i w)))"
  shows "sizes_ok c (upd_index f i w)"
proof -
  have "man_sizes c (w_next w) ((man i w)\<lparr>sm_index := f (sm_index (man i w)), sm_incompatible := sm_incompatible (man i w)\<rparr>)"
    using assms by (intro man_sizes_shrunk) (auto simp: sizes_ok_def)
  with assms(1) show ?thesis unfolding upd_index_def by (intro sizes_upd) auto
qed

lemma sizes_drop: "sizes_ok c w \<Longrightarrow> sizes_ok c (drop_index h i w)"
  unfolding drop_index_def by (rule sizes_shrunk_index) auto

lemma same_blocks_upd: "(\<And>m. sm_index (f m) = sm_index m \<and> sm_incompatible (f m) = sm_incompatible m \<and> sm_queue (f m) = sm_queue m) \<Longrightarrow>
    same_blocks w (upd_man i f w)"
  by (simp add: same_blocks_def)

lemma sizes_upd_same: "sizes_ok c w \<Longrightarrow>
    (\<And>m. sm_index (f m) = sm_index m \<and> sm_incompatible (f m) = sm_incompatible m \<and> sm_queue (f m) = sm_queue m) \<Longrightarrow>
    sizes_ok c (upd_man i f w)"
  by (rule sizes_same [OF _ same_blocks_upd])

lemma sizes_count [intro]: "sizes_ok c w \<Longrightarrow> sizes_ok c (tick f i w)"
  unfolding tick_def by (rule sizes_upd_same) auto

lemma sizes_unlink: "sizes_ok c w \<Longrightarrow> sizes_ok c (snd (unlink io i h w))"
  by (rule sizes_same) (auto simp: unlink_def same_blocks_def split: option.splits)

lemma sizes_unlink_victims: "sizes_ok c w \<Longrightarrow> sizes_ok c (fold (unlink_victim io i) hs w)"
proof (induction hs arbitrary: w)
  case Nil
  then show ?case by simp
next
  case (Cons h hs)
  have "sizes_ok c (unlink_victim io i h w)"
    using sizes_unlink [OF Cons.prems, of io i h] by (auto simp: unlink_victim_def Let_def case_prod_beta)
  with Cons.IH show ?case by simp
qed

lemma sizes_effective: "sizes_ok c w \<Longrightarrow> sizes_ok c (snd (get_effective_max_size io i w))"
  by (auto simp: get_effective_max_size_def Let_def intro: sizes_upd_same split: option.splits)

lemma sizes_enforce_new:
  assumes "sizes_ok c w"
  shows "sizes_ok c (enforce_size_limit_for_new_block io i w)"
proof -
  obtain eff w1 where e: "get_effective_max_size io i w = (eff, w1)" by force
  obtain x inc vs where r: "ssd_reclaim_loop (live_foreign_models i w1) eff 0 (sm_index (man i w1)) (sm_incompatible (man i w1)) [] =
      (x, inc, vs)" by (metis prod_cases3)
  have "sizes_ok c w1" using sizes_effective [OF assms, of io i] e by simp
  then have "sizes_ok c (fold (unlink_victim io i) vs (upd_man i (\<lambda>m. m\<lparr>sm_index := x, sm_incompatible := inc\<rparr>) w1))"
    using reclaim_shrunk [OF r] by (intro sizes_unlink_victims sizes_shrunk) auto
  then show ?thesis using e r by (simp add: enforce_size_limit_for_new_block_def)
qed

lemma sizes_batches: "sizes_ok c w \<Longrightarrow> sizes_ok c (snd (enforce_batches k io i eff freed w))"
proof (induction k arbitrary: freed w)
  case 0
  then show ?case by simp
next
  case (Suc k)
  obtain x inc bf vs where b: "enforce_batch (live_foreign_models i w) eff (sm_index (man i w)) (sm_incompatible (man i w)) =
      (x, inc, bf, vs)" by (metis prod_cases4)
  have "sizes_ok c (fold (unlink_victim io i) vs (upd_man i (\<lambda>m. m\<lparr>sm_index := x, sm_incompatible := inc\<rparr>) w))"
    using enforce_batch_shrunk [OF b] Suc.prems by (intro sizes_unlink_victims sizes_shrunk) auto
  with Suc b show ?case by (simp add: Let_def)
qed

lemma sizes_enforce: "sizes_ok c w \<Longrightarrow> sizes_ok c (snd (enforce_size_limit io i w))"
  using sizes_batches [OF sizes_effective] by (simp add: enforce_size_limit_def Let_def case_prod_beta)

lemma sizes_startup: "sizes_ok c w \<Longrightarrow> sizes_ok c (enforce_incompatible_at_startup io i w)"
proof -
  assume "sizes_ok c w"
  then have 1: "sizes_ok c (snd (get_effective_max_size io i w))" by (rule sizes_effective)
  define w1 where "w1 = snd (get_effective_max_size io i w)"
  obtain inc vs where s: "startup_loop (live_foreign_models i w1) (fst (get_effective_max_size io i w))
      (ix_total (sm_index (man i w1))) (sm_incompatible (man i w1)) [] = (inc, vs)" by force
  have "sizes_ok c (upd_man i (\<lambda>m. m\<lparr>sm_index := sm_index (man i w1), sm_incompatible := inc\<rparr>) w1)"
    using 1 startup_shrunk [OF s] by (intro sizes_shrunk) (auto simp: w1_def)
  moreover have "upd_man i (\<lambda>m. m\<lparr>sm_index := sm_index (man i w1), sm_incompatible := inc\<rparr>) w1 =
      upd_man i (\<lambda>m. m\<lparr>sm_incompatible := inc\<rparr>) w1"
    by (simp add: upd_man_def man_def)
  ultimately show ?thesis
    using s by (simp add: enforce_incompatible_at_startup_def Let_def case_prod_beta w1_def sizes_unlink_victims)
qed

end
