(* ===== verification/SsdKeeps.thy ===== *)
theory SsdKeeps
  imports SsdSizes
begin

text \<open>Every step of a process keeps the accounting of the indices exact.\<close>

section \<open>Writing\<close>

lemma sizes_world [simp]: "sizes_ok c (w\<lparr>w_files := fs\<rparr>) = sizes_ok c w" "sizes_ok c (w\<lparr>w_active := a\<rparr>) = sizes_ok c w"
    "sizes_ok c (w\<lparr>w_models := ms\<rparr>) = sizes_ok c w" "sizes_ok c (w\<lparr>w_budget := b\<rparr>) = sizes_ok c w"
    "sizes_ok c (upd_budget g w) = sizes_ok c w"
  by (simp_all add: sizes_ok_def upd_budget_def)

lemma sizes_upd_as:
  assumes "sizes_ok c (upd_man i g w)"
    and "\<And>m. sm_index (f m) = sm_index (g m) \<and> sm_incompatible (f m) = sm_incompatible (g m) \<and> sm_queue (f m) = sm_queue (g m)"
  shows "sizes_ok c (upd_man i f w)"
  by (rule sizes_same [OF assms(1)]) (simp add: same_blocks_def assms(2))

lemma sizes_next: "sizes_ok c w \<Longrightarrow> sizes_ok c (w\<lparr>w_next := Suc (w_next w)\<rparr>)"
  by (auto simp: sizes_ok_def intro: man_sizes_mono)

text \<open>The object of a write is not in the index of incompatible blocks.\<close>

definition loose :: "bool \<Rightarrow> nat \<Rightarrow> nat \<Rightarrow> 'd ssd_world \<Rightarrow> bool" where
  "loose c i k w \<longleftrightarrow> (c \<longrightarrow> (\<forall>t \<in> tags (sm_incompatible (man i w)). snd t \<noteq> k))"

lemma loose_same: "loose c i k w \<Longrightarrow> same_blocks w w' \<Longrightarrow> loose c i k w'"
  by (simp add: loose_def same_blocks_def)

lemma set_object_loose: "\<forall>t \<in> tags x. snd t \<noteq> k \<Longrightarrow> set_object_size k n x = x"
  unfolding set_object_size_def tags_def by (rule ssd_index.equality) (auto intro!: map_idI)

lemma sizes_persist:
  assumes "sizes_ok c w" "loose c i (md_id md) w"
  shows "sizes_ok c (snd (persist_block_file cd io i h d hdr md w))"
proof -
  have "exact (sm_index (man i w))" using assms(1) by (simp add: sizes_ok_def man_sizes_def)
  then have u: "sizes_ok c (upd_index (update_file_size h (int n)) i w)" for n
    by (intro sizes_shrunk_index [OF assms(1)]) (simp add: shrunk_def exact_update tags_update)
  have v: "sizes_ok c (upd_man i (\<lambda>m. m\<lparr>sm_incompatible := set_object_size (md_id md) (int n) (sm_incompatible m)\<rparr>) w)" for n
  proof (rule sizes_upd [OF assms(1)])
    from assms(1) have "man_sizes c (w_next w) (man i w)" by (simp add: sizes_ok_def)
    with assms(2) show "man_sizes c (w_next w)
        ((man i w)\<lparr>sm_incompatible := set_object_size (md_id md) (int n) (sm_incompatible (man i w))\<rparr>)"
      by (cases c) (simp_all add: loose_def set_object_loose man_sizes_def)
  qed
  have files: "upd_index f i (w\<lparr>w_files := fs\<rparr>) = (upd_index f i w)\<lparr>w_files := fs\<rparr>"
      "upd_man i g (w\<lparr>w_files := fs\<rparr>) = (upd_man i g w)\<lparr>w_files := fs\<rparr>" for f g fs
    by (simp_all add: upd_index_def upd_man_def)
  show ?thesis
    using assms(1) u v by (simp add: persist_block_file_def Let_def files split: option.splits)
qed

lemma sizes_pending: "sizes_ok c w \<Longrightarrow> sizes_ok c (upd_man i (\<lambda>m. m\<lparr>sm_pending := g m\<rparr>) w)"
  by (rule sizes_upd_same) auto

lemma sizes_write:
  assumes "sizes_ok c w" "loose c i (md_id md) w"
  shows "sizes_ok c (write_block_inline cd io i h d hdr md w)"
  by (rule write_keeps) (simp_all add: sizes_persist [OF assms] sizes_count sizes_drop sizes_pending)

lemma man_sizes_add:
  assumes "man_sizes c n m" "md_id md = n" "0 \<le> md_size md"
  shows "man_sizes c (Suc n) (m\<lparr>sm_index := index_add h md (sm_index m)\<rparr>)"
proof -
  have x: "exact (sm_index m)" using assms(1) by (simp add: man_sizes_def)
  have ids: "ids_ok (Suc n) (m\<lparr>sm_index := index_add h md (sm_index m)\<rparr>)" if "ids_ok n m"
  proof -
    let ?m = "m\<lparr>sm_index := index_add h md (sm_index m)\<rparr>"
    have new: "t = (h, n) \<or> t \<in> tags (sm_index m)" if "t \<in> tags (sm_index ?m)" for t
      using tags_add [OF x, of h md] assms(2) that by auto
    have old: "snd t < n" if "t \<in> tags (sm_index m) \<union> tags (sm_incompatible m) \<union> queued m" for t
      using \<open>ids_ok n m\<close> that unfolding ids_ok_def by blast
    have "t = q" if "q \<in> queued m" "t \<in> tags (sm_index ?m)" "snd t = snd q" for t q
      using new [OF that(2)] old [of q] that \<open>ids_ok n m\<close> unfolding ids_ok_def by auto
    moreover have "snd t < Suc n" if "t \<in> tags (sm_index ?m) \<union> tags (sm_incompatible ?m) \<union> queued ?m" for t
      using new [of t] old [of t] that by (auto intro: less_SucI)
    ultimately have "\<forall>q \<in> queued m. \<forall>t \<in> tags (sm_index ?m). snd t = snd q \<longrightarrow> t = q"
      "\<forall>t \<in> tags (sm_index ?m) \<union> tags (sm_incompatible ?m). snd t < Suc n" "\<forall>q \<in> queued m. snd q < Suc n"
      by (simp_all only: Un_iff queued_upd) blast+
    then show ?thesis using \<open>ids_ok n m\<close> unfolding ids_ok_def by simp
  qed
  with assms show ?thesis by (auto simp: man_sizes_def exact_add)
qed

lemma sizes_add:
  assumes "sizes_ok c w" "md_id md = w_next w" "0 \<le> md_size md"
  shows "sizes_ok c (upd_index (index_add h md) i (w\<lparr>w_next := Suc (w_next w)\<rparr>))"
  using assms man_sizes_add [of c "w_next w" "man i w" md h]
  by (auto simp: sizes_ok_def upd_index_def intro: man_sizes_mono)

lemma sizes_enqueue:
  assumes "sizes_ok c w" "c \<longrightarrow> md_id md < w_next w" "loose c i (md_id md) w"
    and "c \<longrightarrow> (\<forall>t \<in> tags (sm_index (man i w)). snd t = md_id md \<longrightarrow> t = (h, md_id md))"
  shows "sizes_ok c (upd_man i (\<lambda>m. m\<lparr>sm_queue := sm_queue m @ [Some (h, d, hdr, md)]\<rparr>) w)"
proof (rule sizes_upd [OF assms(1)])
  let ?m = "(man i w)\<lparr>sm_queue := sm_queue (man i w) @ [Some (h, d, hdr, md)]\<rparr>"
  have q: "queued ?m = insert (h, md_id md) (queued (man i w))" by (auto simp: queued_def)
  have "man_sizes c (w_next w) (man i w)" using assms(1) by (simp add: sizes_ok_def)
  then show "man_sizes c (w_next w) ?m"
    using assms(2-4) by (cases c) (auto simp: man_sizes_def ids_ok_def loose_def q)
qed

lemma sizes_save_new:
  assumes "sizes_ok c w"
  shows "sizes_ok c (save_new cd io i h d hdr w)"
proof -
  let ?md = "save_meta cd io (w_next w) d hdr"
  define e where "e = \<lparr>he_data = d, he_header = hdr, he_bytes = int (cd_bytes cd d), he_model = Some (hd_model hdr)\<rparr>"
  define w1 where "w1 = hot_put (cd_bytes cd) i h e (w\<lparr>w_next := Suc (w_next w)\<rparr>)"
  define w2 where "w2 = tick (\<lambda>c. c\<lparr>sc_saves := sc_saves c + 1\<rparr>) i (upd_index (index_add h ?md) i w1)"
  define w3 where "w3 = upd_man i (\<lambda>m. m\<lparr>sm_pending := dict_set h e (sm_pending m)\<rparr>) w2"
  have f: "hot_frame (w\<lparr>w_next := Suc (w_next w)\<rparr>) w1" unfolding w1_def by (rule hot_frame_put)
  have same: "same_blocks (upd_index (index_add h ?md) i (w\<lparr>w_next := Suc (w_next w)\<rparr>)) w2"
    using same_blocks_hot [OF f] by (simp add: same_blocks_def w2_def upd_index_def tick_def)
  have md: "md_id ?md = w_next w" "0 \<le> md_size ?md" by (simp_all add: save_meta_def)
  have 2: "sizes_ok c w2" by (rule sizes_same [OF sizes_add [OF assms md] same])
  have 3: "sizes_ok c w3" unfolding w3_def by (rule sizes_upd_same [OF 2]) simp
  have same3: "same_blocks w2 w3" by (simp add: same_blocks_def w3_def)
  have next3: "w_next w3 = Suc (w_next w)"
    using same same3 by (simp add: same_blocks_def upd_index_def)
  have old: "c \<longrightarrow> exact (sm_index (man i w)) \<and> ids_ok (w_next w) (man i w)"
    using assms by (simp add: sizes_ok_def man_sizes_def)
  have inc: "sm_incompatible (man i w3) = sm_incompatible (man i w)"
    and idx: "sm_index (man i w3) = index_add h ?md (sm_index (man i w))"
    using same same3 by (simp_all add: same_blocks_def upd_index_def)
  have loose: "loose c i (md_id ?md) w3"
    using old unfolding loose_def inc md ids_ok_def by (metis Un_iff less_irrefl)
  have own: "c \<longrightarrow> (\<forall>t \<in> tags (sm_index (man i w3)). snd t = md_id ?md \<longrightarrow> t = (h, md_id ?md))"
  proof (intro impI ballI)
    fix t assume t: c "t \<in> tags (sm_index (man i w3))" "snd t = md_id ?md"
    with old have "t = (h, md_id ?md) \<or> t \<in> tags (sm_index (man i w))"
      using tags_add [of "sm_index (man i w)" h ?md] unfolding idx by blast
    moreover have "snd t < w_next w" if "t \<in> tags (sm_index (man i w))"
      using old t(1) that unfolding ids_ok_def by blast
    ultimately show "t = (h, md_id ?md)" using t(3) md(1) by auto
  qed
  have "sizes_ok c (queue_or_write cd io i h d hdr ?md w3)"
  proof (cases "length (sm_queue (man i w3)) < sm_queue_max (man i w3)")
    case True
    then show ?thesis
      using sizes_enqueue [OF 3 _ loose own] by (simp add: queue_or_write_def next3 md)
  next
    case False
    have "loose c i (md_id ?md) (tick g i w3)" for g
      by (rule loose_same [OF loose]) (simp add: same_blocks_def tick_def)
    with False show ?thesis by (simp add: queue_or_write_def sizes_write sizes_count 3)
  qed
  then show ?thesis
    using 2 by (simp add: save_new_def Let_def w3_def w2_def w1_def e_def sizes_enforce_new)
qed

lemma sizes_deduped: "sizes_ok c w \<Longrightarrow> sizes_ok c (deduped io i h w)"
  unfolding deduped_def by (intro sizes_count sizes_shrunk_index) auto

lemma sizes_save: "sizes_ok c w \<Longrightarrow> sizes_ok c (snd (save_block cd io i r w))"
  by (rule save_block_keeps) (simp_all add: sizes_deduped sizes_save_new sizes_drop sizes_hot [OF _ hot_frame_get])

lemma sizes_store: "sizes_ok c w \<Longrightarrow> sizes_ok c (snd (store_block cd io i b ls w))"
  by (simp add: store_block_def sizes_save)

section \<open>Loading and deleting\<close>

lemma sizes_recover: "sizes_ok c w \<Longrightarrow> sizes_ok c (recover_from_block_error io i h w)"
  unfolding recover_from_block_error_def by (intro sizes_drop sizes_unlink)

lemma sizes_touch: "sizes_ok c w \<Longrightarrow> sizes_ok c (upd_index (index_touch now h) i w)"
  by (rule sizes_shrunk_index) auto

lemma sizes_load: "sizes_ok c w \<Longrightarrow> sizes_ok c (snd (load_block cd io i h w))"
  by (rule load_block_keeps)
    (simp_all add: sizes_recover sizes_touch sizes_drop sizes_count sizes_hot [OF _ hot_frame_get] sizes_hot [OF _ hot_frame_put])

lemma sizes_load_meta: "sizes_ok c w \<Longrightarrow> sizes_ok c (snd (load_block_with_metadata cd io i h w))"
  by (rule load_meta_keeps) (simp_all add: sizes_load sizes_drop sizes_count sizes_hot [OF _ hot_frame_get])

lemma sizes_delete: "sizes_ok c w \<Longrightarrow> sizes_ok c (snd (delete_block io i h w))"
  by (auto simp: delete_block_def Let_def intro!: sizes_upd_same sizes_hot [OF _ hot_frame_remove] sizes_unlink sizes_drop)

lemma sizes_forget:
  assumes "sizes_ok c w" "c \<longrightarrow> careful_forget i h w"
  shows "sizes_ok c (snd (forget_block i h w))"
proof (cases "map_of (ix_blocks (sm_index (man i w))) h")
  case None
  with assms show ?thesis by (simp add: forget_block_def index_remove_def)
next
  case (Some md)
  let ?m = "man i w"
  let ?x = "snd (index_remove h (sm_index ?m))"
  let ?m' = "?m\<lparr>sm_index := ?x, sm_incompatible := index_add h md (sm_incompatible ?m)\<rparr>"
  have m: "man_sizes c (w_next w) ?m" using assms(1) by (simp add: sizes_ok_def)
  have tag: "(h, md_id md) \<in> tags (sm_index ?m)" using Some by (force simp: tags_def dest: map_of_SomeD)
  have size: "0 \<le> md_size md" using m Some by (auto simp: man_sizes_def intro: exact_member)
  have "h \<noteq> fst q" if "c" "q \<in> queued ?m" for q
    using assms(2) that by (auto simp: careful_forget_def queued_def list_all_iff dest!: bspec)
  moreover have "ids_ok (w_next w) ?m'" if c and "\<And>q. q \<in> queued ?m \<Longrightarrow> h \<noteq> fst q"
  proof -
    from m that(1) have ids: "ids_ok (w_next w) ?m" and x: "exact (sm_incompatible ?m)" by (simp_all add: man_sizes_def)
    have inc: "t = (h, md_id md) \<or> t \<in> tags (sm_incompatible ?m)" if "t \<in> tags (sm_incompatible ?m')" for t
      using tags_add [OF x, of h md] that by auto
    have idx: "t \<in> tags (sm_index ?m)" if "t \<in> tags (sm_index ?m')" for t
      using tags_del [OF blocks_remove, of h "sm_index ?m"] that by auto
    have "snd t \<noteq> snd q" if q: "q \<in> queued ?m" and "t \<in> tags (sm_incompatible ?m')" for t q
    proof
      assume "snd t = snd q"
      from inc [OF that(2)] show False
      proof
        assume "t = (h, md_id md)"
        with ids q tag \<open>snd t = snd q\<close> have "t = q" unfolding ids_ok_def by blast
        with \<open>t = (h, md_id md)\<close> \<open>\<And>q. q \<in> queued ?m \<Longrightarrow> h \<noteq> fst q\<close> [OF q] show False by simp
      next
        assume "t \<in> tags (sm_incompatible ?m)"
        with ids q \<open>snd t = snd q\<close> show False unfolding ids_ok_def by blast
      qed
    qed
    moreover have "snd t < w_next w" if "t \<in> tags (sm_index ?m') \<union> tags (sm_incompatible ?m')" for t
      using that inc idx ids tag unfolding ids_ok_def by (metis Un_iff)
    ultimately show ?thesis using ids idx unfolding ids_ok_def by simp
  qed
  ultimately have "man_sizes c (w_next w) ?m'"
    using m size by (auto simp: man_sizes_def exact_remove exact_add)
  then show ?thesis
    using Some assms(1) by (auto simp: forget_block_def index_remove_def intro: sizes_upd)
qed

section \<open>Sweeps and the writer\<close>

lemma sizes_clear: "sizes_ok c w \<Longrightarrow> sizes_ok c (snd (ssd_clear io i w))"
proof -
  assume w: "sizes_ok c w"
  have "sizes_ok c (snd (fold (clear_file io i) hs (0, w)))" for hs
    by (rule fold_keeps [where P = "\<lambda>s. sizes_ok c (snd s)"])
      (auto simp: w clear_file_def case_prod_beta Let_def sizes_unlink)
  then have 1: "sizes_ok c (snd (if b then (n, w) else fold (clear_file io i) hs (0, w)))" for b n hs
    using w by simp
  have "man_sizes c n (m\<lparr>sm_index := index_new k, sm_incompatible := index_new k, sm_hot := [], sm_hot_total := 0\<rparr>)"
    if "man_sizes c n m" for n m k
    using that ids_ok_sub [of n m "m\<lparr>sm_index := index_new k, sm_incompatible := index_new k, sm_hot := [], sm_hot_total := 0\<rparr>"]
    by (simp add: man_sizes_def queued_def)
  then have "sizes_ok c (upd_man i (\<lambda>m. m\<lparr>sm_index := index_new k, sm_incompatible := index_new k, sm_hot := [],
      sm_hot_total := 0\<rparr>) w1)" if "sizes_ok c w1" for w1 k
    using that by (intro sizes_upd) (auto simp: sizes_ok_def)
  from this [OF 1] show ?thesis
    unfolding ssd_clear_def Let_def case_prod_beta snd_conv by (simp add: sizes_ok_def split del: if_split)
qed

lemma sizes_sweep: "sizes_ok c w \<Longrightarrow> sizes_ok c (snd (sweep_orphaned_files io i w))"
proof -
  assume w: "sizes_ok c w"
  have "sizes_ok c (snd (fold (sweep_one io i) fs (0, w)))" for fs
    by (rule fold_keeps [where P = "\<lambda>s. sizes_ok c (snd s)"])
      (auto simp: w sweep_one_def case_prod_beta Let_def sizes_unlink split: option.split)
  with w show ?thesis by (simp add: sweep_orphaned_files_def Let_def split: option.split)
qed

lemma sizes_repair: "sizes_ok c w \<Longrightarrow> sizes_ok c (snd (verify_and_repair_index i w))"
proof -
  assume w: "sizes_ok c w"
  have "sizes_ok c (snd (fold (repair_one i) hs (0, w)))" for hs
    by (rule fold_keeps [where P = "\<lambda>s. sizes_ok c (snd s)"]) (auto simp: w repair_one_def sizes_drop split: option.split)
  with w show ?thesis by (simp add: verify_and_repair_index_def)
qed

lemma sizes_pop:
  assumes "sizes_ok c w" "sm_queue (man i w) = x # q"
  shows "sizes_ok c (upd_man i (\<lambda>m. m\<lparr>sm_queue := q\<rparr>) w)"
proof (rule sizes_upd [OF assms(1)])
  let ?m = "(man i w)\<lparr>sm_queue := q\<rparr>"
  have "man_sizes c (w_next w) (man i w)" using assms(1) by (simp add: sizes_ok_def)
  moreover have "queued ?m \<subseteq> queued (man i w)" using assms(2) by (auto simp: queued_def)
  ultimately show "man_sizes c (w_next w) ?m" by (auto simp: man_sizes_def intro: ids_ok_sub)
qed

lemma sizes_writer: "sizes_ok c w \<Longrightarrow> sizes_ok c (writer_step cd io i w)"
proof -
  assume w: "sizes_ok c w"
  show ?thesis
  proof (cases "sm_queue (man i w)")
    case Nil
    have "sizes_ok c (snd (sweep_orphaned_files io i (upd_man i (\<lambda>m. m\<lparr>sm_last_sweep := io_now io\<rparr>) w)))"
      by (intro sizes_sweep sizes_upd_same w) simp
    with w show ?thesis by (auto simp: writer_step_def Nil Let_def intro!: sizes_upd_same)
  next
    case (Cons x q)
    have pop: "sizes_ok c (upd_man i (\<lambda>m. m\<lparr>sm_queue := q\<rparr>) w)" by (rule sizes_pop [OF w Cons])
    show ?thesis
    proof (cases x)
      case None
      have "sizes_ok c (upd_man i (\<lambda>m. m\<lparr>sm_queue := q, sm_writer := False\<rparr>) w)"
        by (rule sizes_upd_as [OF pop]) simp
      with w show ?thesis by (simp add: writer_step_def Cons None)
    next
      case (Some item)
      obtain h d hdr md where item: "item = (h, d, hdr, md)" by (metis prod_cases4)
      have "(h, md_id md) \<in> queued (man i w)" by (auto simp: queued_def Cons Some item)
      moreover have "c \<longrightarrow> ids_ok (w_next w) (man i w)" using w by (simp add: sizes_ok_def man_sizes_def)
      ultimately have "loose c i (md_id md) (upd_man i (\<lambda>m. m\<lparr>sm_queue := q\<rparr>) w)"
        by (force simp: loose_def ids_ok_def)
      from sizes_write [OF pop this, of cd io h d hdr] w show ?thesis by (simp add: writer_step_def Cons Some item)
    qed
  qed
qed

lemma sizes_close: "sizes_ok c w \<Longrightarrow> sizes_ok c (close_manager cd io n i w)"
proof -
  assume w: "sizes_ok c w"
  define w1 where "w1 = deregister_manager (sm_key (man i w)) (sm_model (man i w)) (upd_man i (\<lambda>m. m\<lparr>sm_shutting_down := True\<rparr>) w)"
  define w2 where "w2 = (if sm_shared (man i w) then upd_budget (forget_owner i) w1 else w1)"
  have "sizes_ok c (upd_man i (\<lambda>m. m\<lparr>sm_shutting_down := True\<rparr>) w)" by (rule sizes_upd_same [OF w]) simp
  then have "sizes_ok c w1" by (simp add: w1_def deregister_manager_def Let_def split: option.split)
  then have 2: "sizes_ok c w2" by (simp add: w2_def)
  have "sizes_ok c (upd_man i (\<lambda>m. m\<lparr>sm_queue := sm_queue m @ [None]\<rparr>) w2)"
  proof (rule sizes_upd [OF 2])
    have "man_sizes c (w_next w2) (man i w2)" using 2 by (simp add: sizes_ok_def)
    moreover have "queued (m\<lparr>sm_queue := sm_queue m @ [None]\<rparr>) = queued m" for m :: "'a ssd_manager" by (simp add: queued_def)
    ultimately show "man_sizes c (w_next w2) ((man i w2)\<lparr>sm_queue := sm_queue (man i w2) @ [None]\<rparr>)"
      by (simp add: man_sizes_def ids_ok_def)
  qed
  then have "sizes_ok c ((writer_step cd io i ^^ n) (if b then upd_man i (\<lambda>m. m\<lparr>sm_queue := sm_queue m @ [None]\<rparr>) w2 else w2))" for b
    using 2 by (induction n) (auto simp: sizes_writer)
  with 2 have "sizes_ok c (upd_man i (\<lambda>m. m\<lparr>sm_pending := []\<rparr>) (if sm_hot_only (man i w) then w2 else
      (writer_step cd io i ^^ n) (if b then upd_man i (\<lambda>m. m\<lparr>sm_queue := sm_queue m @ [None]\<rparr>) w2 else w2)))" for b
    by (intro sizes_upd_same) auto
  then show ?thesis by (simp only: close_manager_def Let_def w1_def [symmetric] w2_def [symmetric])
qed

section \<open>Opening\<close>

lemma scanned_meta_sel [simp]: "md_id (scanned_meta cd full k name f) = k" "0 \<le> md_size (scanned_meta cd full k name f)"
  by (simp_all add: scanned_meta_def Let_def)

lemma sizes_add_incompatible: "sizes_ok c w \<Longrightarrow> sm_queue (man i w) = [] \<Longrightarrow> sizes_ok c (add_incompatible cd i p w)"
proof -
  assume w: "sizes_ok c w" and q: "sm_queue (man i w) = []"
  let ?md = "scanned_meta cd False (w_next w) (fst p) (snd p)"
  let ?m = "\<lambda>h. (man i w)\<lparr>sm_incompatible := index_add h ?md (sm_incompatible (man i w))\<rparr>"
  have m: "man_sizes c (w_next w) (man i w)" using w by (simp add: sizes_ok_def)
  have "man_sizes c (Suc (w_next w)) (?m h)" for h
  proof (cases c)
    case False
    with m show ?thesis by (simp add: man_sizes_def)
  next
    case True
    with m have x: "exact (sm_incompatible (man i w))" and ids: "ids_ok (w_next w) (man i w)" by (simp_all add: man_sizes_def)
    have "snd t < Suc (w_next w)" if "t \<in> tags (sm_index (man i w)) \<union> tags (sm_incompatible (?m h))" for t
      using ids that tags_add [OF x, of h ?md] unfolding ids_ok_def by (fastforce simp: less_Suc_eq)
    moreover have "queued (man i w) = {}" using q by (simp add: queued_def)
    ultimately have "ids_ok (Suc (w_next w)) (?m h)" unfolding ids_ok_def by simp
    with m x show ?thesis by (simp add: man_sizes_def exact_add)
  qed
  then have "sizes_ok c (upd_man i (\<lambda>m. m\<lparr>sm_incompatible := index_add h ?md (sm_incompatible m)\<rparr>) (w\<lparr>w_next := Suc (w_next w)\<rparr>))" for h
    by (intro sizes_upd sizes_next w) simp
  with w show ?thesis by (simp add: add_incompatible_def Let_def split: option.split)
qed

lemma sizes_scan_file: "sizes_ok c w \<Longrightarrow> sm_queue (man i w) = [] \<Longrightarrow>
    sizes_ok c (scan_file cd io i p w) \<and> sm_queue (man i (scan_file cd io i p w)) = []"
  using sizes_add [of c w "scanned_meta cd True (w_next w) (fst p) (snd p)"] sizes_add_incompatible [of c w i cd p]
  by (auto simp: scan_file_def Let_def add_incompatible_def upd_index_def split: option.splits)

lemma sizes_scan:
  assumes "sizes_ok c w" "sm_queue (man i w) = []"
  shows "sizes_ok c (scan_disk_index cd io i dir w)"
proof -
  have "sizes_ok c (fold (scan_file cd io i) fs w) \<and> sm_queue (man i (fold (scan_file cd io i) fs w)) = []" for fs
  proof (rule fold_keeps [where P = "\<lambda>w. sizes_ok c w \<and> sm_queue (man i w) = []"])
    show "sizes_ok c w \<and> sm_queue (man i w) = []" using assms by simp
    show "sizes_ok c (scan_file cd io i p w) \<and> sm_queue (man i (scan_file cd io i p w)) = []"
      if "sizes_ok c w \<and> sm_queue (man i w) = []" for p w
      using that by (intro sizes_scan_file) auto
  qed
  then show ?thesis by (simp add: scan_disk_index_def sizes_repair sizes_startup)
qed

lemma new_manager_sel [simp]: "sm_queue (new_manager cf) = []" "sm_index (new_manager cf) = index_new (cf_max cf)"
    "sm_incompatible (new_manager cf) = index_new (cf_max cf)" "sm_hot (new_manager cf) = []" "sm_hot_total (new_manager cf) = 0"
    "sm_pending (new_manager cf) = []" "sm_shared (new_manager cf) = cf_shared cf" "sm_hot_max (new_manager cf) = cf_hot_max cf"
    "sm_dir (new_manager cf) = config_dir cf" "sm_hot_only (new_manager cf) = cf_hot_only cf"
  by (simp_all add: new_manager_def)

lemma man_sizes_new: "man_sizes c n (new_manager cf)"
  by (simp add: man_sizes_def ids_ok_def queued_def)

lemma register_sel [simp]: "man j (register_manager k m w) = man j w" "w_next (register_manager k m w) = w_next w"
    "w_files (register_manager k m w) = w_files w" "w_budget (register_manager k m w) = w_budget w"
  by (simp_all add: register_manager_def split: option.split)

lemma man_install [simp]: "man j (w\<lparr>w_managers := (w_managers w)(i := m)\<rparr>) = (if j = i then m else man j w)"
  by (simp add: man_def)

lemma sizes_open: "sizes_ok c w \<Longrightarrow> sizes_ok c (open_manager cd io i cf w)"
proof -
  assume w: "sizes_ok c w"
  have "sizes_ok c (register_manager k m (w\<lparr>w_managers := (w_managers w)(i := new_manager cf)\<rparr>))" for k m
    using w by (auto simp: sizes_ok_def man_sizes_new)
  then show ?thesis by (simp add: open_manager_def Let_def sizes_scan split: option.split)
qed

section \<open>Every step\<close>

lemma sizes_invalidate: "sizes_ok c w \<Longrightarrow> sizes_ok c (snd (invalidate_stale_signature i w))"
proof -
  assume w: "sizes_ok c w"
  have "sizes_ok c (upd_man i (\<lambda>m. m\<lparr>sm_swept := True\<rparr>) (fold (\<lambda>h. drop_index h i) hs w))" for hs
    by (intro sizes_upd_same fold_keeps [where P = "sizes_ok c"]) (auto simp: w sizes_drop)
  with w show ?thesis by (simp add: invalidate_stale_signature_def Let_def split: option.split)
qed

lemma sizes_step: "ssd_step cd content c w w' \<Longrightarrow> sizes_ok c w \<Longrightarrow> sizes_ok c w'"
proof (induction rule: ssd_step.induct)
  case (adopt w i types)
  then show ?case by (auto simp: adopt_layer_signature_def intro: sizes_upd_same)
next
  case (expect w i types)
  then show ?case by (auto simp: set_expected_signature_def Let_def intro!: sizes_upd_same)
next
  case (sort w i)
  then show ?case by (auto simp: sort_lru_by_last_access_def intro: sizes_shrunk_index)
next
  case (stats w io i)
  then show ?case by (auto simp: ssd_get_stats_def Let_def case_prod_beta sizes_effective)
qed (simp_all add: sizes_open sizes_save sizes_store sizes_load sizes_load_meta sizes_writer sizes_delete sizes_forget
    sizes_enforce sizes_invalidate sizes_sweep sizes_repair sizes_clear sizes_close sizes_hot [OF _ hot_frame_shrink]
    sizes_hot [OF _ hot_frame_clear_hot] sizes_hot [OF _ hot_frame_clear_all_owners] sizes_hot [OF _ hot_frame_preload])

lemma sizes_reachable: "ssd_reachable cd content c w0 w \<Longrightarrow> sizes_ok c w0 \<Longrightarrow> sizes_ok c w"
  by (induction rule: ssd_reachable.induct) (auto intro: sizes_step)

lemma sizes_start: "sizes_ok c (start_world n files)"
  by (simp add: sizes_ok_def start_world_def man_def man_sizes_new)

end
