(* ===== verification/SsdData.thy ===== *)
theory SsdData
  imports SsdKeeps
begin

text \<open>
  Where the tensors of a block come from: whatever a process holds under a hash, in a memory cache,
  a pending write, the write queue or a file, was saved under that hash or was on disk before.
\<close>

section \<open>The tensors a world holds\<close>

type_synonym 'd stored = "string \<times> 'd \<times> ssd_header"

definition entries :: "(string, 'd hot_entry) pydict \<Rightarrow> 'd stored set" where
  "entries es = (\<lambda>p. (fst p, he_data (snd p), he_header (snd p))) ` set es"

definition items :: "'d queue_item list \<Rightarrow> 'd stored set" where
  "items q = (\<Union>x \<in> set q. case x of None \<Rightarrow> {} | Some (h, d, hdr, md) \<Rightarrow> {(h, d, hdr)})"

lemma items_simps [simp]: "items [] = {}" "items (None # q) = items q" "items (Some (h, d, hdr, md) # q) = insert (h, d, hdr) (items q)"
    "items (q @ q') = items q \<union> items q'" "items q \<subseteq> items (x # q)"
  by (auto simp: items_def)

definition filed :: "'d ssd_world \<Rightarrow> 'd stored set" where
  "filed w = (\<lambda>p. (snd (fst p), sf_data (snd p), sf_header (snd p))) ` set (w_files w)"

lemma entries_simps [simp]: "entries [] = {}" "entries (p # es) = insert (fst p, he_data (snd p), he_header (snd p)) (entries es)"
    "entries (es @ es') = entries es \<union> entries es'"
  by (auto simp: entries_def)

lemma entries_del: "entries (dict_del h es) \<subseteq> entries es"
  by (auto simp: entries_def set_dict_del)

lemma set_dict_set_sub: "set (dict_set k v d) \<subseteq> insert (k, v) (set d)"
  by (induction d) auto

lemma entries_set: "entries (dict_set h e es) \<subseteq> insert (h, he_data e, he_header e) (entries es)"
  using set_dict_set_sub [of h e es] by (auto simp: entries_def)

lemma entries_get: "map_of es h = Some e \<Longrightarrow> (h, he_data e, he_header e) \<in> entries es"
  by (force simp: entries_def dest: map_of_SomeD)

text \<open>
  Bounds on what a world holds: the tensors in the memory and the pending writes of each manager,
  the hashes in its index, the tensors in files and write queues. A bounded index only makes sense
  for a manager that is open. Loading a file that the index knows stays inside.
\<close>

record 'd bounds =
  bd_held :: "nat \<Rightarrow> 'd stored set"
  bd_known :: "nat \<Rightarrow> string set"
  bd_files :: "'d stored set"

definition promoting :: "'d bounds \<Rightarrow> bool" where
  "promoting B \<longleftrightarrow> (\<forall>j. \<forall>t \<in> bd_files B. fst t \<in> bd_known B j \<longrightarrow> t \<in> bd_held B j)"

definition inside :: "'d bounds \<Rightarrow> nat \<Rightarrow> 'd ssd_manager \<Rightarrow> bool" where
  "inside B j m \<longleftrightarrow> entries (sm_hot m) \<subseteq> bd_held B j \<and> entries (sm_pending m) \<subseteq> bd_held B j \<and> items (sm_queue m) \<subseteq> bd_files B \<and>
     set (get_all_hashes (sm_index m)) \<subseteq> bd_known B j \<and> (bd_known B j = UNIV \<or> sm_dir m \<noteq> None)"

definition only :: "'d bounds \<Rightarrow> 'd ssd_world \<Rightarrow> bool" where
  "only B w \<longleftrightarrow> (\<forall>j. inside B j (man j w)) \<and> filed w \<subseteq> bd_files B"

lemma only_upd: "only B w \<Longrightarrow> inside B i (f (man i w)) \<Longrightarrow> only B (upd_man i f w)"
  by (simp add: only_def filed_def)

lemma only_upd_sub:
  assumes "only B w" and "\<And>m. inside B i m \<Longrightarrow> inside B i (f m)"
  shows "only B (upd_man i f w)"
  using assms by (intro only_upd) (auto simp: only_def)

lemma inside_same [simp]: "inside B j (m\<lparr>sm_incompatible := x\<rparr>) = inside B j m" "inside B j (m\<lparr>sm_stats := c\<rparr>) = inside B j m"
    "inside B j (m\<lparr>sm_disk := v\<rparr>) = inside B j m" "inside B j (m\<lparr>sm_last_sweep := t\<rparr>) = inside B j m"
    "inside B j (m\<lparr>sm_shutting_down := b\<rparr>) = inside B j m" "inside B j (m\<lparr>sm_writer := b\<rparr>) = inside B j m"
    "inside B j (m\<lparr>sm_types := ts\<rparr>) = inside B j m" "inside B j (m\<lparr>sm_swept := b\<rparr>) = inside B j m"
    "inside B j (m\<lparr>sm_hot_total := n\<rparr>) = inside B j m"
  by (simp_all add: inside_def)

lemma inside_hot: "inside B j m \<Longrightarrow> entries es \<subseteq> bd_held B j \<Longrightarrow> inside B j (m\<lparr>sm_hot := es\<rparr>)"
    "inside B j m \<Longrightarrow> entries es \<subseteq> bd_held B j \<Longrightarrow> inside B j (m\<lparr>sm_hot := es, sm_hot_total := n\<rparr>)"
  by (simp_all add: inside_def)

lemma inside_hot_del [simp]: "inside B j m \<Longrightarrow> inside B j (m\<lparr>sm_hot := dict_del h (sm_hot m)\<rparr>)"
    "inside B j m \<Longrightarrow> inside B j (m\<lparr>sm_hot := []\<rparr>)"
  using entries_del [of h "sm_hot m"] by (auto simp: inside_def)

lemma inside_pending: "inside B j m \<Longrightarrow> entries es \<subseteq> bd_held B j \<Longrightarrow> inside B j (m\<lparr>sm_pending := es\<rparr>)"
  by (simp add: inside_def)

lemma inside_queue: "inside B j m \<Longrightarrow> items q \<subseteq> bd_files B \<Longrightarrow> inside B j (m\<lparr>sm_queue := q\<rparr>)"
  by (simp add: inside_def)

lemma inside_index: "inside B j m \<Longrightarrow> set (get_all_hashes x) \<subseteq> bd_known B j \<Longrightarrow> inside B j (m\<lparr>sm_index := x\<rparr>)"
  by (simp add: inside_def)

lemma only_man: "only B w \<Longrightarrow> inside B i (man i w)"
  by (simp add: only_def)

lemma only_world [simp]: "only B (w\<lparr>w_budget := b\<rparr>) = only B w" "only B (w\<lparr>w_next := n\<rparr>) = only B w"
    "only B (w\<lparr>w_active := a\<rparr>) = only B w" "only B (w\<lparr>w_models := ms\<rparr>) = only B w" "only B (upd_budget g w) = only B w"
  by (simp_all add: only_def filed_def)

lemma only_files: "only B w \<Longrightarrow> (\<lambda>p. (snd (fst p), sf_data (snd p), sf_header (snd p))) ` set fs \<subseteq> bd_files B \<Longrightarrow> only B (w\<lparr>w_files := fs\<rparr>)"
  by (simp add: only_def filed_def)

lemma only_tick [simp]: "only B w \<Longrightarrow> only B (tick f i w)"
  unfolding tick_def by (rule only_upd_sub) simp_all

lemma hashes_tags: "set (get_all_hashes x) = fst ` tags x"
  by (simp add: get_all_hashes_def tags_def image_image)

lemma shrunk_hashes: "shrunk x y \<Longrightarrow> set (get_all_hashes y) \<subseteq> set (get_all_hashes x)"
  unfolding hashes_tags shrunk_def by (auto intro: image_mono)

lemma inside_index_sub: "inside B j m \<Longrightarrow> set (get_all_hashes x) \<subseteq> set (get_all_hashes (sm_index m)) \<Longrightarrow> inside B j (m\<lparr>sm_index := x\<rparr>)"
  unfolding inside_def by (simp, blast)

lemma inside_queue_sub: "inside B j m \<Longrightarrow> items q \<subseteq> items (sm_queue m) \<Longrightarrow> inside B j (m\<lparr>sm_queue := q\<rparr>)"
  unfolding inside_def by (simp, blast)

lemma inside_shrunk: "inside B j m \<Longrightarrow> shrunk (sm_index m) x \<Longrightarrow> inside B j (m\<lparr>sm_index := x\<rparr>)"
  by (rule inside_index_sub [OF _ shrunk_hashes])

lemma only_shrunk [simp]: "only B w \<Longrightarrow> (\<And>x. shrunk x (f x)) \<Longrightarrow> only B (upd_index f i w)"
  unfolding upd_index_def by (rule only_upd_sub) (auto intro: inside_shrunk)

lemma only_drop [simp]: "only B w \<Longrightarrow> only B (drop_index h i w)"
  by (simp add: drop_index_def)

lemma only_unlink [simp]: "only B w \<Longrightarrow> only B (snd (unlink io i h w))"
  by (auto simp: unlink_def set_dict_del only_def filed_def split: option.split)

lemma only_hot: "only B w \<Longrightarrow> map_of (sm_hot (man i w)) h = Some e \<Longrightarrow> (h, he_data e, he_header e) \<in> bd_held B i"
  using only_man [of B w i] entries_get [of "sm_hot (man i w)" h e] unfolding inside_def by blast

lemma only_pending: "only B w \<Longrightarrow> map_of (sm_pending (man i w)) h = Some e \<Longrightarrow> (h, he_data e, he_header e) \<in> bd_held B i"
  using only_man [of B w i] entries_get [of "sm_pending (man i w)" h e] unfolding inside_def by blast

lemma only_known: "only B w \<Longrightarrow> index_contains h (sm_index (man i w)) \<Longrightarrow> h \<in> bd_known B i"
  using only_man [of B w i] by (auto simp: inside_def index_contains_def get_all_hashes_def map_of_eq_None_iff)

lemma only_file:
  assumes "only B w" "promoting B" "map_of (w_files w) (dir, h) = Some f" "index_contains h (sm_index (man i w))"
  shows "(h, sf_data f, sf_header f) \<in> bd_held B i"
proof -
  have "(h, sf_data f, sf_header f) \<in> filed w" using assms(3) unfolding filed_def by (force dest: map_of_SomeD)
  with assms(1,2) only_known [OF assms(1,4)] show ?thesis unfolding promoting_def only_def by auto
qed

section \<open>Memory caches\<close>

lemma only_get [simp]: "only B w \<Longrightarrow> only B (snd (hot_get i h w))"
proof (cases "map_of (sm_hot (man i w)) h")
  case (Some e)
  assume w: "only B w"
  from Some have "entries (dict_del h (sm_hot (man i w)) @ [(h, e)]) \<subseteq> entries (sm_hot (man i w))"
    using entries_del [of h "sm_hot (man i w)"] entries_get by fastforce
  then have "only B (upd_man i (\<lambda>m. m\<lparr>sm_hot := dict_del h (sm_hot m) @ [(h, e)]\<rparr>) w)"
    using only_man [OF w, of i] by (intro only_upd [OF w] inside_hot) (auto simp: inside_def)
  with Some show ?thesis by (simp add: hot_get_def Let_def)
qed (simp add: hot_get_def)

lemma only_remove [simp]: "only B w \<Longrightarrow> only B (snd (hot_remove i h u w))"
  by (simp add: hot_remove_def Let_def only_upd_sub split: option.split)

lemma only_drop_victim: "only B w \<Longrightarrow> only B (drop_victim k w)"
  by (auto simp: drop_victim_def handle_hot_cache_eviction_def Let_def case_prod_beta)

lemma trim_entries: "trim_loop mx es tot vs = (es', tot', vs') \<Longrightarrow> entries es' \<subseteq> entries es"
  by (induction mx es tot vs rule: trim_loop.induct) (auto split: if_splits)

lemma only_trim: "only B w \<Longrightarrow> only B (hot_trim i w)"
proof -
  assume w: "only B w"
  obtain d t vs where t: "trim_loop (sm_hot_max (man i w)) (sm_hot (man i w)) (sm_hot_total (man i w)) [] = (d, t, vs)"
    by (metis prod_cases3)
  have "only B (upd_man i (\<lambda>m. m\<lparr>sm_hot := d, sm_hot_total := t\<rparr>) w)"
    using only_man [OF w, of i] trim_entries [OF t] by (intro only_upd [OF w] inside_hot) (auto simp: inside_def)
  with t show ?thesis by (simp add: hot_trim_def Let_def)
qed

lemma only_put:
  assumes "only B w" "(h, he_data e, he_header e) \<in> bd_held B i"
  shows "only B (hot_put bytes i h e w)"
proof -
  have "only B (upd_man i (insert_hot h (e\<lparr>he_bytes := n\<rparr>)) w)" for n
    using only_man [OF assms(1), of i] assms(2) entries_del [of h "sm_hot (man i w)"]
    by (intro only_upd [OF assms(1)]) (auto simp: inside_def insert_hot_def)
  then have "only B (fold drop_victim vs ((upd_man i (insert_hot h (e\<lparr>he_bytes := n\<rparr>)) w)\<lparr>w_budget := b\<rparr>))" for vs b n
    by (intro fold_keeps [where P = "only B"]) (auto intro: only_drop_victim)
  with \<open>\<And>n. only B (upd_man i (insert_hot h (e\<lparr>he_bytes := n\<rparr>)) w)\<close> show ?thesis
    by (auto simp: hot_put_def Let_def case_prod_beta intro: only_trim)
qed

lemma own_shrink_entries: "own_shrink_loop target prot d tot freed n = (d', tot', freed', n') \<Longrightarrow> entries d' \<subseteq> entries d"
proof (induction target prot d tot freed n rule: own_shrink_loop.induct)
  case (1 target prot d tot freed n)
  show ?case
  proof (cases "tot > target \<and> d \<noteq> []")
    case False
    with 1(2) show ?thesis by (auto simp: own_shrink_loop.simps [of target prot d])
  next
    case over: True
    show ?thesis
    proof (cases "find (\<lambda>p. fst p \<notin> set prot) d")
      case None
      with over 1(2) show ?thesis by (simp add: own_shrink_loop.simps [of target prot d])
    next
      case (Some p)
      with over 1(2) have "own_shrink_loop target prot (dict_del (fst p) d) (max 0 (tot - he_bytes (snd p)))
          (freed + he_bytes (snd p)) (n + 1) = (d', tot', freed', n')"
        by (simp add: own_shrink_loop.simps [of target prot d] case_prod_beta)
      with 1(1) [OF over Some, of "fst p" "snd p"] entries_del [of "fst p" d] show ?thesis by simp
    qed
  qed
qed

lemma only_shrink_victim: "only B (snd s) \<Longrightarrow> only B (snd (shrink_victim v s))"
  using only_remove [of B "snd s" "fst (fst v)" "snd (fst v)" False]
  by (cases "hot_remove (fst (fst v)) (snd (fst v)) False (snd s)")
    (auto simp: shrink_victim_def handle_hot_cache_eviction_def split: option.split)

lemma only_shrink: "only B w \<Longrightarrow> only B (snd (shrink_hot_cache_to i n prot w))"
proof -
  assume w: "only B w"
  obtain d t f k where o: "own_shrink_loop (max 0 n) prot (sm_hot (man i w)) (sm_hot_total (man i w)) 0 0 = (d, t, f, k)"
    by (metis prod_cases4)
  have "only B (upd_man i (\<lambda>m. m\<lparr>sm_hot := d, sm_hot_total := t\<rparr>) w)"
    using only_man [OF w, of i] own_shrink_entries [OF o] by (intro only_upd [OF w] inside_hot) (auto simp: inside_def)
  moreover have "only B (snd (fold shrink_victim vs (0, w\<lparr>w_budget := b\<rparr>)))" for vs b
    using w by (intro fold_keeps [where P = "\<lambda>s. only B (snd s)"])
      (simp_all add: only_shrink_victim)
  ultimately show ?thesis
    using o by (simp add: shrink_hot_cache_to_def shrink_to_def Let_def case_prod_beta)
qed

lemma only_clear_hot: "only B w \<Longrightarrow> only B (snd (clear_hot_cache i w))"
  by (simp add: clear_hot_cache_def Let_def only_upd_sub)

lemma only_clear_owners: "only B w \<Longrightarrow> only B (snd (clear_all_owners w))"
  unfolding clear_all_owners_def
  by (rule fold_keeps [where P = "\<lambda>s. only B (snd s)"]) (auto simp: Let_def case_prod_beta only_clear_hot)

lemma only_cold: "only B w \<Longrightarrow> only B (snd (cold_hashes i hs w))"
proof (induction i hs w rule: cold_hashes.induct)
  case (1 i w)
  then show ?case by simp
next
  case (2 i h hs w)
  obtain e w1 where g: "hot_get i h w = (e, w1)" by force
  then have "only B w1" using only_get [OF 2(4), of i h] by simp
  with 2 g show ?case by (auto simp: case_prod_beta Let_def split: option.splits)
qed

lemma only_preload_loop: "only B w \<Longrightarrow> promoting B \<Longrightarrow> only B (snd (preload_loop cd io i hs n w))"
proof (induction hs arbitrary: n w)
  case Nil
  then show ?case by simp
next
  case (Cons h hs)
  have "only B (hot_put (cd_bytes cd) i h \<lparr>he_data = sf_data f, he_header = sf_header f, he_bytes = 0, he_model = m\<rparr> w)"
    if "map_of (w_files w) (dir, h) = Some f" "index_get h (sm_index (man i w)) = Some md" for dir f m md
  proof (rule only_put [OF Cons.prems(1)])
    have "index_contains h (sm_index (man i w))" using that(2) by (simp add: index_get_def index_contains_def)
    then show "(h, he_data \<lparr>he_data = sf_data f, he_header = sf_header f, he_bytes = 0, he_model = m\<rparr>,
        he_header \<lparr>he_data = sf_data f, he_header = sf_header f, he_bytes = 0, he_model = m\<rparr>) \<in> bd_held B i"
      using only_file [OF Cons.prems that(1)] by simp
  qed
  with Cons show ?case by (auto simp: Let_def split: option.split)
qed

lemma only_preload: "only B w \<Longrightarrow> promoting B \<Longrightarrow> only B (snd (preload_matched_blocks cd io i hs w))"
  by (auto simp: preload_matched_blocks_def Let_def case_prod_beta only_cold only_preload_loop)

section \<open>Saving, loading and the rest\<close>

lemma only_pending_del [simp]: "only B w \<Longrightarrow> only B (upd_man i (\<lambda>m. m\<lparr>sm_pending := dict_del h (sm_pending m)\<rparr>) w)"
proof (rule only_upd_sub)
  show "inside B i (m\<lparr>sm_pending := dict_del h (sm_pending m)\<rparr>)" if "inside B i m" for m :: "'a ssd_manager"
    using that entries_del [of h "sm_pending m"] by (intro inside_pending) (auto simp: inside_def)
qed

lemma update_hashes: "set (get_all_hashes (update_file_size h n x)) \<subseteq> set (get_all_hashes x)"
  using keys_dict_set [of h _ "ix_blocks x"] map_of_keys_iff [of "ix_blocks x" h]
  by (simp add: update_file_size_def get_all_hashes_def split: option.split)

lemma only_update [simp]: "only B w \<Longrightarrow> only B (upd_index (update_file_size h n) i w)"
  unfolding upd_index_def by (intro only_upd_sub inside_index_sub update_hashes)

lemma only_persist:
  assumes "only B w" "(h, d, hdr) \<in> bd_files B"
  shows "only B (snd (persist_block_file cd io i h d hdr md w))"
proof -
  have "only B (w\<lparr>w_files := dict_set (dir, h) \<lparr>sf_data = d, sf_header = hdr, sf_mtime = t\<rparr> (w_files w)\<rparr>)" for dir t
  proof (rule only_files [OF assms(1)], rule image_subsetI)
    fix p assume "p \<in> set (dict_set (dir, h) \<lparr>sf_data = d, sf_header = hdr, sf_mtime = t\<rparr> (w_files w))"
    then have "p = ((dir, h), \<lparr>sf_data = d, sf_header = hdr, sf_mtime = t\<rparr>) \<or> p \<in> set (w_files w)"
      using set_dict_set_sub by fast
    then show "(snd (fst p), sf_data (snd p), sf_header (snd p)) \<in> bd_files B"
      using assms by (auto simp: only_def filed_def)
  qed
  then show ?thesis
    using assms(1) by (auto simp: persist_block_file_def Let_def intro!: only_upd_sub split: option.split)
qed

lemma only_write: "only B w \<Longrightarrow> (h, d, hdr) \<in> bd_files B \<Longrightarrow> only B (write_block_inline cd io i h d hdr md w)"
  by (rule write_keeps) (simp_all add: only_persist)

lemma only_effective [simp]: "only B w \<Longrightarrow> only B (snd (get_effective_max_size io i w))"
  by (auto simp: get_effective_max_size_def Let_def intro!: only_upd_sub split: option.split)

lemma only_victims: "only B w \<Longrightarrow> only B (fold (unlink_victim io i) hs w)"
  by (rule unlink_victims_keep) auto

lemma only_indices: "only B w \<Longrightarrow> shrunk (sm_index (man i w)) x \<Longrightarrow> only B (upd_man i (\<lambda>m. m\<lparr>sm_index := x, sm_incompatible := y\<rparr>) w)"
  using inside_shrunk [OF only_man, of B w i x] by (intro only_upd) (simp_all add: inside_def)

lemma only_enforce_new: "only B w \<Longrightarrow> only B (enforce_size_limit_for_new_block io i w)"
proof -
  assume w: "only B w"
  obtain eff w1 where e: "get_effective_max_size io i w = (eff, w1)" by force
  obtain x inc vs where r: "ssd_reclaim_loop (live_foreign_models i w1) eff 0 (sm_index (man i w1)) (sm_incompatible (man i w1)) [] =
      (x, inc, vs)" by (metis prod_cases3)
  have "only B w1" using only_effective [OF w, of io i] e by simp
  with e r reclaim_shrunk [OF r] show ?thesis
    by (simp add: enforce_size_limit_for_new_block_def only_victims only_indices)
qed

lemma only_batches: "only B w \<Longrightarrow> only B (snd (enforce_batches k io i eff freed w))"
proof (induction k arbitrary: freed w)
  case 0
  then show ?case by simp
next
  case (Suc k)
  obtain x inc bf vs where b: "enforce_batch (live_foreign_models i w) eff (sm_index (man i w)) (sm_incompatible (man i w)) =
      (x, inc, bf, vs)" by (metis prod_cases4)
  with Suc enforce_batch_shrunk [OF b] show ?case by (simp add: Let_def only_victims only_indices)
qed

lemma only_enforce: "only B w \<Longrightarrow> only B (snd (enforce_size_limit io i w))"
  by (simp add: enforce_size_limit_def Let_def case_prod_beta only_batches)

lemma only_startup: "only B w \<Longrightarrow> only B (enforce_incompatible_at_startup io i w)"
  by (simp add: enforce_incompatible_at_startup_def Let_def case_prod_beta only_victims only_upd_sub)

definition admits :: "'d bounds \<Rightarrow> nat \<Rightarrow> 'd stored \<Rightarrow> bool" where
  "admits B i t \<longleftrightarrow> t \<in> bd_held B i \<and> t \<in> bd_files B \<and> fst t \<in> bd_known B i"

lemma only_save_new:
  assumes "only B w" "admits B i (h, d, hdr)"
  shows "only B (save_new cd io i h d hdr w)"
proof -
  define e where "e = \<lparr>he_data = d, he_header = hdr, he_bytes = int (cd_bytes cd d), he_model = Some (hd_model hdr)\<rparr>"
  have e: "(h, he_data e, he_header e) \<in> bd_held B i" and q: "(h, d, hdr) \<in> bd_files B"
    using assms(2) by (simp_all add: e_def admits_def)
  have put: "only B (hot_put (cd_bytes cd) i h e (w\<lparr>w_next := n\<rparr>))" for n
    using assms(1) e by (intro only_put) auto
  have add: "only B (upd_index (index_add h md) i u)" if "only B u" for u md
    unfolding upd_index_def
  proof (rule only_upd_sub [OF that], rule inside_index)
    fix m :: "'a ssd_manager" assume m: "inside B i m"
    have "set (get_all_hashes (index_add h md (sm_index m))) = insert h (set (get_all_hashes (sm_index m)))"
      using keys_dict_set [of h md "ix_blocks (sm_index m)"] by (simp add: get_all_hashes_def index_add_def)
    with m assms(2) show "set (get_all_hashes (index_add h md (sm_index m))) \<subseteq> bd_known B i"
      by (simp add: inside_def admits_def)
  qed
  have pend: "only B (upd_man i (\<lambda>m. m\<lparr>sm_pending := dict_set h e (sm_pending m)\<rparr>) u)" if "only B u" for u
    using only_man [OF that, of i] entries_set [of h e "sm_pending (man i u)"] e
    by (intro only_upd [OF that] inside_pending) (auto simp: inside_def)
  have queue: "only B (queue_or_write cd io i h d hdr md u)" if "only B u" for u md
    using that only_man [OF that, of i] q by (simp add: queue_or_write_def only_write inside_def only_upd)
  show ?thesis
    using put by (simp add: save_new_def Let_def e_def [symmetric] add pend queue only_enforce_new)
qed

definition save_adds :: "('l, 'd) ssd_codec \<Rightarrow> (string \<Rightarrow> 'l list \<Rightarrow> bool) \<Rightarrow> 'd stored set" where
  "save_adds cd content = {(h, d, hdr). \<exists>ls io (m :: 'd ssd_manager) r.
     content h ls \<and> cd_encode cd ls = Inr d \<and> hdr = save_header io m h r ls}"

lemma only_deduped: "only B w \<Longrightarrow> only B (deduped io i h w)"
  by (simp add: deduped_def)

lemma only_save:
  assumes "only B w" "\<forall>t \<in> save_adds cd content. admits B i t"
    "\<And>h ls. sv_hash r = Some h \<Longrightarrow> sv_data r = Some ls \<Longrightarrow> content h ls"
  shows "only B (snd (save_block cd io i r w))"
proof (rule save_block_keeps)
  fix h ls d w'
  assume r: "sv_hash r = Some h" "sv_data r = Some ls" and d: "cd_encode cd ls = Inr d" and w': "only B w'"
  have "(h, d, save_header io (man i w') h r ls) \<in> save_adds cd content"
    using assms(3) [OF r] d unfolding save_adds_def by blast
  then show "only B (save_new cd io i h d (save_header io (man i w') h r ls) w')"
    using assms(2) by (intro only_save_new [OF w']) auto
qed (simp_all add: assms(1) only_deduped)

lemma only_recover: "only B w \<Longrightarrow> only B (recover_from_block_error io i h w)"
  by (simp add: recover_from_block_error_def)

lemma only_load: "only B w \<Longrightarrow> promoting B \<Longrightarrow> only B (snd (load_block cd io i h w))"
  by (rule load_block_keeps) (auto simp: only_recover only_file intro: only_put)

lemma only_load_meta: "only B w \<Longrightarrow> promoting B \<Longrightarrow> only B (snd (load_block_with_metadata cd io i h w))"
  by (rule load_meta_keeps) (simp_all add: only_load)

lemma only_delete: "only B w \<Longrightarrow> only B (snd (delete_block io i h w))"
  by (simp add: delete_block_def Let_def)

lemma only_forget: "only B w \<Longrightarrow> only B (snd (forget_block i h w))"
proof -
  assume w: "only B w"
  obtain o' x where o: "index_remove h (sm_index (man i w)) = (o', x)" by force
  have "shrunk (sm_index (man i w)) x" using shrunk_remove [of "sm_index (man i w)" h] o by simp
  then have "only B (upd_man i (\<lambda>m. m\<lparr>sm_index := x, sm_incompatible := index_add h md (sm_incompatible m)\<rparr>) w)" for md
    using inside_shrunk [OF only_man [OF w]] by (intro only_upd [OF w]) simp
  with w o show ?thesis by (simp add: forget_block_def split: option.split)
qed

lemma only_clear: "only B w \<Longrightarrow> only B (snd (ssd_clear io i w))"
proof -
  assume w: "only B w"
  have "only B (snd (fold (clear_file io i) hs s))" if "only B (snd s)" for hs s
    by (rule fold_keeps [where P = "\<lambda>s. only B (snd s)"]) (auto simp: that clear_file_def case_prod_beta Let_def)
  moreover have "only B (upd_man i (\<lambda>m. m\<lparr>sm_index := index_new (k m), sm_incompatible := index_new (k m), sm_hot := [], sm_hot_total := 0\<rparr>) u)"
    if "only B u" for k u
    using only_man [OF that, of i] by (intro only_upd [OF that]) (simp add: inside_def get_all_hashes_def index_new_def)
  ultimately have "only B (upd_man i (\<lambda>m. m\<lparr>sm_index := index_new (f m), sm_incompatible := index_new (f m), sm_hot := [], sm_hot_total := 0\<rparr>)
      (snd (if b then (k, w) else fold (clear_file io i) hs (0, w))))" for f k b hs
    using w by simp
  then show ?thesis unfolding ssd_clear_def Let_def case_prod_beta snd_conv .
qed

lemma only_sweep: "only B w \<Longrightarrow> only B (snd (sweep_orphaned_files io i w))"
proof -
  assume w: "only B w"
  have "only B (snd (fold (sweep_one io i) fs (0, w)))" for fs
    by (rule fold_keeps [where P = "\<lambda>s. only B (snd s)"]) (auto simp: w sweep_one_def case_prod_beta Let_def split: option.split)
  with w show ?thesis by (simp add: sweep_orphaned_files_def Let_def split: option.split)
qed

lemma only_repair: "only B w \<Longrightarrow> only B (snd (verify_and_repair_index i w))"
  by (auto simp: verify_and_repair_index_def repair_one_def intro!: fold_keeps [where P = "\<lambda>s. only B (snd s)"] split: option.split)

lemma only_writer: "only B w \<Longrightarrow> only B (writer_step cd io i w)"
proof -
  assume w: "only B w"
  have rest: "inside B i ((man i w)\<lparr>sm_queue := q\<rparr>)" if "sm_queue (man i w) = x # q" for x q
    using items_simps(5) [of q x] that by (intro inside_queue_sub only_man [OF w]) simp
  have pop: "only B (upd_man i (\<lambda>m. m\<lparr>sm_queue := q\<rparr>) w)" if "sm_queue (man i w) = x # q" for x q
    using rest [OF that] by (rule only_upd [OF w])
  have stop: "only B (upd_man i (\<lambda>m. m\<lparr>sm_queue := q, sm_writer := False\<rparr>) w)" if "sm_queue (man i w) = x # q" for x q
    using rest [OF that] by (intro only_upd [OF w]) simp
  have item: "(h, d, hdr) \<in> bd_files B" if "sm_queue (man i w) = Some (h, d, hdr, md) # q" for h d hdr md q
    using only_man [OF w, of i] that by (auto simp: inside_def)
  have sweep: "only B (snd (sweep_orphaned_files io i (upd_man i (\<lambda>m. m\<lparr>sm_last_sweep := t\<rparr>) w)))" for t
    by (intro only_sweep only_upd_sub [OF w]) simp
  show ?thesis
    using w pop stop item sweep
    by (auto simp: writer_step_def Let_def only_write intro!: only_upd_sub split: list.split option.split)
qed

lemma only_deregister [simp]: "only B w \<Longrightarrow> only B (deregister_manager k m w)"
  by (simp add: deregister_manager_def Let_def split: option.split)

lemma only_close: "only B w \<Longrightarrow> only B (close_manager cd io n i w)"
proof -
  assume w: "only B w"
  have stop: "only B (upd_man i (\<lambda>m. m\<lparr>sm_queue := sm_queue m @ [None]\<rparr>) u)" if "only B u" for u
    by (rule only_upd_sub [OF that]) (auto simp: inside_def)
  have run: "only B ((writer_step cd io i ^^ k) u)" if "only B u" for u k
    using that by (induction k) (auto simp: only_writer)
  have drop: "only B (upd_man i (\<lambda>m. m\<lparr>sm_pending := []\<rparr>) u)" if "only B u" for u
    by (rule only_upd_sub [OF that]) (auto simp: inside_def)
  have down: "only B (upd_man i (\<lambda>m. m\<lparr>sm_shutting_down := True\<rparr>) w)" by (rule only_upd_sub [OF w]) simp
  show ?thesis by (simp add: close_manager_def Let_def stop run drop down)
qed

lemma only_register [simp]: "only B (register_manager k m w) = only B w"
  by (simp add: register_manager_def split: option.split)

lemma only_scan: "only B w \<Longrightarrow> bd_known B i = UNIV \<Longrightarrow> only B (scan_disk_index cd io i dir w)"
proof -
  assume w: "only B w" and free: "bd_known B i = UNIV"
  have add: "only B (upd_index f i u)" if "only B u" for f u
    unfolding upd_index_def using that free by (intro only_upd_sub inside_index) auto
  have "only B (fold (scan_file cd io i) fs w)" for fs
    by (rule fold_keeps) (auto simp: w add scan_file_def Let_def add_incompatible_def intro!: only_upd_sub split: option.split)
  then show ?thesis by (simp add: scan_disk_index_def only_repair only_startup)
qed

lemma only_open: "only B w \<Longrightarrow> unopened i w \<Longrightarrow> only B (open_manager cd io i c w)"
proof -
  assume w: "only B w" and new: "unopened i w"
  have "sm_dir (man i w) = None" using new by (simp add: unopened_def config_dir_def blank_config_def)
  then have free: "bd_known B i = UNIV" using only_man [OF w, of i] by (simp add: inside_def)
  then have "inside B i (new_manager c)" by (simp add: inside_def)
  with w have "only B (w\<lparr>w_managers := (w_managers w)(i := new_manager c)\<rparr>)" by (auto simp: only_def filed_def)
  with free show ?thesis by (simp add: open_manager_def Let_def only_scan split: option.split)
qed

lemma only_invalidate: "only B w \<Longrightarrow> only B (snd (invalidate_stale_signature i w))"
proof -
  assume w: "only B w"
  have "only B (fold (\<lambda>h. drop_index h i) hs w)" for hs by (rule fold_keeps) (simp_all add: w)
  with w show ?thesis by (simp add: invalidate_stale_signature_def Let_def only_upd_sub split: option.split)
qed

lemma only_step: "ssd_step cd content c w w' \<Longrightarrow> promoting B \<Longrightarrow> \<forall>i. \<forall>t \<in> save_adds cd content. admits B i t \<Longrightarrow> only B w \<Longrightarrow> only B w'"
proof (induction rule: ssd_step.induct)
  case (adopt w i types)
  then show ?case by (simp add: adopt_layer_signature_def only_upd_sub)
next
  case (expect w i types)
  then show ?case by (simp add: set_expected_signature_def Let_def only_upd_sub)
next
  case (sort w i)
  then show ?case by (simp add: sort_lru_by_last_access_def)
next
  case (stats w io i)
  then show ?case by (simp add: ssd_get_stats_def Let_def case_prod_beta)
next
  case (store b ls i w io)
  then show ?case by (auto simp: store_block_def intro!: only_save)
next
  case (save r h ls i w io)
  then show ?case by (intro only_save [where content = content]) auto
next
  case (touch_save r w io i)
  then show ?case by (intro only_save [where content = content]) auto
qed (auto simp: only_open only_load only_load_meta only_writer only_delete only_forget only_enforce only_shrink
    only_clear_hot only_clear_owners only_preload only_invalidate only_sweep only_repair only_clear only_close)

lemma only_reachable: "ssd_reachable cd content c w0 w \<Longrightarrow> promoting B \<Longrightarrow> \<forall>i. \<forall>t \<in> save_adds cd content. admits B i t \<Longrightarrow>
    only B w0 \<Longrightarrow> only B w"
  by (induction rule: ssd_reachable.induct) (auto intro: only_step)

end
