(* ===== verification/SsdAvail.thy ===== *)
theory SsdAvail
  imports SsdData
begin

text \<open>
  Every block of an index can be loaded: in a careful process it is a pending write or it has a file.
\<close>

section \<open>Backed indices\<close>

abbreviation known :: "'d ssd_manager \<Rightarrow> string set" where
  "known m \<equiv> set (get_all_hashes (sm_index m))"

abbreviation outdated :: "'d ssd_manager \<Rightarrow> string set" where
  "outdated m \<equiv> set (get_all_hashes (sm_incompatible m))"

abbreviation awaiting :: "'d ssd_manager \<Rightarrow> string set" where
  "awaiting m \<equiv> set (dict_keys (sm_pending m))"

abbreviation file_names :: "'d ssd_world \<Rightarrow> (string \<times> string) set" where
  "file_names w \<equiv> set (dict_keys (w_files w))"

text \<open>
  A manager with a directory: its indices are disjoint, and what the first one holds is backed by a
  pending write or a file. A manager without a directory keeps blocks in memory only.
\<close>

definition backed :: "(string \<times> string) set \<Rightarrow> 'd ssd_manager \<Rightarrow> bool" where
  "backed fs m \<longleftrightarrow> known m \<inter> outdated m = {} \<and>
     (case sm_dir m of None \<Rightarrow> sm_hot_only m
      | Some d \<Rightarrow> \<not> sm_hot_only m \<longrightarrow> (\<forall>h \<in> known m. h \<in> awaiting m \<or> (d, h) \<in> fs))"

definition alone :: "'d ssd_world \<Rightarrow> bool" where
  "alone w \<longleftrightarrow> (\<forall>i j. sm_dir (man i w) = sm_dir (man j w) \<longrightarrow> sm_dir (man i w) \<noteq> None \<longrightarrow> i = j)"

definition avail :: "'d ssd_world \<Rightarrow> bool" where
  "avail w \<longleftrightarrow> alone w \<and> distinct (dict_keys (w_files w)) \<and> (\<forall>j. backed (file_names w) (man j w))"

lemma fst_dict [simp]: "fst ` set (dict_del k d) = fst ` set d - {k}" "fst ` set (dict_set k v d) = insert k (fst ` set d)"
  using keys_dict_del [of k d] keys_dict_set [of k v d] by auto

lemma map_of_ex: "(\<exists>v. map_of d k = Some v) \<longleftrightarrow> k \<in> fst ` set d"
  using map_of_keys_iff [of d k] by auto

lemma known_iff: "index_contains h (sm_index m) \<longleftrightarrow> h \<in> known m"
  by (simp add: index_contains_def get_all_hashes_def map_of_ex)

lemma outdated_iff: "index_contains h (sm_incompatible m) \<longleftrightarrow> h \<in> outdated m"
  by (simp add: index_contains_def get_all_hashes_def map_of_ex)

lemma hashes_remove [simp]: "set (get_all_hashes (snd (index_remove h x))) = set (get_all_hashes x) - {h}"
  by (simp add: get_all_hashes_def blocks_remove)

lemma hashes_touch [simp]: "set (get_all_hashes (index_touch now h x)) = set (get_all_hashes x)"
  by (auto simp: get_all_hashes_def index_touch_def set_dict_del split: option.split dest: map_of_SomeD intro: rev_image_eqI)

lemma hashes_sort [simp]: "set (get_all_hashes (sort_lru x)) = set (get_all_hashes x)"
  by (simp add: get_all_hashes_def sort_lru_def)

lemma hashes_add [simp]: "set (get_all_hashes (index_add h md x)) = insert h (set (get_all_hashes x))"
  by (simp add: get_all_hashes_def index_add_def)

lemma hashes_update [simp]: "set (get_all_hashes (update_file_size h n x)) = set (get_all_hashes x)"
proof (cases "map_of (ix_blocks x) h")
  case (Some m)
  then have "h \<in> set (dict_keys (ix_blocks x))" by (force dest: map_of_SomeD)
  with Some show ?thesis
    by (auto simp: update_file_size_def get_all_hashes_def)
qed (simp add: update_file_size_def)

lemma hashes_object [simp]: "set (get_all_hashes (set_object_size k n x)) = set (get_all_hashes x)"
  by (force simp: set_object_size_def get_all_hashes_def)

lemma hashes_new [simp]: "get_all_hashes (index_new n) = []"
  by (simp add: get_all_hashes_def index_new_def)

text \<open>Only this much of a manager matters.\<close>

definition view :: "'d ssd_manager \<Rightarrow> string option \<times> bool \<times> string set \<times> string set \<times> string set" where
  "view m = (sm_dir m, sm_hot_only m, known m, outdated m, awaiting m)"

lemma backed_view: "view m' = view m \<Longrightarrow> backed fs m' = backed fs m"
  by (auto simp: backed_def view_def split: option.split)

lemma avail_view:
  assumes "avail w" "\<And>j. view (man j w') = view (man j w)" "w_files w' = w_files w"
  shows "avail w'"
proof -
  have d: "sm_dir (man j w') = sm_dir (man j w)" for j using assms(2) [of j] by (simp add: view_def)
  have b: "backed fs (man j w') = backed fs (man j w)" for fs j by (rule backed_view [OF assms(2)])
  show ?thesis using assms(1,3) unfolding avail_def alone_def d b by simp
qed

lemma avail_upd:
  assumes "avail w" "sm_dir (f (man i w)) = sm_dir (man i w)" "backed (file_names w) (f (man i w))"
  shows "avail (upd_man i f w)"
proof -
  have "sm_dir (man j (upd_man i f w)) = sm_dir (man j w)" for j using assms(2) by simp
  moreover have "alone w" using assms(1) by (simp add: avail_def)
  ultimately have "alone (upd_man i f w)" unfolding alone_def by metis
  with assms(1,3) show ?thesis by (simp add: avail_def)
qed

lemma avail_upd_view: "avail w \<Longrightarrow> (\<And>m. view (f m) = view m) \<Longrightarrow> avail (upd_man i f w)"
  by (rule avail_view) auto

lemma avail_hot: "avail w \<Longrightarrow> hot_frame w w' \<Longrightarrow> avail w'"
  by (rule avail_view) (simp_all add: view_def hot_frame_sel hot_frame_world)

lemma avail_tick [simp]: "avail w \<Longrightarrow> avail (tick f i w)"
  unfolding tick_def by (rule avail_upd_view) (auto simp: view_def)

lemma avail_world [simp]: "avail (w\<lparr>w_budget := b\<rparr>) = avail w" "avail (w\<lparr>w_next := n\<rparr>) = avail w"
    "avail (w\<lparr>w_active := a\<rparr>) = avail w" "avail (w\<lparr>w_models := ms\<rparr>) = avail w" "avail (upd_budget g w) = avail w"
  by (simp_all add: avail_def alone_def)

lemma avail_backed: "avail w \<Longrightarrow> backed (file_names w) (man i w)"
  by (simp add: avail_def)

lemma backed_fewer:
  assumes "backed fs m" "sm_dir m' = sm_dir m" "sm_hot_only m' = sm_hot_only m" "known m' \<subseteq> known m"
    "outdated m' \<subseteq> outdated m" "\<And>h. h \<in> known m' \<Longrightarrow> h \<in> awaiting m \<Longrightarrow> h \<in> awaiting m'"
  shows "backed fs m'"
proof -
  have "known m' \<inter> outdated m' = {}" using assms(1,4,5) unfolding backed_def by blast
  moreover have "h \<in> awaiting m' \<or> (d, h) \<in> fs" if "sm_dir m = Some d" "\<not> sm_hot_only m" "h \<in> known m'" for d h
  proof -
    have "h \<in> known m" using assms(4) that(3) by (rule subsetD)
    with assms(1) that have "h \<in> awaiting m \<or> (d, h) \<in> fs" by (simp add: backed_def)
    with assms(6) [OF that(3)] show ?thesis by blast
  qed
  ultimately show ?thesis using assms(1-3) unfolding backed_def by (auto split: option.splits)
qed

lemma avail_shrunk: "avail w \<Longrightarrow> (\<And>x. set (get_all_hashes (f x)) \<subseteq> set (get_all_hashes x)) \<Longrightarrow> avail (upd_index f i w)"
  unfolding upd_index_def by (rule avail_upd) (simp, simp, rule backed_fewer [OF avail_backed], auto)

lemma avail_drop [simp]: "avail w \<Longrightarrow> avail (drop_index h i w)"
  unfolding drop_index_def by (rule avail_shrunk) auto

lemma avail_touch [simp]: "avail w \<Longrightarrow> avail (upd_index (index_touch now h) i w)"
  by (rule avail_shrunk) auto

section \<open>Files\<close>

lemma backed_files: "backed fs m \<Longrightarrow> (\<And>d h. sm_dir m = Some d \<Longrightarrow> h \<in> known m \<Longrightarrow> (d, h) \<in> fs \<Longrightarrow> (d, h) \<in> fs') \<Longrightarrow> backed fs' m"
  by (auto simp: backed_def split: option.splits)

text \<open>A file whose block is not in the index of the manager of its directory can go.\<close>

lemma avail_unlink:
  assumes "avail w" "h \<notin> known (man i w)"
  shows "avail (snd (unlink io i h w))"
proof -
  have "avail (w\<lparr>w_files := dict_del (dir, h) (w_files w)\<rparr>)" if dir: "sm_dir (man i w) = Some dir" for dir
  proof -
    have "backed (file_names w - {(dir, h)}) (man j w)" for j
    proof (rule backed_files [OF avail_backed [OF assms(1)]])
      fix d k assume d: "sm_dir (man j w) = Some d" and k: "k \<in> known (man j w)" and f: "(d, k) \<in> file_names w"
      have "(d, k) \<noteq> (dir, h)"
      proof
        assume "(d, k) = (dir, h)"
        with d dir assms(1) have "j = i" by (auto simp: avail_def alone_def)
        with \<open>(d, k) = (dir, h)\<close> k assms(2) show False by simp
      qed
      with f show "(d, k) \<in> file_names w - {(dir, h)}" by simp
    qed
    with assms(1) show ?thesis by (simp add: avail_def alone_def)
  qed
  with assms(1) show ?thesis by (simp add: unlink_def split: option.split)
qed

lemma known_unlink [simp]: "man j (snd (unlink io i h w)) = man j w"
  by (simp add: unlink_def split: option.split)

lemma known_tick [simp]: "known (man j (tick f i w)) = known (man j w)" "outdated (man j (tick f i w)) = outdated (man j w)"
  by (simp_all add: tick_def)

lemma avail_victims:
  assumes "avail w" "set hs \<inter> known (man i w) = {}"
  shows "avail (fold (unlink_victim io i) hs w)"
  using assms
proof (induction hs arbitrary: w)
  case Nil
  then show ?case by simp
next
  case (Cons h hs)
  have "avail (unlink_victim io i h w)"
    using Cons.prems avail_unlink [of w h i io] by (auto simp: unlink_victim_def Let_def case_prod_beta)
  moreover have "known (man i (unlink_victim io i h w)) = known (man i w)"
    by (simp add: unlink_victim_def Let_def case_prod_beta)
  ultimately show ?case using Cons.IH [of "unlink_victim io i h w"] Cons.prems(2) by auto
qed

lemma avail_effective [simp]: "avail w \<Longrightarrow> avail (snd (get_effective_max_size io i w))"
  by (auto simp: get_effective_max_size_def Let_def view_def intro!: avail_upd_view split: option.split)

text \<open>The victims of an enforcement have left the index.\<close>

lemma avail_enforced:
  assumes "avail w" "shrunk (sm_index (man i w)) x" "shrunk (sm_incompatible (man i w)) inc"
    and "set vs \<subseteq> known (man i w) - set (get_all_hashes x) \<union> outdated (man i w)"
  shows "avail (fold (unlink_victim io i) vs (upd_man i (\<lambda>m. m\<lparr>sm_index := x, sm_incompatible := inc\<rparr>) w))"
proof (rule avail_victims)
  have x: "set (get_all_hashes x) \<subseteq> known (man i w)" and inc: "set (get_all_hashes inc) \<subseteq> outdated (man i w)"
    using shrunk_hashes [OF assms(2)] shrunk_hashes [OF assms(3)] by auto
  show "avail (upd_man i (\<lambda>m. m\<lparr>sm_index := x, sm_incompatible := inc\<rparr>) w)"
    using x inc by (intro avail_upd [OF assms(1)] backed_fewer [OF avail_backed [OF assms(1), of i]]) auto
  have "known (man i w) \<inter> outdated (man i w) = {}" using avail_backed [OF assms(1), of i] by (simp add: backed_def)
  with x assms(4) show "set vs \<inter> known (man i (upd_man i (\<lambda>m. m\<lparr>sm_index := x, sm_incompatible := inc\<rparr>) w)) = {}" by auto
qed

lemma reclaim_victims: "ssd_reclaim_loop foreign eff n x inc vs = (x', inc', vs') \<Longrightarrow>
    set vs' \<subseteq> set vs \<union> (set (get_all_hashes x) - set (get_all_hashes x')) \<union> set (get_all_hashes inc)"
proof (induction foreign eff n x inc vs rule: ssd_reclaim_loop.induct)
  case (1 foreign eff n x inc vs)
  show ?case
  proof (cases "ix_total x + ix_total inc \<le> eff")
    case True
    with 1(3) show ?thesis by (auto simp: ssd_reclaim_loop.simps [of foreign eff n x inc vs])
  next
    case over: False
    show ?thesis
    proof (cases "pick_reclaimable foreign inc")
      case (Some p)
      with over 1(3) have l: "ssd_reclaim_loop foreign eff n x (snd (index_remove (fst p) inc)) (vs @ [fst p]) = (x', inc', vs')"
        by (simp add: ssd_reclaim_loop.simps [of foreign eff n x inc vs] case_prod_beta)
      have "fst p \<in> set (get_all_hashes inc)" using pick_in [OF Some] by (simp add: get_all_hashes_def)
      with 1(2) [OF over Some, of "fst p" "snd p"] l show ?thesis by auto
    next
      case None
      show ?thesis
      proof (cases "ix_blocks x = [] \<or> max_inline_unlinks \<le> n \<or> get_lru_entries 1 x = []")
        case True
        with over None 1(3) show ?thesis by (auto simp: ssd_reclaim_loop.simps [of foreign eff n x inc vs] split: if_splits)
      next
        case False
        then obtain p ps where lru: "get_lru_entries 1 x = p # ps" by (cases "get_lru_entries 1 x") auto
        with over None False 1(3)
        have l: "ssd_reclaim_loop foreign eff (n + 1) (snd (index_remove (fst p) x)) inc (vs @ [fst p]) = (x', inc', vs')"
          by (simp add: ssd_reclaim_loop.simps [of foreign eff n x inc vs] case_prod_beta)
        have "fst p \<in> set (get_all_hashes x)" using get_lru_in [of 1 x] lru by (auto simp: get_all_hashes_def)
        moreover have "set (get_all_hashes x') \<subseteq> set (get_all_hashes x) - {fst p}"
          using shrunk_hashes [OF conjunct1 [OF reclaim_shrunk [OF l]]] by simp
        ultimately show ?thesis using 1(1) [OF over None _ lru, of "fst p" "snd p"] l False by auto
      qed
    qed
  qed
qed

lemma avail_enforce_new: "avail w \<Longrightarrow> avail (enforce_size_limit_for_new_block io i w)"
proof -
  assume w: "avail w"
  obtain eff w1 where e: "get_effective_max_size io i w = (eff, w1)" by force
  obtain x inc vs where r: "ssd_reclaim_loop (live_foreign_models i w1) eff 0 (sm_index (man i w1)) (sm_incompatible (man i w1)) [] =
      (x, inc, vs)" by (metis prod_cases3)
  have "avail w1" using avail_effective [OF w, of io i] e by simp
  with e r reclaim_shrunk [OF r] reclaim_victims [OF r] show ?thesis
    by (simp add: enforce_size_limit_for_new_block_def avail_enforced)
qed

lemma batch_victims: "batch_loop eff other ps n x freed vs = (n', x', freed', vs') \<Longrightarrow> fst ` set ps \<subseteq> set (get_all_hashes x0) \<Longrightarrow>
    set (get_all_hashes x) \<subseteq> set (get_all_hashes x0) \<Longrightarrow>
    set vs' \<subseteq> set vs \<union> (set (get_all_hashes x0) - set (get_all_hashes x'))"
proof (induction eff other ps n x freed vs rule: batch_loop.induct)
  case (1 eff other n x freed vs)
  then show ?case by simp
next
  case (2 eff other h m ps n x freed vs)
  show ?case
  proof (cases "ix_total x + other \<le> eff \<or> n \<ge> max_inline_unlinks")
    case True
    with 2(2) show ?thesis by (auto split: if_splits)
  next
    case False
    with 2(2) have l: "batch_loop eff other ps (n + 1) (snd (index_remove h x)) (freed + md_size m) (vs @ [h]) = (n', x', freed', vs')"
      by simp
    have "set (get_all_hashes x') \<subseteq> set (get_all_hashes x) - {h}" using shrunk_hashes [OF batch_shrunk [OF l]] by simp
    with 2(1) [OF False l] 2(3,4) show ?thesis by auto
  qed
qed

lemma lru_hashes: "fst ` set (get_lru_entries n x) \<subseteq> set (get_all_hashes x)"
  using get_lru_in [of n x] by (auto simp: get_all_hashes_def)

lemma reclaimable_hashes: "fst ` set (reclaimable foreign n x) \<subseteq> set (get_all_hashes x)"
  using lru_hashes [of "max 1 n" x] by (auto simp: reclaimable_def)

lemma enforce_batch_victims:
  assumes "enforce_batch foreign eff x inc = (x', inc', freed, vs)"
  shows "set vs \<subseteq> (set (get_all_hashes x) - set (get_all_hashes x')) \<union> set (get_all_hashes inc)"
proof -
  define first where "first = (if ix_total x + ix_total inc > eff \<and> ix_blocks inc \<noteq> []
     then batch_loop eff (ix_total x) (reclaimable foreign (int max_inline_unlinks) inc) 0 inc 0 [] else (0, inc, 0, []))"
  obtain n inc1 f1 vs1 where 1: "first = (n, inc1, f1, vs1)" by (metis prod_cases4)
  define second where "second = (if ix_total x + ix_total inc1 > eff \<and> n < max_inline_unlinks \<and> ix_blocks x \<noteq> []
     then batch_loop eff (ix_total inc1) (get_lru_entries (int max_inline_unlinks - int n) x) n x f1 vs1 else (n, x, f1, vs1))"
  obtain n2 x2 f2 vs2 where 2: "second = (n2, x2, f2, vs2)" by (metis prod_cases4)
  have r: "x' = x2" "inc' = inc1" "vs = vs2"
    using assms 1 2 unfolding enforce_batch_def Let_def first_def [symmetric] by (auto simp: second_def)
  have v1: "set vs1 \<subseteq> set (get_all_hashes inc)"
    using 1 batch_victims [OF _ reclaimable_hashes order.refl] unfolding first_def by (fastforce split: if_splits)
  have "set vs2 \<subseteq> set vs1 \<union> (set (get_all_hashes x) - set (get_all_hashes x2))"
    using 2 batch_victims [OF _ lru_hashes order.refl] unfolding second_def by (fastforce split: if_splits)
  with v1 r show ?thesis by blast
qed

lemma avail_batches: "avail w \<Longrightarrow> avail (snd (enforce_batches k io i eff freed w))"
proof (induction k arbitrary: freed w)
  case 0
  then show ?case by simp
next
  case (Suc k)
  obtain x inc bf vs where b: "enforce_batch (live_foreign_models i w) eff (sm_index (man i w)) (sm_incompatible (man i w)) =
      (x, inc, bf, vs)" by (metis prod_cases4)
  have "avail (fold (unlink_victim io i) vs (upd_man i (\<lambda>m. m\<lparr>sm_index := x, sm_incompatible := inc\<rparr>) w))"
    using enforce_batch_shrunk [OF b] enforce_batch_victims [OF b] Suc.prems by (intro avail_enforced) auto
  with Suc b show ?case by (simp add: Let_def)
qed

lemma avail_enforce: "avail w \<Longrightarrow> avail (snd (enforce_size_limit io i w))"
  by (simp add: enforce_size_limit_def Let_def case_prod_beta avail_batches)

section \<open>Saving, loading and deleting\<close>

lemma avail_pending_del:
  assumes "avail w" "h \<notin> known (man i w) \<or> file_exists i h w"
  shows "avail (upd_man i (\<lambda>m. m\<lparr>sm_pending := dict_del h (sm_pending m)\<rparr>) w)"
  using avail_backed [OF assms(1), of i] assms(2)
  by (intro avail_upd [OF assms(1)]) (auto simp: backed_def file_exists_def map_of_ex split: option.splits)

lemma avail_write_file:
  assumes "avail w"
  shows "avail (w\<lparr>w_files := dict_set p f (w_files w)\<rparr>)"
proof -
  have "backed (file_names (w\<lparr>w_files := dict_set p f (w_files w)\<rparr>)) (man j w)" for j
    by (rule backed_files [OF avail_backed [OF assms]]) simp
  with assms show ?thesis by (simp add: avail_def alone_def)
qed

lemma avail_persist:
  assumes "avail w" "persist_block_file cd io i h d hdr md w = (ok, w1)"
  shows "avail w1 \<and> (ok \<longrightarrow> file_exists i h w1)"
proof (cases "sm_dir (man i w)")
  case None
  with assms show ?thesis by (simp add: persist_block_file_def)
next
  case (Some dir)
  define f where "f = \<lparr>sf_data = d, sf_header = hdr, sf_mtime = io_now io\<rparr>"
  let ?w = "w\<lparr>w_files := dict_set (dir, h) f (w_files w)\<rparr>"
  have 1: "avail (upd_index (update_file_size h n) i ?w)" for n
    by (rule avail_shrunk [OF avail_write_file [OF assms(1)]]) simp
  have 2: "avail (upd_man i (\<lambda>m. m\<lparr>sm_incompatible := set_object_size k n (sm_incompatible m)\<rparr>) ?w)" for k n
    by (rule avail_upd_view [OF avail_write_file [OF assms(1)]]) (simp add: view_def)
  show ?thesis
    using assms Some 1 2
    by (auto simp: persist_block_file_def Let_def f_def file_exists_def upd_index_def map_of_dict_set split: if_splits)
qed

lemma avail_write: "avail w \<Longrightarrow> avail (write_block_inline cd io i h d hdr md w)"
proof -
  assume w: "avail w"
  obtain ok w1 where p: "persist_block_file cd io i h d hdr md w = (ok, w1)" by force
  note 1 = avail_persist [OF w p]
  show ?thesis
  proof (cases ok)
    case True
    have "file_exists i h (tick f i w1)" for f using 1 True by (simp add: file_exists_def tick_def cong: option.case_cong)
    with 1 have "avail (upd_man i (\<lambda>m. m\<lparr>sm_pending := dict_del h (sm_pending m)\<rparr>) (tick f i w1))" for f
      by (intro avail_pending_del) auto
    with p True show ?thesis by (simp add: write_block_inline_def)
  next
    case False
    have "h \<notin> known (man i (drop_index h i (tick f i w1)))" for f by (simp add: drop_index_def upd_index_def)
    with 1 have "avail (upd_man i (\<lambda>m. m\<lparr>sm_pending := dict_del h (sm_pending m)\<rparr>) (drop_index h i (tick f i w1)))" for f
      by (intro avail_pending_del) auto
    with p False show ?thesis by (simp add: write_block_inline_def)
  qed
qed

lemma avail_save_new:
  assumes "avail w" "h \<notin> outdated (man i w)"
  shows "avail (save_new cd io i h d hdr w)"
proof -
  let ?md = "save_meta cd io (w_next w) d hdr"
  define e where "e = \<lparr>he_data = d, he_header = hdr, he_bytes = int (cd_bytes cd d), he_model = Some (hd_model hdr)\<rparr>"
  define w1 where "w1 = hot_put (cd_bytes cd) i h e (w\<lparr>w_next := Suc (w_next w)\<rparr>)"
  define w2 where "w2 = tick (\<lambda>c. c\<lparr>sc_saves := sc_saves c + 1\<rparr>) i (upd_index (index_add h ?md) i w1)"
  define w3 where "w3 = upd_man i (\<lambda>m. m\<lparr>sm_pending := dict_set h e (sm_pending m)\<rparr>) w2"
  have f: "hot_frame (w\<lparr>w_next := Suc (w_next w)\<rparr>) w1" unfolding w1_def by (rule hot_frame_put)
  have 1: "avail w1" by (rule avail_hot [OF _ f]) (simp add: assms(1))
  have o: "h \<notin> outdated (man i w1)" using hot_frame_sel(16) [OF f, of i] assms(2) by simp
  note b = avail_backed [OF 1, of i]
  have add: "avail (upd_index (index_add h ?md) i w1)" if "sm_hot_only (man i w1)"
    unfolding upd_index_def using b o that by (intro avail_upd [OF 1]) (auto simp: backed_def split: option.splits)
  have "avail (upd_man i (\<lambda>m. m\<lparr>sm_index := index_add h ?md (sm_index m), sm_pending := dict_set h e (sm_pending m)\<rparr>) w1)"
    if "\<not> sm_hot_only (man i w1)"
    using b o that by (intro avail_upd [OF 1]) (auto simp: backed_def split: option.splits)
  then have 3: "avail w3" if "\<not> sm_hot_only (man i w1)"
    by (rule avail_view) (auto simp: that w3_def w2_def view_def upd_index_def tick_def)
  then have "avail (queue_or_write cd io i h d hdr ?md w3)" if "\<not> sm_hot_only (man i w1)"
    using that by (auto simp: queue_or_write_def view_def intro!: avail_write avail_upd_view)
  moreover have "sm_hot_only (man i w2) = sm_hot_only (man i w1)" by (simp add: w2_def upd_index_def tick_def)
  ultimately show ?thesis
    using add by (simp add: save_new_def Let_def e_def [symmetric] w1_def [symmetric] w2_def [symmetric] w3_def [symmetric] avail_enforce_new)
      (simp add: w2_def)
qed

lemma avail_deduped: "avail w \<Longrightarrow> avail (deduped io i h w)"
  by (simp add: deduped_def)

lemma avail_save:
  fixes w :: "'d ssd_world"
  assumes "avail w" "\<And>h. sv_hash r = Some h \<Longrightarrow> sv_data r \<noteq> None \<Longrightarrow> careful_save i h w"
  shows "avail (snd (save_block cd io i r w))"
proof (rule save_block_keeps [where P = avail])
  fix h ls d and w' :: "'d ssd_world"
  assume "sv_hash r = Some h" "sv_data r = Some ls" "avail w'" "sm_incompatible (man i w') = sm_incompatible (man i w)"
  with assms(2) [of h] show "avail (save_new cd io i h d (save_header io (man i w') h r ls) w')"
    by (intro avail_save_new) (auto simp: careful_save_def outdated_iff)
qed (simp_all add: assms(1) avail_deduped avail_hot [OF _ hot_frame_get])

lemma avail_recover: "avail w \<Longrightarrow> avail (recover_from_block_error io i h w)"
proof -
  assume w: "avail w"
  have "drop_index h i (snd (unlink io i h w)) = snd (unlink io i h (drop_index h i w))"
    by (simp add: unlink_def drop_index_def upd_index_def upd_man_def man_def split: option.split)
  moreover have "h \<notin> known (man i (drop_index h i w))" by (simp add: drop_index_def upd_index_def)
  ultimately show ?thesis using w by (simp add: recover_from_block_error_def avail_unlink)
qed

lemma avail_load: "avail w \<Longrightarrow> avail (snd (load_block cd io i h w))"
  by (rule load_block_keeps) (auto simp: avail_recover intro: avail_hot [OF _ hot_frame_get] avail_hot [OF _ hot_frame_put])

lemma avail_load_meta: "avail w \<Longrightarrow> avail (snd (load_block_with_metadata cd io i h w))"
  by (rule load_meta_keeps) (auto simp: avail_load intro: avail_hot [OF _ hot_frame_get])

lemma avail_delete: "avail w \<Longrightarrow> avail (snd (delete_block io i h w))"
proof -
  assume w: "avail w"
  let ?w1 = "drop_index h i w"
  let ?w2 = "if sm_hot_only (man i ?w1) then ?w1 else snd (unlink io i h ?w1)"
  have k: "h \<notin> known (man i ?w1)" by (simp add: drop_index_def upd_index_def)
  then have 2: "avail ?w2" using avail_unlink [OF avail_drop [OF w] k] w by simp
  have m: "man i ?w2 = man i ?w1" by simp
  have f: "hot_frame ?w2 (snd (hot_remove i h True ?w2))" by (rule hot_frame_remove)
  have "avail (upd_man i (\<lambda>m. m\<lparr>sm_pending := dict_del h (sm_pending m)\<rparr>) (snd (hot_remove i h True ?w2)))"
    using k by (intro avail_pending_del avail_hot [OF 2 f]) (simp only: hot_frame_sel(15) [OF f] m simp_thms)
  with w show ?thesis unfolding delete_block_def Let_def by simp
qed

lemma avail_forget: "avail w \<Longrightarrow> avail (snd (forget_block i h w))"
proof (cases "map_of (ix_blocks (sm_index (man i w))) h")
  case None
  assume "avail w"
  with None show ?thesis by (simp add: forget_block_def index_remove_def)
next
  case (Some md)
  assume w: "avail w"
  let ?f = "\<lambda>m. m\<lparr>sm_index := snd (index_remove h (sm_index (man i w))), sm_incompatible := index_add h md (sm_incompatible m)\<rparr>"
  have "avail (upd_man i ?f w)"
    using avail_backed [OF w, of i] by (intro avail_upd [OF w]) (auto simp: backed_def split: option.splits)
  with Some show ?thesis by (simp add: forget_block_def index_remove_def)
qed

section \<open>Sweeps and the writer\<close>

text \<open>The files of a process are named by the hash in their header, which is hexadecimal text as \<open>bytes.hex\<close> writes it.\<close>

definition hex_text_of :: "string \<Rightarrow> bool" where
  "hex_text_of h \<longleftrightarrow> from_hex h = Some h"

definition named :: "'d bounds" where
  "named = \<lparr>bd_held = (\<lambda>_. UNIV), bd_known = (\<lambda>_. UNIV), bd_files = {t. hd_hash (snd (snd t)) = fst t \<and> hex_text_of (fst t)}\<rparr>"

lemma named_adds: "(\<And>h ls. content h ls \<Longrightarrow> hex_text_of h) \<Longrightarrow> \<forall>i. \<forall>t \<in> save_adds cd content. admits named i t"
  by (auto simp: save_adds_def admits_def named_def save_header_def Let_def)

lemma named_promoting: "promoting named"
  by (simp add: promoting_def named_def)

lemma named_file:
  assumes "only named w" "((dir, h), f) \<in> set (w_files w)"
  shows "hd_hash (sf_header f) = h" "from_hex h = Some h"
proof -
  have "(h, sf_data f, sf_header f) \<in> filed w" using assms(2) unfolding filed_def by force
  with assms(1) show "hd_hash (sf_header f) = h" "from_hex h = Some h" by (auto simp: only_def named_def hex_text_of_def)
qed

lemma shard_in: "p \<in> set (shard_files dir w) \<Longrightarrow> ((dir, fst p), snd p) \<in> set (w_files w)"
  by (auto simp: shard_files_def)

lemma avail_sweep: "avail w \<Longrightarrow> only named w \<Longrightarrow> avail (snd (sweep_orphaned_files io i w))"
proof -
  assume w: "avail w" "only named w"
  have "avail (snd (fold (sweep_one io i) ps (0, w)))" if "\<And>p. p \<in> set ps \<Longrightarrow> from_hex (fst p) = Some (fst p)" for ps
  proof (rule fold_keeps [where P = "\<lambda>s. avail (snd s)"])
    show "avail (snd (sweep_one io i p s))" if "avail (snd s)" "p \<in> set ps" for p and s :: "int \<times> 'a ssd_world"
      using \<open>\<And>p. p \<in> set ps \<Longrightarrow> from_hex (fst p) = Some (fst p)\<close> [OF that(2)] that(1) avail_unlink [OF that(1), of "fst p" i io]
      by (cases p) (simp add: sweep_one_def Let_def case_prod_beta known_iff)
  qed (simp add: w)
  then have "avail (snd (fold (sweep_one io i) (shard_files dir w) (0, w)))" for dir
    using shard_in [of _ dir w] named_file(2) [OF w(2)] by blast
  with w show ?thesis by (simp add: sweep_orphaned_files_def Let_def split: option.split)
qed

lemma avail_repair: "avail w \<Longrightarrow> avail (snd (verify_and_repair_index i w))"
  by (auto simp: verify_and_repair_index_def repair_one_def intro!: fold_keeps [where P = "\<lambda>s. avail (snd s)"] split: option.split)

lemma avail_writer: "avail w \<Longrightarrow> only named w \<Longrightarrow> avail (writer_step cd io i w)"
proof -
  assume w: "avail w" and n: "only named w"
  have upd: "avail (upd_man i f w)" if "\<And>m. view (f m) = view m" for f by (rule avail_upd_view [OF w that])
  have pop: "avail (upd_man i (\<lambda>m. m\<lparr>sm_queue := q\<rparr>) w)" "avail (upd_man i (\<lambda>m. m\<lparr>sm_queue := q, sm_writer := False\<rparr>) w)" for q
    by (rule upd, simp add: view_def)+
  have "avail (snd (sweep_orphaned_files io i (upd_man i (\<lambda>m. m\<lparr>sm_last_sweep := t\<rparr>) w)))" for t
    by (intro avail_sweep upd only_upd_sub [OF n]) (simp_all add: view_def)
  then show ?thesis
    using w pop by (auto simp: writer_step_def Let_def avail_write view_def intro!: avail_upd_view split: list.split option.split)
qed

lemma avail_invalidate: "avail w \<Longrightarrow> avail (snd (invalidate_stale_signature i w))"
proof -
  assume w: "avail w"
  have "avail (fold (\<lambda>h. drop_index h i) hs w)" for hs by (rule fold_keeps) (simp_all add: w)
  with w show ?thesis
    by (auto simp: invalidate_stale_signature_def Let_def view_def intro!: avail_upd_view split: option.split)
qed

section \<open>Opening\<close>

lemma distinct_shards:
  assumes "distinct cs" "distinct hs"
  shows "distinct (concat (map (\<lambda>c. filter (\<lambda>h. take 1 h = [c]) hs) cs))"
  using assms(1) by (induction cs) (auto simp: assms(2))

lemma shard_names: "map fst (shard_files dir w) =
    concat (map (\<lambda>c. filter (\<lambda>h. take 1 h = [c]) (map (snd \<circ> fst) (filter (\<lambda>p. fst (fst p) = dir) (w_files w)))) ''0123456789abcdef'')"
  by (simp add: shard_files_def map_concat filter_map comp_def conj_commute)

lemma shards_distinct:
  assumes "distinct (dict_keys (w_files w))"
  shows "distinct (map fst (shard_files dir w))"
proof -
  have "distinct (map (snd \<circ> fst) (filter (\<lambda>p. fst (fst p) = dir) fs))" if "distinct (dict_keys fs)" for fs :: "(string \<times> string, 'a ssd_file) pydict"
    using that by (induction fs) force+
  from this [OF assms] show ?thesis unfolding shard_names by (intro distinct_shards) simp_all
qed

lemma avail_scan_file:
  assumes "avail w" "sm_dir (man i w) = Some dir" "(dir, h) \<in> file_names w" "hd_hash (sf_header f) = h" "from_hex h = Some h"
    "h \<notin> known (man i w)" "h \<notin> outdated (man i w)"
  shows "avail (scan_file cd io i (h, f) w) \<and> sm_dir (man i (scan_file cd io i (h, f) w)) = Some dir \<and>
    w_files (scan_file cd io i (h, f) w) = w_files w \<and>
    known (man i (scan_file cd io i (h, f) w)) \<subseteq> insert h (known (man i w)) \<and>
    outdated (man i (scan_file cd io i (h, f) w)) \<subseteq> insert h (outdated (man i w))"
proof -
  note b = avail_backed [OF assms(1), of i]
  have 1: "avail (upd_man i (\<lambda>m. m\<lparr>sm_incompatible := index_add h md (sm_incompatible m)\<rparr>) w)" for md
    using b assms(2,6) by (intro avail_upd [OF assms(1)]) (auto simp: backed_def)
  have 2: "avail (upd_index (index_add h md) i w)" for md
    unfolding upd_index_def using b assms(2,3,7) by (intro avail_upd [OF assms(1)]) (auto simp: backed_def)
  have n: "upd_man i g (w\<lparr>w_next := k\<rparr>) = (upd_man i g w)\<lparr>w_next := k\<rparr>" for g k by (simp add: upd_man_def)
  show ?thesis
    using assms(1,2,4,5) 1 2 by (auto simp: scan_file_def add_incompatible_def Let_def upd_index_def n)
qed

lemma avail_scan_files:
  assumes "avail w" "sm_dir (man i w) = Some dir" "\<And>p. p \<in> set ps \<Longrightarrow> (dir, fst p) \<in> file_names w \<and> hd_hash (sf_header (snd p)) = fst p \<and> from_hex (fst p) = Some (fst p)"
    "distinct (map fst ps)" "set (map fst ps) \<inter> (known (man i w) \<union> outdated (man i w)) = {}"
  shows "avail (fold (scan_file cd io i) ps w)"
  using assms
proof (induction ps arbitrary: w)
  case Nil
  then show ?case by simp
next
  case (Cons p ps)
  obtain h f where p: "p = (h, f)" by force
  note s = avail_scan_file [OF Cons.prems(1,2), of h f cd io]
  let ?w = "scan_file cd io i (h, f) w"
  have w: "avail ?w" "sm_dir (man i ?w) = Some dir" "w_files ?w = w_files w"
    and k: "known (man i ?w) \<subseteq> insert h (known (man i w))" "outdated (man i ?w) \<subseteq> insert h (outdated (man i w))"
    using Cons.prems(3) [of p] Cons.prems(5) p by (simp_all add: s)
  have "h \<notin> set (map fst ps)" using Cons.prems(4) p by simp
  moreover have "set (map fst ps) \<inter> (known (man i w) \<union> outdated (man i w)) = {}" using Cons.prems(5) by auto
  ultimately have "set (map fst ps) \<inter> (known (man i ?w) \<union> outdated (man i ?w)) = {}" using k by blast
  then have "avail (fold (scan_file cd io i) ps ?w)"
    using Cons.prems(3,4) by (intro Cons.IH) (simp_all add: w)
  then show ?case by (simp add: p)
qed

lemma startup_victims: "startup_loop foreign eff other inc vs = (inc', vs') \<Longrightarrow> set vs' \<subseteq> set vs \<union> set (get_all_hashes inc)"
proof (induction foreign eff other inc vs rule: startup_loop.induct)
  case (1 foreign eff other inc vs)
  show ?case
  proof (cases "other + ix_total inc > eff \<and> ix_blocks inc \<noteq> []")
    case False
    with 1(2) show ?thesis by (auto simp: startup_loop.simps [of foreign eff other inc vs])
  next
    case over: True
    show ?thesis
    proof (cases "pick_reclaimable foreign inc")
      case None
      with over 1(2) show ?thesis by (simp add: startup_loop.simps [of foreign eff other inc vs])
    next
      case (Some p)
      with over 1(2) have "startup_loop foreign eff other (snd (index_remove (fst p) inc)) (vs @ [fst p]) = (inc', vs')"
        by (simp add: startup_loop.simps [of foreign eff other inc vs] case_prod_beta)
      moreover have "fst p \<in> set (get_all_hashes inc)" using pick_in [OF Some] by (simp add: get_all_hashes_def)
      ultimately show ?thesis using 1(1) [OF over Some, of "fst p" "snd p"] by auto
    qed
  qed
qed

lemma avail_startup: "avail w \<Longrightarrow> avail (enforce_incompatible_at_startup io i w)"
proof -
  assume "avail w"
  then have 1: "avail (snd (get_effective_max_size io i w))" by simp
  define w1 where "w1 = snd (get_effective_max_size io i w)"
  obtain inc vs where s: "startup_loop (live_foreign_models i w1) (fst (get_effective_max_size io i w))
      (ix_total (sm_index (man i w1))) (sm_incompatible (man i w1)) [] = (inc, vs)" by force
  have "avail (fold (unlink_victim io i) vs (upd_man i (\<lambda>m. m\<lparr>sm_index := sm_index (man i w1), sm_incompatible := inc\<rparr>) w1))"
    using 1 startup_shrunk [OF s] startup_victims [OF s] unfolding w1_def [symmetric] by (intro avail_enforced) auto
  moreover have "upd_man i (\<lambda>m. m\<lparr>sm_index := sm_index (man i w1), sm_incompatible := inc\<rparr>) w1 =
      upd_man i (\<lambda>m. m\<lparr>sm_incompatible := inc\<rparr>) w1"
    by (simp add: upd_man_def man_def)
  ultimately show ?thesis
    using s by (simp add: enforce_incompatible_at_startup_def Let_def case_prod_beta w1_def)
qed

lemma avail_open:
  assumes "avail w" "only named w" "careful_open c w"
  shows "avail (open_manager cd io i c w)"
proof -
  define w1 where "w1 = register_manager (sm_key (new_manager c :: 'a ssd_manager)) (sm_model (new_manager c :: 'a ssd_manager))
    (w\<lparr>w_managers := (w_managers w)(i := new_manager c)\<rparr>)"
  have m: "man j w1 = (if j = i then new_manager c else man j w)" for j by (simp add: w1_def)
  have f: "w_files w1 = w_files w" by (simp add: w1_def)
  have "alone w1"
    using assms(1,3) unfolding alone_def avail_def careful_open_def m by (auto split: if_splits)
  moreover have "backed fs (new_manager c)" for fs
    by (auto simp: backed_def config_dir_def new_manager_def split: option.split)
  ultimately have 1: "avail w1" using assms(1) by (simp add: avail_def m f)
  have "avail (scan_disk_index cd io i dir w1)" if dir: "config_dir c = Some dir" for dir
  proof -
    have "avail (fold (scan_file cd io i) (shard_files dir w1) w1)"
    proof (rule avail_scan_files [OF 1])
      show "sm_dir (man i w1) = Some dir" by (simp add: m dir)
      show "distinct (map fst (shard_files dir w1))" using 1 by (intro shards_distinct) (simp add: avail_def)
      show "set (map fst (shard_files dir w1)) \<inter> (known (man i w1) \<union> outdated (man i w1)) = {}" by (simp add: m)
      fix p assume "p \<in> set (shard_files dir w1)"
      from shard_in [OF this] have p: "((dir, fst p), snd p) \<in> set (w_files w)" by (simp add: f)
      with named_file [OF assms(2) p]
      show "(dir, fst p) \<in> file_names w1 \<and> hd_hash (sf_header (snd p)) = fst p \<and> from_hex (fst p) = Some (fst p)" by (force simp: f)
    qed
    then show ?thesis by (simp add: scan_disk_index_def avail_repair avail_startup)
  qed
  with 1 show ?thesis by (simp add: open_manager_def Let_def w1_def [symmetric] split: option.split)
qed

section \<open>Every step of a careful process\<close>

lemma avail_step: "ssd_step cd content True w w' \<Longrightarrow> only named w \<Longrightarrow> avail w \<Longrightarrow> avail w'"
proof (induction rule: ssd_step.induct)
  case (open_new i w c io)
  then show ?case by (intro avail_open) auto
next
  case (adopt w i types)
  then show ?case by (auto simp: adopt_layer_signature_def view_def intro!: avail_upd_view)
next
  case (expect w i types)
  then show ?case by (auto simp: set_expected_signature_def Let_def view_def intro!: avail_upd_view)
next
  case (sort w i)
  then show ?case by (auto simp: sort_lru_by_last_access_def intro: avail_shrunk)
next
  case (stats w io i)
  then show ?case by (simp add: ssd_get_stats_def Let_def case_prod_beta)
next
  case (store b ls i w io)
  then show ?case by (auto simp: store_block_def intro!: avail_save)
next
  case (save r h ls i w io)
  then show ?case by (intro avail_save) auto
next
  case (touch_save r w io i)
  then show ?case by (intro avail_save) auto
qed (auto simp: avail_load avail_load_meta avail_writer avail_delete avail_forget avail_enforce avail_invalidate avail_sweep avail_repair
    intro: avail_hot [OF _ hot_frame_shrink] avail_hot [OF _ hot_frame_clear_hot] avail_hot [OF _ hot_frame_clear_all_owners]
      avail_hot [OF _ hot_frame_preload])

lemma avail_reachable:
  assumes "ssd_reachable cd content True w0 w" "only named w0" "avail w0" "\<And>h ls. content h ls \<Longrightarrow> hex_text_of h"
  shows "avail w"
  using assms(1)
proof (induction rule: ssd_reachable.induct)
  case start
  show ?case by (rule assms(3))
next
  case (step w w')
  show ?case
    by (rule avail_step [OF step.hyps(2) only_reachable [OF step.hyps(1) named_promoting named_adds [OF assms(4)] assms(2)] step.IH])
qed

end
