(* ===== verification/SsdEnforce.thy ===== *)
theory SsdEnforce
  imports SsdAvail
begin

text \<open>
  What enforcing the size limit removes: the least recently used blocks, never those of another
  live model, and it reports the bytes it frees.
\<close>

section \<open>The least recently used blocks\<close>

definition last_use :: "string \<times> ssd_meta \<Rightarrow> rat" where
  "last_use p = md_access (snd p)"

text \<open>\<open>B\<close> is what is left of \<open>A\<close> when nothing went that was used after something that stays.\<close>

definition lru_gone :: "(string \<times> ssd_meta) set \<Rightarrow> (string \<times> ssd_meta) set \<Rightarrow> bool" where
  "lru_gone A B \<longleftrightarrow> B \<subseteq> A \<and> (\<forall>p \<in> A - B. \<forall>q \<in> B. last_use p \<le> last_use q)"

lemma lru_gone_refl [simp, intro]: "lru_gone A A"
  by (simp add: lru_gone_def)

lemma lru_gone_trans: "lru_gone A B \<Longrightarrow> lru_gone B C \<Longrightarrow> lru_gone A C"
  unfolding lru_gone_def by blast

lemma lru_prefix: "0 \<le> n \<Longrightarrow> get_lru_entries n x = take (nat n) (sort_key last_use (ix_blocks x))"
  by (simp add: get_lru_entries_def pyslice_def slice_bound_def min_def last_use_def [abs_def])

lemma sorted_key_split:
  assumes "xs @ ys = sort_key f zs" "a \<in> set xs" "b \<in> set ys"
  shows "f a \<le> f b"
proof -
  have "sorted (map f (xs @ ys))" unfolding assms(1) by simp
  with assms(2,3) show ?thesis by (auto simp: sorted_append)
qed

lemma lru_first:
  assumes "get_lru_entries 1 x = p # ps" "q \<in> set (ix_blocks x)"
  shows "last_use p \<le> last_use q" "p \<in> set (ix_blocks x)"
proof -
  obtain qs where s: "sort_key last_use (ix_blocks x) = p # qs"
    using assms(1) by (cases "sort_key last_use (ix_blocks x)") (auto simp: lru_prefix)
  have "set (p # qs) = set (ix_blocks x)" unfolding s [symmetric] by simp
  moreover have "last_use p \<le> last_use q'" if "q' \<in> set qs" for q'
    using sorted_key_split [of "[p]" qs last_use "ix_blocks x" p q'] s that by simp
  ultimately show "last_use p \<le> last_use q" "p \<in> set (ix_blocks x)" using assms(2) by (metis order_refl set_ConsD, auto)
qed

lemma lru_none: "get_lru_entries 1 x = [] \<longleftrightarrow> ix_blocks x = []"
  by (simp add: lru_prefix) (metis length_0_conv length_sort)

lemma remove_keeps:
  assumes "exact x" "p \<in> set (ix_blocks x)"
  shows "set (ix_blocks (snd (index_remove (fst p) x))) = set (ix_blocks x) - {p}"
    and "Suc (length (ix_blocks (snd (index_remove (fst p) x)))) = length (ix_blocks x)"
    and "ix_total (snd (index_remove (fst p) x)) = ix_total x - md_size (snd p)"
proof -
  have d: "distinct (dict_keys (ix_blocks x))" using assms(1) by (simp add: exact_def)
  have "q = p" if "q \<in> set (ix_blocks x)" "fst q = fst p" for q
    using d that assms(2) by (metis eq_key_imp_eq_value prod.collapse)
  then show "set (ix_blocks (snd (index_remove (fst p) x))) = set (ix_blocks x) - {p}"
    by (auto simp: blocks_remove set_dict_del)
  show "Suc (length (ix_blocks (snd (index_remove (fst p) x)))) = length (ix_blocks x)"
    using length_dict_del [OF d, of "fst p"] assms(2) by (simp add: blocks_remove)
  show "ix_total (snd (index_remove (fst p) x)) = ix_total x - md_size (snd p)"
    using total_remove [OF assms(1), of "fst p" "snd p"] assms(2) by simp
qed

section \<open>After a save\<close>

lemma reclaim_result:
  assumes "ssd_reclaim_loop foreign eff n x inc vs = (x', inc', vs')" "exact x" "n \<le> max_inline_unlinks"
  shows "lru_gone (set (ix_blocks x)) (set (ix_blocks x')) \<and> length (ix_blocks x') \<le> length (ix_blocks x) \<and>
    n + length (ix_blocks x) \<le> max_inline_unlinks + length (ix_blocks x') \<and>
    (ix_total x' + ix_total inc' \<le> eff \<or> pick_reclaimable foreign inc' = None \<and>
      (ix_blocks x' = [] \<or> n + length (ix_blocks x) = max_inline_unlinks + length (ix_blocks x')))"
  using assms
proof (induction foreign eff n x inc vs rule: ssd_reclaim_loop.induct)
  case (1 foreign eff n x inc vs)
  show ?case
  proof (cases "ix_total x + ix_total inc \<le> eff")
    case True
    with 1(3,5) show ?thesis by (simp add: ssd_reclaim_loop.simps [of foreign eff n x inc vs])
  next
    case over: False
    show ?thesis
    proof (cases "pick_reclaimable foreign inc")
      case (Some p)
      with over 1(3) have "ssd_reclaim_loop foreign eff n x (snd (index_remove (fst p) inc)) (vs @ [fst p]) = (x', inc', vs')"
        by (simp add: ssd_reclaim_loop.simps [of foreign eff n x inc vs] case_prod_beta)
      with 1(2) [OF over Some, of "fst p" "snd p"] 1(4,5) show ?thesis by simp
    next
      case None
      show ?thesis
      proof (cases "ix_blocks x = [] \<or> max_inline_unlinks \<le> n")
        case True
        with over None 1(3) have "x' = x" "inc' = inc" by (auto simp: ssd_reclaim_loop.simps [of foreign eff n x inc vs])
        with True None 1(5) show ?thesis by auto
      next
        case False
        then obtain p ps where lru: "get_lru_entries 1 x = p # ps" using lru_none [of x] by (cases "get_lru_entries 1 x") auto
        let ?y = "snd (index_remove (fst p) x)"
        have p: "p \<in> set (ix_blocks x)" using get_lru_in [of 1 x] lru by auto
        note r = remove_keeps [OF 1(4) p]
        have "lru_gone (set (ix_blocks x)) (set (ix_blocks ?y))"
          using lru_first(1) [OF lru] p unfolding r(1) lru_gone_def by auto
        moreover
        have l: "ssd_reclaim_loop foreign eff (n + 1) ?y inc (vs @ [fst p]) = (x', inc', vs')"
          using over None False lru 1(3) by (simp add: ssd_reclaim_loop.simps [of foreign eff n x inc vs] case_prod_beta)
        ultimately show ?thesis
          using r(2) False 1(1) [OF over None False lru, of "fst p" "snd p"] l exact_remove [OF 1(4), of "fst p"]
          by (auto intro: lru_gone_trans)
      qed
    qed
  qed
qed

section \<open>In batches\<close>

text \<open>\<open>ps\<close> are the least recently used blocks of the index, in order.\<close>

definition next_out :: "(string \<times> ssd_meta) list \<Rightarrow> ssd_index \<Rightarrow> bool" where
  "next_out ps x \<longleftrightarrow> distinct ps \<and> set ps \<subseteq> set (ix_blocks x) \<and> sorted (map last_use ps) \<and>
     (\<forall>p \<in> set ps. \<forall>q \<in> set (ix_blocks x) - set ps. last_use p \<le> last_use q)"

lemma next_out_lru:
  assumes "exact x" "0 \<le> n"
  shows "next_out (get_lru_entries n x) x"
proof -
  let ?s = "sort_key last_use (ix_blocks x)"
  have s: "take (nat n) ?s @ drop (nat n) ?s = ?s" by simp
  have d: "distinct ?s" using assms(1) by (simp add: exact_def distinct_map)
  have set: "set ?s = set (ix_blocks x)" by simp
  have "last_use p \<le> last_use q" if "p \<in> set (take (nat n) ?s)" "q \<in> set (ix_blocks x) - set (take (nat n) ?s)" for p q
  proof (rule sorted_key_split [OF s that(1)])
    have "q \<in> set (take (nat n) ?s @ drop (nat n) ?s)" unfolding s set using that(2) by blast
    with that(2) show "q \<in> set (drop (nat n) ?s)" by (simp only: set_append) blast
  qed
  moreover have "sorted (map last_use (take (nat n) ?s))" by (simp add: sorted_wrt_take flip: take_map)
  moreover have "set (take (nat n) ?s) \<subseteq> set (ix_blocks x)" using set_take_subset [of "nat n" ?s] by simp
  ultimately show ?thesis using d unfolding lru_prefix [OF assms(2)] next_out_def by simp
qed

lemma batch_mono: "batch_loop eff other ps n x freed vs = (n', x', freed', vs') \<Longrightarrow> length vs \<le> length vs'"
  by (induction eff other ps n x freed vs rule: batch_loop.induct) (auto split: if_splits)

lemma batch_grows:
  assumes "batch_loop eff other ps n x freed vs = (n', x', freed', vs')" "ps \<noteq> []" "ix_total x + other > eff" "n < max_inline_unlinks"
  shows "vs' \<noteq> []"
proof -
  obtain h m qs where "ps = (h, m) # qs" using assms(2) by (metis neq_Nil_conv surj_pair)
  with assms have "batch_loop eff other qs (n + 1) (snd (index_remove h x)) (freed + md_size m) (vs @ [h]) = (n', x', freed', vs')"
    by simp
  from batch_mono [OF this] show ?thesis by auto
qed

lemma batch_result:
  assumes "batch_loop eff other ps n x freed vs = (n', x', freed', vs')" "exact x" "set ps \<subseteq> set (ix_blocks x)" "distinct ps"
  shows "freed' = freed + ix_total x - ix_total x' \<and> n' + length (ix_blocks x') = n + length (ix_blocks x) \<and>
    length vs' + length (ix_blocks x') = length vs + length (ix_blocks x) \<and>
    (next_out ps x \<longrightarrow> lru_gone (set (ix_blocks x)) (set (ix_blocks x'))) \<and>
    (ix_total x' + other \<le> eff \<or> n' \<ge> max_inline_unlinks \<or> set (ix_blocks x') = set (ix_blocks x) - set ps)"
  using assms
proof (induction eff other ps n x freed vs rule: batch_loop.induct)
  case (1 eff other n x freed vs)
  then show ?case by simp
next
  case (2 eff other h m ps n x freed vs)
  show ?case
  proof (cases "ix_total x + other \<le> eff \<or> n \<ge> max_inline_unlinks")
    case True
    with 2(2) show ?thesis by (auto split: if_splits)
  next
    case False
    let ?y = "snd (index_remove h x)"
    have l: "batch_loop eff other ps (n + 1) ?y (freed + md_size m) (vs @ [h]) = (n', x', freed', vs')"
      using 2(2) False by simp
    have p: "(h, m) \<in> set (ix_blocks x)" using 2(4) by simp
    note r = remove_keeps [OF 2(3) p, unfolded fst_conv snd_conv]
    have ps: "set ps \<subseteq> set (ix_blocks ?y)" "distinct ps" using 2(4,5) unfolding r(1) by auto
    have next': "next_out ps ?y \<and> lru_gone (set (ix_blocks x)) (set (ix_blocks ?y))" if "next_out ((h, m) # ps) x"
      using that unfolding next_out_def lru_gone_def r(1) by auto
    from 2(1) [OF False l exact_remove [OF 2(3)] ps]
    show ?thesis using r next' by (auto intro: lru_gone_trans)
  qed
qed

lemma reclaimable_out:
  assumes "exact x"
  shows "set (reclaimable foreign n x) \<subseteq> set (ix_blocks x)" "distinct (reclaimable foreign n x)"
proof -
  have "next_out (get_lru_entries (max 1 n) x) x" by (rule next_out_lru [OF assms]) simp
  then show "set (reclaimable foreign n x) \<subseteq> set (ix_blocks x)" "distinct (reclaimable foreign n x)"
    by (auto simp: next_out_def reclaimable_def)
qed

lemma lru_some: "0 < n \<Longrightarrow> ix_blocks x \<noteq> [] \<Longrightarrow> get_lru_entries n x \<noteq> []"
  by (simp add: lru_prefix) (metis length_0_conv length_sort)

text \<open>What a batch does: it stops early only when nothing is over the limit or nothing may go.\<close>

definition batch_done :: "string list \<Rightarrow> int \<Rightarrow> ssd_index \<Rightarrow> ssd_index \<Rightarrow> bool" where
  "batch_done foreign eff x inc \<longleftrightarrow> ix_total x + ix_total inc \<le> eff \<or>
     ix_blocks x = [] \<and> reclaimable foreign (int max_inline_unlinks) inc = []"

lemma enforce_batch_result:
  assumes "enforce_batch foreign eff x inc = (x', inc', freed, vs)" "exact x" "exact inc"
  shows "freed = ix_total x + ix_total inc - ix_total x' - ix_total inc' \<and>
    length vs + length (ix_blocks x') + length (ix_blocks inc') = length (ix_blocks x) + length (ix_blocks inc) \<and>
    lru_gone (set (ix_blocks x)) (set (ix_blocks x')) \<and> (vs = [] \<longrightarrow> batch_done foreign eff x inc)"
proof -
  define first where "first = (if ix_total x + ix_total inc > eff \<and> ix_blocks inc \<noteq> []
     then batch_loop eff (ix_total x) (reclaimable foreign (int max_inline_unlinks) inc) 0 inc 0 [] else (0, inc, 0, []))"
  obtain n inc1 f1 vs1 where 1: "first = (n, inc1, f1, vs1)" by (metis prod_cases4)
  define second where "second = (if ix_total x + ix_total inc1 > eff \<and> n < max_inline_unlinks \<and> ix_blocks x \<noteq> []
     then batch_loop eff (ix_total inc1) (get_lru_entries (int max_inline_unlinks - int n) x) n x f1 vs1 else (n, x, f1, vs1))"
  obtain n2 x2 f2 vs2 where 2: "second = (n2, x2, f2, vs2)" by (metis prod_cases4)
  have r: "x' = x2" "inc' = inc1" "vs = vs2" "freed = f2"
    using assms(1) 1 2 unfolding enforce_batch_def Let_def first_def [symmetric] by (auto simp: second_def)
  have a: "f1 = ix_total inc - ix_total inc1 \<and> length vs1 + length (ix_blocks inc1) = length (ix_blocks inc) \<and>
      n + length (ix_blocks inc1) = length (ix_blocks inc)"
  proof (cases "ix_total x + ix_total inc > eff \<and> ix_blocks inc \<noteq> []")
    case True
    with 1 have "batch_loop eff (ix_total x) (reclaimable foreign (int max_inline_unlinks) inc) 0 inc 0 [] = (n, inc1, f1, vs1)"
      by (simp add: first_def)
    from batch_result [OF this assms(3) reclaimable_out [OF assms(3)]] show ?thesis by auto
  next
    case False
    with 1 show ?thesis by (auto simp: first_def)
  qed
  have b: "f2 = f1 + ix_total x - ix_total x2 \<and> length vs2 + length (ix_blocks x2) = length vs1 + length (ix_blocks x) \<and>
      lru_gone (set (ix_blocks x)) (set (ix_blocks x2))"
  proof (cases "ix_total x + ix_total inc1 > eff \<and> n < max_inline_unlinks \<and> ix_blocks x \<noteq> []")
    case True
    then have l: "batch_loop eff (ix_total inc1) (get_lru_entries (int max_inline_unlinks - int n) x) n x f1 vs1 = (n2, x2, f2, vs2)"
      using 2 by (simp add: second_def)
    have o: "next_out (get_lru_entries (int max_inline_unlinks - int n) x) x" using True by (intro next_out_lru [OF assms(2)]) simp
    with batch_result [OF l assms(2)] show ?thesis by (auto simp: next_out_def)
  next
    case False
    with 2 show ?thesis by (auto simp: second_def)
  qed
  have "batch_done foreign eff x inc" if none: "vs2 = []"
  proof (rule ccontr)
    assume neg: "\<not> ?thesis"
    then have over: "ix_total x + ix_total inc > eff" by (simp add: batch_done_def)
    have "length vs1 \<le> length vs2" using 2 batch_mono unfolding second_def by (fastforce split: if_splits)
    with none have v1: "vs1 = []" by simp
    have e: "reclaimable foreign (int max_inline_unlinks) inc = []"
    proof (rule ccontr)
      assume ne: "\<not> ?thesis"
      then have "ix_blocks inc \<noteq> []" using reclaimable_out(1) [OF assms(3), of foreign "int max_inline_unlinks"] by auto
      with 1 over have l: "batch_loop eff (ix_total x) (reclaimable foreign (int max_inline_unlinks) inc) 0 inc 0 [] = (n, inc1, f1, vs1)"
        by (simp add: first_def)
      have "ix_total inc + ix_total x > eff" "0 < max_inline_unlinks" using over by (simp_all add: max_inline_unlinks_def)
      from batch_grows [OF l ne this] v1 show False by simp
    qed
    with 1 have "inc1 = inc" "n = 0" by (auto simp: first_def split: if_splits)
    moreover have x: "ix_blocks x \<noteq> []" using neg e by (simp add: batch_done_def)
    ultimately have l: "batch_loop eff (ix_total inc) (get_lru_entries (int max_inline_unlinks) x) 0 x f1 vs1 = (n2, x2, f2, vs2)"
      using 2 over by (simp add: second_def max_inline_unlinks_def)
    have "get_lru_entries (int max_inline_unlinks) x \<noteq> []" using x by (intro lru_some) (simp_all add: max_inline_unlinks_def)
    from batch_grows [OF l this over] none show False by (simp add: max_inline_unlinks_def)
  qed
  with a b r show ?thesis by auto
qed

section \<open>The whole enforcement\<close>

lemma victims_sel [simp]: "sm_index (man j (fold (unlink_victim io i) vs w)) = sm_index (man j w)"
    "sm_incompatible (man j (fold (unlink_victim io i) vs w)) = sm_incompatible (man j w)"
    "sm_key (man j (fold (unlink_victim io i) vs w)) = sm_key (man j w)" "sm_model (man j (fold (unlink_victim io i) vs w)) = sm_model (man j w)"
    "sm_dir (man j (fold (unlink_victim io i) vs w)) = sm_dir (man j w)" "w_models (fold (unlink_victim io i) vs w) = w_models w"
  by (induction vs arbitrary: w) (auto simp: unlink_victim_def unlink_def tick_def Let_def case_prod_beta split: option.split)

lemma effective_sel [simp]: "sm_index (man j (snd (get_effective_max_size io i w))) = sm_index (man j w)"
    "sm_incompatible (man j (snd (get_effective_max_size io i w))) = sm_incompatible (man j w)"
    "sm_key (man j (snd (get_effective_max_size io i w))) = sm_key (man j w)" "sm_model (man j (snd (get_effective_max_size io i w))) = sm_model (man j w)"
    "sm_dir (man j (snd (get_effective_max_size io i w))) = sm_dir (man j w)" "w_models (snd (get_effective_max_size io i w)) = w_models w"
    "w_files (snd (get_effective_max_size io i w)) = w_files w"
  by (auto simp: get_effective_max_size_def Let_def split: option.split)

lemma foreign_sel: "sm_key (man i w') = sm_key (man i w) \<Longrightarrow> sm_model (man i w') = sm_model (man i w) \<Longrightarrow> w_models w' = w_models w \<Longrightarrow>
    live_foreign_models i w' = live_foreign_models i w"
  by (simp add: live_foreign_models_def cong: option.case_cong)

definition within_limit :: "int \<Rightarrow> nat \<Rightarrow> 'd ssd_world \<Rightarrow> bool" where
  "within_limit eff i w \<longleftrightarrow> batch_done (live_foreign_models i w) eff (sm_index (man i w)) (sm_incompatible (man i w))"

lemma batches_result:
  assumes "enforce_batches k io i eff freed w = (freed', w')" "exact (sm_index (man i w))" "exact (sm_incompatible (man i w))"
  shows "freed' = freed + tracked_ssd_size (man i w) - tracked_ssd_size (man i w') \<and>
    lru_gone (set (ix_blocks (sm_index (man i w)))) (set (ix_blocks (sm_index (man i w')))) \<and>
    (within_limit eff i w' \<or> tracked_ssd_count (man i w') + int k \<le> tracked_ssd_count (man i w))"
  using assms
proof (induction k arbitrary: freed w)
  case 0
  then show ?case by simp
next
  case (Suc k)
  obtain x inc bf vs where b: "enforce_batch (live_foreign_models i w) eff (sm_index (man i w)) (sm_incompatible (man i w)) =
      (x, inc, bf, vs)" by (metis prod_cases4)
  define w1 where "w1 = fold (unlink_victim io i) vs (upd_man i (\<lambda>m. m\<lparr>sm_index := x, sm_incompatible := inc\<rparr>) w)"
  have w1: "sm_index (man i w1) = x" "sm_incompatible (man i w1) = inc" by (simp_all add: w1_def)
  have e: "exact x" "exact inc" using enforce_batch_shrunk [OF b] Suc.prems(2,3) by (simp_all add: shrunk_def)
  note r = enforce_batch_result [OF b Suc.prems(2,3)]
  show ?case
  proof (cases "vs = []")
    case True
    with Suc.prems(1) b have "w' = w" "freed' = freed" by simp_all
    with True r show ?thesis by (simp add: within_limit_def)
  next
    case False
    have size: "bf = tracked_ssd_size (man i w) - tracked_ssd_size (man i w1)" using r by (simp add: tracked_ssd_size_def w1)
    have cnt: "tracked_ssd_count (man i w1) + 1 \<le> tracked_ssd_count (man i w)"
      using r False by (cases vs) (auto simp: tracked_ssd_count_def index_count_def w1)
    have gone: "lru_gone (set (ix_blocks (sm_index (man i w)))) (set (ix_blocks (sm_index (man i w1))))" using r by (simp add: w1)
    show ?thesis
    proof (cases "tracked_ssd_size (man i w1) \<le> eff")
      case True
      with False Suc.prems(1) b have "w' = w1" "freed' = freed + bf" by (simp_all add: w1_def Let_def)
      with True size gone show ?thesis by (simp add: within_limit_def batch_done_def tracked_ssd_size_def)
    next
      case over: False
      with False Suc.prems(1) b have l: "enforce_batches k io i eff (freed + bf) w1 = (freed', w')" by (simp add: w1_def Let_def)
      from Suc.IH [OF l] e size cnt gone show ?thesis by (auto simp: w1 intro: lru_gone_trans)
    qed
  qed
qed

section \<open>Blocks of live models\<close>

definition spared :: "string list \<Rightarrow> string \<Rightarrow> ssd_index \<Rightarrow> bool" where
  "spared foreign h inc \<longleftrightarrow> (\<exists>md. map_of (ix_blocks inc) h = Some md \<and> md_model md \<noteq> [] \<and> md_model md \<in> set foreign)"

lemma distinct_remove: "distinct (dict_keys (ix_blocks x)) \<Longrightarrow> distinct (dict_keys (ix_blocks (snd (index_remove h x))))"
  by (simp add: blocks_remove)

lemma reclaimable_foreign:
  assumes "p \<in> set (reclaimable foreign n x)" "distinct (dict_keys (ix_blocks x))"
  shows "\<not> spared foreign (fst p) x"
proof -
  have "p \<in> set (ix_blocks x)" and p: "md_model (snd p) = [] \<or> md_model (snd p) \<notin> set foreign"
    using assms(1) get_lru_in [of "max 1 n" x] by (auto simp: reclaimable_def)
  then have "map_of (ix_blocks x) (fst p) = Some (snd p)" using assms(2) by (intro map_of_is_SomeI) auto
  with p show ?thesis by (auto simp: spared_def)
qed

lemma pick_foreign: "pick_reclaimable foreign x = Some p \<Longrightarrow> distinct (dict_keys (ix_blocks x)) \<Longrightarrow> \<not> spared foreign (fst p) x"
  by (rule reclaimable_foreign [of p foreign "max 1 (index_count x)"]) (auto simp: pick_reclaimable_def split: list.splits)

lemma kept_remove: "h \<noteq> k \<Longrightarrow> map_of (ix_blocks (snd (index_remove k x))) h = map_of (ix_blocks x) h"
  by (simp add: blocks_remove map_of_dict_del)

lemma spared_remove: "spared foreign h x \<Longrightarrow> h \<noteq> k \<Longrightarrow> spared foreign h (snd (index_remove k x))"
  by (simp add: spared_def kept_remove)

lemma reclaim_spares:
  assumes "ssd_reclaim_loop foreign eff n x inc vs = (x', inc', vs')" "distinct (dict_keys (ix_blocks inc))" "spared foreign h inc"
  shows "map_of (ix_blocks inc') h = map_of (ix_blocks inc) h \<and> (h \<notin> set vs \<longrightarrow> h \<notin> set (get_all_hashes x) \<longrightarrow> h \<notin> set vs')"
  using assms
proof (induction foreign eff n x inc vs rule: ssd_reclaim_loop.induct)
  case (1 foreign eff n x inc vs)
  show ?case
  proof (cases "ix_total x + ix_total inc \<le> eff")
    case True
    with 1(3) show ?thesis by (simp add: ssd_reclaim_loop.simps [of foreign eff n x inc vs])
  next
    case over: False
    show ?thesis
    proof (cases "pick_reclaimable foreign inc")
      case (Some p)
      with over 1(3) have l: "ssd_reclaim_loop foreign eff n x (snd (index_remove (fst p) inc)) (vs @ [fst p]) = (x', inc', vs')"
        by (simp add: ssd_reclaim_loop.simps [of foreign eff n x inc vs] case_prod_beta)
      have "h \<noteq> fst p" using pick_foreign [OF Some 1(4)] 1(5) by auto
      with 1(2) [OF over Some, of "fst p" "snd p"] l distinct_remove [OF 1(4)] spared_remove [OF 1(5)] kept_remove show ?thesis by auto
    next
      case None
      show ?thesis
      proof (cases "ix_blocks x = [] \<or> max_inline_unlinks \<le> n")
        case True
        with over None 1(3) show ?thesis by (auto simp: ssd_reclaim_loop.simps [of foreign eff n x inc vs])
      next
        case False
        then obtain p ps where lru: "get_lru_entries 1 x = p # ps" using lru_none [of x] by (cases "get_lru_entries 1 x") auto
        with over None False 1(3)
        have l: "ssd_reclaim_loop foreign eff (n + 1) (snd (index_remove (fst p) x)) inc (vs @ [fst p]) = (x', inc', vs')"
          by (simp add: ssd_reclaim_loop.simps [of foreign eff n x inc vs] case_prod_beta)
        have "fst p \<in> set (get_all_hashes x)" using get_lru_in [of 1 x] lru by (auto simp: get_all_hashes_def)
        with 1(1) [OF over None False lru, of "fst p" "snd p"] l 1(4,5) show ?thesis by auto
      qed
    qed
  qed
qed

lemma startup_spares:
  assumes "startup_loop foreign eff other inc vs = (inc', vs')" "distinct (dict_keys (ix_blocks inc))" "spared foreign h inc"
  shows "map_of (ix_blocks inc') h = map_of (ix_blocks inc) h"
  using assms
proof (induction foreign eff other inc vs rule: startup_loop.induct)
  case (1 foreign eff other inc vs)
  show ?case
  proof (cases "other + ix_total inc > eff \<and> ix_blocks inc \<noteq> []")
    case False
    with 1(2) show ?thesis by (auto simp: startup_loop.simps [of foreign eff other inc vs])
  next
    case over: True
    show ?thesis
    proof (cases "pick_reclaimable foreign inc")
      case None
      with over 1(2) show ?thesis by (simp add: startup_loop.simps [of foreign eff other inc vs])
    next
      case (Some p)
      with over 1(2) have l: "startup_loop foreign eff other (snd (index_remove (fst p) inc)) (vs @ [fst p]) = (inc', vs')"
        by (simp add: startup_loop.simps [of foreign eff other inc vs] case_prod_beta)
      have "h \<noteq> fst p" using pick_foreign [OF Some 1(3)] 1(4) by auto
      with 1(1) [OF over Some, of "fst p" "snd p"] l distinct_remove [OF 1(3)] spared_remove [OF 1(4)] kept_remove show ?thesis by auto
    qed
  qed
qed

lemma batch_spares: "batch_loop eff other ps n x freed vs = (n', x', freed', vs') \<Longrightarrow> h \<notin> fst ` set ps \<Longrightarrow>
    map_of (ix_blocks x') h = map_of (ix_blocks x) h \<and> (h \<in> set vs' \<longrightarrow> h \<in> set vs)"
  by (induction eff other ps n x freed vs rule: batch_loop.induct) (auto simp: kept_remove split: if_splits)

lemma batch_distinct: "batch_loop eff other ps n x freed vs = (n', x', freed', vs') \<Longrightarrow> distinct (dict_keys (ix_blocks x)) \<Longrightarrow>
    distinct (dict_keys (ix_blocks x'))"
  by (induction eff other ps n x freed vs rule: batch_loop.induct) (auto simp: distinct_remove split: if_splits)

lemma enforce_batch_distinct: "enforce_batch foreign eff x inc = (x', inc', freed, vs) \<Longrightarrow> distinct (dict_keys (ix_blocks inc)) \<Longrightarrow>
    distinct (dict_keys (ix_blocks inc'))"
  by (auto simp: enforce_batch_def Let_def dest: batch_distinct split: prod.splits if_splits)

lemma enforce_batch_spares:
  assumes "enforce_batch foreign eff x inc = (x', inc', freed, vs)" "distinct (dict_keys (ix_blocks inc))" "spared foreign h inc"
  shows "map_of (ix_blocks inc') h = map_of (ix_blocks inc) h \<and> (h \<notin> set (get_all_hashes x) \<longrightarrow> h \<notin> set vs)"
proof -
  have "h \<notin> fst ` set (reclaimable foreign (int max_inline_unlinks) inc)"
    using reclaimable_foreign [OF _ assms(2)] assms(3) by force
  moreover have "h \<notin> fst ` set (get_lru_entries k x)" if "h \<notin> set (get_all_hashes x)" for k
    using lru_hashes [of k x] that by auto
  ultimately show ?thesis
    using assms(1) by (auto simp: enforce_batch_def Let_def dest!: batch_spares [where h = h] split: prod.splits if_splits)
qed

lemma victims_file: "h \<notin> set vs \<Longrightarrow> map_of (w_files (fold (unlink_victim io i) vs w)) (d, h) = map_of (w_files w) (d, h)"
proof (induction vs arbitrary: w)
  case Nil
  then show ?case by simp
next
  case (Cons v vs)
  have "map_of (w_files (unlink_victim io i v w)) (d, h) = map_of (w_files w) (d, h)"
    using Cons.prems by (auto simp: unlink_victim_def unlink_def tick_def Let_def map_of_dict_del split: option.split)
  with Cons show ?case by simp
qed

definition keeps_block :: "nat \<Rightarrow> string \<Rightarrow> 'd ssd_world \<Rightarrow> 'd ssd_world \<Rightarrow> bool" where
  "keeps_block i h w w' \<longleftrightarrow> index_get h (sm_incompatible (man i w')) = index_get h (sm_incompatible (man i w)) \<and>
     (\<forall>d. map_of (w_files w') (d, h) = map_of (w_files w) (d, h))"

lemma keeps_enforced:
  assumes "map_of (ix_blocks inc) h = map_of (ix_blocks (sm_incompatible (man i w))) h" "h \<notin> set vs"
  shows "keeps_block i h w (fold (unlink_victim io i) vs (upd_man i (\<lambda>m. m\<lparr>sm_index := x, sm_incompatible := inc\<rparr>) w))"
  using assms by (simp add: keeps_block_def index_get_def victims_file)

lemma keeps_trans: "keeps_block i h u v \<Longrightarrow> keeps_block i h v w \<Longrightarrow> keeps_block i h u w"
  by (simp add: keeps_block_def)

lemma keeps_effective: "keeps_block i h w (snd (get_effective_max_size io i w))"
  by (simp add: keeps_block_def)

lemma enforce_new_spares:
  assumes "distinct (dict_keys (ix_blocks (sm_incompatible (man i w))))" "spared (live_foreign_models i w) h (sm_incompatible (man i w))"
    "h \<notin> known (man i w)"
  shows "keeps_block i h w (enforce_size_limit_for_new_block io i w)"
proof -
  define w1 where "w1 = snd (get_effective_max_size io i w)"
  have sel: "sm_index (man i w1) = sm_index (man i w)" "sm_incompatible (man i w1) = sm_incompatible (man i w)"
    by (simp_all add: w1_def)
  have fgn: "live_foreign_models i w1 = live_foreign_models i w" by (rule foreign_sel) (simp_all add: w1_def)
  obtain x inc vs where r: "ssd_reclaim_loop (live_foreign_models i w) (fst (get_effective_max_size io i w)) 0 (sm_index (man i w)) (sm_incompatible (man i w)) [] =
      (x, inc, vs)" by (metis prod_cases3)
  have "keeps_block i h w1 (fold (unlink_victim io i) vs (upd_man i (\<lambda>m. m\<lparr>sm_index := x, sm_incompatible := inc\<rparr>) w1))"
    using reclaim_spares [OF r assms(1,2)] assms(3) by (intro keeps_enforced) (simp_all add: sel)
  with r keeps_effective [of i h w io] show ?thesis
    by (simp add: enforce_size_limit_for_new_block_def case_prod_beta w1_def [symmetric] fgn sel keeps_trans)
qed

lemma batches_spare:
  assumes "distinct (dict_keys (ix_blocks (sm_incompatible (man i w))))" "spared (live_foreign_models i w) h (sm_incompatible (man i w))"
    "h \<notin> known (man i w)"
  shows "keeps_block i h w (snd (enforce_batches k io i eff freed w))"
  using assms
proof (induction k arbitrary: freed w)
  case 0
  then show ?case by (simp add: keeps_block_def)
next
  case (Suc k)
  obtain x inc bf vs where b: "enforce_batch (live_foreign_models i w) eff (sm_index (man i w)) (sm_incompatible (man i w)) =
      (x, inc, bf, vs)" by (metis prod_cases4)
  define w1 where "w1 = fold (unlink_victim io i) vs (upd_man i (\<lambda>m. m\<lparr>sm_index := x, sm_incompatible := inc\<rparr>) w)"
  note s = enforce_batch_spares [OF b Suc.prems(1,2)]
  have sel: "sm_index (man i w1) = x" "sm_incompatible (man i w1) = inc" by (simp_all add: w1_def)
  have k: "keeps_block i h w w1" unfolding w1_def using s Suc.prems(3) by (intro keeps_enforced) auto
  have fgn: "live_foreign_models i w1 = live_foreign_models i w" by (rule foreign_sel) (simp_all add: w1_def)
  have "distinct (dict_keys (ix_blocks inc))" using enforce_batch_distinct [OF b Suc.prems(1)] .
  moreover have "spared (live_foreign_models i w) h inc" using Suc.prems(2) s by (simp add: spared_def)
  moreover have "h \<notin> set (get_all_hashes x)" using Suc.prems(3) shrunk_hashes [OF conjunct1 [OF enforce_batch_shrunk [OF b]]] by auto
  ultimately have "keeps_block i h w1 (snd (enforce_batches k io i eff (freed + bf) w1))"
    by (intro Suc.IH) (simp_all add: sel fgn)
  with k b show ?case by (auto simp: Let_def w1_def [symmetric] keeps_block_def)
qed

end
