(* ===== verification/SsdFacts.thy ===== *)
theory SsdFacts
  imports SsdEnforce
begin

text \<open>The properties of the SSD block store, with concrete runs of a store of lists of numbers.\<close>

section \<open>Calls that go the common way\<close>

lemma effective_fresh: "sm_dir (man i w) = Some d \<Longrightarrow> sm_disk (man i w) = None \<Longrightarrow>
    get_effective_max_size io i w = (disk_limit io (man i w), upd_man i (\<lambda>m. m\<lparr>sm_disk := Some (disk_limit io (man i w), io_now io)\<rparr>) w)"
  by (simp add: get_effective_max_size_def Let_def)

lemma effective_kept: "sm_dir (man i w) = Some d \<Longrightarrow> sm_disk (man i w) = Some (e, t) \<Longrightarrow> io_now io - t < 30 \<Longrightarrow>
    get_effective_max_size io i w = (e, w)"
  by (simp add: get_effective_max_size_def Let_def)

lemma enforce_new_idle:
  assumes "sm_dir (man i w) = Some d" "sm_disk (man i w) = Some (e, t)" "io_now io - t < 30" "tracked_ssd_size (man i w) \<le> e"
  shows "man j (enforce_size_limit_for_new_block io i w) = man j w" "w_files (enforce_size_limit_for_new_block io i w) = w_files w"
  using assms(4) effective_kept [OF assms(1-3)]
  by (simp_all add: enforce_size_limit_for_new_block_def ssd_reclaim_loop.simps tracked_ssd_size_def)

text \<open>A new block that fits is queued, pending and in the index when \<open>save_block\<close> returns.\<close>

lemma save_stores:
  fixes w :: "'d ssd_world"
  assumes r: "sv_hash r = Some h" "sv_data r = Some ls" "cd_encode cd ls = Inr d" and new: "\<not> index_contains h (sm_index (man i w))"
    and m: "\<not> sm_hot_only (man i w)" "length (sm_queue (man i w)) < sm_queue_max (man i w)"
    and e: "sm_dir (man i w) = Some dir" "sm_disk (man i w) = Some (e, t)" "io_now io - t < 30"
      "tracked_ssd_size (man i w) + int (cd_bytes cd d) \<le> e"
  defines "hdr \<equiv> save_header io (man i w) h r ls" and "w' \<equiv> snd (save_block cd io i r w)"
  defines "md \<equiv> save_meta cd io (w_next w) d hdr"
  shows "fst (save_block cd io i r w) = Inr True" "sm_index (man i w') = index_add h md (sm_index (man i w))"
    "sm_incompatible (man i w') = sm_incompatible (man i w)" "sm_dir (man i w') = Some dir" "sm_hot_only (man i w') = False"
    "sm_queue (man i w') = sm_queue (man i w) @ [Some (h, d, hdr, md)]" "w_files w' = w_files w"
    "map_of (sm_pending (man i w')) h = Some \<lparr>he_data = d, he_header = hdr, he_bytes = int (cd_bytes cd d), he_model = Some (hd_model hdr)\<rparr>"
proof -
  define en where "en = \<lparr>he_data = d, he_header = hdr, he_bytes = int (cd_bytes cd d), he_model = Some (hd_model hdr)\<rparr>"
  define w1 where "w1 = hot_put (cd_bytes cd) i h en (w\<lparr>w_next := Suc (w_next w)\<rparr>)"
  define w2 where "w2 = tick (\<lambda>c. c\<lparr>sc_saves := sc_saves c + 1\<rparr>) i (upd_index (index_add h md) i w1)"
  define w3 where "w3 = upd_man i (\<lambda>m. m\<lparr>sm_pending := dict_set h en (sm_pending m)\<rparr>) w2"
  define w4 where "w4 = upd_man i (\<lambda>m. m\<lparr>sm_queue := sm_queue m @ [Some (h, d, hdr, md)]\<rparr>) w3"
  have f: "hot_frame (w\<lparr>w_next := Suc (w_next w)\<rparr>) w1" unfolding w1_def by (rule hot_frame_put)
  note sel = hot_frame_sel [OF f, of i, unfolded man_world_upd]
  have 2: "sm_hot_only (man i w2) = sm_hot_only (man i w)" by (simp add: w2_def tick_def upd_index_def sel)
  have q: "queue_or_write cd io i h d hdr md w3 = w4"
    using m by (simp add: queue_or_write_def w4_def w3_def w2_def tick_def upd_index_def sel)
  have save: "save_block cd io i r w = returns True (enforce_size_limit_for_new_block io i w4)"
    using m q by (simp add: save_block_def r new save_new_def Let_def hdr_def [symmetric] md_def [symmetric] en_def [symmetric]
      w1_def [symmetric] w2_def [symmetric] w3_def [symmetric] 2)
  have new': "map_of (ix_blocks (sm_index (man i w))) h = None" using new by (simp add: index_contains_def)
  have 4: "sm_index (man i w4) = index_add h md (sm_index (man i w))" "sm_incompatible (man i w4) = sm_incompatible (man i w)"
    "sm_dir (man i w4) = Some dir" "sm_disk (man i w4) = Some (e, t)" "sm_hot_only (man i w4) = False" "w_files w4 = w_files w"
    "sm_queue (man i w4) = sm_queue (man i w) @ [Some (h, d, hdr, md)]" "map_of (sm_pending (man i w4)) h = Some en"
    using hot_frame_world [OF f] m(1) by (simp_all add: w4_def w3_def w2_def tick_def upd_index_def sel e map_of_dict_set)
  have "tracked_ssd_size (man i w4) \<le> e"
    using e(4) by (simp add: tracked_ssd_size_def 4 index_add_def new' md_def save_meta_def)
  note idle = enforce_new_idle [OF 4(3,4) e(3) this]
  show "fst (save_block cd io i r w) = Inr True" "sm_index (man i w') = index_add h md (sm_index (man i w))"
    "sm_incompatible (man i w') = sm_incompatible (man i w)" "sm_dir (man i w') = Some dir" "sm_hot_only (man i w') = False"
    "sm_queue (man i w') = sm_queue (man i w) @ [Some (h, d, hdr, md)]" "w_files w' = w_files w"
    "map_of (sm_pending (man i w')) h = Some \<lparr>he_data = d, he_header = hdr, he_bytes = int (cd_bytes cd d), he_model = Some (hd_model hdr)\<rparr>"
    using 4 by (simp_all add: w'_def save returns_def idle en_def)
qed

text \<open>A manager opened on an empty directory.\<close>

lemma open_empty:
  assumes "shard_files dir w = []" "config_dir c = Some dir" "\<not> cf_hot_only c" "io_free io = None"
  shows "man j (open_manager cd io i c w) = (if j = i then (new_manager c)\<lparr>sm_disk := Some (cf_max c, io_now io)\<rparr> else man j w)"
    "w_files (open_manager cd io i c w) = w_files w"
proof -
  define w1 where "w1 = register_manager (sm_key (new_manager c :: 'a ssd_manager)) (sm_model (new_manager c :: 'a ssd_manager))
    (w\<lparr>w_managers := (w_managers w)(i := new_manager c)\<rparr>)"
  have m: "man j w1 = (if j = i then new_manager c else man j w)" for j by (simp add: w1_def)
  have f: "w_files w1 = w_files w" by (simp add: w1_def)
  have "shard_files dir w1 = []" using assms(1) by (simp add: shard_files_def f)
  moreover have max: "sm_max (new_manager c :: 'a ssd_manager) = cf_max c" "sm_disk (new_manager c :: 'a ssd_manager) = None"
    by (simp_all add: new_manager_def)
  have "get_effective_max_size io i w1 = (cf_max c, upd_man i (\<lambda>m. m\<lparr>sm_disk := Some (cf_max c, io_now io)\<rparr>) w1)"
    using effective_fresh [of i w1 dir io] by (simp add: m assms(2,4) max disk_limit_def)
  moreover have "startup_loop fs e other (index_new k) vs = (index_new k, vs)" for fs e other k vs
    by (simp add: startup_loop.simps index_new_def)
  ultimately have "open_manager cd io i c w = upd_man i (\<lambda>m. m\<lparr>sm_incompatible := index_new (cf_max c)\<rparr>)
      (upd_man i (\<lambda>m. m\<lparr>sm_disk := Some (cf_max c, io_now io)\<rparr>) w1)"
    using assms(2,3)
    by (simp add: open_manager_def Let_def w1_def [symmetric] scan_disk_index_def enforce_incompatible_at_startup_def m
        verify_and_repair_index_def)
  then show "man j (open_manager cd io i c w) = (if j = i then (new_manager c)\<lparr>sm_disk := Some (cf_max c, io_now io)\<rparr> else man j w)"
    "w_files (open_manager cd io i c w) = w_files w"
    by (simp_all add: m f)
qed

section \<open>A concrete store\<close>

text \<open>Layers are their own tensors; every tensor is a byte, a file has a header of four bytes.\<close>

definition demo_codec :: "(nat, nat list) ssd_codec" where
  "demo_codec = \<lparr>cd_encode = Inr, cd_bytes = length, cd_content = map char_of, cd_file_size = (\<lambda>d hdr. length d + 4),
     cd_restore = (\<lambda>d hdr. Some d), cd_restore_file = (\<lambda>d hdr. Some d)\<rparr>"

definition demo_io :: sys_calls where
  "demo_io = \<lparr>io_now = 0, io_write = (\<lambda>_. True), io_unlink = (\<lambda>_. True), io_read = (\<lambda>_. True), io_free = None\<rparr>"

definition demo_config :: "int \<Rightarrow> ssd_config" where
  "demo_config n = \<lparr>cf_dir = Some ''/d'', cf_max = n, cf_model = ''m'', cf_layers = 0, cf_block_size = 0, cf_types = None,
     cf_hot_max = 100, cf_shared = True, cf_hot_only = False, cf_queue_max = 4\<rparr>"

definition demo_save :: "string \<Rightarrow> nat list \<Rightarrow> nat save_request" where
  "demo_save h ls = \<lparr>sv_hash = Some h, sv_data = Some ls, sv_tokens = 1, sv_model = ''m'', sv_types = None, sv_states = None,
     sv_verify = False\<rparr>"

definition demo_open :: "int \<Rightarrow> nat list ssd_world" where
  "demo_open n = open_manager demo_codec demo_io 0 (demo_config n) (start_world 100 [])"

definition demo_saved :: "int \<Rightarrow> nat list ssd_world" where
  "demo_saved n = snd (save_block demo_codec demo_io 0 (demo_save ''ab'' [5, 6]) (demo_open n))"

lemmas demo_defs = demo_codec_def demo_io_def demo_config_def demo_save_def demo_open_def

lemma demo_open_man: "man 0 (demo_open n) = (new_manager (demo_config n))\<lparr>sm_disk := Some (n, 0)\<rparr>" "w_files (demo_open n) = []"
  unfolding demo_open_def by (subst open_empty; simp add: start_world_def shard_files_def demo_config_def config_dir_def demo_io_def)+

lemma demo_sel [simp]: "sm_queue_max (new_manager (demo_config n)) = 4" "config_dir (demo_config n) = Some ''/d''"
    "cf_max (demo_config n) = n" "\<not> cf_hot_only (demo_config n)"
    "cd_encode demo_codec ls = Inr ls" "cd_bytes demo_codec ls = length ls" "io_now demo_io = 0" "io_read demo_io h"
    "sv_hash (demo_save h ls) = Some h" "sv_data (demo_save h ls) = Some ls"
    "cd_restore demo_codec ls hdr = Some ls" "cd_restore_file demo_codec ls hdr = Some ls"
  by (simp_all add: new_manager_def demo_config_def config_dir_def demo_codec_def demo_io_def demo_save_def)

lemma demo_saved_man:
  assumes "2 \<le> n"
  shows "index_contains ''ab'' (sm_index (man 0 (demo_saved n)))" "\<not> sm_hot_only (man 0 (demo_saved n))"
    "sm_dir (man 0 (demo_saved n)) = Some ''/d''" "sm_incompatible (man 0 (demo_saved n)) = index_new n"
    "\<exists>md. sm_index (man 0 (demo_saved n)) = index_add ''ab'' md (index_new n) \<and> md_size md = 2 \<and> md_access md = 0"
    "w_files (demo_saved n) = []"
    "\<exists>e. map_of (sm_pending (man 0 (demo_saved n))) ''ab'' = Some e \<and> he_data e = [5, 6]"
proof -
  have "tracked_ssd_size (man 0 (demo_open n)) + int (cd_bytes demo_codec [5, 6]) \<le> n"
    using assms by (simp add: demo_open_man tracked_ssd_size_def) (simp add: index_new_def)
  from save_stores [where cd = demo_codec and io = demo_io and i = 0 and w = "demo_open n" and r = "demo_save ''ab'' [5, 6]"
      and t = 0 and h = "''ab''" and dir = "''/d''", OF _ _ _ _ _ _ _ _ _ this]
  have s: "sm_index (man 0 (demo_saved n)) = index_add ''ab'' (save_meta demo_codec demo_io (w_next (demo_open n)) [5, 6]
      (save_header demo_io (man 0 (demo_open n)) ''ab'' (demo_save ''ab'' [5, 6]) [5, 6])) (index_new n)"
    "sm_incompatible (man 0 (demo_saved n)) = index_new n" "sm_dir (man 0 (demo_saved n)) = Some ''/d''"
    "sm_hot_only (man 0 (demo_saved n)) = False" "w_files (demo_saved n) = []"
    "\<exists>e. map_of (sm_pending (man 0 (demo_saved n))) ''ab'' = Some e \<and> he_data e = [5, 6]"
    by (simp_all add: demo_saved_def demo_open_man index_contains_def) (simp_all add: index_new_def)
  show "index_contains ''ab'' (sm_index (man 0 (demo_saved n)))"
    by (simp add: s index_contains_def index_add_def map_of_dict_set)
  show "\<exists>md. sm_index (man 0 (demo_saved n)) = index_add ''ab'' md (index_new n) \<and> md_size md = 2 \<and> md_access md = 0"
    unfolding s by (intro exI conjI) (rule refl, simp_all add: save_meta_def)
  show "\<not> sm_hot_only (man 0 (demo_saved n))" "sm_dir (man 0 (demo_saved n)) = Some ''/d''"
    "sm_incompatible (man 0 (demo_saved n)) = index_new n" "w_files (demo_saved n) = []"
    "\<exists>e. map_of (sm_pending (man 0 (demo_saved n))) ''ab'' = Some e \<and> he_data e = [5, 6]"
    using s by simp_all
qed

lemma demo_reachable:
  assumes "content ''ab'' [5, 6]"
  shows "ssd_reachable demo_codec content careful (start_world 100 []) (demo_saved n)"
proof -
  have "ssd_step demo_codec content careful (start_world 100 []) (demo_open n)"
    unfolding demo_open_def
    by (rule ssd_step.open_new) (simp_all add: unopened_def careful_open_def start_world_def man_def, simp_all add: config_dir_def blank_config_def)
  moreover have "ssd_step demo_codec content careful (demo_open n) (demo_saved n)"
    unfolding demo_saved_def using assms
    by (intro ssd_step.save) (auto simp: careful_save_def demo_open_man index_contains_def index_new_def)
  ultimately show ?thesis by (meson ssd_reachable.intros)
qed

section \<open>Properties\<close>

text \<open>C14: in every state a process reaches, with any number of managers and whatever its calls, the total
  of an index is the sum of the sizes of its blocks; in a careful process the same holds for the
  index of incompatible blocks.\<close>

theorem ssd_sizes_exact:
  assumes "ssd_reachable cd content careful (start_world n files) w"
  shows "ix_total (sm_index (man i w)) = (\<Sum>p\<leftarrow>ix_blocks (sm_index (man i w)). md_size (snd p)) \<and>
    distinct (get_all_hashes (sm_index (man i w))) \<and>
    (careful \<longrightarrow> ix_total (sm_incompatible (man i w)) = (\<Sum>p\<leftarrow>ix_blocks (sm_incompatible (man i w)). md_size (snd p)))"
  using sizes_reachable [OF assms sizes_start]
  by (simp add: sizes_ok_def man_sizes_def exact_def size_of_def get_all_hashes_def)

lemma ssd_sizes_exact_witness:
  "ix_total (sm_index (man 0 (demo_saved 50))) = (\<Sum>p\<leftarrow>ix_blocks (sm_index (man 0 (demo_saved 50))). md_size (snd p)) \<and>
    index_contains ''ab'' (sm_index (man 0 (demo_saved 50)))"
  using ssd_sizes_exact [OF demo_reachable [of "\<lambda>h ls. True" True 50], of 0] demo_saved_man(1) [of 50] by simp

definition faithful_codec :: "('l, 'd) ssd_codec \<Rightarrow> bool" where
  "faithful_codec cd \<longleftrightarrow> (\<forall>io (m :: 'd ssd_manager) h r ls d. cd_encode cd ls = Inr d \<longrightarrow>
     (\<forall>ls'. cd_restore cd d (save_header io m h r ls) = Some ls' \<or> cd_restore_file cd d (save_header io m h r ls) = Some ls' \<longrightarrow> ls' = ls))"

definition complete_codec :: "('l, 'd) ssd_codec \<Rightarrow> bool" where
  "complete_codec cd \<longleftrightarrow> (\<forall>io (m :: 'd ssd_manager) h r ls d. cd_encode cd ls = Inr d \<longrightarrow>
     cd_restore cd d (save_header io m h r ls) = Some ls \<and> cd_restore_file cd d (save_header io m h r ls) = Some ls)"

definition saved_only :: "('l, 'd) ssd_codec \<Rightarrow> (string \<Rightarrow> 'l list \<Rightarrow> bool) \<Rightarrow> 'd bounds" where
  "saved_only cd content = \<lparr>bd_held = (\<lambda>_. save_adds cd content), bd_known = (\<lambda>_. UNIV), bd_files = save_adds cd content\<rparr>"

lemma saved_reachable:
  assumes "ssd_reachable cd content careful (start_world n files) w" "filed (start_world n files) \<subseteq> save_adds cd content"
  shows "only (saved_only cd content) w"
proof (rule only_reachable [OF assms(1)])
  show "promoting (saved_only cd content)" by (simp add: promoting_def saved_only_def)
  show "\<forall>i. \<forall>t \<in> save_adds cd content. admits (saved_only cd content) i t" by (simp add: admits_def saved_only_def)
  show "only (saved_only cd content) (start_world n files)"
    using assms(2) by (simp add: only_def inside_def saved_only_def start_world_def man_def)
qed

text \<open>What \<open>load_block\<close> answers: the pending write, else the memory, else the file of an indexed block.\<close>

definition stored_block :: "nat \<Rightarrow> string \<Rightarrow> 'd ssd_world \<Rightarrow> (bool \<times> 'd \<times> ssd_header) option" where
  "stored_block i h w =
     (case map_of (sm_pending (man i w)) h of
        Some e \<Rightarrow> Some (False, he_data e, he_header e)
      | None \<Rightarrow> (case map_of (sm_hot (man i w)) h of
          Some e \<Rightarrow> Some (False, he_data e, he_header e)
        | None \<Rightarrow> if \<not> index_contains h (sm_index (man i w)) then None
            else case sm_dir (man i w) of None \<Rightarrow> None
            | Some dir \<Rightarrow> map_option (\<lambda>f. (True, sf_data f, sf_header f)) (map_of (w_files w) (dir, h))))"

lemma load_stored:
  "fst (load_block cd io i h w) =
     (case stored_block i h w of
        Some (False, d, hdr) \<Rightarrow> Inr (cd_restore cd d hdr)
      | Some (True, d, hdr) \<Rightarrow> Inr (if io_read io h then cd_restore_file cd d hdr else None)
      | None \<Rightarrow> if index_contains h (sm_index (man i w)) \<and> sm_dir (man i w) = None then Inl AttributeError else Inr None)"
  by (simp add: load_block_def stored_block_def hot_get_def returns_def raises_def load_file_def Let_def split: option.split)

lemma stored_saved:
  assumes "only (saved_only cd content) w" "stored_block i h w = Some (b, d, hdr)"
  shows "(h, d, hdr) \<in> save_adds cd content"
  using assms(2) only_pending [OF assms(1)] only_hot [OF assms(1)] only_file [OF assms(1)]
  by (auto simp: stored_block_def saved_only_def promoting_def split: option.splits if_splits)

lemma load_meta_stored: "fst (load_block_with_metadata cd io i h w) = Inr (Some ls, info) \<Longrightarrow> fst (load_block cd io i h w) = Inr (Some ls)"
proof -
  assume l: "fst (load_block_with_metadata cd io i h w) = Inr (Some ls, info)"
  show ?thesis
  proof (cases "map_of (sm_pending (man i w)) h")
    case (Some e)
    with l show ?thesis by (simp add: load_block_with_metadata_def load_block_def returns_def)
  next
    case none: None
    show ?thesis
    proof (cases "map_of (sm_hot (man i w)) h")
      case (Some e)
      with l none show ?thesis by (simp add: load_block_with_metadata_def load_block_def returns_def hot_get_def Let_def)
    next
      case None
      with l none show ?thesis
        by (cases "load_block cd io i h w" rule: outcome_cases)
          (auto simp: load_block_with_metadata_def returns_def raises_def and_then_def hot_get_def split: option.splits if_splits)
    qed
  qed
qed

text \<open>C6: a block is loaded with layers that were saved under its hash. \<open>content\<close> says which layers
  are ever saved under which hash, and every file that is on disk at the start came from such a save; the
  tensor code restores what it encoded or nothing. Then no order of saves, writes, evictions, scans and
  loads by any number of managers makes a load return layers of another block.\<close>

theorem ssd_loads_only_saved:
  assumes "faithful_codec cd" "ssd_reachable cd content careful (start_world n files) w"
    and "filed (start_world n files) \<subseteq> save_adds cd content"
    and "fst (load_block cd io i h w) = Inr (Some ls) \<or> fst (load_block_with_metadata cd io i h w) = Inr (Some ls, info)"
  shows "content h ls"
proof -
  note o = saved_reachable [OF assms(2,3)]
  from assms(4) have "fst (load_block cd io i h w) = Inr (Some ls)" using load_meta_stored by blast
  then obtain b d hdr where "stored_block i h w = Some (b, d, hdr)" "cd_restore cd d hdr = Some ls \<or> cd_restore_file cd d hdr = Some ls"
    by (auto simp: load_stored split: option.splits bool.splits if_splits)
  with stored_saved [OF o] assms(1) show ?thesis unfolding save_adds_def faithful_codec_def by blast
qed

lemma demo_codec_good: "faithful_codec demo_codec" "complete_codec demo_codec"
  by (auto simp: faithful_codec_def complete_codec_def)

lemma demo_load: "2 \<le> n \<Longrightarrow> fst (load_block demo_codec demo_io 0 ''ab'' (demo_saved n)) = Inr (Some [5, 6])"
  using demo_saved_man(7) [of n] by (auto simp: load_stored stored_block_def)

lemma ssd_loads_only_saved_witness: "\<exists>ls. fst (load_block demo_codec demo_io 0 ''ab'' (demo_saved 50)) = Inr (Some ls) \<and> ls = [5, 6]"
proof -
  have "filed (start_world 100 [] :: nat list ssd_world) \<subseteq> save_adds demo_codec (\<lambda>h ls. h = ''ab'' \<and> ls = [5, 6])"
    by (simp add: filed_def start_world_def)
  from ssd_loads_only_saved [OF demo_codec_good(1) demo_reachable this disjI1 [OF demo_load], of 50] demo_load [of 50]
  show ?thesis by simp
qed

text \<open>C7: in a careful process every block of the index of a manager with a directory can be loaded: when
  the file can be read and the tensor code restores what it encoded, \<open>load_block\<close> returns layers
  that were saved under the hash, whether the block is still a pending write, in memory or on disk. (Hashes are hexadecimal text.)\<close>

theorem ssd_indexed_blocks_load:
  assumes "complete_codec cd" "ssd_reachable cd content True (start_world n files) w"
    and "filed (start_world n files) \<subseteq> save_adds cd content" "distinct (dict_keys files)" "\<And>h ls. content h ls \<Longrightarrow> hex_text_of h"
    and "index_contains h (sm_index (man i w))" "\<not> sm_hot_only (man i w)" "io_read io h"
  shows "\<exists>ls. content h ls \<and> fst (load_block cd io i h w) = Inr (Some ls)"
proof -
  have "filed (start_world n files) \<subseteq> bd_files named"
    using assms(3,5) by (auto simp: named_def save_adds_def save_header_def Let_def)
  then have "only named (start_world n files)"
    by (simp add: only_def inside_def named_def start_world_def man_def)
  moreover have "avail (start_world n files)"
    using assms(4) by (simp add: avail_def alone_def backed_def start_world_def man_def)
      (simp add: config_dir_def blank_config_def)
  ultimately have "avail w" by (rule avail_reachable [OF assms(2)]) (rule assms(5))
  with assms(6,7) have "backed (file_names w) (man i w)" "h \<in> known (man i w)"
    by (simp_all only: avail_backed known_iff)
  then have "stored_block i h w \<noteq> None"
    using assms(6,7) by (auto simp: backed_def stored_block_def map_of_eq_None_iff map_of_ex split: option.splits)
  then obtain b d hdr where s: "stored_block i h w = Some (b, d, hdr)" by auto
  from stored_saved [OF saved_reachable [OF assms(2,3)] s] assms(1,8) show ?thesis
    unfolding save_adds_def complete_codec_def by (auto simp: load_stored s split: bool.split)
qed

lemma ssd_indexed_blocks_load_witness: "\<exists>ls. ls = [5, 6] \<and> fst (load_block demo_codec demo_io 0 ''ab'' (demo_saved 50)) = Inr (Some ls)"
proof -
  let ?content = "\<lambda>h ls. h = ''ab'' \<and> ls = [5 :: nat, 6]"
  have f: "filed (start_world 100 [] :: nat list ssd_world) \<subseteq> save_adds demo_codec ?content"
    by (simp add: filed_def start_world_def)
  have "hex_text_of ''ab''" by code_simp
  then have x: "hex_text_of h" if "?content h ls" for h ls using that by simp
  have "ssd_reachable demo_codec ?content True (start_world 100 []) (demo_saved 50)" by (rule demo_reachable) simp
  from ssd_indexed_blocks_load [where h = "''ab''" and i = 0 and io = demo_io, OF demo_codec_good(2) this f _ x] demo_saved_man [of 50]
  show ?thesis by simp
qed

text \<open>C15: when \<open>delete_block\<close> has returned true for a block of a manager with a directory, that manager finds
  the block no more, whatever the managers of the process do, until layers are saved under its hash again;
  a queued write of the deleted block does not bring it back.\<close>

theorem ssd_deleted_stays_deleted:
  fixes w :: "'d ssd_world"
  assumes "sm_dir (man i w) \<noteq> None" "delete_block io i h w = (True, w1)"
    and "ssd_reachable cd content careful w1 w2" "\<And>ls. \<not> content h ls"
  shows "fst (load_block cd io' i h w2) = Inr None"
proof -
  define B :: "'d bounds" where "B = \<lparr>bd_held = (\<lambda>j. if j = i then {t. fst t \<noteq> h} else UNIV),
     bd_known = (\<lambda>j. if j = i then - {h} else UNIV), bd_files = UNIV\<rparr>"
  have "only B w1"
  proof -
    let ?w1 = "drop_index h i w"
    let ?w2 = "if sm_hot_only (man i ?w1) then ?w1 else snd (unlink io i h ?w1)"
    have w1: "w1 = upd_man i (\<lambda>m. m\<lparr>sm_pending := dict_del h (sm_pending m)\<rparr>) (snd (hot_remove i h True ?w2))"
      using assms(2) by (auto simp: delete_block_def Let_def split: if_splits)
    have 2: "man i ?w2 = man i ?w1" by simp
    have f: "hot_frame ?w2 (snd (hot_remove i h True ?w2))" by (rule hot_frame_remove)
    have "known (man i w1) = known (man i w) - {h}" "sm_dir (man i w1) = sm_dir (man i w)"
      using hot_frame_sel(1,15) [OF f, of i] unfolding 2 by (simp_all add: w1 drop_index_def upd_index_def)
    moreover have "entries (sm_pending (man i w1)) \<subseteq> {t. fst t \<noteq> h}"
      by (auto simp: w1 entries_def set_dict_del)
    moreover have "entries (sm_hot (man i w1)) \<subseteq> {t. fst t \<noteq> h}"
      by (auto simp: w1 hot_remove_def entries_def set_dict_del Let_def map_of_eq_None_iff rev_image_eqI split: option.split)
    ultimately have "inside B j (man j w1)" for j using assms(1) by (auto simp: inside_def B_def)
    then show ?thesis by (simp add: only_def B_def)
  qed
  moreover have "promoting B" by (simp add: promoting_def B_def)
  moreover have "\<forall>j. \<forall>t \<in> save_adds cd content. admits B j t" using assms(4) by (auto simp: admits_def B_def save_adds_def)
  ultimately have o: "only B w2" using only_reachable [OF assms(3)] by blast
  have "map_of (sm_pending (man i w2)) h \<noteq> Some e" "map_of (sm_hot (man i w2)) h \<noteq> Some e" "\<not> index_contains h (sm_index (man i w2))" for e
    using only_pending [OF o, of i h e] only_hot [OF o, of i h e] only_known [OF o, of h i] by (auto simp: B_def)
  then have "map_of (sm_pending (man i w2)) h = None" "map_of (sm_hot (man i w2)) h = None" "\<not> index_contains h (sm_index (man i w2))"
    by (metis not_None_eq)+
  then show ?thesis by (simp add: load_stored stored_block_def)
qed

lemma ssd_deleted_stays_deleted_witness:
  "fst (delete_block demo_io 0 ''ab'' (demo_saved 50)) \<and>
   fst (load_block demo_codec demo_io 0 ''ab'' (snd (delete_block demo_io 0 ''ab'' (demo_saved 50)))) = Inr None"
proof -
  obtain w where d: "delete_block demo_io 0 ''ab'' (demo_saved 50) = (True, w)"
    using demo_saved_man(1) [of 50] by (simp add: delete_block_def Let_def)
  from ssd_deleted_stays_deleted [OF _ d ssd_reachable.start [of demo_codec "\<lambda>h ls. False" False], of demo_io] demo_saved_man(3) [of 50] d
  show ?thesis by simp
qed



text \<open>After a save, blocks leave the index from the least recently used on, at most 32 of them: none
  goes that was used after one that stays. They go until the size is within the effective limit, unless no
  block of another model may be reclaimed and 32 have gone or none is left.\<close>

theorem ssd_save_evicts_lru:
  assumes "exact (sm_index (man i w))" "w' = enforce_size_limit_for_new_block io i w"
  shows "lru_gone (set (ix_blocks (sm_index (man i w)))) (set (ix_blocks (sm_index (man i w')))) \<and>
    index_count (sm_index (man i w)) - index_count (sm_index (man i w')) \<in> {0..int max_inline_unlinks} \<and>
    (tracked_ssd_size (man i w') \<le> fst (get_effective_max_size io i w) \<or>
     pick_reclaimable (live_foreign_models i w) (sm_incompatible (man i w')) = None \<and>
     index_count (sm_index (man i w')) \<in> {0, index_count (sm_index (man i w)) - int max_inline_unlinks})"
proof -
  define w1 where "w1 = snd (get_effective_max_size io i w)"
  have fgn: "live_foreign_models i w1 = live_foreign_models i w" by (rule foreign_sel) (simp_all add: w1_def)
  obtain x inc vs where r: "ssd_reclaim_loop (live_foreign_models i w) (fst (get_effective_max_size io i w)) 0 (sm_index (man i w)) (sm_incompatible (man i w)) [] =
      (x, inc, vs)" by (metis prod_cases3)
  have "w' = fold (unlink_victim io i) vs (upd_man i (\<lambda>m. m\<lparr>sm_index := x, sm_incompatible := inc\<rparr>) w1)"
    using r by (simp add: assms(2) enforce_size_limit_for_new_block_def case_prod_beta w1_def [symmetric] fgn) (simp add: w1_def)
  then have "sm_index (man i w') = x" "sm_incompatible (man i w') = inc" by simp_all
  with reclaim_result [OF r assms(1)] show ?thesis by (auto simp: index_count_def tracked_ssd_size_def)
qed

lemma ssd_save_evicts_lru_witness:
  "lru_gone (set (ix_blocks (sm_index (man 0 (demo_saved 50))))) (set (ix_blocks (sm_index (man 0 (enforce_size_limit_for_new_block demo_io 0 (demo_saved 50))))))"
  using ssd_save_evicts_lru [OF _ refl, of 0 "demo_saved 50" demo_io] sizes_reachable [OF demo_reachable [of "\<lambda>h ls. True" True 50] sizes_start]
  by (simp add: sizes_ok_def man_sizes_def)

text \<open>C27: \<open>enforce_size_limit\<close> returns exactly the bytes by which the tracked size falls and takes blocks
  of the index least recently used first. It ends within the effective limit, or with an empty index and none
  of the 32 oldest blocks of other models reclaimable, or after removing a thousand blocks.\<close>

theorem ssd_enforce_frees:
  assumes "exact (sm_index (man i w))" "exact (sm_incompatible (man i w))" "enforce_size_limit io i w = (freed, w')"
  shows "freed = tracked_ssd_size (man i w) - tracked_ssd_size (man i w') \<and>
    lru_gone (set (ix_blocks (sm_index (man i w)))) (set (ix_blocks (sm_index (man i w')))) \<and>
    (tracked_ssd_size (man i w') \<le> fst (get_effective_max_size io i w) \<or>
     ix_blocks (sm_index (man i w')) = [] \<and> reclaimable (live_foreign_models i w') 32 (sm_incompatible (man i w')) = [] \<or>
     tracked_ssd_count (man i w') + 1000 \<le> tracked_ssd_count (man i w))"
proof -
  define w1 where "w1 = snd (get_effective_max_size io i w)"
  have sel: "sm_index (man i w1) = sm_index (man i w)" "sm_incompatible (man i w1) = sm_incompatible (man i w)" by (simp_all add: w1_def)
  then have same: "tracked_ssd_size (man i w1) = tracked_ssd_size (man i w)" "tracked_ssd_count (man i w1) = tracked_ssd_count (man i w)"
    by (simp_all add: tracked_ssd_size_def tracked_ssd_count_def)
  have b: "enforce_batches max_enforce_iterations io i (fst (get_effective_max_size io i w)) 0 w1 = (freed, w')"
    using assms(3) by (simp add: enforce_size_limit_def case_prod_beta w1_def)
  from batches_result [OF b] assms(1,2) show ?thesis
    by (simp add: sel same within_limit_def batch_done_def max_inline_unlinks_def max_enforce_iterations_def)
      (simp add: tracked_ssd_size_def)
qed

lemma ssd_enforce_frees_witness:
  "fst (enforce_size_limit demo_io 0 (demo_saved 50)) =
     tracked_ssd_size (man 0 (demo_saved 50)) - tracked_ssd_size (man 0 (snd (enforce_size_limit demo_io 0 (demo_saved 50))))"
  using ssd_enforce_frees [of 0 "demo_saved 50" demo_io, OF _ _ surjective_pairing] sizes_reachable [OF demo_reachable [of "\<lambda>h ls. True" True 50] sizes_start]
  by (simp add: sizes_ok_def man_sizes_def)

text \<open>C28: neither kind of enforcement takes a block of the index of incompatible blocks whose model has a live
  manager on the same directory: its entry and its file stay, unless this manager has the hash in its own
  index, too. (The keys of an index, a dictionary, are distinct.)\<close>

theorem ssd_live_models_spared:
  assumes "distinct (get_all_hashes (sm_incompatible (man i w)))" "index_get h (sm_incompatible (man i w)) = Some md"
    and "md_model md \<noteq> []" "md_model md \<in> set (live_foreign_models i w)" "\<not> index_contains h (sm_index (man i w))"
    and "w' = enforce_size_limit_for_new_block io i w \<or> w' = snd (enforce_size_limit io i w)"
  shows "index_get h (sm_incompatible (man i w')) = Some md \<and> map_of (w_files w') (d, h) = map_of (w_files w) (d, h)"
proof -
  define w1 where "w1 = snd (get_effective_max_size io i w)"
  have d: "distinct (dict_keys (ix_blocks (sm_incompatible (man i w))))" using assms(1) by (simp add: get_all_hashes_def)
  have s: "spared (live_foreign_models i w) h (sm_incompatible (man i w))" using assms(2-4) by (auto simp: spared_def index_get_def)
  have h: "h \<notin> known (man i w)" using assms(5) by (simp add: known_iff)
  have sel: "sm_index (man i w1) = sm_index (man i w)" "sm_incompatible (man i w1) = sm_incompatible (man i w)" by (simp_all add: w1_def)
  have fgn: "live_foreign_models i w1 = live_foreign_models i w" by (rule foreign_sel) (simp_all add: w1_def)
  have "keeps_block i h w1 (snd (enforce_batches k io i e f w1))" for k e f
    using d s h by (intro batches_spare) (simp_all add: sel fgn)
  then have "keeps_block i h w (snd (enforce_size_limit io i w))"
    using keeps_effective [of i h w io] by (simp add: enforce_size_limit_def case_prod_beta w1_def keeps_trans [of i h w])
  with enforce_new_spares [OF d s h] assms(6) have "keeps_block i h w w'" by blast
  with assms(2) show ?thesis by (simp add: keeps_block_def)
qed

text \<open>A manager over its limit, with a block of the live model \<open>k\<close> among the incompatible ones.\<close>

definition demo_foreign :: ssd_meta where
  "demo_foreign = \<lparr>md_id = 0, md_file = ''cd'', md_size = 5, md_tokens = 1, md_created = 0, md_access = 0, md_layers = 1, md_model = ''k'',
     md_block_size = 0, md_signature = [], md_content = [], md_types = None, md_states = None\<rparr>"

definition demo_shared :: "nat list ssd_world" where
  "demo_shared = upd_man 0 (\<lambda>m. m\<lparr>sm_incompatible := index_add ''cd'' demo_foreign (index_new 0)\<rparr>)
     ((demo_open 0)\<lparr>w_models := [(''/d'', [''m'', ''k''])]\<rparr>)"

lemma ssd_live_models_spared_witness:
  "index_get ''cd'' (sm_incompatible (man 0 (snd (enforce_size_limit demo_io 0 demo_shared)))) = Some demo_foreign \<and>
   tracked_ssd_size (man 0 demo_shared) = 5"
proof -
  have "sm_incompatible (man 0 demo_shared) = index_add ''cd'' demo_foreign (index_new 0)" "sm_index (man 0 demo_shared) = index_new 0"
    by (simp_all add: demo_shared_def demo_open_man)
  moreover have "live_foreign_models 0 demo_shared = [''k'']"
    by (simp add: live_foreign_models_def demo_shared_def) (simp add: demo_open_man new_manager_def demo_config_def config_dir_def)
  moreover have "ix_blocks (index_add ''cd'' demo_foreign (index_new 0)) = [(''cd'', demo_foreign)]" "ix_total (index_add ''cd'' demo_foreign (index_new 0)) = 5"
    by (simp_all add: index_add_def index_new_def) (simp add: demo_foreign_def)
  ultimately show ?thesis
    using ssd_live_models_spared [of 0 demo_shared "''cd''" demo_foreign, OF _ _ _ _ _ disjI2 [OF refl], of demo_io "''/d''"]
    by (simp add: index_get_def get_all_hashes_def index_contains_def tracked_ssd_size_def) (simp add: index_new_def demo_foreign_def)
qed

end
