(* ===== verification/SortedKeys.thy ===== *)
theory SortedKeys
  imports Prelude "HOL-Library.List_Lexorder" "HOL-Library.Sublist"
begin

text \<open>
  The sorted list of token tuples that \<^verbatim>\<open>src/fusion_mlx/memory_cache.py\<close> keeps beside its
  entries: Python's \<open>bisect\<close> with its halving loop, the removal of a key, and the order facts
  behind the scans of the cache. Tuples compare lexicographically, so the keys that are prefixes of
  a tuple stand before it, its extensions stand right behind it, and the common prefix with a key
  gets shorter with the distance.
\<close>

section \<open>Bisection\<close>

text \<open>
  \<open>bisect.bisect_left(a, x)\<close>: the loop halves the interval until it is empty. \<open>insort\<close> inserts
  behind the elements that are not greater.
\<close>

function bisect_loop :: "('a \<Rightarrow> bool) \<Rightarrow> 'a list \<Rightarrow> nat \<Rightarrow> nat \<Rightarrow> nat" where
  "bisect_loop go_right a lo hi =
     (if lo < hi
      then let mid = (lo + hi) div 2
           in if go_right (a ! mid) then bisect_loop go_right a (mid + 1) hi
              else bisect_loop go_right a lo mid
      else lo)"
  by pat_completeness auto
termination by (relation "measure (\<lambda>(p, a, lo, hi). hi - lo)") auto

declare bisect_loop.simps [simp del]

definition bisect_left :: "'a::linorder list \<Rightarrow> 'a \<Rightarrow> nat" where
  "bisect_left a x = bisect_loop (\<lambda>y. y < x) a 0 (length a)"

definition bisect_right :: "'a::linorder list \<Rightarrow> 'a \<Rightarrow> nat" where
  "bisect_right a x = bisect_loop (\<lambda>y. \<not> x < y) a 0 (length a)"

definition insort :: "'a::linorder list \<Rightarrow> 'a \<Rightarrow> 'a list" where
  "insort a x = (let i = bisect_right a x in take i a @ x # drop i a)"

text \<open>\<open>_remove_from_sorted\<close>.\<close>

definition remove_from_sorted :: "'a::linorder \<Rightarrow> 'a list \<Rightarrow> 'a list" where
  "remove_from_sorted key keys =
     (let idx = bisect_left keys key
      in if idx < length keys \<and> keys ! idx = key then take idx keys @ drop (Suc idx) keys else keys)"

abbreviation strictly_sorted :: "'a::linorder list \<Rightarrow> bool" where
  "strictly_sorted \<equiv> sorted_wrt (<)"

section \<open>What the bisection computes\<close>

text \<open>The loop finds the border of a predicate that holds exactly before it.\<close>

lemma bisect_loop_border:
  assumes "\<forall>i < b. go (a ! i)" "\<forall>i. b \<le> i \<longrightarrow> i < length a \<longrightarrow> \<not> go (a ! i)"
    and "lo \<le> b" "b \<le> hi" "hi \<le> length a"
  shows "bisect_loop go a lo hi = b"
  using assms
proof (induction go a lo hi rule: bisect_loop.induct)
  case (1 go a lo hi)
  let ?m = "(lo + hi) div 2"
  show ?case
  proof (cases "lo < hi")
    case True
    then have m: "lo \<le> ?m" "?m < hi" by auto
    show ?thesis
    proof (cases "go (a ! ?m)")
      case go: True
      then have "?m < b" using 1(4,7) m by (metis not_le order.strict_trans2)
      with go True 1 m show ?thesis by (simp add: bisect_loop.simps [of go a lo hi] Let_def)
    next
      case stop: False
      then have "b \<le> ?m" using 1(3) by (meson not_le)
      with stop True 1 m show ?thesis by (simp add: bisect_loop.simps [of go a lo hi] Let_def)
    qed
  next
    case False
    with 1 show ?thesis by (simp add: bisect_loop.simps [of go a lo hi])
  qed
qed

lemma takeWhile_border:
  assumes "sorted_wrt (<) a" "\<And>y z. p z \<Longrightarrow> y < z \<Longrightarrow> p y"
  shows "\<forall>i < length (takeWhile p a). p (a ! i)"
    and "\<forall>i. length (takeWhile p a) \<le> i \<longrightarrow> i < length a \<longrightarrow> \<not> p (a ! i)"
proof -
  show "\<forall>i < length (takeWhile p a). p (a ! i)"
    by (metis nth_mem set_takeWhileD takeWhile_nth)
  show "\<forall>i. length (takeWhile p a) \<le> i \<longrightarrow> i < length a \<longrightarrow> \<not> p (a ! i)"
  proof (intro allI impI notI)
    fix i assume i: "length (takeWhile p a) \<le> i" "i < length a" "p (a ! i)"
    let ?n = "length (takeWhile p a)"
    have "\<not> p (a ! ?n)" using i by (intro nth_length_takeWhile) simp
    moreover have "a ! ?n < a ! i" if "?n \<noteq> i"
      using that i assms(1) by (simp add: sorted_wrt_iff_nth_less)
    ultimately show False using i assms(2) by metis
  qed
qed

lemma bisect_left_eq: "strictly_sorted a \<Longrightarrow> bisect_left a x = length (takeWhile (\<lambda>y. y < x) a)"
  unfolding bisect_left_def
  by (rule bisect_loop_border) (use takeWhile_border [of a "\<lambda>y. y < x"] length_takeWhile_le in auto)

lemma bisect_right_eq: "strictly_sorted a \<Longrightarrow> bisect_right a x = length (takeWhile (\<lambda>y. \<not> x < y) a)"
  unfolding bisect_right_def
  by (rule bisect_loop_border) (use takeWhile_border [of a "\<lambda>y. \<not> x < y"] length_takeWhile_le in auto)

text \<open>The keys before and behind the position of a tuple.\<close>

lemma strictly_sorted_filter:
  assumes "strictly_sorted a"
  shows "takeWhile (\<lambda>y. y < x) a = filter (\<lambda>y. y < x) a"
    and "dropWhile (\<lambda>y. y < x) a = filter (\<lambda>y. x \<le> y) a"
proof -
  have "takeWhile (\<lambda>y. y < x) a = filter (\<lambda>y. y < x) a \<and> dropWhile (\<lambda>y. y < x) a = filter (\<lambda>y. x \<le> y) a"
    using assms
  proof (induction a)
    case (Cons y a)
    show ?case
    proof (cases "y < x")
      case True
      with Cons show ?thesis by simp
    next
      case False
      then have "\<forall>z \<in> set a. x \<le> z" using Cons.prems by force
      then have "filter (\<lambda>y. y < x) a = []" "filter (\<lambda>y. x \<le> y) a = a"
        by (auto simp: filter_empty_conv filter_id_conv not_less)
      with False show ?thesis by auto
    qed
  qed simp
  then show "takeWhile (\<lambda>y. y < x) a = filter (\<lambda>y. y < x) a"
    and "dropWhile (\<lambda>y. y < x) a = filter (\<lambda>y. x \<le> y) a" by auto
qed

lemma before_bisect: "strictly_sorted a \<Longrightarrow> take (bisect_left a x) a = filter (\<lambda>y. y < x) a"
  by (metis bisect_left_eq strictly_sorted_filter(1) takeWhile_eq_take)

lemma behind_bisect: "strictly_sorted a \<Longrightarrow> drop (bisect_left a x) a = filter (\<lambda>y. x \<le> y) a"
  by (metis bisect_left_eq strictly_sorted_filter(2) dropWhile_eq_drop)

lemma set_insort: "set (insort a x) = insert x (set a)"
  by (metis (no_types, opaque_lifting) Un_insert_right append_take_drop_id insort_def list.simps(15) set_append)

lemma strictly_sorted_insort:
  assumes "strictly_sorted a" "x \<notin> set a"
  shows "strictly_sorted (insort a x)"
proof -
  let ?n = "bisect_right a x"
  have eq: "?n = length (takeWhile (\<lambda>y. \<not> x < y) a)" by (rule bisect_right_eq [OF assms(1)])
  have lo: "y < x" if "y \<in> set (take ?n a)" for y
  proof -
    have "\<not> x < y" using that by (metis eq set_takeWhileD takeWhile_eq_take)
    moreover have "y \<noteq> x" using that assms(2) by (metis in_set_takeD)
    ultimately show ?thesis by simp
  qed
  have hi: "x < y" if "y \<in> set (drop ?n a)" for y
  proof -
    obtain i where i: "i < length a - ?n" "y = a ! (?n + i)"
      using \<open>y \<in> set (drop ?n a)\<close> by (auto simp: in_set_conv_nth)
    then have "\<not> \<not> x < a ! (?n + i)"
      using takeWhile_border(2) [of a "\<lambda>y. \<not> x < y", OF assms(1)] eq by fastforce
    with i show ?thesis by simp
  qed
  from assms(1) show ?thesis
    by (auto simp: insort_def Let_def sorted_wrt_append sorted_wrt_take sorted_wrt_drop lo hi
        intro: less_trans [OF lo hi])
qed

lemma remove_from_sorted_eq:
  assumes "strictly_sorted keys"
  shows "remove_from_sorted key keys = filter (\<lambda>y. y \<noteq> key) keys"
proof -
  let ?n = "bisect_left keys key"
  have split: "keys = filter (\<lambda>y. y < key) keys @ filter (\<lambda>y. key \<le> y) keys"
    using append_take_drop_id [of ?n keys] assms by (simp add: before_bisect behind_bisect)
  have hd_eq: "?n < length keys \<and> keys ! ?n = key \<longleftrightarrow> (\<exists>r. filter (\<lambda>y. key \<le> y) keys = key # r)"
    by (metis append_take_drop_id assms behind_bisect drop_eq_Nil2 hd_drop_conv_nth linorder_not_le list.exhaust_sel list.sel(1) list.simps(3))
  have srt: "strictly_sorted (filter (\<lambda>y. key \<le> y) keys)"
    using assms by (simp add: sorted_wrt_filter)
  show ?thesis
  proof (cases "\<exists>r. filter (\<lambda>y. key \<le> y) keys = key # r")
    case True
    then obtain r where r: "filter (\<lambda>y. key \<le> y) keys = key # r" by blast
    have "drop (Suc ?n) keys = r" by (metis assms behind_bisect drop_Suc r list.sel(3) tl_drop)
    then have "remove_from_sorted key keys = filter (\<lambda>y. y < key) keys @ r"
      using True hd_eq assms by (simp add: remove_from_sorted_def Let_def before_bisect)
    moreover have "filter (\<lambda>y. y \<noteq> key) keys = filter (\<lambda>y. y < key) keys @ r"
    proof -
      have "filter (\<lambda>y. y \<noteq> key) (key # r) = r"
        using srt r by (auto simp: filter_id_conv)
      moreover have "filter (\<lambda>y. y \<noteq> key) (filter (\<lambda>y. y < key) keys) = filter (\<lambda>y. y < key) keys"
        by (intro filter_True) auto
      ultimately show ?thesis by (metis filter_append r split)
    qed
    ultimately show ?thesis by simp
  next
    case False
    have "key \<notin> set keys"
    proof
      assume "key \<in> set keys"
      then have "key \<in> set (filter (\<lambda>y. key \<le> y) keys)" by simp
      then obtain y r where yr: "filter (\<lambda>y. key \<le> y) keys = y # r" "y = key \<or> key \<in> set r"
        by (cases "filter (\<lambda>y. key \<le> y) keys") auto
      then have "key \<le> y" by (metis filter_eq_ConsD)
      moreover have "key \<in> set r \<Longrightarrow> y < key" using srt yr by auto
      ultimately show False using yr False by auto
    qed
    then have "filter (\<lambda>y. y \<noteq> key) keys = keys" by (intro filter_True) auto
    then show ?thesis using False hd_eq by (auto simp: remove_from_sorted_def Let_def)
  qed
qed

section \<open>Prefixes and the order of tuples\<close>

type_synonym token_key = "int list"

lemma prefix_imp_le: "prefix p t \<Longrightarrow> p \<le> (t :: 'a::linorder list)"
  by (induction p arbitrary: t) (auto elim: prefixE)

text \<open>What stands between a prefix and its extension extends the prefix, too.\<close>

lemma prefix_between: "prefix p t \<Longrightarrow> p \<le> k \<Longrightarrow> k \<le> t \<Longrightarrow> prefix p (k :: 'a::linorder list)"
proof (induction p arbitrary: k t)
  case (Cons x p)
  then obtain t' where t: "t = x # t'" "prefix p t'" by (cases t) auto
  from Cons.prems(2) obtain y k' where "k = y # k'" by (cases k) auto
  with Cons t show ?case by auto
qed simp

lemma take_eq_prefix: "take (length k) t = k \<longleftrightarrow> prefix k t"
  by (metis append_eq_conv_conj append_take_drop_id prefix_def)

text \<open>The loop over \<open>range(min_len)\<close> that counts the common tokens.\<close>

fun lcp_length :: "'a list \<Rightarrow> 'a list \<Rightarrow> nat" where
  "lcp_length (x # xs) (y # ys) = (if x = y then Suc (lcp_length xs ys) else 0)"
| "lcp_length _ _ = 0"

lemma lcp_length_eq: "lcp_length xs ys = length (longest_common_prefix xs ys)"
  by (induction xs ys rule: lcp_length.induct) auto

lemma lcp_length_le: "lcp_length xs ys \<le> length xs" "lcp_length xs ys \<le> length ys"
  by (induction xs ys rule: lcp_length.induct) auto

lemma take_lcp: "take (lcp_length xs ys) xs = take (lcp_length xs ys) ys"
  by (induction xs ys rule: lcp_length.induct) auto

lemma lcp_length_ge: "n \<le> length xs \<Longrightarrow> n \<le> length ys \<Longrightarrow> take n xs = take n ys \<Longrightarrow> n \<le> lcp_length xs ys"
proof (induction xs ys arbitrary: n rule: lcp_length.induct)
  case (1 x xs y ys)
  then show ?case by (cases n) auto
qed auto

lemma lcp_length_sym: "lcp_length xs ys = lcp_length ys xs"
  by (induction xs ys rule: lcp_length.induct) auto

lemma lcp_length_prefix: "prefix xs ys \<Longrightarrow> lcp_length xs ys = length xs"
  by (induction xs arbitrary: ys) (auto elim: prefixE)

lemma lcp_zero_iff: "xs \<noteq> [] \<Longrightarrow> ys \<noteq> [] \<Longrightarrow> lcp_length xs ys = 0 \<longleftrightarrow> hd xs \<noteq> hd ys"
  by (cases xs; cases ys) auto

text \<open>A key nearer to the tuple shares at least as long a prefix with it, on either side.\<close>

lemma lcp_nearer_below: "k \<le> k' \<Longrightarrow> k' \<le> t \<Longrightarrow> lcp_length k t \<le> lcp_length k' (t :: 'a::linorder list)"
proof (induction k t arbitrary: k' rule: lcp_length.induct)
  case (1 x xs y ys)
  then show ?case by (cases k') auto
qed auto

lemma lcp_nearer_above: "t \<le> k' \<Longrightarrow> k' \<le> k \<Longrightarrow> lcp_length k t \<le> lcp_length k' (t :: 'a::linorder list)"
proof (induction k t arbitrary: k' rule: lcp_length.induct)
  case (1 x xs y ys)
  then show ?case by (cases k') auto
qed auto

end
