(* ===== verification/MemLayers.thy ===== *)
theory MemLayers
  imports Prelude Complex_Main
begin

text \<open>
  The layers that the memory-aware prefix cache of \<^verbatim>\<open>src/fusion_mlx/memory_cache.py\<close> stores: the
  estimate of their memory, the trimming of their offset and of their arrays, and their compression.
  An array has four axes; the third is the position in the sequence, and a row stands for everything
  an array holds of one position. The classes of mlx_lm and mlx_vlm are third-party code: what the
  module calls of them is the record \<open>kv_lib\<close>, an argument of the definitions. Copies made by
  \<open>copy.deepcopy\<close> are equal values.
\<close>

section \<open>Arrays and layers\<close>

record 'r arr =
  axis0 :: nat
  axis1 :: nat
  rows :: "'r list"
  axis3 :: nat
  item_size :: nat

text \<open>\<open>KVCache\<close>, and \<open>QuantizedKVCache\<close>, whose keys and values are tuples of arrays.\<close>

record 'r kv =
  kv_keys :: "'r arr option"
  kv_values :: "'r arr option"
  kv_offset :: int

record 'r qkv =
  q_keys :: "'r arr list"
  q_values :: "'r arr list"
  q_offset :: int
  q_group :: int
  q_bits :: int

text \<open>
  An object of any other class, by the attributes the module looks for: \<open>offset\<close>, \<open>keys\<close> with
  \<open>values\<close>, and \<open>state\<close>.
\<close>

datatype 'r attrs = NoAttrs | Arrays "'r arr option" "'r arr option" | Tuples "'r arr list" "'r arr list"

record ('r, 'x) obj =
  obj_class :: string
  obj_offset :: "int option"
  obj_attrs :: "'r attrs"
  obj_state :: "'r arr option list option"
  obj_rest :: 'x

datatype ('r, 't, 'x) layer =
    Absent
  | Plain "'r kv"
  | Quantized "'r qkv"
  | Turbo 't
  | StateDict "'r arr option list option"
  | Foreign "('r, 'x) obj"

text \<open>
  The library: \<open>KVCache.to_quantized\<close> and \<open>mx.dequantize\<close>; of \<open>TurboQuantKVCache\<close> the methods
  \<open>from_cache\<close>, \<open>dequantize\<close>, \<open>trim\<close>, the attributes \<open>memory_bytes\<close> and \<open>offset\<close> and whether its
  \<open>keys\<close> look oversized; the property \<open>KVCache.state\<close>, absent as long as there are no arrays;
  and the answer of \<open>is_trimmable()\<close>, or whether there is a \<open>trim\<close> if there is no such method.
\<close>

record ('r, 't, 'x) kv_lib =
  to_quantized :: "int \<Rightarrow> int \<Rightarrow> 'r kv \<Rightarrow> 'r qkv"
  mx_dequantize :: "'r arr list \<Rightarrow> int \<Rightarrow> int \<Rightarrow> 'r arr"
  tq_from_cache :: "'r kv \<Rightarrow> int \<Rightarrow> 't"
  tq_dequantize :: "'t \<Rightarrow> 'r arr \<times> 'r arr"
  tq_trim :: "int \<Rightarrow> 't \<Rightarrow> 't"
  tq_bytes :: "'t \<Rightarrow> int"
  tq_oversized :: "'t \<Rightarrow> bool"
  tq_offset :: "'t \<Rightarrow> int option"
  kv_state :: "'r kv \<Rightarrow> ('r arr \<times> 'r arr) option"
  answers_trimmable :: "('r, 't, 'x) layer \<Rightarrow> bool"

section \<open>Memory of a cache\<close>

text \<open>\<open>_array_memory\<close>: the product of the shape times the size of an item.\<close>

definition array_memory :: "'r arr option \<Rightarrow> int" where
  "array_memory a = (case a of None \<Rightarrow> 0
     | Some x \<Rightarrow> int (axis0 x) * int (axis1 x) * int (length (rows x)) * int (axis3 x) * int (item_size x))"

definition arrays_memory :: "'r arr list \<Rightarrow> int" where
  "arrays_memory xs = sum_list (map (\<lambda>a. array_memory (Some a)) xs)"

text \<open>
  One round of the loop of \<open>estimate_kv_cache_memory\<close>. Unpacking a state that is no pair raises;
  the handler of the branch for objects swallows it, the branch for dictionaries has none.
\<close>

definition pair_memory :: "'r arr option list \<Rightarrow> int option" where
  "pair_memory st = (case st of [k, v] \<Rightarrow> Some (array_memory k + array_memory v) | _ \<Rightarrow> None)"

definition layer_memory :: "('r, 't, 'x) kv_lib \<Rightarrow> ('r, 't, 'x) layer \<Rightarrow> py_error + int" where
  "layer_memory L layer = (case layer of
       Absent \<Rightarrow> Inr 0
     | Turbo t \<Rightarrow> Inr (tq_bytes L t)
     | StateDict None \<Rightarrow> Inr 0
     | StateDict (Some st) \<Rightarrow> (case pair_memory st of None \<Rightarrow> Inl ValueError | Some n \<Rightarrow> Inr n)
     | Quantized q \<Rightarrow> Inr (arrays_memory (q_keys q) + arrays_memory (q_values q))
     | Plain c \<Rightarrow> (case kv_state L c of
           Some (k, v) \<Rightarrow> Inr (array_memory (Some k) + array_memory (Some v))
         | None \<Rightarrow> Inr (array_memory (kv_keys c) + array_memory (kv_values c)))
     | Foreign x \<Rightarrow> (case obj_attrs x of
           Tuples ks vs \<Rightarrow> Inr (arrays_memory ks + arrays_memory vs)
         | attr \<Rightarrow> (case obj_state x of
               Some st \<Rightarrow> Inr (case pair_memory st of None \<Rightarrow> 0 | Some n \<Rightarrow> n)
             | None \<Rightarrow> Inr (case attr of Arrays k v \<Rightarrow> array_memory k + array_memory v | _ \<Rightarrow> 0))))"

fun estimate_kv_cache_memory :: "('r, 't, 'x) kv_lib \<Rightarrow> ('r, 't, 'x) layer list \<Rightarrow> py_error + int" where
  "estimate_kv_cache_memory L [] = Inr 0"
| "estimate_kv_cache_memory L (l # ls) = (case layer_memory L l of
       Inl e \<Rightarrow> Inl e
     | Inr n \<Rightarrow> (case estimate_kv_cache_memory L ls of Inl e \<Rightarrow> Inl e | Inr m \<Rightarrow> Inr (n + m)))"

section \<open>Trimming\<close>

text \<open>\<open>_trim_cache_offset\<close>: copies whose last positions are free again.\<close>

definition trim_layer_offset :: "('r, 't, 'x) kv_lib \<Rightarrow> int \<Rightarrow> ('r, 't, 'x) layer \<Rightarrow> ('r, 't, 'x) layer" where
  "trim_layer_offset L trim_by layer = (case layer of
       Absent \<Rightarrow> Absent
     | Quantized q \<Rightarrow> Quantized (q\<lparr>q_offset := max (q_offset q - trim_by) 0\<rparr>)
     | Turbo t \<Rightarrow> Turbo (tq_trim L trim_by t)
     | Plain c \<Rightarrow> Plain (c\<lparr>kv_offset := max (kv_offset c - trim_by) 0\<rparr>)
     | StateDict st \<Rightarrow> StateDict st
     | Foreign x \<Rightarrow> (case (obj_offset x, obj_attrs x) of
           (Some off, Arrays k v) \<Rightarrow> Plain \<lparr>kv_keys = k, kv_values = v, kv_offset = max (off - trim_by) 0\<rparr>
         | _ \<Rightarrow> Foreign x))"

definition trim_cache_offset ::
  "('r, 't, 'x) kv_lib \<Rightarrow> ('r, 't, 'x) layer list \<Rightarrow> int \<Rightarrow> ('r, 't, 'x) layer list" where
  "trim_cache_offset L cache trim_by = map (trim_layer_offset L trim_by) cache"

text \<open>\<open>_needs_kv_trim\<close> and \<open>_trim_to_offset\<close>: arrays longer than the used part are cut.\<close>

definition oversized :: "'r arr option \<Rightarrow> int \<Rightarrow> bool" where
  "oversized k off = (case k of None \<Rightarrow> False | Some a \<Rightarrow> 0 < off \<and> off < int (length (rows a)))"

definition needs_kv_trim :: "('r, 't, 'x) kv_lib \<Rightarrow> ('r, 't, 'x) layer \<Rightarrow> bool" where
  "needs_kv_trim L layer = (case layer of
       Plain c \<Rightarrow> oversized (kv_keys c) (kv_offset c)
     | Turbo t \<Rightarrow> tq_oversized L t
     | Foreign x \<Rightarrow> (case (obj_offset x, obj_attrs x) of
           (Some off, Arrays k v) \<Rightarrow> oversized k off | _ \<Rightarrow> False)
     | _ \<Rightarrow> False)"

definition cut_rows :: "int \<Rightarrow> 'r arr \<Rightarrow> 'r arr" where
  "cut_rows off a = a\<lparr>rows := pyslice 0 off (rows a)\<rparr>"

definition cut_layer :: "('r, 't, 'x) layer \<Rightarrow> ('r, 't, 'x) layer" where
  "cut_layer layer = (case layer of
       Plain c \<Rightarrow> (case kv_keys c of
           None \<Rightarrow> layer
         | Some k \<Rightarrow> (if kv_offset c \<le> 0 \<or> int (length (rows k)) \<le> kv_offset c then layer
                     else Plain \<lparr>kv_keys = Some (cut_rows (kv_offset c) k),
                       kv_values = map_option (cut_rows (kv_offset c)) (kv_values c),
                       kv_offset = kv_offset c\<rparr>))
     | _ \<Rightarrow> layer)"

definition trim_to_offset :: "('r, 't, 'x) kv_lib \<Rightarrow> ('r, 't, 'x) layer list \<Rightarrow> ('r, 't, 'x) layer list" where
  "trim_to_offset L cache = (if list_ex (needs_kv_trim L) cache then map cut_layer cache else cache)"

section \<open>Compression\<close>

definition quantize_cache :: "('r, 't, 'x) kv_lib \<Rightarrow> int \<Rightarrow> int \<Rightarrow> ('r, 't, 'x) layer list \<Rightarrow> ('r, 't, 'x) layer list" where
  "quantize_cache L bits group_size = map (\<lambda>layer. case layer of
       Plain c \<Rightarrow> (if kv_keys c \<noteq> None then Quantized (to_quantized L group_size bits c) else layer)
     | _ \<Rightarrow> layer)"

definition dequantize_cache :: "('r, 't, 'x) kv_lib \<Rightarrow> ('r, 't, 'x) layer list \<Rightarrow> ('r, 't, 'x) layer list" where
  "dequantize_cache L = map (\<lambda>layer. case layer of
       Quantized q \<Rightarrow> Plain \<lparr>kv_keys = Some (mx_dequantize L (q_keys q) (q_group q) (q_bits q)),
         kv_values = Some (mx_dequantize L (q_values q) (q_group q) (q_bits q)), kv_offset = q_offset q\<rparr>
     | _ \<Rightarrow> layer)"

text \<open>\<open>auto_select_bits\<close> of \<^verbatim>\<open>src/fusion_mlx/turboquant_kv.py\<close>.\<close>

definition auto_select_bits :: "int \<Rightarrow> int" where
  "auto_select_bits head_dim = (if 96 \<le> head_dim then 3 else 4)"

definition turboquant_compress_cache ::
  "('r, 't, 'x) kv_lib \<Rightarrow> int option \<Rightarrow> ('r, 't, 'x) layer list \<Rightarrow> ('r, 't, 'x) layer list" where
  "turboquant_compress_cache L bits = map (\<lambda>layer. case layer of
       Plain c \<Rightarrow> (if kv_keys c \<noteq> None
         then let head_dim = (case kv_values c of Some v \<Rightarrow> int (axis3 v) | None \<Rightarrow> 128);
                  actual_bits = (case bits of Some b \<Rightarrow> b | None \<Rightarrow> auto_select_bits head_dim)
              in Turbo (tq_from_cache L c actual_bits)
         else layer)
     | _ \<Rightarrow> layer)"

definition turboquant_decompress_cache ::
  "('r, 't, 'x) kv_lib \<Rightarrow> ('r, 't, 'x) layer list \<Rightarrow> ('r, 't, 'x) layer list" where
  "turboquant_decompress_cache L = map (\<lambda>layer. case layer of
       Turbo t \<Rightarrow> (let (k, v) = tq_dequantize L t
                 in Plain \<lparr>kv_keys = Some k, kv_values = Some v, kv_offset = int (length (rows k))\<rparr>)
     | _ \<Rightarrow> layer)"

text \<open>The test for layers that cannot be trimmed, as \<open>_match_locked\<close> makes it twice.\<close>

definition trimmable :: "('r, 't, 'x) kv_lib \<Rightarrow> ('r, 't, 'x) layer \<Rightarrow> bool" where
  "trimmable L layer = (case layer of Absent \<Rightarrow> False | StateDict _ \<Rightarrow> False | _ \<Rightarrow> answers_trimmable L layer)"

definition has_non_trimmable :: "('r, 't, 'x) kv_lib \<Rightarrow> ('r, 't, 'x) layer list \<Rightarrow> bool" where
  "has_non_trimmable L cache = list_ex (\<lambda>lc. \<not> trimmable L lc) cache"

text \<open>The class names that are recorded with a cache on disk, \<open>type(layer).__name__\<close>.\<close>

definition layer_class :: "('r, 't, 'x) layer \<Rightarrow> string" where
  "layer_class layer = (case layer of
       Absent \<Rightarrow> ''NoneType'' | Plain _ \<Rightarrow> ''KVCache'' | Quantized _ \<Rightarrow> ''QuantizedKVCache''
     | Turbo _ \<Rightarrow> ''TurboQuantKVCache'' | StateDict _ \<Rightarrow> ''dict'' | Foreign x \<Rightarrow> obj_class x)"

section \<open>First facts\<close>

text \<open>The test before cutting only saves work.\<close>

lemma trim_to_offset_eq: "trim_to_offset L cache = map cut_layer cache"
proof (cases "list_ex (needs_kv_trim L) cache")
  case False
  have "cut_layer l = l" if "\<not> needs_kv_trim L l" for l
    using that by (auto simp: cut_layer_def needs_kv_trim_def oversized_def split: layer.splits option.splits)
  with False have "map cut_layer cache = cache"
    by (intro map_idI) (auto simp: list_ex_iff)
  with False show ?thesis by (simp add: trim_to_offset_def)
qed (simp add: trim_to_offset_def)

lemma length_trim_cache_offset [simp]: "length (trim_cache_offset L c n) = length c"
  by (simp add: trim_cache_offset_def)

end
