(* ===== verification/MemCache.thy ===== *)
theory MemCache
  imports SortedKeys MemLayers
begin

text \<open>
  \<open>MemoryAwarePrefixCache\<close> of \<^verbatim>\<open>src/fusion_mlx/memory_cache.py\<close>: the configuration and its memory
  limit, the statistics, the search of the best stored entry for a prompt with what \<open>fetch\<close> hands
  out, and the operations that store, evict, remove and clear. The entries are an \<open>OrderedDict\<close>
  from the least to the most recently used; the lock is held for \<open>_match_locked\<close>, for the test at
  the start of \<open>store\<close>, for its insertion, and for the other operations.
\<close>

section \<open>Configuration\<close>

record mem_config =
  max_memory_mb :: "int option"
  max_memory_percent :: rat
  max_entries :: int
  enable_memory_tracking :: bool
  kv_quantize :: bool
  kv_bits :: int
  kv_group_size :: int
  kv_min_quantize_tokens :: int
  kv_turboquant :: bool
  kv_turboquant_bits :: "int option"
  kv_turboquant_group_size :: int

definition default_config :: mem_config where
  "default_config = \<lparr>max_memory_mb = None, max_memory_percent = 20 / 100, max_entries = 1000,
     enable_memory_tracking = True, kv_quantize = False, kv_bits = 8, kv_group_size = 64,
     kv_min_quantize_tokens = 256, kv_turboquant = False, kv_turboquant_bits = None,
     kv_turboquant_group_size = 32\<rparr>"

text \<open>\<open>__post_init__\<close>.\<close>

definition checked_config :: "mem_config \<Rightarrow> py_error + mem_config" where
  "checked_config g =
     (if \<not> (0 < max_memory_percent g \<and> max_memory_percent g \<le> 1) then Inl ValueError
      else if max_entries g < 1 then Inl ValueError
      else if kv_min_quantize_tokens g < 0 then Inl ValueError
      else Inr g)"

definition bytes_per_mb :: int where
  "bytes_per_mb = 1024 * 1024"

definition min_memory_bytes :: int where
  "min_memory_bytes = 100 * bytes_per_mb"

text \<open>\<open>compute_memory_limit\<close>; \<open>available\<close> is what \<open>_get_available_memory\<close> answers, 0 if it fails.\<close>

definition compute_memory_limit :: "mem_config \<Rightarrow> int \<Rightarrow> int" where
  "compute_memory_limit g available = (case max_memory_mb g of
       Some mb \<Rightarrow> mb * bytes_per_mb
     | None \<Rightarrow>
         if 0 < available then max \<lfloor>of_int available * max_memory_percent g\<rfloor> min_memory_bytes
         else \<lfloor>of_int (8 * 1024 * bytes_per_mb) * max_memory_percent g\<rfloor>)"

section \<open>State\<close>

record mem_stats =
  ms_hits :: int
  ms_misses :: int
  ms_evictions :: int
  ms_tokens_saved :: int
  ms_memory :: int
  ms_max_memory :: int
  ms_count :: int

definition fresh_stats :: "int \<Rightarrow> mem_stats" where
  "fresh_stats m = \<lparr>ms_hits = 0, ms_misses = 0, ms_evictions = 0, ms_tokens_saved = 0, ms_memory = 0,
     ms_max_memory = m, ms_count = 0\<rparr>"

definition mem_hit_rate :: "mem_stats \<Rightarrow> rat" where
  "mem_hit_rate st = (let total = ms_hits st + ms_misses st
     in if 0 < total then of_int (ms_hits st) / of_int total else 0)"

definition memory_utilization :: "mem_stats \<Rightarrow> rat" where
  "memory_utilization st = (if ms_max_memory st = 0 then 0
     else of_int (ms_memory st) / of_int (ms_max_memory st))"

record ('r, 't, 'x) mem_entry =
  en_tokens :: token_key
  en_cache :: "('r, 't, 'x) layer list"
  en_memory :: int

text \<open>\<open>_CacheEntry.create\<close>.\<close>

definition create_entry ::
  "('r, 't, 'x) kv_lib \<Rightarrow> int list \<Rightarrow> ('r, 't, 'x) layer list \<Rightarrow> py_error + ('r, 't, 'x) mem_entry" where
  "create_entry L tokens cache = (case estimate_kv_cache_memory L cache of
       Inl e \<Rightarrow> Inl e
     | Inr m \<Rightarrow> Inr \<lparr>en_tokens = tokens, en_cache = cache, en_memory = m\<rparr>)"

datatype match_type = Miss | Exact | Supersequence | PrefixMatch | Lcp

record ('r, 't, 'x) mem_cache =
  mc_config :: mem_config
  mc_entries :: "(token_key, ('r, 't, 'x) mem_entry) pydict"
  mc_sorted :: "token_key list"
  mc_max_memory :: int
  mc_memory :: int
  mc_stats :: mem_stats
  mc_last :: "match_type option"

definition new_mem_cache :: "mem_config \<Rightarrow> int \<Rightarrow> ('r, 't, 'x) mem_cache" where
  "new_mem_cache g available = (let m = compute_memory_limit g available
     in \<lparr>mc_config = g, mc_entries = [], mc_sorted = [], mc_max_memory = m, mc_memory = 0,
        mc_stats = fresh_stats m, mc_last = None\<rparr>)"

section \<open>Searching\<close>

text \<open>\<open>OrderedDict.move_to_end\<close>, which raises for a key that is missing.\<close>

definition move_to_end :: "'k \<Rightarrow> ('k, 'v) pydict \<Rightarrow> ('k, 'v) pydict option" where
  "move_to_end k d = (case map_of d k of None \<Rightarrow> None | Some v \<Rightarrow> Some (dict_del k d @ [(k, v)]))"

text \<open>The backward scan for the longest key that is a prefix of the prompt.\<close>

fun prefix_scan ::
  "token_key \<Rightarrow> (token_key, 'e) pydict \<Rightarrow> token_key list \<Rightarrow> py_error + ('e \<times> nat) option" where
  "prefix_scan T d [] = Inr None"
| "prefix_scan T d (k # ks) =
     (if length T \<le> length k then prefix_scan T d ks
      else if take (length k) T = k then
        (if 0 < length k
         then (case map_of d k of None \<Rightarrow> Inl KeyError | Some e \<Rightarrow> Inr (Some (e, length k)))
         else Inr None)
      else if hd k \<noteq> hd T then Inr None
      else prefix_scan T d ks)"

text \<open>The forward scan for the longest key that extends the prompt.\<close>

fun super_scan ::
  "token_key \<Rightarrow> (token_key, ('r, 't, 'x) mem_entry) pydict \<Rightarrow> ('r, 't, 'x) mem_entry option \<Rightarrow>
     token_key list \<Rightarrow> py_error + ('r, 't, 'x) mem_entry option" where
  "super_scan T d best [] = Inr best"
| "super_scan T d best (k # ks) =
     (if length k < length T then super_scan T d best ks
      else if take (length T) k = T then
        (if (case best of None \<Rightarrow> True | Some b \<Rightarrow> length (en_tokens b) < length k)
         then (case map_of d k of None \<Rightarrow> Inl KeyError | Some e \<Rightarrow> super_scan T d (Some e) ks)
         else super_scan T d best ks)
      else Inr best)"

text \<open>The two neighbours of the position of the prompt, and the longer common prefix among them.\<close>

definition neighbours :: "token_key \<Rightarrow> token_key list \<Rightarrow> token_key list" where
  "neighbours T keys = (let idx = bisect_left keys T
     in (if 1 \<le> idx \<and> idx - 1 < length keys then [keys ! (idx - 1)] else []) @
        (if idx < length keys then [keys ! idx] else []))"

fun lcp_scan ::
  "token_key \<Rightarrow> (token_key, 'e) pydict \<Rightarrow> ('e \<times> nat) option \<Rightarrow> token_key list \<Rightarrow>
     py_error + ('e \<times> nat) option" where
  "lcp_scan T d best [] = Inr best"
| "lcp_scan T d best (k # ks) =
     (let len = (case best of None \<Rightarrow> 0 | Some (_, n) \<Rightarrow> n)
      in if k = T then lcp_scan T d best ks
         else if min (length k) (length T) \<le> len then lcp_scan T d best ks
         else if len < lcp_length k T
           then (case map_of d k of None \<Rightarrow> Inl KeyError
                 | Some e \<Rightarrow> lcp_scan T d (Some (e, lcp_length k T)) ks)
         else lcp_scan T d best ks)"

text \<open>What the search hands to \<open>fetch\<close>: the entry, the excess to trim or a full copy, the rest.\<close>

type_synonym ('r, 't, 'x) match_spec = "('r, 't, 'x) mem_entry \<times> int option \<times> int list"

definition record_hit ::
  "token_key \<Rightarrow> match_type \<Rightarrow> nat \<Rightarrow> ('r, 't, 'x) match_spec \<Rightarrow> ('r, 't, 'x) mem_cache \<Rightarrow>
     (('r, 't, 'x) mem_cache, ('r, 't, 'x) match_spec option) outcome" where
  "record_hit key mt saved spec c = (case move_to_end key (mc_entries c) of
       None \<Rightarrow> raises KeyError c
     | Some d \<Rightarrow> returns (Some spec) (c\<lparr>mc_entries := d,
         mc_stats := (mc_stats c)\<lparr>ms_hits := ms_hits (mc_stats c) + 1,
           ms_tokens_saved := ms_tokens_saved (mc_stats c) + int saved\<rparr>,
         mc_last := Some mt\<rparr>))"

definition record_miss :: "('r, 't, 'x) mem_cache \<Rightarrow> ('r, 't, 'x) mem_cache" where
  "record_miss c = c\<lparr>mc_stats := (mc_stats c)\<lparr>ms_misses := ms_misses (mc_stats c) + 1\<rparr>,
     mc_last := Some Miss\<rparr>"

definition match_lcp ::
  "('r, 't, 'x) kv_lib \<Rightarrow> int list \<Rightarrow> ('r, 't, 'x) mem_cache \<Rightarrow>
     (('r, 't, 'x) mem_cache, ('r, 't, 'x) match_spec option) outcome" where
  "match_lcp L tokens c =
     (case lcp_scan tokens (mc_entries c) None (neighbours tokens (mc_sorted c)) of
        Inl e \<Rightarrow> raises e c
      | Inr (Some (best, n)) \<Rightarrow>
          (if 0 < n \<and> \<not> has_non_trimmable L (en_cache best)
           then record_hit (en_tokens best) Lcp n
             (best, Some (int (length (en_tokens best)) - int n), drop n tokens) c
           else returns None (record_miss c))
      | Inr None \<Rightarrow> returns None (record_miss c))"

definition match_prefix ::
  "('r, 't, 'x) kv_lib \<Rightarrow> int list \<Rightarrow> (('r, 't, 'x) mem_entry \<times> nat) option \<Rightarrow> ('r, 't, 'x) mem_cache \<Rightarrow>
     (('r, 't, 'x) mem_cache, ('r, 't, 'x) match_spec option) outcome" where
  "match_prefix L tokens best c = (case best of
       Some (e, n) \<Rightarrow> record_hit (en_tokens e) PrefixMatch n (e, None, drop n tokens) c
     | None \<Rightarrow> match_lcp L tokens c)"

text \<open>\<open>_match_locked\<close>.\<close>

definition match_locked ::
  "('r, 't, 'x) kv_lib \<Rightarrow> int list \<Rightarrow> ('r, 't, 'x) mem_cache \<Rightarrow>
     (('r, 't, 'x) mem_cache, ('r, 't, 'x) match_spec option) outcome" where
  "match_locked L tokens c = (case map_of (mc_entries c) tokens of
       Some e \<Rightarrow> record_hit tokens Exact (length tokens) (e, None, []) c
     | None \<Rightarrow>
         (let keys = mc_sorted c; idx = bisect_left keys tokens
          in case prefix_scan tokens (mc_entries c) (rev (take idx keys)) of
               Inl e \<Rightarrow> raises e c
             | Inr best_match \<Rightarrow>
                 (case super_scan tokens (mc_entries c) None (drop idx keys) of
                    Inl e \<Rightarrow> raises e c
                  | Inr None \<Rightarrow> match_prefix L tokens best_match c
                  | Inr (Some longer) \<Rightarrow>
                      (let excess = int (length (en_tokens longer)) - int (length tokens)
                       in if 0 < excess \<and> has_non_trimmable L (en_cache longer)
                          then match_prefix L tokens best_match c
                          else if 0 < excess
                          then record_hit (en_tokens longer) Supersequence (length tokens) (longer, Some excess, []) c
                          else record_hit (en_tokens longer) Supersequence (length tokens) (longer, None, []) c))))"

section \<open>Fetching\<close>

definition decompress_cache ::
  "('r, 't, 'x) kv_lib \<Rightarrow> mem_config \<Rightarrow> ('r, 't, 'x) layer list \<Rightarrow> ('r, 't, 'x) layer list" where
  "decompress_cache L g cache =
     (if kv_turboquant g then turboquant_decompress_cache L cache
      else if kv_quantize g then dequantize_cache L cache
      else cache)"

text \<open>What \<open>fetch\<close> does outside the lock: a trimmed or a full copy, decompressed.\<close>

definition materialise ::
  "('r, 't, 'x) kv_lib \<Rightarrow> mem_config \<Rightarrow> ('r, 't, 'x) match_spec \<Rightarrow> ('r, 't, 'x) layer list \<times> int list" where
  "materialise L g spec = (case spec of (entry, trim, remaining) \<Rightarrow>
     (decompress_cache L g (case trim of
          Some excess \<Rightarrow> trim_cache_offset L (en_cache entry) excess
        | None \<Rightarrow> en_cache entry), remaining))"

definition mem_fetch ::
  "('r, 't, 'x) kv_lib \<Rightarrow> int list \<Rightarrow> ('r, 't, 'x) mem_cache \<Rightarrow>
     (('r, 't, 'x) mem_cache, ('r, 't, 'x) layer list option \<times> int list) outcome" where
  "mem_fetch L tokens c =
     (if tokens = [] then returns (None, tokens) (record_miss c)
      else and_then (match_locked L tokens c) (\<lambda>spec c1. case spec of
          None \<Rightarrow> returns (None, tokens) c1
        | Some sp \<Rightarrow> (let (cache, remaining) = materialise L (mc_config c1) sp
                     in returns (Some cache, remaining) c1)))"

section \<open>Evicting and removing\<close>

text \<open>\<open>entry = _entries.pop(key)\<close> behind \<open>_remove_from_sorted(key)\<close>; \<open>pop\<close> raises for a missing key.\<close>

definition pop_entry ::
  "token_key \<Rightarrow> ('r, 't, 'x) mem_cache \<Rightarrow> (('r, 't, 'x) mem_cache, unit) outcome" where
  "pop_entry key c =
     (let c1 = c\<lparr>mc_sorted := remove_from_sorted key (mc_sorted c)\<rparr>
      in case map_of (mc_entries c) key of
           None \<Rightarrow> raises KeyError c1
         | Some e \<Rightarrow> returns () (c1\<lparr>mc_entries := dict_del key (mc_entries c),
             mc_memory := mc_memory c - en_memory e\<rparr>))"

definition count_eviction :: "('r, 't, 'x) mem_cache \<Rightarrow> ('r, 't, 'x) mem_cache" where
  "count_eviction c = c\<lparr>mc_stats := (mc_stats c)\<lparr>ms_evictions := ms_evictions (mc_stats c) + 1\<rparr>\<rparr>"

definition sync_stats :: "('r, 't, 'x) mem_cache \<Rightarrow> ('r, 't, 'x) mem_cache" where
  "sync_stats c = c\<lparr>mc_stats := (mc_stats c)\<lparr>ms_count := int (length (mc_entries c)), ms_memory := mc_memory c\<rparr>\<rparr>"

text \<open>\<open>_evict_lru\<close>.\<close>

definition evict_lru :: "('r, 't, 'x) mem_cache \<Rightarrow> ('r, 't, 'x) mem_cache" where
  "evict_lru c = (case mc_entries c of
       [] \<Rightarrow> c
     | (key, _) # _ \<Rightarrow> sync_stats (count_eviction (snd (pop_entry key c))))"

definition remove_tokens ::
  "int list \<Rightarrow> ('r, 't, 'x) mem_cache \<Rightarrow> bool \<times> ('r, 't, 'x) mem_cache" where
  "remove_tokens tokens c =
     (if tokens \<notin> set (dict_keys (mc_entries c)) then (False, c)
      else (True, sync_stats (snd (pop_entry tokens c))))"

definition clear_mem :: "('r, 't, 'x) mem_cache \<Rightarrow> ('r, 't, 'x) mem_cache" where
  "clear_mem c = c\<lparr>mc_entries := [], mc_sorted := [], mc_memory := 0, mc_stats := fresh_stats (mc_max_memory c)\<rparr>"

definition reset_mem_stats :: "('r, 't, 'x) mem_cache \<Rightarrow> ('r, 't, 'x) mem_cache" where
  "reset_mem_stats c = sync_stats (c\<lparr>mc_stats := fresh_stats (mc_max_memory c)\<rparr>)"

definition contains_tokens :: "int list \<Rightarrow> ('r, 't, 'x) mem_cache \<Rightarrow> bool" where
  "contains_tokens tokens c \<longleftrightarrow> tokens \<in> set (dict_keys (mc_entries c))"

section \<open>Storing\<close>

text \<open>The backward scan of \<open>store\<close> for all keys that are strict prefixes of the new one.\<close>

fun prefixes_below :: "token_key \<Rightarrow> token_key list \<Rightarrow> token_key list" where
  "prefixes_below T [] = []"
| "prefixes_below T (k # ks) =
     (if length T \<le> length k then prefixes_below T ks
      else if take (length k) T = k then k # prefixes_below T ks
      else if hd k \<noteq> hd T then []
      else prefixes_below T ks)"

fun evict_keys :: "token_key list \<Rightarrow> ('r, 't, 'x) mem_cache \<Rightarrow> (('r, 't, 'x) mem_cache, unit) outcome" where
  "evict_keys [] c = returns () c"
| "evict_keys (k # ks) c = and_then (pop_entry k c) (\<lambda>_ c1. evict_keys ks (count_eviction c1))"

definition evict_prefixes_of ::
  "token_key \<Rightarrow> ('r, 't, 'x) mem_cache \<Rightarrow> (('r, 't, 'x) mem_cache, unit) outcome" where
  "evict_prefixes_of T c =
     (let ks = prefixes_below T (rev (take (bisect_left (mc_sorted c) T) (mc_sorted c)))
      in and_then (evict_keys ks c) (\<lambda>_ c1. returns () (if ks \<noteq> [] then sync_stats c1 else c1)))"

text \<open>The loop that evicts until there is room.\<close>

definition too_full :: "int \<Rightarrow> ('r, 't, 'x) mem_cache \<Rightarrow> bool" where
  "too_full need c \<longleftrightarrow>
     (mc_max_memory c < mc_memory c + need \<or> max_entries (mc_config c) \<le> int (length (mc_entries c))) \<and>
     mc_entries c \<noteq> []"

lemma evict_lru_shrinks: "mc_entries c \<noteq> [] \<Longrightarrow> length (mc_entries (evict_lru c)) < length (mc_entries c)"
  by (auto simp: evict_lru_def pop_entry_def sync_stats_def count_eviction_def Let_def
      dict_del_def AList.delete_eq le_imp_less_Suc split: list.splits)

function evict_until_room :: "int \<Rightarrow> ('r, 't, 'x) mem_cache \<Rightarrow> ('r, 't, 'x) mem_cache" where
  "evict_until_room need c = (if too_full need c then evict_until_room need (evict_lru c) else c)"
  by pat_completeness auto
termination
  by (relation "measure (\<lambda>(n, c). length (mc_entries c))") (auto simp: too_full_def evict_lru_shrinks)

declare evict_until_room.simps [simp del]

text \<open>The first locked part of \<open>store\<close>: a key that is there is only moved.\<close>

definition store_probe ::
  "int list \<Rightarrow> ('r, 't, 'x) mem_cache \<Rightarrow> bool \<times> ('r, 't, 'x) mem_cache" where
  "store_probe tokens c = (case move_to_end tokens (mc_entries c) of
       Some d \<Rightarrow> (True, c\<lparr>mc_entries := d\<rparr>)
     | None \<Rightarrow> (False, c))"

text \<open>What \<open>store\<close> computes without the lock: the cut, compressed cache with its memory.\<close>

definition compress_for_store ::
  "('r, 't, 'x) kv_lib \<Rightarrow> mem_config \<Rightarrow> int list \<Rightarrow> ('r, 't, 'x) layer list \<Rightarrow> ('r, 't, 'x) layer list" where
  "compress_for_store L g tokens cache =
     (let long = kv_min_quantize_tokens g \<le> int (length tokens)
      in if kv_turboquant g \<and> long then turboquant_compress_cache L (kv_turboquant_bits g) cache
         else if kv_quantize g \<and> long then quantize_cache L (kv_bits g) (kv_group_size g) cache
         else cache)"

definition prepare_entry ::
  "('r, 't, 'x) kv_lib \<Rightarrow> mem_config \<Rightarrow> int list \<Rightarrow> ('r, 't, 'x) layer list \<Rightarrow> py_error + ('r, 't, 'x) mem_entry" where
  "prepare_entry L g tokens cache = create_entry L tokens (compress_for_store L g tokens (trim_to_offset L cache))"

text \<open>The second locked part: evict, then insert; unless another call has stored the key.\<close>

definition insert_entry :: "('r, 't, 'x) mem_entry \<Rightarrow> ('r, 't, 'x) mem_cache \<Rightarrow> ('r, 't, 'x) mem_cache" where
  "insert_entry e c = sync_stats (c\<lparr>mc_entries := dict_set (en_tokens e) e (mc_entries c),
     mc_memory := mc_memory c + en_memory e, mc_sorted := insort (mc_sorted c) (en_tokens e)\<rparr>)"

definition store_commit ::
  "bool \<Rightarrow> ('r, 't, 'x) mem_entry \<Rightarrow> ('r, 't, 'x) mem_cache \<Rightarrow> (('r, 't, 'x) mem_cache, bool) outcome" where
  "store_commit evict_prefixes e c = (case move_to_end (en_tokens e) (mc_entries c) of
       Some d \<Rightarrow> returns True (c\<lparr>mc_entries := d\<rparr>)
     | None \<Rightarrow>
         and_then (if evict_prefixes \<and> mc_sorted c \<noteq> [] then evict_prefixes_of (en_tokens e) c else returns () c)
           (\<lambda>_ c1. returns True (insert_entry e (evict_until_room (en_memory e) c1))))"

definition mem_store ::
  "('r, 't, 'x) kv_lib \<Rightarrow> int list \<Rightarrow> ('r, 't, 'x) layer list \<Rightarrow> bool \<Rightarrow> ('r, 't, 'x) mem_cache \<Rightarrow>
     (('r, 't, 'x) mem_cache, bool) outcome" where
  "mem_store L tokens cache evict_prefixes c =
     (if tokens = [] \<or> cache = [] then returns False c
      else case store_probe tokens c of
        (True, c1) \<Rightarrow> returns True c1
      | (False, c1) \<Rightarrow>
          (case prepare_entry L (mc_config c1) tokens cache of
             Inl e \<Rightarrow> raises e c1
           | Inr e \<Rightarrow> (if mc_max_memory c1 < en_memory e then returns False c1
                      else store_commit evict_prefixes e c1)))"

end
