(* ===== verification/MemDisk.thy ===== *)
theory MemDisk
  imports MemCache PyText
begin

text \<open>
  The files under the memory-aware prefix cache of \<^verbatim>\<open>src/fusion_mlx/memory_cache.py\<close>: directories
  and the operations on them, tokens as 32-bit integers, the header of a safetensors file, and which
  stored caches the configuration can load. A file is the string of its bytes.
\<close>

section \<open>Directories\<close>

text \<open>
  A disk maps the path of a directory to its files by name. An operation is recorded where it
  happens; \<open>Purge\<close> is what another process does to a directory meanwhile.
\<close>

type_synonym directory = "(string, string) pydict"
type_synonym disk = "(string, directory) pydict"

datatype purge = DropDir | DropFiles "string list"

datatype disk_op =
    RmTree string
  | MakeDirs string
  | WriteFile string string string
  | Rename string string
  | Purge string purge

definition drop_files :: "string list \<Rightarrow> directory \<Rightarrow> directory" where
  "drop_files names dir = filter (\<lambda>p. fst p \<notin> set names) dir"

text \<open>Writing needs the directory; renaming a directory replaces what an absent target leaves open.\<close>

definition apply_op :: "disk_op \<Rightarrow> disk \<Rightarrow> disk" where
  "apply_op op d = (case op of
       RmTree p \<Rightarrow> dict_del p d
     | MakeDirs p \<Rightarrow> (case map_of d p of None \<Rightarrow> dict_set p [] d | Some _ \<Rightarrow> d)
     | WriteFile p name b \<Rightarrow> (case map_of d p of None \<Rightarrow> d | Some dir \<Rightarrow> dict_set p (dict_set name b dir) d)
     | Rename p q \<Rightarrow> (case map_of d p of None \<Rightarrow> d | Some dir \<Rightarrow> dict_set q dir (dict_del p d))
     | Purge p DropDir \<Rightarrow> dict_del p d
     | Purge p (DropFiles ns) \<Rightarrow> (case map_of d p of None \<Rightarrow> d | Some dir \<Rightarrow> dict_set p (drop_files ns dir) d))"

definition exists_dir :: "string \<Rightarrow> disk \<Rightarrow> bool" where
  "exists_dir p d \<longleftrightarrow> map_of d p \<noteq> None"

definition read_file :: "string \<Rightarrow> string \<Rightarrow> disk \<Rightarrow> string option" where
  "read_file p name d = (case map_of d p of None \<Rightarrow> None | Some dir \<Rightarrow> map_of dir name)"

text \<open>
  The disks a crash can leave: some operations done, of the next one a part. A torn write leaves a
  prefix of the bytes, a torn removal some of the files.
\<close>

definition torn_op :: "disk_op \<Rightarrow> disk \<Rightarrow> disk \<Rightarrow> bool" where
  "torn_op op d d' \<longleftrightarrow> (case op of
       WriteFile p name b \<Rightarrow> (\<exists>n. d' = apply_op (WriteFile p name (take n b)) d)
     | RmTree p \<Rightarrow> (\<exists>ns. d' = apply_op (Purge p (DropFiles ns)) d)
     | _ \<Rightarrow> False)"

fun crash_disk :: "disk_op list \<Rightarrow> disk \<Rightarrow> disk \<Rightarrow> bool" where
  "crash_disk [] d d' \<longleftrightarrow> d' = d"
| "crash_disk (op # ops) d d' \<longleftrightarrow> d' = d \<or> torn_op op d d' \<or> crash_disk ops (apply_op op d) d'"

section \<open>Bytes\<close>

text \<open>Little-endian numbers: \<open>struct.unpack("<Q", b)\<close> and the items of \<open>array.array("i")\<close>.\<close>

fun le_value :: "string \<Rightarrow> nat" where
  "le_value [] = 0"
| "le_value (c # cs) = of_char c + 256 * le_value cs"

fun le_bytes :: "nat \<Rightarrow> nat \<Rightarrow> string" where
  "le_bytes 0 n = []"
| "le_bytes (Suc k) n = char_of (n mod 256) # le_bytes k (n div 256)"

definition int32 :: "int \<Rightarrow> bool" where
  "int32 t \<longleftrightarrow> - (2 ^ 31) \<le> t \<and> t < 2 ^ 31"

definition item_bytes :: "int \<Rightarrow> string" where
  "item_bytes t = le_bytes 4 (nat (t mod 2 ^ 32))"

definition item_value :: "string \<Rightarrow> int" where
  "item_value b = (let n = int (le_value b) in if n < 2 ^ 31 then n else n - 2 ^ 32)"

text \<open>\<open>array.array("i", tokens)\<close> raises \<open>OverflowError\<close> for a token that does not fit.\<close>

definition tokens_bytes :: "int list \<Rightarrow> string option" where
  "tokens_bytes ts = (if list_all int32 ts then Some (concat (map item_bytes ts)) else None)"

fun read_items :: "nat \<Rightarrow> string \<Rightarrow> int list" where
  "read_items 0 b = []"
| "read_items (Suc n) b = item_value (take 4 b) # read_items n (drop 4 b)"

section \<open>The header of a safetensors file\<close>

text \<open>
  The parsed JSON header: the entry \<open>__metadata__\<close> with its text values, and the entries of the
  tensors, with their offsets if they are two integers.
\<close>

datatype st_meta = Metadata "(string, string) pydict" | Tensor "(int \<times> int) option"

type_synonym st_header = "(string, st_meta) pydict"

text \<open>
  \<open>_read_safetensors_header\<close>; \<open>parse\<close> is \<open>json.loads\<close> of the header bytes, \<open>None\<close> unless it gives a
  dictionary.
\<close>

definition read_safetensors_header ::
  "(string \<Rightarrow> st_header option) \<Rightarrow> string \<Rightarrow> (st_header \<times> nat) option" where
  "read_safetensors_header parse b =
     (if length b < 8 then None
      else let header_len = le_value (take 8 b)
           in if header_len = 0 \<or> length b < 8 + header_len then None
              else case parse (take header_len (drop 8 b)) of
                     None \<Rightarrow> None
                   | Some h \<Rightarrow> Some (h, header_len))"

text \<open>\<open>_safetensors_is_complete\<close>: the loop over the tensors, then the test of the size.\<close>

fun max_end_of :: "st_header \<Rightarrow> int \<Rightarrow> int option" where
  "max_end_of [] m = Some m"
| "max_end_of ((name, meta) # rest) m =
     (if name = ''__metadata__'' then max_end_of rest m
      else case meta of
             Tensor (Some (a, e)) \<Rightarrow> (if a < 0 \<or> e < a then None else max_end_of rest (max e m))
           | _ \<Rightarrow> None)"

definition safetensors_is_complete :: "(string \<Rightarrow> st_header option) \<Rightarrow> string \<Rightarrow> bool" where
  "safetensors_is_complete parse b = (case read_safetensors_header parse b of
       None \<Rightarrow> False
     | Some (h, header_len) \<Rightarrow> (case max_end_of h 0 of
           None \<Rightarrow> False
         | Some max_end \<Rightarrow> 8 + int header_len + max_end \<le> int (length b)))"

text \<open>
  \<open>_safetensors_cache_classes\<close>: the values under the keys \<open>"2.{layer}"\<close>, by layer; keys whose rest
  is no integer and empty values are passed over.
\<close>

definition class_index :: "string \<Rightarrow> int option" where
  "class_index k = (if starts_with k ''2.'' then py_int (strip (drop 2 k)) else None)"

fun layer_classes :: "(string, string) pydict \<Rightarrow> (int, string) pydict \<Rightarrow> (int, string) pydict" where
  "layer_classes [] acc = acc"
| "layer_classes ((k, v) # rest) acc = (case class_index k of
       Some i \<Rightarrow> layer_classes rest (if v \<noteq> [] then dict_set i v acc else acc)
     | None \<Rightarrow> layer_classes rest acc)"

definition safetensors_cache_classes :: "(string \<Rightarrow> st_header option) \<Rightarrow> string \<Rightarrow> string list" where
  "safetensors_cache_classes parse b = (case read_safetensors_header parse b of
       None \<Rightarrow> []
     | Some (h, _) \<Rightarrow> (case map_of h ''__metadata__'' of
           Some (Metadata meta) \<Rightarrow> (let lc = layer_classes meta []
             in map (\<lambda>i. the (map_of lc i)) (sort (dict_keys lc)))
         | _ \<Rightarrow> []))"

text \<open>\<open>_cache_classes_compatible\<close>, without the reason.\<close>

definition cache_classes_compatible :: "string list \<Rightarrow> mem_config \<Rightarrow> bool" where
  "cache_classes_compatible names g = list_all (\<lambda>cn.
     \<not> (cn = ''QuantizedKVCache'' \<and> \<not> kv_quantize g) \<and>
     \<not> (cn = ''TurboQuantKVCache'' \<and> \<not> kv_turboquant g)) names"

section \<open>What is read is what was written\<close>

lemma length_le_bytes [simp]: "length (le_bytes k n) = k"
  by (induction k arbitrary: n) auto

lemma le_value_bytes: "n < 256 ^ k \<Longrightarrow> le_value (le_bytes k n) = n"
proof (induction k arbitrary: n)
  case (Suc k)
  then have "n div 256 < 256 ^ k" by (simp add: less_mult_imp_div_less mult.commute)
  with Suc show ?case by simp
qed simp

lemma length_item_bytes [simp]: "length (item_bytes t) = 4"
  by (simp add: item_bytes_def)

lemma item_value_bytes: "int32 t \<Longrightarrow> item_value (item_bytes t) = t"
proof -
  assume t: "int32 t"
  have "nat (t mod 2 ^ 32) < 256 ^ 4" by (simp add: nat_less_iff)
  then have "int (le_value (item_bytes t)) = t mod 2 ^ 32"
    unfolding item_bytes_def by (simp add: le_value_bytes)
  moreover have "t mod 2 ^ 32 = (if 0 \<le> t then t else t + 2 ^ 32)"
  proof (cases "0 \<le> t")
    case False
    have "(t + 2 ^ 32) mod 2 ^ 32 = t + 2 ^ 32" using t False by (intro mod_pos_pos_trivial) (auto simp: int32_def)
    then show ?thesis using False by simp
  qed (use t in \<open>auto simp: int32_def\<close>)
  ultimately show ?thesis using t by (auto simp: item_value_def Let_def int32_def)
qed

lemma length_tokens_bytes: "tokens_bytes ts = Some b \<Longrightarrow> length b = 4 * length ts"
  by (auto simp: tokens_bytes_def length_concat sum_list_triv comp_def split: if_splits)

lemma read_items_bytes: "list_all int32 ts \<Longrightarrow> read_items (length ts) (concat (map item_bytes ts)) = ts"
  by (induction ts) (simp_all add: item_value_bytes)

end
