(* ===== verification/MemPersist.thy ===== *)
theory MemPersist
  imports MemDisk
begin

text \<open>
  \<open>save_to_disk\<close> and \<open>load_from_disk\<close> of \<^verbatim>\<open>src/fusion_mlx/memory_cache.py\<close>. A save gives its answer,
  the disk it leaves and the operations in their order, so that a crash between or inside them can be
  stated. What mlx_lm writes for a cache and reads back, the JSON text of the index and the parsed
  header of a tensor file are parameters.
\<close>

section \<open>The index file\<close>

record index_entry =
  ie_index :: nat
  ie_num_tokens :: nat
  ie_memory :: int
  ie_types :: "string list"

record mem_index =
  ix_version :: int
  ix_num_entries :: int
  ix_total_memory :: int
  ix_entries :: "index_entry list"

text \<open>
  \<open>save_prompt_cache(path, cache, metadata={"num_tokens": ...})\<close> as the bytes it writes, \<open>None\<close> if it
  raises; \<open>load_prompt_cache\<close>, \<open>None\<close> if it raises; \<open>json.dump\<close> and \<open>json.load\<close> of the index; and
  \<open>json.loads\<close> of a safetensors header.
\<close>

record ('r, 't, 'x) mem_io =
  io_save :: "('r, 't, 'x) layer list \<Rightarrow> nat \<Rightarrow> string option"
  io_load :: "string \<Rightarrow> ('r, 't, 'x) layer list option"
  io_index_text :: "mem_index \<Rightarrow> string"
  io_index_parse :: "string \<Rightarrow> mem_index option"
  io_header :: "string \<Rightarrow> st_header option"

text \<open>
  What the system does during a save: how many bytes of a file of an entry are written before the
  write fails (\<open>None\<close>: it succeeds), the same for the index, and what another process does to the
  staging directory before an entry, before the files are counted, before the last look at them, and
  before the index is opened.
\<close>

datatype save_point = AtEntry nat | AtFilter | AtRecheck | AtIndex

record save_sys =
  ss_tensors :: "nat \<Rightarrow> nat option"
  ss_tokens :: "nat \<Rightarrow> nat option"
  ss_index :: "nat option"
  ss_purge :: "save_point \<Rightarrow> purge option"

definition calm :: save_sys where
  "calm = \<lparr>ss_tensors = (\<lambda>_. None), ss_tokens = (\<lambda>_. None), ss_index = None, ss_purge = (\<lambda>_. None)\<rparr>"

section \<open>Names\<close>

definition rstrip_sep :: "string \<Rightarrow> string" where
  "rstrip_sep p = rev (dropWhile (\<lambda>c. c = CHR ''/'') (rev p))"

definition entry_file :: "nat \<Rightarrow> string" where
  "entry_file i = ''entry_'' @ nat_str i @ ''.safetensors''"

definition tokens_file :: "nat \<Rightarrow> string" where
  "tokens_file i = ''entry_'' @ nat_str i @ ''_tokens.bin''"

definition index_file :: string where
  "index_file = ''index.json''"

definition both_exist :: "string \<Rightarrow> nat \<Rightarrow> disk \<Rightarrow> bool" where
  "both_exist dir i d \<longleftrightarrow> read_file dir (entry_file i) d \<noteq> None \<and> read_file dir (tokens_file i) d \<noteq> None"

section \<open>Saving\<close>

text \<open>A run of operations: the disk and the operations done, the last one first.\<close>

type_synonym disk_run = "disk \<times> disk_op list"

definition run_op :: "disk_op \<Rightarrow> disk_run \<Rightarrow> disk_run" where
  "run_op op r = (apply_op op (fst r), op # snd r)"

definition run_purge :: "save_sys \<Rightarrow> save_point \<Rightarrow> string \<Rightarrow> disk_run \<Rightarrow> disk_run" where
  "run_purge sys pt dir r = (case ss_purge sys pt of None \<Rightarrow> r | Some p \<Rightarrow> run_op (Purge dir p) r)"

text \<open>Writing a file of an entry: a missing directory raises, and a write may fail half-way.\<close>

definition write_part :: "nat option \<Rightarrow> string \<Rightarrow> string \<Rightarrow> string \<Rightarrow> disk_run \<Rightarrow> bool \<times> disk_run" where
  "write_part fails dir name b r =
     (if \<not> exists_dir dir (fst r) then (False, r)
      else case fails of
             None \<Rightarrow> (True, run_op (WriteFile dir name b) r)
           | Some n \<Rightarrow> (False, run_op (WriteFile dir name (take n b)) r))"

definition persist_cache :: "('r, 't, 'x) kv_lib \<Rightarrow> ('r, 't, 'x) layer list \<Rightarrow> ('r, 't, 'x) layer list" where
  "persist_cache L cache =
     (if list_ex (\<lambda>l. case l of Quantized _ \<Rightarrow> True | _ \<Rightarrow> False) cache then dequantize_cache L cache else cache)"

text \<open>One round of the loop: the record for the index, or nothing if an exception was caught.\<close>

definition save_entry ::
  "('r, 't, 'x) kv_lib \<Rightarrow> ('r, 't, 'x) mem_io \<Rightarrow> save_sys \<Rightarrow> string \<Rightarrow> nat \<Rightarrow> token_key \<Rightarrow>
     ('r, 't, 'x) mem_entry \<Rightarrow> disk_run \<Rightarrow> index_entry option \<times> disk_run" where
  "save_entry L io sys dir i key e r =
     (let persist = persist_cache L (en_cache e)
      in case io_save io persist (length key) of
           None \<Rightarrow> (None, r)
         | Some b \<Rightarrow>
             (case write_part (ss_tensors sys i) dir (entry_file i) b r of
                (False, r1) \<Rightarrow> (None, r1)
              | (True, r1) \<Rightarrow>
                  (case tokens_bytes key of
                     None \<Rightarrow> (None, r1)
                   | Some tb \<Rightarrow>
                       (case write_part (ss_tokens sys i) dir (tokens_file i) tb r1 of
                          (False, r2) \<Rightarrow> (None, r2)
                        | (True, r2) \<Rightarrow>
                            (Some \<lparr>ie_index = i, ie_num_tokens = length key, ie_memory = en_memory e,
                               ie_types = map layer_class (filter (\<lambda>l. l \<noteq> Absent) persist)\<rparr>, r2)))))"

fun save_entries ::
  "('r, 't, 'x) kv_lib \<Rightarrow> ('r, 't, 'x) mem_io \<Rightarrow> save_sys \<Rightarrow> string \<Rightarrow> nat \<Rightarrow>
     (token_key, ('r, 't, 'x) mem_entry) pydict \<Rightarrow> disk_run \<Rightarrow> index_entry list \<times> disk_run" where
  "save_entries L io sys dir i [] r = ([], r)"
| "save_entries L io sys dir i ((key, e) # rest) r =
     (let (m, r1) = save_entry L io sys dir i key e (run_purge sys (AtEntry i) dir r);
          (ms, r2) = save_entries L io sys dir (Suc i) rest r1
      in (case m of None \<Rightarrow> ms | Some x \<Rightarrow> x # ms, r2))"

definition clean_stale :: "string \<Rightarrow> disk_run \<Rightarrow> disk_run" where
  "clean_stale p r = (if exists_dir p (fst r) then run_op (RmTree p) r else r)"

text \<open>From the counting of the surviving files to the index, which is written last.\<close>

definition write_index ::
  "('r, 't, 'x) mem_io \<Rightarrow> save_sys \<Rightarrow> string \<Rightarrow> mem_index \<Rightarrow> disk_run \<Rightarrow> bool \<times> disk_run" where
  "write_index io sys new ix r =
     (let r1 = run_purge sys AtFilter new r;
          verified = filter (\<lambda>m. both_exist new (ie_index m) (fst r1)) (ix_entries ix);
          ix1 = (if length verified < length (ix_entries ix)
                 then ix\<lparr>ix_entries := verified, ix_num_entries := int (length verified)\<rparr> else ix)
      in case verified of
           [] \<Rightarrow> (False, run_op (RmTree new) r1)
         | m # _ \<Rightarrow>
             (let r2 = run_purge sys AtRecheck new (run_op (MakeDirs new) r1)
              in if \<not> both_exist new (ie_index m) (fst r2) then (False, run_op (RmTree new) r2)
                 else case write_part (ss_index sys) new index_file (io_index_text io ix1) (run_purge sys AtIndex new r2) of
                        (False, r3) \<Rightarrow> (False, run_op (RmTree new) r3)
                      | (True, r3) \<Rightarrow> (True, r3)))"

text \<open>The swap of the directories.\<close>

definition commit_swap :: "string \<Rightarrow> string \<Rightarrow> string \<Rightarrow> disk_run \<Rightarrow> disk_run" where
  "commit_swap base new old r =
     (let r1 = (if exists_dir base (fst r) then run_op (Rename base old) r else r);
          r2 = run_op (Rename new base) r1
      in if exists_dir old (fst r2) then run_op (RmTree old) r2 else r2)"

definition save_run ::
  "('r, 't, 'x) kv_lib \<Rightarrow> ('r, 't, 'x) mem_io \<Rightarrow> save_sys \<Rightarrow> string \<Rightarrow> ('r, 't, 'x) mem_cache \<Rightarrow> disk \<Rightarrow>
     bool \<times> disk_run" where
  "save_run L io sys cache_dir c d =
     (if mc_entries c = [] then (False, (d, []))
      else
        let base = rstrip_sep cache_dir; new = base @ ''.new''; old = base @ ''.old'';
            r0 = run_op (MakeDirs new) (clean_stale old (clean_stale new (d, [])));
            (saved, r1) = save_entries L io sys new 0 (mc_entries c) r0
        in if saved = [] then (False, run_op (RmTree new) r1)
           else case write_index io sys new \<lparr>ix_version = 2, ix_num_entries = int (length (mc_entries c)),
               ix_total_memory = mc_memory c, ix_entries = saved\<rparr> r1 of
             (False, r2) \<Rightarrow> (False, r2)
           | (True, r2) \<Rightarrow> (True, commit_swap base new old r2))"

definition save_to_disk ::
  "('r, 't, 'x) kv_lib \<Rightarrow> ('r, 't, 'x) mem_io \<Rightarrow> save_sys \<Rightarrow> string \<Rightarrow> ('r, 't, 'x) mem_cache \<Rightarrow> disk \<Rightarrow> bool \<times> disk" where
  "save_to_disk L io sys cache_dir c d = (case save_run L io sys cache_dir c d of (ok, r) \<Rightarrow> (ok, fst r))"

section \<open>Loading\<close>

text \<open>\<open>_has_valid_index\<close>.\<close>

definition has_valid_index :: "('r, 't, 'x) mem_io \<Rightarrow> string \<Rightarrow> disk \<Rightarrow> bool" where
  "has_valid_index io dir d = (case read_file dir index_file d of
       None \<Rightarrow> False
     | Some t \<Rightarrow> (case io_index_parse io t of
           None \<Rightarrow> False
         | Some ix \<Rightarrow> 2 \<le> ix_version ix \<and>
             (case ix_entries ix of [] \<Rightarrow> False | m # _ \<Rightarrow> both_exist dir (ie_index m) d)))"

text \<open>The recovery of an interrupted save, with the cleaning of staging directories.\<close>

definition drop_dir :: "string \<Rightarrow> disk \<Rightarrow> disk" where
  "drop_dir p d = (if exists_dir p d then apply_op (RmTree p) d else d)"

definition recover :: "('r, 't, 'x) mem_io \<Rightarrow> string \<Rightarrow> string \<Rightarrow> string \<Rightarrow> disk \<Rightarrow> disk" where
  "recover io base new old d =
     (if \<not> exists_dir base d
      then if has_valid_index io new d then drop_dir old (apply_op (Rename new base) d)
           else if has_valid_index io old d then drop_dir new (apply_op (Rename old base) d)
           else d
      else drop_dir old (drop_dir new d))"

text \<open>
  One entry of the index: an entry that fails a test is passed over, and an entry that does not fit
  ends the loop. The offset that is compared is that of the first layer, where it has one.
\<close>

definition head_offset :: "('r, 't, 'x) kv_lib \<Rightarrow> ('r, 't, 'x) layer \<Rightarrow> int option" where
  "head_offset L l = (case l of
       Plain k \<Rightarrow> Some (kv_offset k) | Quantized q \<Rightarrow> Some (q_offset q) | Turbo t \<Rightarrow> tq_offset L t
     | Foreign x \<Rightarrow> obj_offset x | _ \<Rightarrow> None)"

datatype ('r, 't, 'x) mem_load_result = Skip | Stop | Take "('r, 't, 'x) mem_entry"

definition load_entry ::
  "('r, 't, 'x) kv_lib \<Rightarrow> ('r, 't, 'x) mem_io \<Rightarrow> string \<Rightarrow> disk \<Rightarrow> index_entry \<Rightarrow> ('r, 't, 'x) mem_cache \<Rightarrow>
     ('r, 't, 'x) mem_load_result" where
  "load_entry L io dir d m c = (case (read_file dir (entry_file (ie_index m)) d, read_file dir (tokens_file (ie_index m)) d) of
       (Some b, Some tb) \<Rightarrow>
         (let types = (if ie_types m = [] then safetensors_cache_classes (io_header io) b else ie_types m)
          in if \<not> cache_classes_compatible types (mc_config c) then Skip
             else if length tb \<noteq> ie_num_tokens m * 4 then Skip
             else if \<not> safetensors_is_complete (io_header io) b then Skip
             else
               let tokens = read_items (ie_num_tokens m) tb
               in if tokens \<in> set (dict_keys (mc_entries c)) then Skip
                  else case io_load io b of
                    None \<Rightarrow> Skip
                  | Some cache \<Rightarrow>
                      (if (case cache of [] \<Rightarrow> False | l # _ \<Rightarrow>
                             (case head_offset L l of None \<Rightarrow> False | Some off \<Rightarrow> off \<noteq> int (length tokens)))
                       then Skip
                       else case estimate_kv_cache_memory L cache of
                              Inl _ \<Rightarrow> Skip
                            | Inr memory \<Rightarrow>
                                (if mc_max_memory c < mc_memory c + memory then Stop
                                 else Take \<lparr>en_tokens = tokens, en_cache = cache, en_memory = memory\<rparr>)))
     | _ \<Rightarrow> Skip)"

definition add_loaded :: "('r, 't, 'x) mem_entry \<Rightarrow> ('r, 't, 'x) mem_cache \<Rightarrow> ('r, 't, 'x) mem_cache" where
  "add_loaded e c = c\<lparr>mc_entries := dict_set (en_tokens e) e (mc_entries c),
     mc_memory := mc_memory c + en_memory e, mc_sorted := insort (mc_sorted c) (en_tokens e)\<rparr>"

fun load_entries ::
  "('r, 't, 'x) kv_lib \<Rightarrow> ('r, 't, 'x) mem_io \<Rightarrow> string \<Rightarrow> disk \<Rightarrow> index_entry list \<Rightarrow> nat \<Rightarrow> ('r, 't, 'x) mem_cache \<Rightarrow>
     nat \<times> ('r, 't, 'x) mem_cache" where
  "load_entries L io dir d [] n c = (n, c)"
| "load_entries L io dir d (m # ms) n c = (case load_entry L io dir d m c of
       Skip \<Rightarrow> load_entries L io dir d ms n c
     | Stop \<Rightarrow> (n, c)
     | Take e \<Rightarrow> load_entries L io dir d ms (Suc n) (add_loaded e c))"

text \<open>\<open>load_from_disk\<close>: an index that is no JSON raises.\<close>

definition load_from_disk ::
  "('r, 't, 'x) kv_lib \<Rightarrow> ('r, 't, 'x) mem_io \<Rightarrow> string \<Rightarrow> ('r, 't, 'x) mem_cache \<Rightarrow> disk \<Rightarrow>
     (('r, 't, 'x) mem_cache \<times> disk, nat) outcome" where
  "load_from_disk L io cache_dir c d =
     (let base = rstrip_sep cache_dir; d1 = recover io base (base @ ''.new'') (base @ ''.old'') d
      in case read_file base index_file d1 of
           None \<Rightarrow> returns 0 (c, d1)
         | Some t \<Rightarrow> (case io_index_parse io t of
               None \<Rightarrow> raises ValueError (c, d1)
             | Some ix \<Rightarrow>
                 (if ix_version ix < 2 then returns 0 (c, d1)
                  else case load_entries L io base d1 (ix_entries ix) 0 c of
                         (n, c1) \<Rightarrow> returns n (sync_stats c1, d1))))"

end
