(* ===== verification/MemCrash.thy ===== *)
theory MemCrash
  imports MemPersist
begin

text \<open>
  A crash at any moment of \<open>save_to_disk\<close> leaves a disk from which \<open>load_from_disk\<close> reads the old
  snapshot or the new one.
\<close>

section \<open>Runs and the disks a crash leaves\<close>

lemma crash_final: "crash_disk ops d (fold apply_op ops d)"
  by (induction ops arbitrary: d) auto

lemma crash_snoc: "crash_disk (ops @ [op]) d d' \<longleftrightarrow> crash_disk ops d d' \<or>
    torn_op op (fold apply_op ops d) d' \<or> d' = apply_op op (fold apply_op ops d)"
  by (induction ops arbitrary: d) (auto simp: crash_final)

text \<open>A run from a disk, all of whose crash disks satisfy a predicate.\<close>

definition runs :: "disk \<Rightarrow> (disk \<Rightarrow> bool) \<Rightarrow> disk_run \<Rightarrow> bool" where
  "runs d0 Q r \<longleftrightarrow> fst r = fold apply_op (rev (snd r)) d0 \<and> (\<forall>d'. crash_disk (rev (snd r)) d0 d' \<longrightarrow> Q d')"

lemma runs_start: "Q d \<Longrightarrow> runs d Q (d, [])"
  by (simp add: runs_def)

lemma runs_op:
  assumes "runs d0 Q r" "Q (apply_op op (fst r))" "\<And>d'. torn_op op (fst r) d' \<Longrightarrow> Q d'"
  shows "runs d0 Q (run_op op r)"
  using assms by (auto simp: runs_def run_op_def crash_snoc)

lemma runs_mono: "runs d0 Q r \<Longrightarrow> (\<And>d. Q d \<Longrightarrow> Q' d) \<Longrightarrow> runs d0 Q' r"
  by (auto simp: runs_def)

lemma runs_now: "runs d0 Q r \<Longrightarrow> Q (fst r)"
  using crash_final by (force simp: runs_def)

section \<open>Writing to the staging directory\<close>

text \<open>
  While a save fills the staging directory, the old snapshot \<open>D\<close> stays, nothing is set aside, and the
  staging directory has no index that can be read.
\<close>

definition staged ::
  "('r, 't, 'x) mem_io \<Rightarrow> string \<Rightarrow> string \<Rightarrow> string \<Rightarrow> directory option \<Rightarrow> disk \<Rightarrow> bool" where
  "staged io base new old D d \<longleftrightarrow> map_of d base = D \<and> map_of d old = None \<and>
     (\<forall>t. read_file new index_file d = Some t \<longrightarrow> io_index_parse io t = None)"

definition touches_staging :: "('r, 't, 'x) mem_io \<Rightarrow> string \<Rightarrow> disk_op \<Rightarrow> bool" where
  "touches_staging io new op \<longleftrightarrow> (case op of
       RmTree p \<Rightarrow> p = new
     | MakeDirs p \<Rightarrow> p = new
     | WriteFile p name b \<Rightarrow> p = new \<and> (name = index_file \<longrightarrow> (\<forall>n. io_index_parse io (take n b) = None))
     | Rename _ _ \<Rightarrow> False
     | Purge p _ \<Rightarrow> p = new)"

lemma map_of_drop_files: "map_of (drop_files ns dir) n = (if n \<in> set ns then None else map_of dir n)"
  by (induction dir) (auto simp: drop_files_def)

lemma map_of_apply_other:
  assumes "touches_staging io new op" "p \<noteq> new"
  shows "map_of (apply_op op d) p = map_of d p"
  using assms
  by (cases op) (auto simp: touches_staging_def apply_op_def map_of_dict_del map_of_dict_set split: option.splits purge.splits)

lemma staged_op:
  assumes "staged io base new old D d" "touches_staging io new op" "base \<noteq> new" "old \<noteq> new"
  shows "staged io base new old D (apply_op op d)"
proof -
  have "io_index_parse io t = None" if "read_file new index_file (apply_op op d) = Some t" for t
  proof (cases op)
    case (WriteFile p name b)
    then have *: "p = new" "name = index_file \<longrightarrow> (\<forall>n. io_index_parse io (take n b) = None)"
      using assms(2) by (auto simp: touches_staging_def)
    from *(2) have "name = index_file \<longrightarrow> io_index_parse io b = None" by (metis take_all order_refl)
    with * that WriteFile assms(1) show ?thesis
      by (auto simp: staged_def apply_op_def read_file_def map_of_dict_set split: option.splits if_splits)
  next
    case (Purge p x)
    then show ?thesis using that assms(1,2)
      by (cases x) (auto simp: staged_def touches_staging_def apply_op_def read_file_def map_of_dict_set
          map_of_dict_del map_of_drop_files split: option.splits if_splits)
  qed (use that assms(1,2) in \<open>auto simp: staged_def touches_staging_def apply_op_def read_file_def
      map_of_dict_set map_of_dict_del split: option.splits if_splits\<close>)
  then show ?thesis
    using assms map_of_apply_other [OF assms(2)] by (simp add: staged_def)
qed

lemma staged_torn:
  assumes "staged io base new old D d" "touches_staging io new op" "base \<noteq> new" "old \<noteq> new" "torn_op op d d'"
  shows "staged io base new old D d'"
proof (cases op)
  case (RmTree p)
  with assms(5) obtain ns where "d' = apply_op (Purge p (DropFiles ns)) d" by (auto simp: torn_op_def)
  with RmTree assms show ?thesis by (auto intro!: staged_op simp: touches_staging_def)
next
  case (WriteFile p name b)
  with assms(5) obtain n where "d' = apply_op (WriteFile p name (take n b)) d" by (auto simp: torn_op_def)
  with WriteFile assms show ?thesis by (auto intro!: staged_op simp: touches_staging_def take_take)
qed (use assms(5) in \<open>auto simp: torn_op_def\<close>)

text \<open>A run that has only filled the staging directory.\<close>

definition filling ::
  "('r, 't, 'x) mem_io \<Rightarrow> string \<Rightarrow> string \<Rightarrow> string \<Rightarrow> disk \<Rightarrow> (disk \<Rightarrow> bool) \<Rightarrow> disk_run \<Rightarrow> bool" where
  "filling io base new old d0 Q r \<longleftrightarrow> base \<noteq> new \<and> old \<noteq> new \<and> runs d0 Q r \<and>
     staged io base new old (map_of d0 base) (fst r) \<and> (\<forall>d. staged io base new old (map_of d0 base) d \<longrightarrow> Q d)"

lemma filling_op: "filling io base new old d0 Q r \<Longrightarrow> touches_staging io new op \<Longrightarrow> filling io base new old d0 Q (run_op op r)"
  unfolding filling_def by (auto simp: run_op_def intro!: runs_op [unfolded run_op_def] intro: staged_op staged_torn)

lemma touches_simps [simp]:
  "touches_staging io new (RmTree new)" "touches_staging io new (MakeDirs new)" "touches_staging io new (Purge new p)"
  "name \<noteq> index_file \<Longrightarrow> touches_staging io new (WriteFile new name b)"
  by (simp_all add: touches_staging_def)

lemma filling_purge: "filling io base new old d0 Q r \<Longrightarrow> filling io base new old d0 Q (run_purge sys pt new r)"
  by (auto simp: run_purge_def split: option.splits intro: filling_op)

lemma filling_write:
  assumes "filling io base new old d0 Q r" "name \<noteq> index_file" "write_part f new name b r = (ok, r')"
  shows "filling io base new old d0 Q r'"
  using assms by (auto simp: write_part_def split: if_splits option.splits intro!: filling_op)

lemma entry_names [simp]: "entry_file i \<noteq> index_file" "tokens_file i \<noteq> index_file"
  by (simp_all add: entry_file_def tokens_file_def index_file_def)

lemma filling_entry:
  assumes "filling io base new old d0 Q r" "save_entry L io sys new i key e r = (m, r')"
  shows "filling io base new old d0 Q r'"
proof (cases "io_save io (persist_cache L (en_cache e)) (length key)")
  case None
  with assms show ?thesis by (simp add: save_entry_def)
next
  case (Some b)
  obtain ok r1 where w1: "write_part (ss_tensors sys i) new (entry_file i) b r = (ok, r1)"
    by (cases "write_part (ss_tensors sys i) new (entry_file i) b r")
  have f1: "filling io base new old d0 Q r1" by (rule filling_write [OF assms(1) entry_names(1) w1])
  show ?thesis
  proof (cases "ok \<and> tokens_bytes key \<noteq> None")
    case False
    then have "r' = r1" using assms(2) Some w1 by (auto simp: save_entry_def split: bool.splits option.splits)
    with f1 show ?thesis by simp
  next
    case True
    then obtain tb where tb: ok "tokens_bytes key = Some tb" by auto
    obtain ok2 r2 where w2: "write_part (ss_tokens sys i) new (tokens_file i) tb r1 = (ok2, r2)"
      by (cases "write_part (ss_tokens sys i) new (tokens_file i) tb r1")
    then have "r' = r2" using assms(2) Some w1 tb by (auto simp: save_entry_def split: bool.splits)
    with filling_write [OF f1 entry_names(2) w2] show ?thesis by simp
  qed
qed

lemma filling_entries:
  "filling io base new old d0 Q r \<Longrightarrow> save_entries L io sys new i es r = (ms, r') \<Longrightarrow> filling io base new old d0 Q r'"
proof (induction L io sys new i es r arbitrary: ms r' rule: save_entries.induct)
  case (2 L io sys dir i key e rest r)
  obtain m r1 where m: "save_entry L io sys dir i key e (run_purge sys (AtEntry i) dir r) = (m, r1)"
    by (cases "save_entry L io sys dir i key e (run_purge sys (AtEntry i) dir r)")
  obtain ms2 r2 where ms: "save_entries L io sys dir (Suc i) rest r1 = (ms2, r2)"
    by (cases "save_entries L io sys dir (Suc i) rest r1")
  have "filling io base dir old d0 Q r1" by (rule filling_entry [OF filling_purge [OF 2(2)] m])
  from 2(1) [OF m [symmetric] refl this ms] m ms 2(3) show ?case by simp
qed auto

section \<open>What a recovery reads\<close>

text \<open>The directory from which \<open>load_from_disk\<close> reads, after its recovery.\<close>

definition recovered :: "('r, 't, 'x) mem_io \<Rightarrow> string \<Rightarrow> string \<Rightarrow> string \<Rightarrow> disk \<Rightarrow> directory option" where
  "recovered io base new old d = map_of (recover io base new old d) base"

lemma map_of_drop_dir: "map_of (drop_dir p d) q = (if p = q then None else map_of d q)"
  by (auto simp: drop_dir_def exists_dir_def apply_op_def map_of_dict_del)

lemma recovered_base:
  "map_of d base = Some x \<Longrightarrow> base \<noteq> new \<Longrightarrow> base \<noteq> old \<Longrightarrow> recovered io base new old d = Some x"
  by (auto simp: recovered_def recover_def exists_dir_def map_of_drop_dir)

lemma recovered_new:
  assumes "map_of d base = None" "has_valid_index io new d" "base \<noteq> new" "base \<noteq> old"
  shows "recovered io base new old d = map_of d new"
proof -
  from assms(2) obtain dir where "map_of d new = Some dir"
    by (auto simp: has_valid_index_def read_file_def split: option.splits)
  with assms show ?thesis
    by (auto simp: recovered_def recover_def exists_dir_def map_of_drop_dir apply_op_def map_of_dict_set)
qed

lemma recovered_staged:
  assumes "staged io base new old D d" "base \<noteq> new" "base \<noteq> old"
  shows "recovered io base new old d = D"
proof (cases D)
  case (Some x)
  with assms show ?thesis using recovered_base [of d base x new old io] by (simp add: staged_def)
next
  case None
  with assms(1) have "\<not> has_valid_index io new d" "\<not> has_valid_index io old d" "map_of d base = None"
    by (auto simp: staged_def has_valid_index_def read_file_def split: option.splits)
  with None show ?thesis by (simp add: recovered_def recover_def exists_dir_def)
qed

section \<open>The index and the swap\<close>

text \<open>
  The documented behaviour of \<open>json\<close> for the index: what is dumped is loaded, and no strict prefix of
  a dumped object is an object.
\<close>

definition index_io :: "('r, 't, 'x) mem_io \<Rightarrow> bool" where
  "index_io io \<longleftrightarrow> (\<forall>ix. io_index_parse io (io_index_text io ix) = Some ix) \<and>
     (\<forall>ix n. n < length (io_index_text io ix) \<longrightarrow> io_index_parse io (take n (io_index_text io ix)) = None)"

text \<open>
  A failing write of the index stops before its end, and nobody takes single files out of the staging
  directory between the last look at them and the opening of the index.
\<close>

definition index_sys :: "('r, 't, 'x) mem_io \<Rightarrow> save_sys \<Rightarrow> bool" where
  "index_sys io sys \<longleftrightarrow> (\<forall>n ix. ss_index sys = Some n \<longrightarrow> n < length (io_index_text io ix)) \<and>
     (\<forall>ns. ss_purge sys AtIndex \<noteq> Some (DropFiles ns))"

lemma filling_torn_index:
  assumes "filling io base new old d0 Q r" "index_io io" "n < length (io_index_text io ix)"
  shows "filling io base new old d0 Q (run_op (WriteFile new index_file (take n (io_index_text io ix))) r)"
proof -
  have "io_index_parse io (take m (take n (io_index_text io ix))) = None" for m
    using assms(2,3) by (simp add: index_io_def)
  then show ?thesis by (intro filling_op [OF assms(1)]) (simp add: touches_staging_def)
qed

lemma write_index_spec:
  assumes f: "filling io base new old d0 Q r" and io: "index_io io" and sys: "index_sys io sys"
    and ix: "ix_version ix = 2" and w: "write_index io sys new ix r = (ok, r')"
  shows "\<not> ok \<and> filling io base new old d0 Q r' \<or>
    ok \<and> (\<exists>r3 ix1. filling io base new old d0 Q r3 \<and> exists_dir new (fst r3) \<and>
        r' = run_op (WriteFile new index_file (io_index_text io ix1)) r3 \<and> has_valid_index io new (fst r'))"
proof -
  define r1 where "r1 = run_purge sys AtFilter new r"
  define verified where "verified = filter (\<lambda>m. both_exist new (ie_index m) (fst r1)) (ix_entries ix)"
  define ix1 where "ix1 = (if length verified < length (ix_entries ix)
    then ix\<lparr>ix_entries := verified, ix_num_entries := int (length verified)\<rparr> else ix)"
  have f1: "filling io base new old d0 Q r1" unfolding r1_def by (rule filling_purge [OF f])
  have eq: "write_index io sys new ix r = (case verified of
        [] \<Rightarrow> (False, run_op (RmTree new) r1)
      | m # _ \<Rightarrow>
          (let r2 = run_purge sys AtRecheck new (run_op (MakeDirs new) r1)
           in if \<not> both_exist new (ie_index m) (fst r2) then (False, run_op (RmTree new) r2)
              else case write_part (ss_index sys) new index_file (io_index_text io ix1) (run_purge sys AtIndex new r2) of
                     (False, r3) \<Rightarrow> (False, run_op (RmTree new) r3)
                   | (True, r3) \<Rightarrow> (True, r3)))"
    unfolding write_index_def Let_def r1_def verified_def ix1_def by (rule refl)
  have same: "verified = ix_entries ix" if "\<not> length verified < length (ix_entries ix)"
    using that length_filter_le [of "\<lambda>m. both_exist new (ie_index m) (fst r1)" "ix_entries ix"]
    unfolding verified_def by (metis filter_id_conv le_neq_implies_less length_filter_less)
  have ent: "ix_entries ix1 = verified" "ix_version ix1 = 2"
    using same ix by (auto simp: ix1_def)
  show ?thesis
  proof (cases verified)
    case Nil
    then have "\<not> ok" "r' = run_op (RmTree new) r1" using w unfolding eq by auto
    with filling_op [OF f1] show ?thesis by simp
  next
    case (Cons m ms)
    define r2 where "r2 = run_purge sys AtRecheck new (run_op (MakeDirs new) r1)"
    have f2: "filling io base new old d0 Q r2" unfolding r2_def by (intro filling_purge filling_op [OF f1]) simp
    show ?thesis
    proof (cases "both_exist new (ie_index m) (fst r2)")
      case False
      then have "\<not> ok" "r' = run_op (RmTree new) r2" using w Cons unfolding eq by (auto simp: r2_def)
      with filling_op [OF f2] show ?thesis by simp
    next
      case True
      define r3 where "r3 = run_purge sys AtIndex new r2"
      have f3: "filling io base new old d0 Q r3" unfolding r3_def by (rule filling_purge [OF f2])
      obtain wok r4 where wp: "write_part (ss_index sys) new index_file (io_index_text io ix1) r3 = (wok, r4)"
        by (cases "write_part (ss_index sys) new index_file (io_index_text io ix1) r3")
      show ?thesis
      proof (cases wok)
        case False
        then have res: "\<not> ok" "r' = run_op (RmTree new) r4" using w Cons True wp unfolding eq by (auto simp: r2_def r3_def)
        have "filling io base new old d0 Q r4"
        proof (cases "exists_dir new (fst r3)")
          case True
          with wp False obtain n where n: "ss_index sys = Some n"
              "r4 = run_op (WriteFile new index_file (take n (io_index_text io ix1))) r3"
            by (auto simp: write_part_def split: option.splits)
          with sys have "n < length (io_index_text io ix1)" by (simp add: index_sys_def)
          with n filling_torn_index [OF f3 io] show ?thesis by simp
        qed (use wp f3 in \<open>simp add: write_part_def\<close>)
        with res filling_op show ?thesis by fastforce
      next
        case wok: True
        then have ok: ok "r' = r4" using w Cons True wp unfolding eq by (auto simp: r2_def r3_def)
        from wp wok have r4: "r4 = run_op (WriteFile new index_file (io_index_text io ix1)) r3" "exists_dir new (fst r3)"
          by (auto simp: write_part_def split: if_splits option.splits)
        have "fst r3 = fst r2"
        proof (cases "ss_purge sys AtIndex")
          case (Some p)
          with sys have "p = DropDir" by (cases p) (auto simp: index_sys_def)
          with Some have "\<not> exists_dir new (fst r3)"
            by (simp add: r3_def run_purge_def run_op_def exists_dir_def apply_op_def map_of_dict_del)
          with r4 show ?thesis by simp
        qed (simp add: r3_def run_purge_def)
        with True have "both_exist new (ie_index m) (fst r3)" by simp
        then have "both_exist new (ie_index m) (fst r4)" "read_file new index_file (fst r4) = Some (io_index_text io ix1)"
          using r4(2) entry_names [of "ie_index m"]
          by (auto simp: r4(1) both_exist_def read_file_def run_op_def apply_op_def exists_dir_def map_of_dict_set)
        then have "has_valid_index io new (fst r4)"
          using io Cons ent by (simp add: has_valid_index_def index_io_def)
        with ok r4 f3 show ?thesis by blast
      qed
    qed
  qed
qed

lemma valid_index_cong:
  "map_of d p = map_of d' p \<Longrightarrow> has_valid_index io p d = has_valid_index io p d'"
proof -
  assume *: "map_of d p = map_of d' p"
  then have "both_exist p i d = both_exist p i d'" for i by (simp add: both_exist_def read_file_def)
  with * show ?thesis by (simp add: has_valid_index_def read_file_def split: option.split list.split)
qed

text \<open>The swap: after each of its operations the new directory is what a recovery reads.\<close>

lemma swap_spec:
  assumes r: "runs d0 Q r" and names: "base \<noteq> new" "base \<noteq> old" "old \<noteq> new"
    and new: "map_of (fst r) new = Some N" "has_valid_index io new (fst r)" and old: "map_of (fst r) old = None"
    and Q: "\<And>d. recovered io base new old d = Some N \<Longrightarrow> Q d"
  shows "runs d0 Q (commit_swap base new old r) \<and> map_of (fst (commit_swap base new old r)) base = Some N"
proof -
  define r1 where "r1 = (if exists_dir base (fst r) then run_op (Rename base old) r else r)"
  have r1: "runs d0 Q r1 \<and> map_of (fst r1) new = Some N \<and> map_of (fst r1) base = None"
  proof (cases "exists_dir base (fst r)")
    case True
    let ?d = "apply_op (Rename base old) (fst r)"
    from True obtain dir where dir: "map_of (fst r) base = Some dir" by (auto simp: exists_dir_def)
    have at: "map_of ?d new = Some N" "map_of ?d base = None"
      using dir names new by (auto simp: apply_op_def map_of_dict_set map_of_dict_del)
    then have "has_valid_index io new ?d" using new valid_index_cong [of ?d new "fst r" io] by simp
    then have "Q ?d" using at names by (intro Q) (simp add: recovered_new)
    then have "runs d0 Q (run_op (Rename base old) r)" by (intro runs_op [OF r]) (auto simp: torn_op_def)
    with True at show ?thesis by (simp add: r1_def run_op_def)
  qed (use r new in \<open>auto simp: r1_def exists_dir_def\<close>)
  define r2 where "r2 = run_op (Rename new base) r1"
  have at: "map_of (fst r2) base = Some N" using r1 by (simp add: r2_def run_op_def apply_op_def map_of_dict_set)
  have keep: "Q d" if "map_of d base = Some N" for d
    using that names by (intro Q recovered_base) simp_all
  have r2: "runs d0 Q r2" unfolding r2_def
    using r1 at keep by (intro runs_op) (auto simp: torn_op_def r2_def run_op_def)
  show ?thesis
  proof (cases "exists_dir old (fst r2)")
    case True
    have "map_of (apply_op op (fst r2)) base = Some N" if "op = RmTree old \<or> (\<exists>p. op = Purge old p)" for op
      using that names at by (auto simp: apply_op_def map_of_dict_del map_of_dict_set split: purge.splits option.splits)
    then have "runs d0 Q (run_op (RmTree old) r2) \<and> map_of (fst (run_op (RmTree old) r2)) base = Some N"
      by (auto simp: run_op_def torn_op_def intro!: runs_op [OF r2, unfolded run_op_def] keep)
    with True show ?thesis by (simp add: commit_swap_def Let_def r1_def [symmetric] r2_def [symmetric])
  next
    case False
    with r2 at show ?thesis by (simp add: commit_swap_def Let_def r1_def [symmetric] r2_def [symmetric])
  qed
qed

section \<open>Crash safety\<close>

text \<open>
  A save starts where \<open>load_from_disk\<close> or an earlier save has left the disk: there is a snapshot, or
  there are no staging directories.
\<close>

definition settled :: "string \<Rightarrow> disk \<Rightarrow> bool" where
  "settled base d \<longleftrightarrow> exists_dir base d \<or> \<not> exists_dir (base @ ''.new'') d \<and> \<not> exists_dir (base @ ''.old'') d"

lemma clean_stale_runs:
  assumes "runs d0 Q r" "map_of (fst r) base = D" "D = None \<longrightarrow> map_of (fst r) p = None" "p \<noteq> base"
    and Q: "\<And>d. D \<noteq> None \<Longrightarrow> map_of d base = D \<Longrightarrow> Q d"
  shows "runs d0 Q (clean_stale p r) \<and> map_of (fst (clean_stale p r)) base = D \<and>
    map_of (fst (clean_stale p r)) p = None \<and> (\<forall>q. map_of (fst r) q = None \<longrightarrow> map_of (fst (clean_stale p r)) q = None)"
proof (cases "exists_dir p (fst r)")
  case True
  then have "D \<noteq> None" using assms(3) by (auto simp: exists_dir_def)
  have "map_of (apply_op op (fst r)) base = D" if "op = RmTree p \<or> (\<exists>x. op = Purge p x)" for op
    using that assms(2,4) by (auto simp: apply_op_def map_of_dict_del map_of_dict_set split: purge.splits option.splits)
  then have "runs d0 Q (run_op (RmTree p) r)"
    by (intro runs_op [OF assms(1)] Q \<open>D \<noteq> None\<close>) (auto simp: torn_op_def intro!: Q \<open>D \<noteq> None\<close>)
  with True assms show ?thesis by (simp add: clean_stale_def run_op_def apply_op_def map_of_dict_del)
qed (use assms in \<open>auto simp: clean_stale_def exists_dir_def\<close>)

theorem save_run_crash:
  assumes io: "index_io io" and sys: "index_sys io sys" and s: "settled (rstrip_sep dir) d"
    and run: "save_run L io sys dir c d = (ok, r)"
  shows "runs d (\<lambda>d'. let base = rstrip_sep dir; x = recovered io base (base @ ''.new'') (base @ ''.old'') d'
      in x = map_of d base \<or> ok \<and> x = map_of (fst r) base) r"
    and "\<not> ok \<Longrightarrow> map_of (fst r) (rstrip_sep dir) = map_of d (rstrip_sep dir)"
proof -
  define base where "base = rstrip_sep dir"
  define new where "new = base @ ''.new''"
  define old where "old = base @ ''.old''"
  define D where "D = map_of d base"
  have names: "base \<noteq> new" "base \<noteq> old" "old \<noteq> new" "new \<noteq> base" "old \<noteq> base" "new \<noteq> old" by (simp_all add: new_def old_def)
  have none: "D = None \<longrightarrow> map_of d new = None \<and> map_of d old = None"
    using s by (auto simp: settled_def exists_dir_def D_def base_def new_def old_def)
  have start: "recovered io base new old d = D"
  proof (cases D)
    case None
    with none show ?thesis
      by (simp add: recovered_def recover_def exists_dir_def has_valid_index_def read_file_def D_def [symmetric])
  next
    case (Some x)
    then show ?thesis using names by (simp add: recovered_base D_def)
  qed
  have goal: "runs d (\<lambda>d'. recovered io base new old d' = D \<or> ok \<and> recovered io base new old d' = map_of (fst r) base) r
      \<and> (\<not> ok \<longrightarrow> map_of (fst r) base = D)"
  proof (cases "mc_entries c = []")
    case True
    then have r: "ok = False" "r = (d, [])" using run by (simp_all add: save_run_def)
    from start show ?thesis unfolding r by (auto intro!: runs_start simp: D_def)
  next
    case False
    define r0 where "r0 = run_op (MakeDirs new) (clean_stale old (clean_stale new (d, [])))"
    obtain saved r1 where e: "save_entries L io sys new 0 (mc_entries c) r0 = (saved, r1)"
      by (cases "save_entries L io sys new 0 (mc_entries c) r0")
    have fill: "filling io base new old d Q r1" if "Q d" "\<And>d'. recovered io base new old d' = D \<Longrightarrow> Q d'" for Q
    proof (rule filling_entries [OF _ e])
      have keep: "Q d'" if "D \<noteq> None" "map_of d' base = D" for d'
        using that names \<open>\<And>d'. recovered io base new old d' = D \<Longrightarrow> Q d'\<close> recovered_base by fastforce
      let ?r1 = "clean_stale new (d, [])" and ?r2 = "clean_stale old (clean_stale new (d, []))"
      have c1: "runs d Q ?r1 \<and> map_of (fst ?r1) base = D \<and> map_of (fst ?r1) new = None \<and>
          (\<forall>q. map_of d q = None \<longrightarrow> map_of (fst ?r1) q = None)"
        using clean_stale_runs [OF runs_start [of Q, OF \<open>Q d\<close>], of base D new] keep none names by (simp add: D_def)
      have c2: "runs d Q ?r2 \<and> map_of (fst ?r2) base = D \<and> map_of (fst ?r2) old = None \<and>
          (\<forall>q. map_of (fst ?r1) q = None \<longrightarrow> map_of (fst ?r2) q = None)"
        using c1 none names by (intro clean_stale_runs keep) auto
      have "Q d'" if "staged io base new old D d'" for d'
        using recovered_staged [OF that names(1,2)] \<open>\<And>d'. recovered io base new old d' = D \<Longrightarrow> Q d'\<close> by blast
      moreover have "staged io base new old D (fst ?r2)" using c1 c2 by (simp add: staged_def read_file_def)
      ultimately have "filling io base new old d Q ?r2"
        using c2 names unfolding filling_def D_def [symmetric] by blast
      then show "filling io base new old d Q r0" unfolding r0_def by (rule filling_op) simp
    qed
    show ?thesis
    proof (cases "saved = []")
      case True
      then have r: "ok = False" "r = run_op (RmTree new) r1"
        using run False e by (simp_all add: save_run_def Let_def base_def new_def old_def r0_def)
      have "filling io base new old d (\<lambda>d'. recovered io base new old d' = D) r"
        unfolding r(2) by (intro filling_op fill) (simp_all add: start)
      then show ?thesis using r(1) by (auto simp: filling_def staged_def D_def elim: runs_mono)
    next
      case saved: False
      let ?ix = "\<lparr>ix_version = 2, ix_num_entries = int (length (mc_entries c)), ix_total_memory = mc_memory c, ix_entries = saved\<rparr>"
      obtain ok2 r2 where w: "write_index io sys new ?ix r1 = (ok2, r2)" by (cases "write_index io sys new ?ix r1")
      have res: "ok = ok2" "r = (if ok2 then commit_swap base new old r2 else r2)"
        using run False e saved w by (auto simp: save_run_def Let_def base_def new_def old_def r0_def split: bool.splits)
      let ?Q = "\<lambda>d'. recovered io base new old d' = D"
      have f1: "filling io base new old d ?Q r1" by (rule fill) (simp_all add: start)
      from write_index_spec [OF f1 io sys _ w]
      consider "\<not> ok2" "filling io base new old d ?Q r2"
        | r3 ix1 where ok2 "filling io base new old d ?Q r3" "exists_dir new (fst r3)"
            "r2 = run_op (WriteFile new index_file (io_index_text io ix1)) r3" "has_valid_index io new (fst r2)"
        by auto
      then show ?thesis
      proof cases
        case 1
        then show ?thesis using res by (auto simp: filling_def staged_def D_def elim: runs_mono)
      next
        case 2
        let ?op = "WriteFile new index_file (io_index_text io ix1)"
        from 2(3) obtain N where N: "map_of (fst r2) new = Some N"
          by (auto simp: 2(4) run_op_def apply_op_def exists_dir_def map_of_dict_set)
        let ?Q1 = "\<lambda>d'. recovered io base new old d' = D \<or> recovered io base new old d' = Some N"
        have at: "map_of (fst r2) base = D" "map_of (fst r2) old = None"
          using 2(2,4) names by (auto simp: filling_def staged_def D_def run_op_def apply_op_def map_of_dict_set split: option.splits)
        have now: "?Q1 (fst r2)"
        proof (cases D)
          case None
          then show ?thesis using at names N by (simp add: recovered_new [OF _ 2(5)])
        next
          case (Some x)
          then show ?thesis using at names by (simp add: recovered_base)
        qed
        have torn: "?Q1 d'" if "torn_op ?op (fst r3) d'" for d'
        proof -
          from that obtain n where n: "d' = apply_op (WriteFile new index_file (take n (io_index_text io ix1))) (fst r3)"
            by (auto simp: torn_op_def)
          show ?thesis
          proof (cases "n < length (io_index_text io ix1)")
            case True
            from filling_torn_index [OF 2(2) io True] have "staged io base new old D d'"
              by (simp add: filling_def D_def n run_op_def)
            then show ?thesis using recovered_staged names by blast
          next
            case False
            then have "d' = fst r2" using n by (simp add: 2(4) run_op_def)
            with now show ?thesis by simp
          qed
        qed
        have "runs d ?Q1 r3" using 2(2) unfolding filling_def by (blast intro: runs_mono)
        then have "runs d ?Q1 r2" using now torn unfolding 2(4) by (intro runs_op) (simp_all add: run_op_def)
        from swap_spec [OF this names(1,2,3) N 2(5) at(2)]
        have "runs d ?Q1 (commit_swap base new old r2) \<and> map_of (fst (commit_swap base new old r2)) base = Some N" by simp
        then show ?thesis using res 2(1) by simp
      qed
    qed
  qed
  then show "runs d (\<lambda>d'. let base = rstrip_sep dir; x = recovered io base (base @ ''.new'') (base @ ''.old'') d'
      in x = map_of d base \<or> ok \<and> x = map_of (fst r) base) r"
    and "\<not> ok \<Longrightarrow> map_of (fst r) (rstrip_sep dir) = map_of d (rstrip_sep dir)"
    by (simp_all add: Let_def base_def new_def old_def D_def)
qed

end
