(* ===== verification/MemMatch.thy ===== *)
theory MemMatch
  imports MemCache
begin

text \<open>
  What the scans of \<open>_match_locked\<close> and \<open>store\<close> find in a strictly sorted list of keys: the longest
  stored prefix of a prompt, the longest stored extension, a longest common prefix, and all strict
  prefixes.
\<close>

definition indexed :: "token_key list \<Rightarrow> (token_key, 'e) pydict \<Rightarrow> bool" where
  "indexed ks d \<longleftrightarrow> (\<forall>k \<in> set ks. map_of d k \<noteq> None)"

lemma indexed_simps [simp]: "indexed [] d" "indexed (k # ks) d \<longleftrightarrow> (\<exists>e. map_of d k = Some e) \<and> indexed ks d"
  by (auto simp: indexed_def)

lemma indexed_subset: "indexed ks d \<Longrightarrow> set ks' \<subseteq> set ks \<Longrightarrow> indexed ks' d"
  by (auto simp: indexed_def)

section \<open>The longest stored prefix\<close>

definition longest :: "('a list \<Rightarrow> bool) \<Rightarrow> 'a list set \<Rightarrow> 'a list \<Rightarrow> bool" where
  "longest P K k \<longleftrightarrow> k \<in> K \<and> P k \<and> (\<forall>k' \<in> K. P k' \<longrightarrow> length k' \<le> length k)"

abbreviation proper_prefix :: "'a list \<Rightarrow> 'a list \<Rightarrow> bool" where
  "proper_prefix T k \<equiv> prefix k T \<and> k \<noteq> []"

lemma hd_prefix: "prefix k T \<Longrightarrow> k \<noteq> [] \<Longrightarrow> hd k = hd T"
  by (auto elim!: prefixE)

text \<open>When the backward scan meets another first token, no prefix is left below.\<close>

lemma no_prefix_below:
  assumes "k < T" "hd k \<noteq> hd T" "k \<noteq> []" "k' < k" "k' \<noteq> []"
  shows "\<not> prefix k' (T :: 'a::linorder list)"
proof
  assume p: "prefix k' T"
  have "prefix k' k" by (rule prefix_between [OF p less_imp_le [OF assms(4)] less_imp_le [OF assms(1)]])
  then have "hd k' = hd k" by (rule hd_prefix) (rule assms(5))
  moreover have "hd k' = hd T" by (rule hd_prefix [OF p assms(5)])
  ultimately show False using assms(2) by simp
qed

lemma longest_prefix_first:
  assumes "prefix k T" "k \<noteq> []" "\<forall>k' \<in> set ks. k' < (k :: 'a::linorder list)"
  shows "longest (proper_prefix T) (set (k # ks)) k"
proof -
  have "length k' \<le> length k" if "k' \<in> set ks" "prefix k' T" for k'
    using that assms prefix_same_cases [of k' T k] by (metis less_le_not_le prefix_imp_le prefix_length_le)
  with assms show ?thesis by (auto simp: longest_def)
qed

lemma prefix_scan_spec:
  assumes "sorted_wrt (>) ks" "\<forall>k \<in> set ks. k < T" "T \<noteq> []" "indexed ks d"
  shows "(\<forall>k \<in> set ks. \<not> proper_prefix T k) \<and> prefix_scan T d ks = Inr None \<or>
    (\<exists>k e. longest (proper_prefix T) (set ks) k \<and> map_of d k = Some e \<and>
       prefix_scan T d ks = Inr (Some (e, length k)))"
  using assms
proof (induction ks)
  case (Cons k ks)
  then have kT: "k < T" and below: "\<forall>k' \<in> set ks. k' < k" by auto
  have IH: "(\<forall>k \<in> set ks. \<not> proper_prefix T k) \<and> prefix_scan T d ks = Inr None \<or>
      (\<exists>k e. longest (proper_prefix T) (set ks) k \<and> map_of d k = Some e \<and>
         prefix_scan T d ks = Inr (Some (e, length k)))"
    using Cons by simp
  have skip: ?case if "prefix_scan T d (k # ks) = prefix_scan T d ks" "\<not> prefix k T"
    using IH that by (auto simp: longest_def)
  consider "length T \<le> length k" | "length k < length T" "prefix k T"
    | "length k < length T" "\<not> prefix k T" "hd k \<noteq> hd T" | "length k < length T" "\<not> prefix k T" "hd k = hd T"
    by linarith
  then show ?case
  proof cases
    case 1
    then have "\<not> prefix k T" using kT by (metis less_irrefl prefix_length_le prefix_order.antisym prefix_length_prefix prefix_order.refl)
    with 1 show ?thesis by (intro skip) simp_all
  next
    case 2
    show ?thesis
    proof (cases "k = []")
      case True
      then have "ks = []" using below by (cases ks) auto
      with True 2 show ?thesis by simp
    next
      case False
      then have "longest (proper_prefix T) (set (k # ks)) k" by (rule longest_prefix_first [OF 2(2) _ below])
      moreover obtain e where "map_of d k = Some e" using Cons.prems by auto
      ultimately show ?thesis using False 2 by (auto simp: take_eq_prefix)
    qed
  next
    case 3
    then have "k \<noteq> []" by auto
    then have "\<not> proper_prefix T k'" if "k' \<in> set ks" for k'
      using that below 3 kT no_prefix_below by blast
    with 3 show ?thesis by (auto simp: take_eq_prefix)
  next
    case 4
    then show ?thesis by (intro skip) (simp_all add: take_eq_prefix)
  qed
qed simp

section \<open>The longest stored extension\<close>

text \<open>Behind a key that does not extend the prompt no key does.\<close>

lemma super_scan_filter:
  assumes "strictly_sorted ks" "\<forall>k \<in> set ks. T < k"
  shows "super_scan T d best ks = super_scan T d best (filter (prefix T) ks)"
  using assms
proof (induction ks arbitrary: best)
  case (Cons k ks)
  show ?case
  proof (cases "prefix T k")
    case True
    with Cons show ?thesis by (auto split: option.splits)
  next
    case False
    show ?thesis
    proof (cases "length k < length T")
      case True
      with False Cons show ?thesis by simp
    next
      case l: False
      have "\<not> prefix T k'" if "k' \<in> set ks" for k'
        using that False Cons.prems prefix_between [of T k' k] by force
      then have "filter (prefix T) (k # ks) = []" using False by (auto simp: filter_empty_conv)
      with False l show ?thesis by (simp add: take_eq_prefix)
    qed
  qed
qed simp

lemma super_scan_supers:
  assumes "\<forall>k \<in> set ks. prefix T k" "indexed ks d" "\<And>k e. map_of d k = Some e \<Longrightarrow> en_tokens e = k"
  shows "\<exists>r. super_scan T d best ks = Inr r \<and> (r = None \<longleftrightarrow> best = None \<and> ks = []) \<and>
    (\<forall>e. r = Some e \<longrightarrow> (best = Some e \<or> (en_tokens e \<in> set ks \<and> map_of d (en_tokens e) = Some e)) \<and>
       (\<forall>k \<in> set ks. length k \<le> length (en_tokens e)) \<and>
       (\<forall>b. best = Some b \<longrightarrow> length (en_tokens b) \<le> length (en_tokens e)))"
  using assms(1,2)
proof (induction ks arbitrary: best)
  case (Cons k ks)
  then obtain e where e: "map_of d k = Some e" by auto
  then have tok: "en_tokens e = k" by (rule assms(3))
  have len: "\<not> length k < length T" "take (length T) k = T"
    using Cons.prems(1) prefix_length_le [of T k] by (auto simp: take_eq_prefix not_less)
  have prem: "\<forall>k \<in> set ks. prefix T k" "indexed ks d" using Cons.prems by auto
  show ?case
  proof (cases "case best of None \<Rightarrow> True | Some b \<Rightarrow> length (en_tokens b) < length k")
    case True
    then have "super_scan T d best (k # ks) = super_scan T d (Some e) ks" using len e by simp
    with Cons.IH [OF prem, of "Some e"] True tok e show ?thesis
      by (fastforce split: option.splits)
  next
    case False
    then obtain b where b: "best = Some b" "length k \<le> length (en_tokens b)" by (auto split: option.splits)
    then have "super_scan T d best (k # ks) = super_scan T d best ks" using len False by simp
    with Cons.IH [OF prem, of best] b show ?thesis by force
  qed
qed (cases best; simp)

lemma super_scan_spec:
  assumes "strictly_sorted ks" "\<forall>k \<in> set ks. T < k" "indexed ks d" "\<And>k e. map_of d k = Some e \<Longrightarrow> en_tokens e = k"
  shows "(\<forall>k \<in> set ks. \<not> prefix T k) \<and> super_scan T d None ks = Inr None \<or>
    (\<exists>k e. longest (prefix T) (set ks) k \<and> map_of d k = Some e \<and> en_tokens e = k \<and>
       super_scan T d None ks = Inr (Some e))"
proof -
  let ?ks = "filter (prefix T) ks"
  have ext: "\<forall>k \<in> set ?ks. prefix T k" by simp
  have idx: "indexed ?ks d" by (rule indexed_subset [OF assms(3)]) auto
  from super_scan_supers [OF ext idx assms(4), of None] obtain r where r: "super_scan T d None ?ks = Inr r" "r = None \<longleftrightarrow> ?ks = []"
      "\<forall>e. r = Some e \<longrightarrow> en_tokens e \<in> set ?ks \<and> map_of d (en_tokens e) = Some e \<and> (\<forall>k \<in> set ?ks. length k \<le> length (en_tokens e))"
    by auto
  show ?thesis
  proof (cases r)
    case None
    with r show ?thesis unfolding super_scan_filter [OF assms(1,2)] by (auto simp: filter_empty_conv)
  next
    case (Some e)
    with r show ?thesis unfolding super_scan_filter [OF assms(1,2)] by (auto simp: longest_def)
  qed
qed

section \<open>A longest common prefix\<close>

lemma lcp_scan_spec:
  assumes "T \<notin> set ks" "indexed ks d" "\<forall>b. best = Some b \<longrightarrow> 0 < snd b"
  shows "\<exists>r. lcp_scan T d best ks = Inr r \<and> (r = None \<longrightarrow> best = None \<and> (\<forall>k \<in> set ks. lcp_length k T = 0)) \<and>
    (\<forall>e n. r = Some (e, n) \<longrightarrow> 0 < n \<and>
       (best = Some (e, n) \<or> (\<exists>k \<in> set ks. map_of d k = Some e \<and> n = lcp_length k T)) \<and>
       (\<forall>k \<in> set ks. lcp_length k T \<le> n) \<and> (\<forall>b. best = Some b \<longrightarrow> snd b \<le> n))"
  using assms
proof (induction ks arbitrary: best)
  case Nil
  then show ?case by (cases best) auto
next
  case (Cons k ks)
  then obtain e where e: "map_of d k = Some e" by auto
  define len where "len = (case best of None \<Rightarrow> 0 | Some (_, n) \<Rightarrow> n)"
  have kT: "k \<noteq> T" "T \<notin> set ks" "indexed ks d" using Cons.prems by auto
  have le: "lcp_length k T \<le> min (length k) (length T)" by (simp add: lcp_length_le)
  show ?case
  proof (cases "len < lcp_length k T")
    case True
    then have "lcp_scan T d best (k # ks) = lcp_scan T d (Some (e, lcp_length k T)) ks"
      using kT e le unfolding len_def by (auto simp: Let_def)
    moreover have "\<forall>b. best = Some b \<longrightarrow> snd b \<le> lcp_length k T"
      using True by (auto simp: len_def split: option.splits)
    ultimately show ?thesis
      using Cons.IH [OF kT(2,3), of "Some (e, lcp_length k T)"] True e by (fastforce intro: order_trans)
  next
    case False
    then have eq: "lcp_scan T d best (k # ks) = lcp_scan T d best ks"
      using kT unfolding len_def by (auto simp: Let_def)
    obtain r where r: "lcp_scan T d best ks = Inr r" "r = None \<longrightarrow> best = None \<and> (\<forall>k \<in> set ks. lcp_length k T = 0)"
        "\<forall>e n. r = Some (e, n) \<longrightarrow> 0 < n \<and>
         (best = Some (e, n) \<or> (\<exists>k \<in> set ks. map_of d k = Some e \<and> n = lcp_length k T)) \<and>
         (\<forall>k \<in> set ks. lcp_length k T \<le> n) \<and> (\<forall>b. best = Some b \<longrightarrow> snd b \<le> n)"
      using Cons.IH [OF kT(2,3) Cons.prems(3)] by blast
    have "lcp_length k T \<le> n" if "r = Some (e', n)" for e' n
      using False r(3) that by (auto simp: len_def split: option.splits)
    moreover have "lcp_length k T = 0" if "r = None"
      using False r(2) that by (auto simp: len_def)
    ultimately show ?thesis using eq r by (auto split: option.splits)
  qed
qed

lemma neighbours_eq:
  assumes "strictly_sorted keys"
  shows "neighbours T keys = (let lo = filter (\<lambda>y. y < T) keys; hi = filter (\<lambda>y. T \<le> y) keys
    in (if lo = [] then [] else [last lo]) @ (if hi = [] then [] else [hd hi]))"
proof -
  let ?i = "bisect_left keys T"
  have le: "?i \<le> length keys" by (simp add: bisect_left_eq [OF assms] length_takeWhile_le)
  have lo: "(1 \<le> ?i \<and> ?i - 1 < length keys) = (take ?i keys \<noteq> [])"
    "take ?i keys \<noteq> [] \<Longrightarrow> keys ! (?i - 1) = last (take ?i keys)"
    using le by (auto simp: last_conv_nth min_def)
  have hi: "(?i < length keys) = (drop ?i keys \<noteq> [])" "drop ?i keys \<noteq> [] \<Longrightarrow> keys ! ?i = hd (drop ?i keys)"
    by (auto simp: hd_drop_conv_nth)
  show ?thesis
    using lo hi unfolding neighbours_def Let_def before_bisect [OF assms, symmetric] behind_bisect [OF assms, symmetric]
    by auto
qed

lemma set_neighbours: "strictly_sorted keys \<Longrightarrow> set (neighbours T keys) \<subseteq> set keys"
  by (auto simp: neighbours_eq Let_def dest: last_in_set hd_in_set split: if_splits)

text \<open>No key shares more with the prompt than one of the neighbours.\<close>

lemma neighbour_is_best:
  assumes "strictly_sorted keys" "k \<in> set keys"
  shows "\<exists>k' \<in> set (neighbours T keys). lcp_length k T \<le> lcp_length k' T"
proof (cases "k < T")
  case True
  let ?lo = "filter (\<lambda>y. y < T) keys"
  have ne: "?lo \<noteq> []" and kin: "k \<in> set ?lo" using True assms(2) by (auto simp: filter_empty_conv)
  have "sorted_wrt (<) ?lo" by (rule sorted_wrt_filter [OF assms(1)])
  then have "k \<le> last ?lo" using kin ne
    by (cases ?lo rule: rev_cases) (auto simp: sorted_wrt_append)
  moreover have "last ?lo < T" using last_in_set [OF ne] by simp
  ultimately have "lcp_length k T \<le> lcp_length (last ?lo) T" by (intro lcp_nearer_below) auto
  with ne show ?thesis by (auto simp: neighbours_eq [OF assms(1)] Let_def)
next
  case False
  let ?hi = "filter (\<lambda>y. T \<le> y) keys"
  have kin: "k \<in> set ?hi" using False assms(2) by simp
  then have ne: "?hi \<noteq> []" by (metis empty_iff list.set(1))
  have "sorted_wrt (<) ?hi" by (rule sorted_wrt_filter [OF assms(1)])
  then have "hd ?hi \<le> k" using kin ne by (cases ?hi) auto
  moreover have "T \<le> hd ?hi" using hd_in_set [OF ne] by simp
  ultimately have "lcp_length k T \<le> lcp_length (hd ?hi) T" by (intro lcp_nearer_above)
  with ne show ?thesis by (auto simp: neighbours_eq [OF assms(1)] Let_def)
qed

section \<open>All strict prefixes\<close>

lemma prefixes_below_spec:
  assumes "sorted_wrt (>) ks" "\<forall>k \<in> set ks. k < T" "T \<noteq> []" "[] \<notin> set ks"
  shows "prefixes_below T ks = filter (\<lambda>k. prefix k T) ks"
  using assms
proof (induction ks)
  case (Cons k ks)
  then have kT: "k < T" and below: "\<forall>k' \<in> set ks. k' < k" by auto
  have IH: "prefixes_below T ks = filter (\<lambda>k. prefix k T) ks" using Cons by simp
  show ?case
  proof (cases "length T \<le> length k \<or> prefix k T \<or> hd k = hd T")
    case True
    have "\<not> prefix k T" if "length T \<le> length k"
      using that kT by (metis less_irrefl prefix_length_prefix prefix_order.antisym prefix_order.refl)
    with True IH show ?thesis by (auto simp: take_eq_prefix)
  next
    case False
    then have ne: "k \<noteq> []" by auto
    have "\<not> prefix k' T" if "k' \<in> set ks" for k'
    proof -
      have "k' \<noteq> []" using that Cons.prems(4) by auto
      then show ?thesis using that below False kT ne no_prefix_below by blast
    qed
    with False show ?thesis by (auto simp: take_eq_prefix filter_empty_conv)
  qed
qed simp

end
