(* ===== verification/MemInv.thy ===== *)
theory MemInv
  imports MemMatch
begin

text \<open>
  The invariant of the memory-aware prefix cache, the specification of \<open>fetch\<close>, and what evicting,
  removing and storing do to the entries; each operation keeps the invariant.
\<close>

named_theorems memsimps \<open>updates of the fields of a cache\<close>

definition memory_sum :: "(token_key, ('r, 't, 'x) mem_entry) pydict \<Rightarrow> int" where
  "memory_sum d = sum_list (map en_memory (dict_values d))"

definition mem_wf :: "('r, 't, 'x) mem_cache \<Rightarrow> bool" where
  "mem_wf c \<longleftrightarrow> distinct (dict_keys (mc_entries c)) \<and> strictly_sorted (mc_sorted c) \<and>
     set (mc_sorted c) = set (dict_keys (mc_entries c)) \<and> [] \<notin> set (dict_keys (mc_entries c)) \<and>
     (\<forall>k e. map_of (mc_entries c) k = Some e \<longrightarrow> en_tokens e = k) \<and>
     mc_memory c = memory_sum (mc_entries c)"

lemma mem_wfD:
  assumes "mem_wf c"
  shows "distinct (dict_keys (mc_entries c))" "strictly_sorted (mc_sorted c)"
    "set (mc_sorted c) = set (dict_keys (mc_entries c))" "[] \<notin> set (dict_keys (mc_entries c))"
    "\<And>k e. map_of (mc_entries c) k = Some e \<Longrightarrow> en_tokens e = k"
    "mc_memory c = memory_sum (mc_entries c)"
  using assms by (auto simp: mem_wf_def)

lemma indexed_sorted: "mem_wf c \<Longrightarrow> set ks \<subseteq> set (mc_sorted c) \<Longrightarrow> indexed ks (mc_entries c)"
  unfolding indexed_def by (metis map_of_keys_iff mem_wfD(3) subsetD)

section \<open>Moving a key to the end\<close>

definition moved :: "'k \<Rightarrow> 'v \<Rightarrow> ('k, 'v) pydict \<Rightarrow> ('k, 'v) pydict" where
  "moved k v d = dict_del k d @ [(k, v)]"

lemma move_to_end_eq: "move_to_end k d = (case map_of d k of None \<Rightarrow> None | Some v \<Rightarrow> Some (moved k v d))"
  by (simp add: move_to_end_def moved_def split: option.split)

lemma map_of_moved: "map_of d k = Some v \<Longrightarrow> map_of (moved k v d) = map_of d"
  by (rule ext) (simp add: moved_def map_of_dict_del map_add_def split: option.split)

lemma moved_facts:
  assumes "map_of d k = Some v" "distinct (dict_keys d)"
  shows "set (moved k v d) = set d" "distinct (dict_keys (moved k v d))" "length (moved k v d) = length d"
    "set (dict_keys (moved k v d)) = set (dict_keys d)"
proof -
  have kin: "k \<in> set (dict_keys d)" using assms(1) by (metis map_of_keys_iff option.distinct(1))
  show *: "set (moved k v d) = set d"
  proof -
    have kv: "{p \<in> set d. fst p = k} = {(k, v)}"
    proof -
      have "p = (k, v)" if "p \<in> set d" "fst p = k" for p
        using map_of_is_SomeI [OF assms(2), of k "snd p"] that assms(1) by (metis option.inject prod.collapse)
      moreover have "(k, v) \<in> set d" by (rule map_of_SomeD [OF assms(1)])
      ultimately show ?thesis by (metis (mono_tags, lifting) Collect_cong fst_conv singleton_conv)
    qed
    have "set (moved k v d) = {p \<in> set d. fst p \<noteq> k} \<union> {p \<in> set d. fst p = k}"
      by (simp add: moved_def set_dict_del kv)
    then show ?thesis by blast
  qed
  show "distinct (dict_keys (moved k v d))" unfolding moved_def using assms(2) distinct_dict_del [OF assms(2), of k] keys_dict_del [of k d] by simp
  show "length (moved k v d) = length d" using length_dict_del [OF assms(2) kin] by (simp add: moved_def)
  show "set (dict_keys (moved k v d)) = set (dict_keys d)" by (simp add: *)
qed

lemma memory_sum_del:
  "distinct (dict_keys d) \<Longrightarrow> map_of d k = Some e \<Longrightarrow> memory_sum (dict_del k d) = memory_sum d - en_memory e"
  unfolding memory_sum_def by (rule sum_list_dict_del)

lemma memory_sum_moved: "distinct (dict_keys d) \<Longrightarrow> map_of d k = Some e \<Longrightarrow> memory_sum (moved k e d) = memory_sum d"
  using memory_sum_del [of d k e] by (simp add: memory_sum_def moved_def)

lemma mem_wf_moved:
  assumes "mem_wf c" "map_of (mc_entries c) k = Some e"
  shows "mem_wf (c\<lparr>mc_entries := moved k e (mc_entries c), mc_stats := st, mc_last := l\<rparr>)"
    and "mem_wf (c\<lparr>mc_entries := moved k e (mc_entries c)\<rparr>)"
  using assms moved_facts [OF assms(2)] memory_sum_moved [OF _ assms(2)] map_of_moved [OF assms(2)]
  by (simp_all add: mem_wf_def)

lemma mem_wf_stats: "mem_wf (c\<lparr>mc_stats := st, mc_last := l\<rparr>) = mem_wf c" "mem_wf (c\<lparr>mc_stats := st\<rparr>) = mem_wf c"
  by (simp_all add: mem_wf_def)

lemma mem_wf_misc [simp]:
  "mem_wf (record_miss c) = mem_wf c" "mem_wf (sync_stats c) = mem_wf c" "mem_wf (count_eviction c) = mem_wf c"
  by (simp_all add: record_miss_def sync_stats_def count_eviction_def mem_wf_def)

section \<open>What mem_fetch answers\<close>

definition blocked :: "('r, 't, 'x) kv_lib \<Rightarrow> ('r, 't, 'x) mem_cache \<Rightarrow> token_key \<Rightarrow> bool" where
  "blocked L c k \<longleftrightarrow> (\<exists>e. map_of (mc_entries c) k = Some e \<and> has_non_trimmable L (en_cache e))"

definition stored_keys :: "('r, 't, 'x) mem_cache \<Rightarrow> token_key set" where
  "stored_keys c = set (dict_keys (mc_entries c))"

lemma stored_nonempty: "mem_wf c \<Longrightarrow> k \<in> stored_keys c \<Longrightarrow> k \<noteq> []"
  unfolding stored_keys_def by (metis mem_wfD(4))

text \<open>There is no extension of the prompt, or a longest one cannot be trimmed.\<close>

definition no_extension :: "('r, 't, 'x) kv_lib \<Rightarrow> ('r, 't, 'x) mem_cache \<Rightarrow> token_key \<Rightarrow> bool" where
  "no_extension L c T \<longleftrightarrow> (\<forall>k \<in> stored_keys c. \<not> prefix T k) \<or>
     (\<exists>k. longest (prefix T) (stored_keys c) k \<and> blocked L c k)"

definition no_prefix :: "('r, 't, 'x) mem_cache \<Rightarrow> token_key \<Rightarrow> bool" where
  "no_prefix c T \<longleftrightarrow> (\<forall>k \<in> stored_keys c. \<not> prefix k T)"

definition closest :: "('r, 't, 'x) mem_cache \<Rightarrow> token_key \<Rightarrow> token_key \<Rightarrow> bool" where
  "closest c T k \<longleftrightarrow> k \<in> stored_keys c \<and> 0 < lcp_length k T \<and>
     (\<forall>k' \<in> stored_keys c. lcp_length k' T \<le> lcp_length k T)"

text \<open>
  The entry that is used, how many tokens of the prompt it covers, and why it is the best: the
  prompt itself; a longest extension that can be trimmed; a longest prefix; a key with a longest
  common prefix that can be trimmed.
\<close>

definition chosen ::
  "('r, 't, 'x) kv_lib \<Rightarrow> ('r, 't, 'x) mem_cache \<Rightarrow> token_key \<Rightarrow> match_type \<Rightarrow> token_key \<Rightarrow> nat \<Rightarrow> bool" where
  "chosen L c T mt k n \<longleftrightarrow> (case mt of
       Exact \<Rightarrow> k = T \<and> T \<in> stored_keys c \<and> n = length T
     | Supersequence \<Rightarrow> T \<notin> stored_keys c \<and> longest (prefix T) (stored_keys c) k \<and> \<not> blocked L c k \<and> n = length T
     | PrefixMatch \<Rightarrow> T \<notin> stored_keys c \<and> no_extension L c T \<and>
         longest (\<lambda>k. prefix k T) (stored_keys c) k \<and> n = length k
     | Lcp \<Rightarrow> T \<notin> stored_keys c \<and> no_extension L c T \<and> no_prefix c T \<and> closest c T k \<and>
         \<not> blocked L c k \<and> n = lcp_length k T
     | Miss \<Rightarrow> False)"

definition no_match :: "('r, 't, 'x) kv_lib \<Rightarrow> ('r, 't, 'x) mem_cache \<Rightarrow> token_key \<Rightarrow> bool" where
  "no_match L c T \<longleftrightarrow> T \<notin> stored_keys c \<and> no_extension L c T \<and> no_prefix c T \<and>
     ((\<forall>k \<in> stored_keys c. lcp_length k T = 0) \<or> (\<exists>k. closest c T k \<and> blocked L c k))"

text \<open>The answer and the state behind a hit.\<close>

definition answer_of ::
  "('r, 't, 'x) kv_lib \<Rightarrow> mem_config \<Rightarrow> ('r, 't, 'x) mem_entry \<Rightarrow> nat \<Rightarrow> token_key \<Rightarrow> ('r, 't, 'x) layer list option \<times> int list" where
  "answer_of L g e n T = (Some (decompress_cache L g
       (if length (en_tokens e) = n then en_cache e
        else trim_cache_offset L (en_cache e) (int (length (en_tokens e)) - int n))), drop n T)"

definition hit_state ::
  "token_key \<Rightarrow> ('r, 't, 'x) mem_entry \<Rightarrow> match_type \<Rightarrow> nat \<Rightarrow> ('r, 't, 'x) mem_cache \<Rightarrow> ('r, 't, 'x) mem_cache" where
  "hit_state k e mt n c = c\<lparr>mc_entries := moved k e (mc_entries c),
     mc_stats := (mc_stats c)\<lparr>ms_hits := ms_hits (mc_stats c) + 1,
       ms_tokens_saved := ms_tokens_saved (mc_stats c) + int n\<rparr>, mc_last := Some mt\<rparr>"

lemma record_hit_eq:
  "map_of (mc_entries c) k = Some e \<Longrightarrow> record_hit k mt n spec c = returns (Some spec) (hit_state k e mt n c)"
  by (simp add: record_hit_def move_to_end_eq hit_state_def)

lemma mem_wf_hit: "mem_wf c \<Longrightarrow> map_of (mc_entries c) k = Some e \<Longrightarrow> mem_wf (hit_state k e mt n c)"
  by (simp add: hit_state_def mem_wf_moved)

lemma blocked_iff: "map_of (mc_entries c) k = Some e \<Longrightarrow> blocked L c k \<longleftrightarrow> has_non_trimmable L (en_cache e)"
  by (simp add: blocked_def)

text \<open>The key lists that the scans run over.\<close>

lemma below_facts:
  assumes wf: "mem_wf c" and T: "T \<noteq> []" "T \<notin> stored_keys c"
  shows "sorted_wrt (>) (rev (filter (\<lambda>y. y < T) (mc_sorted c)))"
    and "indexed (rev (filter (\<lambda>y. y < T) (mc_sorted c))) (mc_entries c)"
    and "set (rev (filter (\<lambda>y. y < T) (mc_sorted c))) = {k \<in> stored_keys c. k < T}"
  using mem_wfD(2,3) [OF wf] by (auto simp: sorted_wrt_rev sorted_wrt_filter stored_keys_def intro: indexed_sorted [OF wf])

lemma above_facts:
  assumes wf: "mem_wf c" and T: "T \<noteq> []" "T \<notin> stored_keys c"
  shows "strictly_sorted (filter (\<lambda>y. T \<le> y) (mc_sorted c))"
    and "indexed (filter (\<lambda>y. T \<le> y) (mc_sorted c)) (mc_entries c)"
    and "set (filter (\<lambda>y. T \<le> y) (mc_sorted c)) = {k \<in> stored_keys c. T \<le> k}"
    and "\<forall>k \<in> set (filter (\<lambda>y. T \<le> y) (mc_sorted c)). T < k"
  using mem_wfD(2,3) [OF wf] T by (auto simp: sorted_wrt_filter stored_keys_def order_le_less intro: indexed_sorted [OF wf])

lemma longest_below:
  assumes wf: "mem_wf c" and T: "T \<noteq> []" "T \<notin> stored_keys c"
  shows "longest (proper_prefix T) {k \<in> stored_keys c. k < T} k \<longleftrightarrow> longest (\<lambda>k. prefix k T) (stored_keys c) k"
proof -
  have "k' < T \<and> k' \<noteq> []" if "k' \<in> stored_keys c" "prefix k' T" for k'
    using that T stored_nonempty [OF wf that(1)] prefix_imp_le [of k' T] by (auto simp: order_le_less)
  then show ?thesis by (auto simp: longest_def)
qed

lemma longest_above:
  assumes wf: "mem_wf c" and T: "T \<noteq> []" "T \<notin> stored_keys c"
  shows "longest (prefix T) {k \<in> stored_keys c. T \<le> k} k \<longleftrightarrow> longest (prefix T) (stored_keys c) k"
  using prefix_imp_le by (auto simp: longest_def)

lemma prefix_step:
  assumes wf: "mem_wf c" and T: "T \<noteq> []" "T \<notin> stored_keys c"
  obtains (none) "no_prefix c T" "prefix_scan T (mc_entries c) (rev (take (bisect_left (mc_sorted c) T) (mc_sorted c))) = Inr None"
  | (found) k e where "longest (\<lambda>k. prefix k T) (stored_keys c) k" "map_of (mc_entries c) k = Some e"
      "prefix_scan T (mc_entries c) (rev (take (bisect_left (mc_sorted c) T) (mc_sorted c))) = Inr (Some (e, length k))"
proof -
  have "\<forall>k \<in> set (rev (filter (\<lambda>y. y < T) (mc_sorted c))). k < T" by simp
  from prefix_scan_spec [OF below_facts(1) [OF wf T] this T(1) below_facts(2) [OF wf T]]
  consider "\<forall>k \<in> {k \<in> stored_keys c. k < T}. \<not> proper_prefix T k"
      "prefix_scan T (mc_entries c) (rev (filter (\<lambda>y. y < T) (mc_sorted c))) = Inr None"
    | k e where "longest (proper_prefix T) {k \<in> stored_keys c. k < T} k" "map_of (mc_entries c) k = Some e"
      "prefix_scan T (mc_entries c) (rev (filter (\<lambda>y. y < T) (mc_sorted c))) = Inr (Some (e, length k))"
    unfolding below_facts(3) [OF wf T] by blast
  then show ?thesis
  proof cases
    case 1
    have "no_prefix c T" unfolding no_prefix_def
    proof
      fix k assume k: "k \<in> stored_keys c"
      show "\<not> prefix k T"
      proof
        assume p: "prefix k T"
        then have "k < T" using T k prefix_imp_le [of k T] by (auto simp: order_le_less)
        moreover have "k \<noteq> []" by (rule stored_nonempty [OF wf k])
        ultimately show False using 1(1) k p by simp
      qed
    qed
    with 1(2) show ?thesis by (intro none) (simp_all add: before_bisect mem_wfD(2) [OF wf])
  next
    case 2
    then show ?thesis by (intro found [of k e]) (simp_all add: before_bisect mem_wfD(2) [OF wf] longest_below [OF wf T])
  qed
qed

lemma super_step:
  assumes wf: "mem_wf c" and T: "T \<noteq> []" "T \<notin> stored_keys c"
  obtains (none) "\<forall>k \<in> stored_keys c. \<not> prefix T k" "super_scan T (mc_entries c) None (drop (bisect_left (mc_sorted c) T) (mc_sorted c)) = Inr None"
  | (found) k e where "longest (prefix T) (stored_keys c) k" "map_of (mc_entries c) k = Some e" "en_tokens e = k" "length T < length k"
      "super_scan T (mc_entries c) None (drop (bisect_left (mc_sorted c) T) (mc_sorted c)) = Inr (Some e)"
proof -
  from super_scan_spec [OF above_facts(1,4,2) [OF wf T] mem_wfD(5) [OF wf]]
  consider "\<forall>k \<in> {k \<in> stored_keys c. T \<le> k}. \<not> prefix T k"
      "super_scan T (mc_entries c) None (filter (\<lambda>y. T \<le> y) (mc_sorted c)) = Inr None"
    | k e where "longest (prefix T) {k \<in> stored_keys c. T \<le> k} k" "map_of (mc_entries c) k = Some e" "en_tokens e = k"
      "super_scan T (mc_entries c) None (filter (\<lambda>y. T \<le> y) (mc_sorted c)) = Inr (Some e)"
    unfolding above_facts(3) [OF wf T] by blast
  then show ?thesis
  proof cases
    case 1
    then show ?thesis using prefix_imp_le by (intro none) (auto simp: behind_bisect mem_wfD(2) [OF wf])
  next
    case 2
    then have "prefix T k" "k \<noteq> T" using T(2) by (auto simp: longest_def)
    then have "length T < length k" using prefix_length_less [of T k] by (simp add: strict_prefix_def)
    with 2 show ?thesis by (intro found [of k e]) (simp_all add: behind_bisect mem_wfD(2) [OF wf] longest_above [OF wf T])
  qed
qed

lemma lcp_step:
  assumes wf: "mem_wf c" and T: "T \<noteq> []" "T \<notin> stored_keys c"
  obtains (none) "\<forall>k \<in> stored_keys c. lcp_length k T = 0" "lcp_scan T (mc_entries c) None (neighbours T (mc_sorted c)) = Inr None"
  | (found) k e where "closest c T k" "map_of (mc_entries c) k = Some e"
      "lcp_scan T (mc_entries c) None (neighbours T (mc_sorted c)) = Inr (Some (e, lcp_length k T))"
proof -
  let ?ns = "neighbours T (mc_sorted c)"
  have sub: "set ?ns \<subseteq> set (mc_sorted c)" by (rule set_neighbours [OF mem_wfD(2) [OF wf]])
  have notin: "T \<notin> set ?ns" using sub T(2) mem_wfD(3) [OF wf] by (auto simp: stored_keys_def)
  have best: "\<exists>k' \<in> set ?ns. lcp_length k T \<le> lcp_length k' T" if "k \<in> stored_keys c" for k
    using that neighbour_is_best [OF mem_wfD(2) [OF wf]] by (simp add: stored_keys_def mem_wfD(3) [OF wf])
  obtain r where r: "lcp_scan T (mc_entries c) None ?ns = Inr r" "r = None \<longrightarrow> (\<forall>k \<in> set ?ns. lcp_length k T = 0)"
      "\<forall>e n. r = Some (e, n) \<longrightarrow> 0 < n \<and> (\<exists>k \<in> set ?ns. map_of (mc_entries c) k = Some e \<and> n = lcp_length k T) \<and>
         (\<forall>k \<in> set ?ns. lcp_length k T \<le> n)"
    using lcp_scan_spec [OF notin indexed_sorted [OF wf sub], of None] by auto
  show ?thesis
  proof (cases r)
    case None
    with r(1,2) best show ?thesis by (intro none) fastforce+
  next
    case (Some p)
    then obtain e n where p: "r = Some (e, n)" by (cases p) auto
    with r(3) obtain k where k: "k \<in> set ?ns" "map_of (mc_entries c) k = Some e" "n = lcp_length k T" "0 < n"
        "\<forall>k \<in> set ?ns. lcp_length k T \<le> n" by blast
    have "closest c T k" unfolding closest_def
    proof (intro conjI ballI)
      show "k \<in> stored_keys c" using k(1) sub mem_wfD(3) [OF wf] by (auto simp: stored_keys_def)
      show "0 < lcp_length k T" using k by simp
      fix k' assume "k' \<in> stored_keys c"
      then show "lcp_length k' T \<le> lcp_length k T" using best k(3,5) by (metis order_trans)
    qed
    with k r p show ?thesis by (intro found [of k e]) simp_all
  qed
qed

text \<open>The stages of the search, from the last to the first.\<close>

lemma match_lcp_spec:
  assumes wf: "mem_wf c" and T: "T \<noteq> []" "T \<notin> stored_keys c" and "no_extension L c T" "no_prefix c T"
  shows "(\<exists>k e n. chosen L c T Lcp k n \<and> map_of (mc_entries c) k = Some e \<and>
      match_lcp L T c = returns (Some (e, Some (int (length k) - int n), drop n T)) (hit_state k e Lcp n c)) \<or>
    no_match L c T \<and> match_lcp L T c = returns None (record_miss c)"
proof (rule lcp_step [OF wf T])
  assume "\<forall>k \<in> stored_keys c. lcp_length k T = 0"
    "lcp_scan T (mc_entries c) None (neighbours T (mc_sorted c)) = Inr None"
  with assms show ?thesis by (simp add: match_lcp_def no_match_def)
next
  fix k e
  assume k: "closest c T k" "map_of (mc_entries c) k = Some e"
    "lcp_scan T (mc_entries c) None (neighbours T (mc_sorted c)) = Inr (Some (e, lcp_length k T))"
  have tok: "en_tokens e = k" by (rule mem_wfD(5) [OF wf k(2)])
  have pos: "0 < lcp_length k T" using k(1) by (simp add: closest_def)
  show ?thesis
  proof (cases "blocked L c k")
    case True
    with k pos have "match_lcp L T c = returns None (record_miss c)"
      by (simp add: match_lcp_def blocked_iff [OF k(2)])
    moreover have "no_match L c T" using True k(1) assms unfolding no_match_def by blast
    ultimately show ?thesis by blast
  next
    case False
    with k pos have "match_lcp L T c = returns (Some (e, Some (int (length k) - int (lcp_length k T)), drop (lcp_length k T) T))
        (hit_state k e Lcp (lcp_length k T) c)"
      by (simp add: match_lcp_def blocked_iff [OF k(2)] tok record_hit_eq)
    moreover have "chosen L c T Lcp k (lcp_length k T)" using False k(1) assms by (simp add: chosen_def)
    ultimately show ?thesis using k(2) by blast
  qed
qed

text \<open>What the search may hand to \<open>fetch\<close>, as its results are used.\<close>

definition spec_of :: "('r, 't, 'x) mem_entry \<Rightarrow> match_type \<Rightarrow> nat \<Rightarrow> token_key \<Rightarrow> ('r, 't, 'x) match_spec" where
  "spec_of e mt n T = (e, (if mt = Supersequence \<or> mt = Lcp then Some (int (length (en_tokens e)) - int n) else None), drop n T)"

lemma match_locked_spec:
  assumes wf: "mem_wf c" and T: "T \<noteq> []"
  shows "(\<exists>mt k e n. chosen L c T mt k n \<and> map_of (mc_entries c) k = Some e \<and>
      match_locked L T c = returns (Some (spec_of e mt n T)) (hit_state k e mt n c)) \<or>
    no_match L c T \<and> match_locked L T c = returns None (record_miss c)"
proof (cases "map_of (mc_entries c) T")
  case (Some e)
  then have "T \<in> stored_keys c" unfolding stored_keys_def by (metis map_of_keys_iff option.distinct(1))
  then have "chosen L c T Exact T (length T)" by (simp add: chosen_def)
  moreover have "match_locked L T c = returns (Some (spec_of e Exact (length T) T)) (hit_state T e Exact (length T) c)"
    using Some by (simp add: match_locked_def record_hit_eq spec_of_def)
  ultimately show ?thesis using Some by blast
next
  case None
  then have TK: "T \<notin> stored_keys c" unfolding stored_keys_def by (metis map_of_keys_iff)
  let ?i = "bisect_left (mc_sorted c) T"
  have rest: "(\<exists>mt k e n. chosen L c T mt k n \<and> map_of (mc_entries c) k = Some e \<and>
        match_prefix L T best c = returns (Some (spec_of e mt n T)) (hit_state k e mt n c)) \<or>
      no_match L c T \<and> match_prefix L T best c = returns None (record_miss c)"
    if ext: "no_extension L c T" and scan: "prefix_scan T (mc_entries c) (rev (take ?i (mc_sorted c))) = Inr best" for best
  proof (rule prefix_step [OF wf T TK])
    assume "no_prefix c T" "prefix_scan T (mc_entries c) (rev (take ?i (mc_sorted c))) = Inr None"
    with scan have "no_prefix c T" "best = None" by auto
    with match_lcp_spec [OF wf T TK ext] show ?thesis
      by (fastforce simp: match_prefix_def spec_of_def mem_wfD(5) [OF wf])
  next
    fix k e
    assume k: "longest (\<lambda>k. prefix k T) (stored_keys c) k" "map_of (mc_entries c) k = Some e"
      "prefix_scan T (mc_entries c) (rev (take ?i (mc_sorted c))) = Inr (Some (e, length k))"
    with scan have "best = Some (e, length k)" by simp
    then have "match_prefix L T best c = returns (Some (spec_of e PrefixMatch (length k) T)) (hit_state k e PrefixMatch (length k) c)"
      using k(2) by (simp add: match_prefix_def record_hit_eq spec_of_def mem_wfD(5) [OF wf])
    moreover have "chosen L c T PrefixMatch k (length k)" using k(1) ext TK by (simp add: chosen_def)
    ultimately show ?thesis using k(2) by blast
  qed
  obtain best where best: "prefix_scan T (mc_entries c) (rev (take ?i (mc_sorted c))) = Inr best"
    using prefix_step [OF wf T TK] by metis
  show ?thesis
  proof (rule super_step [OF wf T TK])
    assume "\<forall>k \<in> stored_keys c. \<not> prefix T k"
      and scan: "super_scan T (mc_entries c) None (drop ?i (mc_sorted c)) = Inr None"
    then have "no_extension L c T" by (simp add: no_extension_def)
    from rest [OF this best] show ?thesis using None scan best by (simp add: match_locked_def)
  next
    fix k e
    assume k: "longest (prefix T) (stored_keys c) k" "map_of (mc_entries c) k = Some e" "en_tokens e = k" "length T < length k"
      and scan: "super_scan T (mc_entries c) None (drop ?i (mc_sorted c)) = Inr (Some e)"
    show ?thesis
    proof (cases "blocked L c k")
      case True
      then have "no_extension L c T" using k(1) by (auto simp: no_extension_def)
      from rest [OF this best] show ?thesis
        using None scan best k True by (simp add: match_locked_def blocked_iff [OF k(2)])
    next
      case False
      then have "match_locked L T c = returns (Some (spec_of e Supersequence (length T) T)) (hit_state k e Supersequence (length T) c)"
        using None scan best k by (simp add: match_locked_def blocked_iff [OF k(2)] record_hit_eq spec_of_def)
      moreover have "chosen L c T Supersequence k (length T)" using False k(1) TK by (simp add: chosen_def)
      ultimately show ?thesis using k(2) by blast
    qed
  qed
qed

text \<open>The covered tokens are a common prefix of the prompt and the key.\<close>

lemma chosen_covers:
  assumes "chosen L c T mt k n"
  shows "n \<le> length T" "n \<le> length k" "take n k = take n T" "k \<in> stored_keys c"
    and "mem_wf c \<Longrightarrow> T \<noteq> [] \<Longrightarrow> 0 < n"
    and "length k = n \<longleftrightarrow> mt = Exact \<or> mt = PrefixMatch"
proof -
  show *: "n \<le> length T" "n \<le> length k" "take n k = take n T" "k \<in> stored_keys c"
    using assms lcp_length_le [of k T] take_lcp [of k T]
    by (auto simp: chosen_def longest_def closest_def prefix_length_le elim!: prefixE split: match_type.splits)
  show "0 < n" if "mem_wf c" "T \<noteq> []"
    using assms that stored_nonempty [OF that(1)]
    by (auto simp: chosen_def longest_def closest_def split: match_type.splits)
  show "length k = n \<longleftrightarrow> mt = Exact \<or> mt = PrefixMatch"
  proof (cases mt)
    case Supersequence
    with assms have "prefix T k" "T \<noteq> k" by (auto simp: chosen_def longest_def)
    then have "length T < length k" using prefix_length_less [of T k] by (simp add: strict_prefix_def)
    with Supersequence assms show ?thesis by (simp add: chosen_def)
  next
    case Lcp
    have "prefix k T" if "length k = n" using * that by (metis order_refl take_all take_is_prefix)
    with Lcp assms *(4) show ?thesis by (auto simp: chosen_def no_prefix_def)
  qed (use assms in \<open>auto simp: chosen_def\<close>)
qed

theorem fetch_spec:
  assumes wf: "mem_wf c" and T: "T \<noteq> []"
  shows "(\<exists>mt k e n. chosen L c T mt k n \<and> map_of (mc_entries c) k = Some e \<and>
      mem_fetch L T c = returns (answer_of L (mc_config c) e n T) (hit_state k e mt n c)) \<or>
    no_match L c T \<and> mem_fetch L T c = returns (None, T) (record_miss c)"
  using match_locked_spec [OF wf T, of L]
proof (elim disjE exE conjE)
  fix mt k e n
  assume k: "chosen L c T mt k n" "map_of (mc_entries c) k = Some e"
    "match_locked L T c = returns (Some (spec_of e mt n T)) (hit_state k e mt n c)"
  have "materialise L (mc_config c) (spec_of e mt n T) = answer_of' "
    if "answer_of' = (the (fst (answer_of L (mc_config c) e n T)), drop n T)" for answer_of'
    using that chosen_covers(6) [OF k(1)] mem_wfD(5) [OF wf k(2)] k(1)
    by (cases mt) (auto simp: materialise_def spec_of_def answer_of_def chosen_def)
  then have "mem_fetch L T c = returns (answer_of L (mc_config c) e n T) (hit_state k e mt n c)"
    using k T by (simp add: mem_fetch_def hit_state_def answer_of_def Let_def split: prod.splits)
  with k show ?thesis by blast
qed (use T in \<open>simp add: mem_fetch_def\<close>)

end
