(* ===== verification/MemStore.thy ===== *)
theory MemStore
  imports MemInv
begin

text \<open>
  What storing does to the entries: the strict prefixes of the new key go first, then the least
  recently used entries until there is room; and the steps of a cache that several threads use.
\<close>

section \<open>Dropping keys\<close>

text \<open>The cache without the keys of a list.\<close>

definition without :: "token_key set \<Rightarrow> (token_key, 'e) pydict \<Rightarrow> (token_key, 'e) pydict" where
  "without K d = filter (\<lambda>p. fst p \<notin> K) d"

lemma without_simps [simp]: "without {} d = d" "without K (without K' d) = without (K \<union> K') d"
  by (auto simp: without_def conj_commute)

lemma without_single: "without {k} d = dict_del k d"
  by (simp add: without_def dict_del_filter)

lemma keys_without: "set (dict_keys (without K d)) = set (dict_keys d) - K"
  by (auto simp: without_def)

lemma pop_entry_spec:
  assumes "mem_wf c" "map_of (mc_entries c) k = Some e"
  shows "\<exists>c1. pop_entry k c = returns () c1 \<and> mem_wf c1 \<and> mc_entries c1 = without {k} (mc_entries c) \<and>
    mc_config c1 = mc_config c \<and> mc_max_memory c1 = mc_max_memory c \<and> mc_stats c1 = mc_stats c"
proof -
  let ?c1 = "c\<lparr>mc_sorted := filter (\<lambda>y. y \<noteq> k) (mc_sorted c), mc_entries := dict_del k (mc_entries c),
    mc_memory := mc_memory c - en_memory e\<rparr>"
  have "pop_entry k c = returns () ?c1"
    using assms(2) mem_wfD(2) [OF assms(1)] by (simp add: pop_entry_def remove_from_sorted_eq)
  moreover have "mem_wf ?c1" unfolding mem_wf_def
  proof (intro conjI)
    note keys = keys_dict_del [of k "mc_entries c"]
    show "set (mc_sorted ?c1) = set (dict_keys (mc_entries ?c1))"
      using mem_wfD(3) [OF assms(1)] keys by auto
    show "[] \<notin> set (dict_keys (mc_entries ?c1))" using mem_wfD(4) [OF assms(1)] keys by auto
    show "\<forall>k' e. map_of (mc_entries ?c1) k' = Some e \<longrightarrow> en_tokens e = k'"
      using mem_wfD(5) [OF assms(1)] by (simp add: map_of_dict_del)
    show "mc_memory ?c1 = memory_sum (mc_entries ?c1)"
      using memory_sum_del [OF mem_wfD(1) [OF assms(1)] assms(2)] mem_wfD(6) [OF assms(1)] by simp
  qed (use mem_wfD(1,2) [OF assms(1)] in \<open>simp_all add: sorted_wrt_filter\<close>)
  ultimately show ?thesis by (auto simp: without_single)
qed

lemma evict_keys_spec:
  assumes "mem_wf c" "distinct ks" "set ks \<subseteq> stored_keys c"
  shows "\<exists>c1. evict_keys ks c = returns () c1 \<and> mem_wf c1 \<and> mc_entries c1 = without (set ks) (mc_entries c) \<and>
    mc_config c1 = mc_config c \<and> mc_max_memory c1 = mc_max_memory c \<and> ms_max_memory (mc_stats c1) = ms_max_memory (mc_stats c)"
  using assms
proof (induction ks arbitrary: c)
  case (Cons k ks)
  then obtain e where e: "map_of (mc_entries c) k = Some e"
    unfolding stored_keys_def by (metis insert_subset list.simps(15) map_of_keys_iff not_Some_eq)
  from pop_entry_spec [OF Cons.prems(1) e] obtain c1 where c1: "pop_entry k c = returns () c1" "mem_wf c1"
      "mc_entries c1 = without {k} (mc_entries c)" "mc_config c1 = mc_config c" "mc_max_memory c1 = mc_max_memory c"
      "mc_stats c1 = mc_stats c" by blast
  let ?c2 = "count_eviction c1"
  have c2: "mem_wf ?c2" "mc_entries ?c2 = without {k} (mc_entries c)" "mc_config ?c2 = mc_config c"
    "mc_max_memory ?c2 = mc_max_memory c" "ms_max_memory (mc_stats ?c2) = ms_max_memory (mc_stats c)"
    using c1 by (simp_all, simp_all add: count_eviction_def)
  have "set ks \<subseteq> stored_keys ?c2" unfolding stored_keys_def c2 keys_without using Cons.prems(2,3) by (auto simp: stored_keys_def)
  from Cons.IH [OF c2(1) _ this] Cons.prems(2) obtain c3 where
    "evict_keys ks ?c2 = returns () c3" "mem_wf c3" "mc_entries c3 = without (set ks) (mc_entries ?c2)"
    "mc_config c3 = mc_config ?c2" "mc_max_memory c3 = mc_max_memory ?c2"
    "ms_max_memory (mc_stats c3) = ms_max_memory (mc_stats ?c2)" by auto
  with c1 c2 show ?case by (auto simp: insert_commute)
qed simp

text \<open>The statistics that follow the entries.\<close>

definition gauges_exact :: "('r, 't, 'x) mem_cache \<Rightarrow> bool" where
  "gauges_exact c \<longleftrightarrow> ms_count (mc_stats c) = int (length (mc_entries c)) \<and> ms_memory (mc_stats c) = mc_memory c \<and>
     ms_max_memory (mc_stats c) = mc_max_memory c"

lemma gauges_sync [simp]: "gauges_exact (sync_stats c) \<longleftrightarrow> ms_max_memory (mc_stats c) = mc_max_memory c"
  by (simp add: gauges_exact_def sync_stats_def)

lemma sync_stats_fields [simp]:
  "mc_entries (sync_stats c) = mc_entries c" "mc_config (sync_stats c) = mc_config c"
  "mc_max_memory (sync_stats c) = mc_max_memory c" "mc_memory (sync_stats c) = mc_memory c"
  "ms_count (mc_stats (sync_stats c)) = int (length (mc_entries c))" "ms_memory (mc_stats (sync_stats c)) = mc_memory c"
  "mc_sorted (sync_stats c) = mc_sorted c" "ms_max_memory (mc_stats (sync_stats c)) = ms_max_memory (mc_stats c)"
  by (simp_all add: sync_stats_def)

lemma count_eviction_fields [simp]:
  "mc_entries (count_eviction c) = mc_entries c" "mc_config (count_eviction c) = mc_config c"
  "mc_max_memory (count_eviction c) = mc_max_memory c" "mc_memory (count_eviction c) = mc_memory c"
  "ms_max_memory (mc_stats (count_eviction c)) = ms_max_memory (mc_stats c)"
  by (simp_all add: count_eviction_def)

definition strict_prefixes :: "token_key \<Rightarrow> token_key set" where
  "strict_prefixes T = {k. strict_prefix k T}"

lemma evict_prefixes_spec:
  assumes wf: "mem_wf c" and T: "T \<noteq> []" "T \<notin> stored_keys c" and g: "gauges_exact c"
  shows "\<exists>c1. evict_prefixes_of T c = returns () c1 \<and> mem_wf c1 \<and> gauges_exact c1 \<and>
    mc_entries c1 = without (strict_prefixes T) (mc_entries c) \<and> mc_config c1 = mc_config c \<and>
    mc_max_memory c1 = mc_max_memory c"
proof -
  let ?lo = "rev (filter (\<lambda>y. y < T) (mc_sorted c))"
  define ks where "ks = prefixes_below T (rev (take (bisect_left (mc_sorted c) T) (mc_sorted c)))"
  have ks: "ks = filter (\<lambda>k. prefix k T) ?lo"
    unfolding ks_def before_bisect [OF mem_wfD(2) [OF wf]]
    by (rule prefixes_below_spec [OF below_facts(1) [OF wf T] _ T(1)])
      (use mem_wfD(3,4) [OF wf] in auto)
  have "prefix k T \<and> k < T \<longleftrightarrow> strict_prefix k T" for k
    using prefix_imp_le [of k T] by (auto simp: strict_prefix_def order_le_less)
  then have set_ks: "set ks = stored_keys c \<inter> strict_prefixes T"
    using mem_wfD(3) [OF wf] by (auto simp: ks stored_keys_def strict_prefixes_def)
  have "distinct ks" using mem_wfD(2) [OF wf] by (simp add: ks strict_sorted_iff)
  from evict_keys_spec [OF wf this] set_ks obtain c1 where c1: "evict_keys ks c = returns () c1" "mem_wf c1"
      "mc_entries c1 = without (set ks) (mc_entries c)" "mc_config c1 = mc_config c" "mc_max_memory c1 = mc_max_memory c"
      "ms_max_memory (mc_stats c1) = ms_max_memory (mc_stats c)" by blast
  have ent: "mc_entries c1 = without (strict_prefixes T) (mc_entries c)"
    unfolding c1(3) set_ks by (auto simp: without_def stored_keys_def intro: filter_cong)
  show ?thesis
  proof (cases "ks = []")
    case True
    then have "c1 = c" using c1(1) by simp
    moreover have "evict_prefixes_of T c = returns () c"
      by (simp add: evict_prefixes_of_def Let_def True ks_def [symmetric])
    ultimately show ?thesis using c1 ent g by auto
  next
    case False
    then have "evict_prefixes_of T c = returns () (sync_stats c1)"
      using c1(1) by (simp add: evict_prefixes_of_def Let_def ks_def [symmetric])
    with c1 ent g show ?thesis by (auto simp: gauges_exact_def)
  qed
qed

section \<open>Evicting until there is room\<close>

lemma mem_evict_lru_spec:
  assumes "mem_wf c" "mc_entries c = (k, e) # d"
  shows "mem_wf (evict_lru c) \<and> mc_entries (evict_lru c) = d \<and> mc_config (evict_lru c) = mc_config c \<and>
    mc_max_memory (evict_lru c) = mc_max_memory c \<and> (gauges_exact c \<longrightarrow> gauges_exact (evict_lru c))"
proof -
  have "map_of (mc_entries c) k = Some e" using assms(2) by simp
  from pop_entry_spec [OF assms(1) this] obtain c1 where c1: "pop_entry k c = returns () c1" "mem_wf c1"
      "mc_entries c1 = without {k} (mc_entries c)" "mc_config c1 = mc_config c" "mc_max_memory c1 = mc_max_memory c"
      "mc_stats c1 = mc_stats c" by blast
  have "without {k} (mc_entries c) = d"
    using mem_wfD(1) [OF assms(1)] assms(2) by (simp add: without_single dict_del_absent)
  with c1 assms(2) show ?thesis by (simp add: evict_lru_def gauges_exact_def)
qed

text \<open>
  The loop drops the least recently used entries, and none more than the room needs: with one entry
  fewer dropped there would not have been room.
\<close>

definition room :: "int \<Rightarrow> ('r, 't, 'x) mem_cache \<Rightarrow> (token_key, ('r, 't, 'x) mem_entry) pydict \<Rightarrow> bool" where
  "room need c d \<longleftrightarrow> memory_sum d + need \<le> mc_max_memory c \<and> int (length d) < max_entries (mc_config c)"

lemma too_full_iff: "mem_wf c \<Longrightarrow> too_full need c \<longleftrightarrow> \<not> room need c (mc_entries c) \<and> mc_entries c \<noteq> []"
  using mem_wfD(6) [of c] by (auto simp: too_full_def room_def)

lemma evict_until_room_spec:
  assumes "mem_wf c"
  shows "mem_wf (evict_until_room need c) \<and> (gauges_exact c \<longrightarrow> gauges_exact (evict_until_room need c)) \<and>
    mc_config (evict_until_room need c) = mc_config c \<and> mc_max_memory (evict_until_room need c) = mc_max_memory c \<and>
    (\<exists>n. n \<le> length (mc_entries c) \<and> mc_entries (evict_until_room need c) = drop n (mc_entries c) \<and>
       (room need c (drop n (mc_entries c)) \<or> n = length (mc_entries c)) \<and>
       (\<forall>m<n. \<not> room need c (drop m (mc_entries c))))"
  using assms
proof (induction need c rule: evict_until_room.induct)
  case (1 need c)
  show ?case
  proof (cases "too_full need c")
    case False
    then show ?thesis using 1(2) too_full_iff [OF 1(2), of need]
      by (subst (1 2 3 4 5) evict_until_room.simps) (auto intro!: exI [of _ 0])
  next
    case True
    then obtain k e d where d: "mc_entries c = (k, e) # d" by (auto simp: too_full_def neq_Nil_conv)
    note lru = mem_evict_lru_spec [OF 1(2) d]
    have same: "room need (evict_lru c) = room need c" using lru by (simp add: room_def fun_eq_iff)
    have eq: "evict_until_room need c = evict_until_room need (evict_lru c)"
      using True by (simp add: evict_until_room.simps [of need c])
    from 1(1) [OF True] lru obtain n where n: "n \<le> length d" "mc_entries (evict_until_room need (evict_lru c)) = drop n d"
        "room need c (drop n d) \<or> n = length d" "\<forall>m<n. \<not> room need c (drop m d)"
      by (auto simp: same)
    have "\<not> room need c (drop m (mc_entries c))" if "m < Suc n" for m
      using that n(4) d True too_full_iff [OF 1(2), of need] by (cases m) auto
    with n d have "\<exists>n. n \<le> length (mc_entries c) \<and> mc_entries (evict_until_room need c) = drop n (mc_entries c) \<and>
       (room need c (drop n (mc_entries c)) \<or> n = length (mc_entries c)) \<and>
       (\<forall>m<n. \<not> room need c (drop m (mc_entries c)))"
      unfolding eq by (intro exI [of _ "Suc n"]) simp
    moreover have "mem_wf (evict_until_room need c) \<and> (gauges_exact c \<longrightarrow> gauges_exact (evict_until_room need c)) \<and>
        mc_config (evict_until_room need c) = mc_config c \<and> mc_max_memory (evict_until_room need c) = mc_max_memory c"
      using 1(1) [OF True] lru unfolding eq by simp
    ultimately show ?thesis by blast
  qed
qed

section \<open>Inserting\<close>

lemma insert_entry_spec:
  assumes wf: "mem_wf c" and "en_tokens e \<noteq> []" "en_tokens e \<notin> stored_keys c"
  shows "mem_wf (insert_entry e c)" "mc_entries (insert_entry e c) = mc_entries c @ [(en_tokens e, e)]"
    "mc_config (insert_entry e c) = mc_config c" "mc_max_memory (insert_entry e c) = mc_max_memory c"
    "ms_max_memory (mc_stats c) = mc_max_memory c \<Longrightarrow> gauges_exact (insert_entry e c)"
proof -
  have ent: "dict_set (en_tokens e) e (mc_entries c) = mc_entries c @ [(en_tokens e, e)]"
    using assms(3) by (simp add: stored_keys_def dict_set_absent)
  show "mc_entries (insert_entry e c) = mc_entries c @ [(en_tokens e, e)]"
    "mc_config (insert_entry e c) = mc_config c" "mc_max_memory (insert_entry e c) = mc_max_memory c"
    by (simp_all add: insert_entry_def ent)
  show "gauges_exact (insert_entry e c)" if "ms_max_memory (mc_stats c) = mc_max_memory c"
    using that by (simp add: insert_entry_def)
  have "en_tokens e \<notin> set (mc_sorted c)" using assms(3) mem_wfD(3) [OF wf] by (simp add: stored_keys_def)
  then show "mem_wf (insert_entry e c)"
    unfolding insert_entry_def mem_wf_misc
    using mem_wfD [OF wf] assms(2,3) strictly_sorted_insort [of "mc_sorted c" "en_tokens e"]
    by (auto simp: mem_wf_def ent set_insort stored_keys_def memory_sum_def map_add_def split: option.splits)
qed

theorem store_commit_spec:
  fixes ev :: bool
  assumes wf: "mem_wf c" and g: "gauges_exact c" and T: "T \<noteq> []" "en_tokens e = T" "T \<notin> stored_keys c"
  defines "kept \<equiv> if ev then without (strict_prefixes T) (mc_entries c) else mc_entries c"
  shows "\<exists>c' n. store_commit ev e c = returns True c' \<and> mem_wf c' \<and> gauges_exact c' \<and>
    mc_config c' = mc_config c \<and> mc_max_memory c' = mc_max_memory c \<and>
    n \<le> length kept \<and> mc_entries c' = drop n kept @ [(T, e)] \<and>
    (room (en_memory e) c (drop n kept) \<or> n = length kept) \<and> (\<forall>m<n. \<not> room (en_memory e) c (drop m kept))"
proof -
  have none: "map_of (mc_entries c) T = None" using T(3) unfolding stored_keys_def by (metis map_of_keys_iff)
  have empty: "mc_entries c = []" if "mc_sorted c = []" using that mem_wfD(3) [OF wf] by simp
  obtain c1 where c1: "(if ev \<and> mc_sorted c \<noteq> [] then evict_prefixes_of T c else returns () c) = returns () c1"
      "mem_wf c1" "gauges_exact c1" "mc_entries c1 = kept" "mc_config c1 = mc_config c" "mc_max_memory c1 = mc_max_memory c"
    using evict_prefixes_spec [OF wf T(1,3) g] wf g empty by (cases "ev \<and> mc_sorted c \<noteq> []") (auto simp: kept_def without_def)
  let ?c2 = "evict_until_room (en_memory e) c1"
  have c: "store_commit ev e c = returns True (insert_entry e ?c2)"
    unfolding store_commit_def move_to_end_eq T(2) none option.case c1(1) by simp
  have same: "room (en_memory e) c1 = room (en_memory e) c" using c1 by (simp add: room_def fun_eq_iff)
  note until = evict_until_room_spec [OF c1(2), of "en_memory e", unfolded same c1(4)]
  then obtain n where n: "n \<le> length kept" "mc_entries ?c2 = drop n kept"
      "room (en_memory e) c (drop n kept) \<or> n = length kept" "\<forall>m<n. \<not> room (en_memory e) c (drop m kept)" by blast
  have "set (drop n kept) \<subseteq> set kept" by (rule set_drop_subset)
  moreover have "set kept \<subseteq> set (mc_entries c)" by (auto simp: kept_def without_def)
  ultimately have "T \<notin> stored_keys ?c2" using T(3) unfolding stored_keys_def n(2) by auto
  moreover have "gauges_exact ?c2" using until c1(3) by blast
  ultimately have ins: "mem_wf (insert_entry e ?c2)" "mc_entries (insert_entry e ?c2) = drop n kept @ [(T, e)]"
    "mc_config (insert_entry e ?c2) = mc_config c" "mc_max_memory (insert_entry e ?c2) = mc_max_memory c"
    "gauges_exact (insert_entry e ?c2)"
    using insert_entry_spec [of ?c2 e] until n(2) c1(5,6) T by (simp_all add: gauges_exact_def)
  with c n show ?thesis by blast
qed

end
