(* ===== verification/MemRound.thy ===== *)
theory MemRound
  imports MemCrash MemStore
begin

text \<open>
  What a save writes, an undisturbed load reads back; and any load keeps the invariant.
\<close>

section \<open>Loading keeps the invariant\<close>

lemma insert_is_add: "insert_entry e c = sync_stats (add_loaded e c)"
  by (simp add: insert_entry_def add_loaded_def)

lemma add_loaded_spec:
  assumes "mem_wf c" "en_tokens e \<noteq> []" "en_tokens e \<notin> stored_keys c"
  shows "mem_wf (add_loaded e c)" "mc_entries (add_loaded e c) = mc_entries c @ [(en_tokens e, e)]"
    "mc_config (add_loaded e c) = mc_config c" "mc_max_memory (add_loaded e c) = mc_max_memory c"
    "mc_memory (add_loaded e c) = mc_memory c + en_memory e" "mc_stats (add_loaded e c) = mc_stats c"
  using insert_entry_spec(1,2) [OF assms] by (simp_all add: insert_is_add, simp_all add: add_loaded_def)

lemma load_entry_take:
  assumes "load_entry L io dir d m c = Take e" "0 < ie_num_tokens m"
  shows "en_tokens e \<noteq> []" "en_tokens e \<notin> stored_keys c" "mc_memory c + en_memory e \<le> mc_max_memory c"
    "estimate_kv_cache_memory L (en_cache e) = Inr (en_memory e)"
proof -
  have len: "length (read_items n b) = n" for n b by (induction n b rule: read_items.induct) auto
  obtain tb where e: "en_tokens e = read_items (ie_num_tokens m) tb" "en_tokens e \<notin> set (dict_keys (mc_entries c))"
      "\<not> mc_max_memory c < mc_memory c + en_memory e" "estimate_kv_cache_memory L (en_cache e) = Inr (en_memory e)"
    using assms(1) by (auto simp: load_entry_def Let_def simp del: set_map list.set_map
        split: option.splits if_split_asm sum.splits)
  show "en_tokens e \<noteq> []" using e(1) assms(2) len [of "ie_num_tokens m" tb] by auto
  show "en_tokens e \<notin> stored_keys c" "mc_memory c + en_memory e \<le> mc_max_memory c"
    "estimate_kv_cache_memory L (en_cache e) = Inr (en_memory e)"
    using e by (simp_all add: stored_keys_def)
qed

lemma load_entries_wf:
  assumes "mem_wf c" "\<forall>m \<in> set ms. 0 < ie_num_tokens m"
  shows "mem_wf (snd (load_entries L io dir d ms n c)) \<and>
    mc_config (snd (load_entries L io dir d ms n c)) = mc_config c \<and>
    mc_max_memory (snd (load_entries L io dir d ms n c)) = mc_max_memory c \<and>
    mc_stats (snd (load_entries L io dir d ms n c)) = mc_stats c \<and>
    (mc_memory c \<le> mc_max_memory c \<longrightarrow> mc_memory (snd (load_entries L io dir d ms n c)) \<le> mc_max_memory c) \<and>
    (\<forall>e \<in> set (dict_values (mc_entries (snd (load_entries L io dir d ms n c)))).
       e \<in> set (dict_values (mc_entries c)) \<or> estimate_kv_cache_memory L (en_cache e) = Inr (en_memory e))"
  using assms
proof (induction ms arbitrary: n c)
  case (Cons m ms)
  show ?case
  proof (cases "load_entry L io dir d m c")
    case (Take e)
    have "0 < ie_num_tokens m" using Cons.prems(2) by simp
    note e = load_entry_take [OF Take this]
    note a = add_loaded_spec [OF Cons.prems(1) e(1,2)]
    from Cons.IH [OF a(1), of "Suc n"] Cons.prems(2) a e show ?thesis by (auto simp: Take)
  qed (use Cons in auto)
qed simp

section \<open>Names of the files\<close>

lemma entry_file_inject [simp]: "entry_file i = entry_file j \<longleftrightarrow> i = j" "tokens_file i = tokens_file j \<longleftrightarrow> i = j"
  by (simp_all add: entry_file_def tokens_file_def)

lemma entry_tokens_differ [simp]: "entry_file i \<noteq> tokens_file j" "tokens_file j \<noteq> entry_file i"
proof -
  have "last (entry_file i) \<noteq> last (tokens_file j)" by (simp add: entry_file_def tokens_file_def)
  then show "entry_file i \<noteq> tokens_file j" by metis
  then show "tokens_file j \<noteq> entry_file i" by simp
qed

section \<open>An undisturbed save\<close>

text \<open>
  An entry that survives on disk: mlx_lm writes it and reads it back, its tokens are 32-bit, its
  header is complete, the configuration can load its classes, and it is aligned with its tokens.
\<close>

definition recorded_types ::
  "('r, 't, 'x) kv_lib \<Rightarrow> ('r, 't, 'x) mem_entry \<Rightarrow> string list" where
  "recorded_types L e = map layer_class (filter (\<lambda>l. l \<noteq> Absent) (persist_cache L (en_cache e)))"

definition persistable ::
  "('r, 't, 'x) kv_lib \<Rightarrow> ('r, 't, 'x) mem_io \<Rightarrow> mem_config \<Rightarrow> token_key \<Rightarrow> ('r, 't, 'x) mem_entry \<Rightarrow> bool" where
  "persistable L io g k e \<longleftrightarrow> list_all int32 k \<and> isl (estimate_kv_cache_memory L (persist_cache L (en_cache e))) = False \<and>
     (case persist_cache L (en_cache e) of [] \<Rightarrow> True
      | l # _ \<Rightarrow> head_offset L l = None \<or> head_offset L l = Some (int (length k))) \<and>
     (case io_save io (persist_cache L (en_cache e)) (length k) of None \<Rightarrow> False
      | Some b \<Rightarrow> io_load io b = Some (persist_cache L (en_cache e)) \<and> safetensors_is_complete (io_header io) b \<and>
          cache_classes_compatible (if recorded_types L e = [] then safetensors_cache_classes (io_header io) b
            else recorded_types L e) g)"

definition reload :: "('r, 't, 'x) kv_lib \<Rightarrow> token_key \<Rightarrow> ('r, 't, 'x) mem_entry \<Rightarrow> ('r, 't, 'x) mem_entry" where
  "reload L k e = \<lparr>en_tokens = k, en_cache = persist_cache L (en_cache e),
     en_memory = projr (estimate_kv_cache_memory L (persist_cache L (en_cache e)))\<rparr>"

fun index_of :: "('r, 't, 'x) kv_lib \<Rightarrow> nat \<Rightarrow> (token_key, ('r, 't, 'x) mem_entry) pydict \<Rightarrow> index_entry list" where
  "index_of L i [] = []"
| "index_of L i ((k, e) # es) = \<lparr>ie_index = i, ie_num_tokens = length k, ie_memory = en_memory e,
     ie_types = recorded_types L e\<rparr> # index_of L (Suc i) es"

text \<open>The two files of an entry are in the directory.\<close>

definition entry_on_disk ::
  "('r, 't, 'x) kv_lib \<Rightarrow> ('r, 't, 'x) mem_io \<Rightarrow> string \<Rightarrow> disk \<Rightarrow> nat \<Rightarrow> token_key \<Rightarrow> ('r, 't, 'x) mem_entry \<Rightarrow> bool" where
  "entry_on_disk L io dir d i k e \<longleftrightarrow>
     read_file dir (entry_file i) d = io_save io (persist_cache L (en_cache e)) (length k) \<and>
     read_file dir (tokens_file i) d = tokens_bytes k"

fun all_on_disk ::
  "('r, 't, 'x) kv_lib \<Rightarrow> ('r, 't, 'x) mem_io \<Rightarrow> string \<Rightarrow> disk \<Rightarrow> nat \<Rightarrow>
     (token_key, ('r, 't, 'x) mem_entry) pydict \<Rightarrow> bool" where
  "all_on_disk L io dir d i [] \<longleftrightarrow> True"
| "all_on_disk L io dir d i ((k, e) # es) \<longleftrightarrow> entry_on_disk L io dir d i k e \<and> all_on_disk L io dir d (Suc i) es"

lemma all_on_disk_cong:
  "(\<And>j. i \<le> j \<Longrightarrow> read_file dir (entry_file j) d = read_file dir' (entry_file j) d' \<and>
      read_file dir (tokens_file j) d = read_file dir' (tokens_file j) d') \<Longrightarrow>
   all_on_disk L io dir d i es = all_on_disk L io dir' d' i es"
  by (induction es arbitrary: i rule: list.induct) (auto simp: entry_on_disk_def)

lemma calm_simps [simp]:
  "ss_tensors calm i = None" "ss_tokens calm i = None" "ss_index calm = None" "run_purge calm pt dir r = r"
  by (simp_all add: calm_def run_purge_def)

lemma write_calm: "exists_dir dir (fst r) \<Longrightarrow> write_part None dir name b r = (True, run_op (WriteFile dir name b) r)"
  by (simp add: write_part_def)

lemma read_write:
  "exists_dir dir d \<Longrightarrow> read_file p n (apply_op (WriteFile dir name b) d) =
     (if p = dir \<and> n = name then Some b else read_file p n d)"
  by (auto simp: read_file_def apply_op_def exists_dir_def map_of_dict_set)

lemma exists_write: "exists_dir p (apply_op (WriteFile dir name b) d) = exists_dir p d"
  by (auto simp: apply_op_def exists_dir_def map_of_dict_set split: option.splits)

lemma save_entry_calm:
  assumes "exists_dir dir (fst r)" "persistable L io g k e"
  shows "\<exists>r'. save_entry L io calm dir i k e r = (Some \<lparr>ie_index = i, ie_num_tokens = length k,
      ie_memory = en_memory e, ie_types = recorded_types L e\<rparr>, r') \<and> exists_dir dir (fst r') \<and>
    entry_on_disk L io dir (fst r') i k e \<and>
    (\<forall>p n. \<not> (p = dir \<and> (n = entry_file i \<or> n = tokens_file i)) \<longrightarrow> read_file p n (fst r') = read_file p n (fst r)) \<and>
    (\<forall>p. exists_dir p (fst r') = exists_dir p (fst r))"
proof -
  from assms(2) obtain b where b: "io_save io (persist_cache L (en_cache e)) (length k) = Some b"
    by (auto simp: persistable_def split: option.splits)
  have tb: "tokens_bytes k = Some (concat (map item_bytes k))"
    using assms(2) by (simp add: persistable_def tokens_bytes_def)
  let ?r1 = "run_op (WriteFile dir (entry_file i) b) r"
  let ?r2 = "run_op (WriteFile dir (tokens_file i) (concat (map item_bytes k))) ?r1"
  have ex: "exists_dir dir (fst ?r1)" using assms(1) by (simp add: run_op_def exists_write)
  have "save_entry L io calm dir i k e r = (Some \<lparr>ie_index = i, ie_num_tokens = length k,
      ie_memory = en_memory e, ie_types = recorded_types L e\<rparr>, ?r2)"
    by (simp add: save_entry_def b tb write_calm assms(1) ex recorded_types_def)
  moreover have "exists_dir p (fst ?r2) = exists_dir p (fst r)" for p by (simp add: run_op_def exists_write)
  moreover have "read_file p n (fst ?r2) = (if p = dir \<and> n = tokens_file i then Some (concat (map item_bytes k))
      else if p = dir \<and> n = entry_file i then Some b else read_file p n (fst r))" for p n
    using assms(1) ex by (simp add: run_op_def read_write exists_write)
  ultimately show ?thesis using b tb assms(1) by (auto simp: entry_on_disk_def)
qed

lemma save_entries_calm:
  assumes "exists_dir dir (fst r)" "\<forall>(k, e) \<in> set es. persistable L io g k e"
  shows "\<exists>r'. save_entries L io calm dir i es r = (index_of L i es, r') \<and> exists_dir dir (fst r') \<and>
    all_on_disk L io dir (fst r') i es \<and>
    (\<forall>p n. p \<noteq> dir \<or> (\<forall>j \<ge> i. n \<noteq> entry_file j \<and> n \<noteq> tokens_file j) \<longrightarrow> read_file p n (fst r') = read_file p n (fst r)) \<and>
    (\<forall>p. exists_dir p (fst r') = exists_dir p (fst r))"
  using assms
proof (induction es arbitrary: i r)
  case (Cons p es)
  obtain k e where p: "p = (k, e)" by fastforce
  with Cons.prems have ke: "persistable L io g k e" by auto
  from save_entry_calm [OF Cons.prems(1) this] obtain r1 where r1:
    "save_entry L io calm dir i k e r = (Some \<lparr>ie_index = i, ie_num_tokens = length k,
      ie_memory = en_memory e, ie_types = recorded_types L e\<rparr>, r1)" "exists_dir dir (fst r1)"
    "entry_on_disk L io dir (fst r1) i k e"
    "\<forall>p n. \<not> (p = dir \<and> (n = entry_file i \<or> n = tokens_file i)) \<longrightarrow> read_file p n (fst r1) = read_file p n (fst r)"
    "\<forall>p. exists_dir p (fst r1) = exists_dir p (fst r)" by blast
  from Cons.IH [OF r1(2), of "Suc i"] Cons.prems(2) obtain r2 where r2:
    "save_entries L io calm dir (Suc i) es r1 = (index_of L (Suc i) es, r2)" "exists_dir dir (fst r2)"
    "all_on_disk L io dir (fst r2) (Suc i) es"
    "\<forall>p n. p \<noteq> dir \<or> (\<forall>j \<ge> Suc i. n \<noteq> entry_file j \<and> n \<noteq> tokens_file j) \<longrightarrow> read_file p n (fst r2) = read_file p n (fst r1)"
    "\<forall>p. exists_dir p (fst r2) = exists_dir p (fst r1)" by auto
  have "entry_on_disk L io dir (fst r2) i k e" using r1(3) r2(4) by (simp add: entry_on_disk_def)
  moreover have "read_file q n (fst r2) = read_file q n (fst r)"
    if "q \<noteq> dir \<or> (\<forall>j \<ge> i. n \<noteq> entry_file j \<and> n \<noteq> tokens_file j)" for q n
    using that r1(4) r2(4) by (metis Suc_leD order_refl)
  ultimately show ?case using r1 r2 by (auto simp: p)
qed auto

lemma index_on_disk:
  "all_on_disk L io dir d i es \<Longrightarrow> \<forall>(k, e) \<in> set es. persistable L io g k e \<Longrightarrow>
     m \<in> set (index_of L i es) \<Longrightarrow> both_exist dir (ie_index m) d"
  by (induction L i es rule: index_of.induct)
    (auto simp: entry_on_disk_def both_exist_def persistable_def tokens_bytes_def split: option.splits)

lemma index_of_empty [simp]: "index_of L i es = [] \<longleftrightarrow> es = []"
  by (cases "(L, i, es)" rule: index_of.cases) auto

lemma write_index_calm:
  assumes "exists_dir new (fst r)" "es \<noteq> []" "ix_entries ix = index_of L i es" "all_on_disk L io new (fst r) i es"
    and "\<forall>(k, e) \<in> set es. persistable L io g k e"
  shows "\<exists>r'. write_index io calm new ix r = (True, r') \<and>
    (\<forall>p n. read_file p n (fst r') = (if p = new \<and> n = index_file then Some (io_index_text io ix) else read_file p n (fst r))) \<and>
    (\<forall>p. exists_dir p (fst r') = exists_dir p (fst r))"
proof -
  have both: "both_exist new (ie_index m) (fst r)" if "m \<in> set (ix_entries ix)" for m
    using index_on_disk [OF assms(4,5)] that assms(3) by simp
  then have "filter (\<lambda>m. both_exist new (ie_index m) (fst r)) (ix_entries ix) = ix_entries ix" by (simp add: filter_id_conv)
  moreover obtain m ms where m: "ix_entries ix = m # ms" using assms(2) unfolding assms(3)
    by (cases "index_of L i es") auto
  moreover have "apply_op (MakeDirs new) (fst r) = fst r"
    using assms(1) by (auto simp: apply_op_def exists_dir_def)
  ultimately show ?thesis
    using both [of m] assms(1) by (auto simp: write_index_def Let_def run_op_def write_calm read_write exists_write)
qed

text \<open>A directory that has moved.\<close>

lemma read_commit:
  assumes "exists_dir new (fst r)" "\<not> exists_dir old (fst r)" "new \<noteq> base" "old \<noteq> base" "new \<noteq> old"
  shows "read_file base n (fst (commit_swap base new old r)) = read_file new n (fst r)"
    and "exists_dir base (fst (commit_swap base new old r))"
proof -
  define r1 where "r1 = (if exists_dir base (fst r) then run_op (Rename base old) r else r)"
  have r1: "map_of (fst r1) new = map_of (fst r) new"
    using assms by (auto simp: r1_def run_op_def apply_op_def map_of_dict_set map_of_dict_del split: option.splits)
  let ?d = "fst (run_op (Rename new base) r1)"
  have d: "map_of ?d base = map_of (fst r) new"
    using assms(1) r1 by (auto simp: run_op_def apply_op_def map_of_dict_set exists_dir_def)
  have swap: "map_of (fst (commit_swap base new old r)) base = map_of ?d base"
    using assms(4) by (simp add: commit_swap_def Let_def r1_def run_op_def apply_op_def [of "RmTree old"] map_of_dict_del)
  show "read_file base n (fst (commit_swap base new old r)) = read_file new n (fst r)"
    by (simp add: read_file_def swap d)
  show "exists_dir base (fst (commit_swap base new old r))"
    using assms(1) by (simp add: exists_dir_def swap d)
qed

section \<open>The round trip\<close>

definition reloaded :: "('r, 't, 'x) kv_lib \<Rightarrow> (token_key, ('r, 't, 'x) mem_entry) pydict \<Rightarrow> (token_key, ('r, 't, 'x) mem_entry) pydict" where
  "reloaded L es = map (\<lambda>(k, e). (k, reload L k e)) es"

lemma load_entry_saved:
  assumes "persistable L io (mc_config c) k e" "entry_on_disk L io dir d i k e" "k \<notin> stored_keys c"
    and "mc_memory c + en_memory (reload L k e) \<le> mc_max_memory c"
  shows "load_entry L io dir d \<lparr>ie_index = i, ie_num_tokens = length k, ie_memory = m, ie_types = recorded_types L e\<rparr> c =
    Take (reload L k e)"
proof -
  let ?p = "persist_cache L (en_cache e)"
  from assms(1) obtain b where b: "io_save io ?p (length k) = Some b" "io_load io b = Some ?p"
      "safetensors_is_complete (io_header io) b"
      "cache_classes_compatible (if recorded_types L e = [] then safetensors_cache_classes (io_header io) b
        else recorded_types L e) (mc_config c)"
    by (auto simp: persistable_def split: option.splits)
  have int32: "list_all int32 k" using assms(1) by (simp add: persistable_def)
  obtain n where n: "estimate_kv_cache_memory L ?p = Inr n"
    using assms(1) by (cases "estimate_kv_cache_memory L ?p") (auto simp: persistable_def)
  have head: "\<not> (case ?p of [] \<Rightarrow> False | l # _ \<Rightarrow>
      (case head_offset L l of None \<Rightarrow> False | Some off \<Rightarrow> off \<noteq> int (length k)))"
    using assms(1) by (auto simp: persistable_def split: list.splits option.splits)
  have files: "read_file dir (entry_file i) d = Some b" "read_file dir (tokens_file i) d = Some (concat (map item_bytes k))"
    using assms(2) b(1) int32 by (simp_all add: entry_on_disk_def tokens_bytes_def)
  have len: "length (concat (map item_bytes k)) = length k * 4"
    using length_tokens_bytes [of k] int32 by (simp add: tokens_bytes_def)
  have "mc_memory c + n \<le> mc_max_memory c" using assms(4) by (simp add: reload_def n)
  then show ?thesis
    using files b int32 n head assms(3) len
    by (cases "recorded_types L e = []")
      (simp_all add: load_entry_def Let_def read_items_bytes stored_keys_def reload_def del: length_concat)
qed

lemma load_entries_saved:
  assumes "mem_wf c" "all_on_disk L io dir d i es" "\<forall>(k, e) \<in> set es. persistable L io (mc_config c) k e"
    and "distinct (dict_keys es)" "[] \<notin> set (dict_keys es)" "set (dict_keys es) \<inter> stored_keys c = {}"
    and "mc_memory c + memory_sum (reloaded L es) \<le> mc_max_memory c" "\<forall>(k, e) \<in> set (reloaded L es). 0 \<le> en_memory e"
  shows "fst (load_entries L io dir d (index_of L i es) n c) = n + length es \<and>
    mc_entries (snd (load_entries L io dir d (index_of L i es) n c)) = mc_entries c @ reloaded L es"
  using assms
proof (induction es arbitrary: i n c)
  case (Cons p es)
  obtain k e where p: "p = (k, e)" by fastforce
  have mem: "memory_sum (reloaded L (p # es)) = en_memory (reload L k e) + memory_sum (reloaded L es)"
    by (simp add: memory_sum_def reloaded_def p)
  have "0 \<le> memory_sum (reloaded L es)"
    unfolding memory_sum_def using Cons.prems(8) by (intro sum_list_nonneg) (auto simp: reloaded_def)
  then have fits: "mc_memory c + en_memory (reload L k e) \<le> mc_max_memory c" using Cons.prems(7) mem by simp
  have k: "persistable L io (mc_config c) k e" "entry_on_disk L io dir d i k e" "k \<notin> stored_keys c" "k \<noteq> []"
    using Cons.prems(2,3,5,6) by (auto simp: p)
  note take = load_entry_saved [OF k(1-3) fits]
  have tok: "en_tokens (reload L k e) = k" by (simp add: reload_def)
  note a = add_loaded_spec [OF Cons.prems(1), of "reload L k e", unfolded tok, OF k(4,3)]
  have "set (dict_keys es) \<inter> stored_keys (add_loaded (reload L k e) c) = {}"
    using Cons.prems(4,6) a(2) by (auto simp: p stored_keys_def)
  then show ?case
    using Cons.IH [OF a(1), of "Suc i" "Suc n"] Cons.prems a mem by (auto simp: p take reloaded_def)
qed (simp add: reloaded_def)

theorem save_then_load:
  assumes wf: "mem_wf c" and ne: "mc_entries c \<noteq> []" and s: "settled (rstrip_sep dir) d" and io: "index_io io"
    and per: "\<forall>(k, e) \<in> set (mc_entries c). persistable L io (mc_config c0) k e"
    and c0: "mem_wf c0" "mc_entries c0 = []"
    and fits: "memory_sum (reloaded L (mc_entries c)) \<le> mc_max_memory c0"
      "\<forall>(k, e) \<in> set (reloaded L (mc_entries c)). 0 \<le> en_memory e"
  shows "\<exists>d1 c1 d2. save_to_disk L io calm dir c d = (True, d1) \<and>
    load_from_disk L io dir c0 d1 = returns (length (mc_entries c)) (c1, d2) \<and>
    mc_entries c1 = reloaded L (mc_entries c)"
proof -
  define base where "base = rstrip_sep dir"
  define new where "new = base @ ''.new''"
  define old where "old = base @ ''.old''"
  have names: "new \<noteq> base" "old \<noteq> base" "new \<noteq> old" by (simp_all add: new_def old_def)
  let ?es = "mc_entries c"
  define r0 where "r0 = run_op (MakeDirs new) (clean_stale old (clean_stale new (d, [])))"
  have r0: "exists_dir new (fst r0)" "\<not> exists_dir old (fst r0)"
    using names by (auto simp: r0_def run_op_def clean_stale_def apply_op_def exists_dir_def map_of_dict_set map_of_dict_del
        split: option.splits)
  from save_entries_calm [OF r0(1) per, of 0] obtain r1 where r1:
      "save_entries L io calm new 0 ?es r0 = (index_of L 0 ?es, r1)" "exists_dir new (fst r1)"
      "all_on_disk L io new (fst r1) 0 ?es" "\<forall>p. exists_dir p (fst r1) = exists_dir p (fst r0)" by blast
  define ix where "ix = \<lparr>ix_version = 2, ix_num_entries = int (length ?es), ix_total_memory = mc_memory c, ix_entries = index_of L 0 ?es\<rparr>"
  have "ix_entries ix = index_of L 0 ?es" by (simp add: ix_def)
  from write_index_calm [OF r1(2) ne this r1(3) per] obtain r2 where r2:
      "write_index io calm new ix r1 = (True, r2)"
      "\<forall>p n. read_file p n (fst r2) = (if p = new \<and> n = index_file then Some (io_index_text io ix) else read_file p n (fst r1))"
      "\<forall>p. exists_dir p (fst r2) = exists_dir p (fst r1)" by blast
  have ex: "exists_dir new (fst r2)" "\<not> exists_dir old (fst r2)" using r0 r1 r2 by auto
  define d1 where "d1 = fst (commit_swap base new old r2)"
  have save: "save_to_disk L io calm dir c d = (True, d1)"
    using ne r1(1) r2(1)
    by (simp add: save_to_disk_def save_run_def Let_def base_def [symmetric] new_def [symmetric] old_def [symmetric]
        r0_def [symmetric] ix_def [symmetric] d1_def)
  define d2 where "d2 = recover io base new old d1"
  have same: "map_of d2 base = map_of d1 base"
    using read_commit(2) [OF ex names] names
    by (simp add: d2_def recover_def d1_def map_of_drop_dir)
  have rd: "read_file base n d2 = read_file new n (fst r2)" for n
    using read_commit(1) [OF ex names] same by (simp add: read_file_def d1_def)
  have disk: "all_on_disk L io base d2 0 ?es"
    using r1(3) r2(2) rd all_on_disk_cong [of 0 base d2 new "fst r1" L io ?es] by simp
  have idx: "read_file base index_file d2 = Some (io_index_text io ix)" using r2(2) rd by simp
  obtain n c1 where l: "load_entries L io base d2 (index_of L 0 ?es) 0 c0 = (n, c1)"
    by (cases "load_entries L io base d2 (index_of L 0 ?es) 0 c0")
  have mem0: "mc_memory c0 = 0" using mem_wfD(6) [OF c0(1)] c0(2) by (simp add: memory_sum_def)
  have "n = length ?es \<and> mc_entries c1 = reloaded L ?es"
    using load_entries_saved [OF c0(1) disk per mem_wfD(1,4) [OF wf], of 0] fits c0(2) mem0 l
    by (simp add: stored_keys_def)
  moreover have "load_from_disk L io dir c0 d1 = returns n (sync_stats c1, d2)"
    using idx io l
    by (simp add: load_from_disk_def Let_def base_def [symmetric] new_def [symmetric] old_def [symmetric] d2_def [symmetric]
        index_io_def ix_def)
  ultimately show ?thesis using save by auto
qed

end
