(* ===== verification/MemReach.thy ===== *)
theory MemReach
  imports MemRound
begin

text \<open>
  The states a memory-aware prefix cache reaches while several threads use it: \<open>store\<close> releases the
  lock between its test and its insertion, so these are steps of their own. The invariant
  and the bounds.
\<close>

section \<open>Steps\<close>

text \<open>The index that a load will read has no entry without tokens; no save writes one.\<close>

definition whole_index :: "('r, 't, 'x) mem_io \<Rightarrow> string \<Rightarrow> disk \<Rightarrow> bool" where
  "whole_index io dir d \<longleftrightarrow> (let base = rstrip_sep dir
     in case read_file base index_file (recover io base (base @ ''.new'') (base @ ''.old'') d) of
          None \<Rightarrow> True
        | Some t \<Rightarrow> (case io_index_parse io t of None \<Rightarrow> True | Some ix \<Rightarrow> (\<forall>m \<in> set (ix_entries ix). 0 < ie_num_tokens m)))"

inductive mem_step ::
  "('r, 't, 'x) kv_lib \<Rightarrow> ('r, 't, 'x) mem_io \<Rightarrow> (int list \<Rightarrow> ('r, 't, 'x) layer list \<Rightarrow> bool) \<Rightarrow> (string \<Rightarrow> disk \<Rightarrow> bool) \<Rightarrow>
     ('r, 't, 'x) mem_cache \<Rightarrow> ('r, 't, 'x) mem_cache \<Rightarrow> bool"
  for L io ok loads where
  mem_fetch: "mem_step L io ok loads c (snd (mem_fetch L tokens c))"
| probe: "mem_step L io ok loads c (snd (store_probe tokens c))"
| commit: "\<lbrakk>tokens \<noteq> []; ok tokens cache; prepare_entry L (mc_config c) tokens cache = Inr e; en_memory e \<le> mc_max_memory c\<rbrakk>
    \<Longrightarrow> mem_step L io ok loads c (snd (store_commit ev e c))"
| remove: "mem_step L io ok loads c (snd (remove_tokens tokens c))"
| clear: "mem_step L io ok loads c (clear_mem c)"
| reset: "mem_step L io ok loads c (reset_mem_stats c)"
| load: "\<lbrakk>loads dir d; whole_index io dir d\<rbrakk>
    \<Longrightarrow> mem_step L io ok loads c (fst (snd (load_from_disk L io dir c d)))"

inductive mem_reachable for L io ok loads g available where
  start: "checked_config g = Inr g \<Longrightarrow> mem_reachable L io ok loads g available (new_mem_cache g available)"
| step: "mem_reachable L io ok loads g available c \<Longrightarrow> mem_step L io ok loads c c' \<Longrightarrow> mem_reachable L io ok loads g available c'"

text \<open>A whole \<open>store\<close> is a step or two.\<close>

lemma store_reachable:
  assumes "mem_reachable L io ok loads g available c" "tokens \<noteq> [] \<Longrightarrow> cache \<noteq> [] \<Longrightarrow> ok tokens cache"
  shows "mem_reachable L io ok loads g available (snd (mem_store L tokens cache ev c))"
proof (cases "tokens = [] \<or> cache = []")
  case True
  with assms(1) show ?thesis by (simp add: mem_store_def)
next
  case False
  obtain b c1 where b: "store_probe tokens c = (b, c1)" by (cases "store_probe tokens c")
  have c1: "mem_reachable L io ok loads g available c1"
    using mem_reachable.step [OF assms(1) mem_step.probe [of L io ok loads c tokens]] by (simp add: b)
  show ?thesis
  proof (cases "\<not> b \<and> (\<exists>e. prepare_entry L (mc_config c1) tokens cache = Inr e \<and> en_memory e \<le> mc_max_memory c1)")
    case True
    then obtain e where e: "prepare_entry L (mc_config c1) tokens cache = Inr e" "en_memory e \<le> mc_max_memory c1" by blast
    have "mem_store L tokens cache ev c = store_commit ev e c1" using True b e False by (simp add: mem_store_def)
    with mem_step.commit [OF _ _ e] c1 False assms(2) show ?thesis by (metis mem_reachable.step)
  next
    case no: False
    have "snd (mem_store L tokens cache ev c) = c1"
      using no False by (auto simp: mem_store_def b split: sum.splits bool.splits)
    with c1 show ?thesis by simp
  qed
qed

section \<open>The invariant\<close>

definition mem_inv :: "('r, 't, 'x) mem_cache \<Rightarrow> bool" where
  "mem_inv c \<longleftrightarrow> mem_wf c \<and> gauges_exact c \<and> 1 \<le> max_entries (mc_config c)"

definition stored_entries :: "('r, 't, 'x) mem_cache \<Rightarrow> ('r, 't, 'x) mem_entry set" where
  "stored_entries c = set (dict_values (mc_entries c))"

text \<open>What a step does to the configuration and the entries: every entry was there, or has been prepared
  by a store, or loaded.\<close>

definition adds ::
  "(('r, 't, 'x) mem_entry \<Rightarrow> bool) \<Rightarrow> ('r, 't, 'x) mem_cache \<Rightarrow> ('r, 't, 'x) mem_cache \<Rightarrow> bool" where
  "adds P c c' \<longleftrightarrow> mc_config c' = mc_config c \<and> mc_max_memory c' = mc_max_memory c \<and>
     (\<forall>e \<in> stored_entries c'. e \<in> stored_entries c \<or> P e)"

lemma gauges_exact_moved:
  "map_of (mc_entries c) k = Some e \<Longrightarrow> mem_wf c \<Longrightarrow> gauges_exact c \<Longrightarrow> gauges_exact (c\<lparr>mc_entries := moved k e (mc_entries c)\<rparr>)"
  using moved_facts(3) [of "mc_entries c" k e] mem_wfD(1) [of c] by (simp add: gauges_exact_def)

lemma adds_moved:
  "map_of (mc_entries c) k = Some e \<Longrightarrow> mem_wf c \<Longrightarrow> mc_entries c' = moved k e (mc_entries c) \<Longrightarrow>
     mc_config c' = mc_config c \<Longrightarrow> mc_max_memory c' = mc_max_memory c \<Longrightarrow> adds P c c'"
  using moved_facts(1) [of "mc_entries c" k e] mem_wfD(1) [of c] by (simp add: adds_def stored_entries_def)

lemma fetch_keeps:
  assumes "mem_inv c"
  shows "mem_inv (snd (mem_fetch L T c)) \<and> adds (\<lambda>_. False) c (snd (mem_fetch L T c)) \<and>
    length (mc_entries (snd (mem_fetch L T c))) = length (mc_entries c) \<and> mc_memory (snd (mem_fetch L T c)) = mc_memory c"
proof (cases "T = []")
  case True
  with assms show ?thesis
    by (simp add: mem_fetch_def mem_inv_def adds_def stored_entries_def, simp add: record_miss_def gauges_exact_def)
next
  case False
  have wf: "mem_wf c" using assms by (simp add: mem_inv_def)
  from fetch_spec [OF wf False, of L] show ?thesis
  proof (elim disjE exE conjE)
    fix mt k e n
    assume k: "map_of (mc_entries c) k = Some e" and f: "mem_fetch L T c = returns (answer_of L (mc_config c) e n T) (hit_state k e mt n c)"
    have "mem_inv (hit_state k e mt n c)"
      using assms k mem_wf_hit [OF wf k] moved_facts(3) [OF k mem_wfD(1) [OF wf]]
      by (simp add: mem_inv_def, simp add: hit_state_def gauges_exact_def)
    moreover have "adds (\<lambda>_. False) c (hit_state k e mt n c)"
      by (rule adds_moved [OF k wf]) (simp_all add: hit_state_def)
    ultimately show ?thesis
      using f moved_facts(3) [OF k mem_wfD(1) [OF wf]] by (simp add: hit_state_def)
  next
    assume "mem_fetch L T c = returns (None, T) (record_miss c)"
    with assms show ?thesis
      by (simp add: mem_inv_def adds_def stored_entries_def, simp add: record_miss_def gauges_exact_def)
  qed
qed

lemma probe_keeps:
  assumes "mem_inv c"
  shows "mem_inv (snd (store_probe T c)) \<and> adds (\<lambda>_. False) c (snd (store_probe T c)) \<and>
    length (mc_entries (snd (store_probe T c))) = length (mc_entries c) \<and> mc_memory (snd (store_probe T c)) = mc_memory c"
proof (cases "map_of (mc_entries c) T")
  case None
  with assms show ?thesis by (simp add: store_probe_def move_to_end_eq adds_def)
next
  case (Some e)
  have wf: "mem_wf c" using assms by (simp add: mem_inv_def)
  have "adds (\<lambda>_. False) c (snd (store_probe T c))"
    by (rule adds_moved [OF Some wf]) (simp_all add: store_probe_def move_to_end_eq Some)
  with Some assms mem_wf_moved(2) [OF wf Some] gauges_exact_moved [OF Some wf] moved_facts(3) [OF Some mem_wfD(1) [OF wf]]
  show ?thesis by (simp add: store_probe_def move_to_end_eq mem_inv_def)
qed

lemma prepare_entry_tokens: "prepare_entry L g T cache = Inr e \<Longrightarrow> en_tokens e = T"
  by (auto simp: prepare_entry_def create_entry_def split: sum.splits)

lemma values_drop_without:
  "set (dict_values (drop n (without K d))) \<subseteq> set (dict_values d)" "set (dict_values (drop n d)) \<subseteq> set (dict_values d)"
proof -
  have "set (without K d) \<subseteq> set d" by (auto simp: without_def)
  then show "set (dict_values (drop n (without K d))) \<subseteq> set (dict_values d)"
    using set_drop_subset [of n "without K d"] unfolding set_map by blast
  show "set (dict_values (drop n d)) \<subseteq> set (dict_values d)"
    using set_drop_subset [of n d] unfolding set_map by blast
qed

lemma commit_keeps:
  assumes inv: "mem_inv c" and T: "en_tokens e \<noteq> []"
  shows "mem_inv (snd (store_commit ev e c)) \<and> adds (\<lambda>x. x = e) c (snd (store_commit ev e c)) \<and> returned (store_commit ev e c)"
    and "\<lbrakk>en_memory e \<le> mc_max_memory c; mc_memory c \<le> mc_max_memory c\<rbrakk> \<Longrightarrow>
      mc_memory (snd (store_commit ev e c)) \<le> mc_max_memory c"
    and "int (length (mc_entries c)) \<le> max_entries (mc_config c) \<Longrightarrow>
      int (length (mc_entries (snd (store_commit ev e c)))) \<le> max_entries (mc_config c)"
proof -
  have wf: "mem_wf c" and g: "gauges_exact c" and pos: "1 \<le> max_entries (mc_config c)" using inv by (simp_all add: mem_inv_def)
  have all: "(mem_inv (snd (store_commit ev e c)) \<and> adds (\<lambda>x. x = e) c (snd (store_commit ev e c)) \<and> returned (store_commit ev e c)) \<and>
    (en_memory e \<le> mc_max_memory c \<longrightarrow> mc_memory c \<le> mc_max_memory c \<longrightarrow>
      mc_memory (snd (store_commit ev e c)) \<le> mc_max_memory c) \<and>
    (int (length (mc_entries c)) \<le> max_entries (mc_config c) \<longrightarrow>
      int (length (mc_entries (snd (store_commit ev e c)))) \<le> max_entries (mc_config c))"
  proof (cases "map_of (mc_entries c) (en_tokens e)")
    case (Some x)
    have eq: "store_commit ev e c = returns True (c\<lparr>mc_entries := moved (en_tokens e) x (mc_entries c)\<rparr>)"
      by (simp add: store_commit_def move_to_end_eq Some)
    have "adds (\<lambda>x. x = e) c (snd (store_commit ev e c))"
      by (rule adds_moved [OF Some wf]) (simp_all add: eq)
    with Some inv mem_wf_moved(2) [OF wf Some] gauges_exact_moved [OF Some wf] moved_facts(3) [OF Some mem_wfD(1) [OF wf]]
    show ?thesis by (simp add: eq mem_inv_def)
  next
    case None
    then have "en_tokens e \<notin> stored_keys c" unfolding stored_keys_def by (metis map_of_keys_iff)
    from store_commit_spec [OF wf g T refl this, of ev]
    obtain c' n where c': "store_commit ev e c = returns True c'" "mem_wf c'" "gauges_exact c'" "mc_config c' = mc_config c"
        "mc_max_memory c' = mc_max_memory c"
        "mc_entries c' = drop n (if ev then without (strict_prefixes (en_tokens e)) (mc_entries c) else mc_entries c) @ [(en_tokens e, e)]"
        "room (en_memory e) c (drop n (if ev then without (strict_prefixes (en_tokens e)) (mc_entries c) else mc_entries c)) \<or>
         n = length (if ev then without (strict_prefixes (en_tokens e)) (mc_entries c) else mc_entries c)" by metis
    let ?k = "drop n (if ev then without (strict_prefixes (en_tokens e)) (mc_entries c) else mc_entries c)"
    have "mc_memory c' = memory_sum ?k + en_memory e"
      using mem_wfD(6) [OF c'(2)] c'(6) by (simp add: memory_sum_def)
    moreover have "room (en_memory e) c ?k \<or> ?k = []" using c'(7) by (metis drop_all order_refl)
    ultimately have "mc_memory c' \<le> mc_max_memory c" if "en_memory e \<le> mc_max_memory c"
      using that by (auto simp: room_def memory_sum_def)
    moreover have "int (length (mc_entries c')) \<le> max_entries (mc_config c)"
      using \<open>room (en_memory e) c ?k \<or> ?k = []\<close> pos unfolding c'(6) by (auto simp: room_def)
    moreover have "adds (\<lambda>x. x = e) c c'"
      unfolding adds_def stored_entries_def c'(4-6)
      using values_drop_without(1) [of n "strict_prefixes (en_tokens e)" "mc_entries c"]
        values_drop_without(2) [of n "mc_entries c"] by (auto split: if_splits)
    ultimately show ?thesis using c' pos by (simp add: mem_inv_def)
  qed
  then show "mem_inv (snd (store_commit ev e c)) \<and> adds (\<lambda>x. x = e) c (snd (store_commit ev e c)) \<and> returned (store_commit ev e c)"
    and "\<lbrakk>en_memory e \<le> mc_max_memory c; mc_memory c \<le> mc_max_memory c\<rbrakk> \<Longrightarrow>
      mc_memory (snd (store_commit ev e c)) \<le> mc_max_memory c"
    and "int (length (mc_entries c)) \<le> max_entries (mc_config c) \<Longrightarrow>
      int (length (mc_entries (snd (store_commit ev e c)))) \<le> max_entries (mc_config c)" by blast+
qed

lemma mem_remove_keeps:
  assumes "mem_inv c"
  shows "mem_inv (snd (remove_tokens T c)) \<and> adds (\<lambda>_. False) c (snd (remove_tokens T c)) \<and>
    (mc_entries (snd (remove_tokens T c)) = without {T} (mc_entries c))"
proof (cases "map_of (mc_entries c) T")
  case None
  then have "T \<notin> set (dict_keys (mc_entries c))" by (metis map_of_keys_iff)
  with assms show ?thesis by (simp add: remove_tokens_def adds_def without_single dict_del_absent)
next
  case (Some e)
  then have kin: "T \<in> set (dict_keys (mc_entries c))" by (metis map_of_keys_iff option.distinct(1))
  have wf: "mem_wf c" using assms by (simp add: mem_inv_def)
  from pop_entry_spec [OF wf Some] obtain c1 where c1: "pop_entry T c = returns () c1" "mem_wf c1"
      "mc_entries c1 = without {T} (mc_entries c)" "mc_config c1 = mc_config c" "mc_max_memory c1 = mc_max_memory c"
      "mc_stats c1 = mc_stats c" by blast
  have rem: "snd (remove_tokens T c) = sync_stats c1" using kin c1 by (simp add: remove_tokens_def)
  have "mem_inv (sync_stats c1)" using c1 assms by (simp add: mem_inv_def gauges_exact_def)
  moreover have "adds (\<lambda>_. False) c (sync_stats c1)"
    using values_drop_without(1) [of 0 "{T}" "mc_entries c"] c1 by (auto simp: adds_def stored_entries_def)
  ultimately show ?thesis using c1 rem by simp
qed

lemma memory_sum_without:
  assumes "\<forall>e \<in> set (dict_values d). 0 \<le> en_memory e"
  shows "memory_sum (without K d) \<le> memory_sum d"
  using assms by (induction d) (auto simp: memory_sum_def without_def)

lemma load_keeps:
  assumes "mem_inv c" "whole_index io dir d"
  shows "mem_inv (fst (snd (load_from_disk L io dir c d))) \<and>
    adds (\<lambda>e. estimate_kv_cache_memory L (en_cache e) = Inr (en_memory e)) c (fst (snd (load_from_disk L io dir c d))) \<and>
    (mc_memory c \<le> mc_max_memory c \<longrightarrow> mc_memory (fst (snd (load_from_disk L io dir c d))) \<le> mc_max_memory c)"
proof -
  let ?base = "rstrip_sep dir"
  let ?d1 = "recover io ?base (?base @ ''.new'') (?base @ ''.old'') d"
  show ?thesis
  proof (cases "\<exists>t ix. read_file ?base index_file ?d1 = Some t \<and> io_index_parse io t = Some ix \<and> 2 \<le> ix_version ix")
    case False
    then have "fst (snd (load_from_disk L io dir c d)) = c"
      by (auto simp: load_from_disk_def Let_def split: option.splits)
    with assms show ?thesis by (simp add: adds_def)
  next
    case True
    then obtain t ix where t: "read_file ?base index_file ?d1 = Some t" "io_index_parse io t = Some ix" "2 \<le> ix_version ix" by blast
    have pos: "\<forall>m \<in> set (ix_entries ix). 0 < ie_num_tokens m" using assms(2) t by (simp add: whole_index_def Let_def)
    let ?c1 = "snd (load_entries L io ?base ?d1 (ix_entries ix) 0 c)"
    have "fst (snd (load_from_disk L io dir c d)) = sync_stats ?c1"
      using t by (simp add: load_from_disk_def Let_def split: prod.splits)
    with load_entries_wf [OF _ pos, of c L io ?base ?d1 0] assms(1) show ?thesis
      by (simp add: mem_inv_def gauges_exact_def adds_def stored_entries_def)
  qed
qed

theorem reachable_inv:
  assumes "mem_reachable L io ok loads g available c"
  shows "mem_inv c \<and> mc_config c = g \<and> mc_max_memory c = compute_memory_limit g available"
  using assms
proof (induction rule: mem_reachable.induct)
  case start
  then have "1 \<le> max_entries g" by (auto simp: checked_config_def split: if_splits)
  then show ?case
    by (simp add: new_mem_cache_def Let_def mem_inv_def mem_wf_def gauges_exact_def fresh_stats_def memory_sum_def)
next
  case (step c c')
  from step(2) have "mem_inv c' \<and> mc_config c' = mc_config c \<and> mc_max_memory c' = mc_max_memory c"
  proof (cases rule: mem_step.cases)
    case (commit tokens cache e ev)
    with step commit_keeps(1) [of c e ev] prepare_entry_tokens [of L _ tokens cache e] show ?thesis by (auto simp: adds_def)
  next
    case clear
    with step show ?thesis
      by (auto simp: clear_mem_def mem_inv_def mem_wf_def gauges_exact_def fresh_stats_def memory_sum_def)
  next
    case reset
    with step show ?thesis by (auto simp: reset_mem_stats_def mem_inv_def mem_wf_stats fresh_stats_def)
  next
    case (mem_fetch tokens)
    with step fetch_keeps [of c L tokens] show ?thesis by (auto simp: adds_def)
  next
    case (probe tokens)
    with step probe_keeps [of c tokens] show ?thesis by (auto simp: adds_def)
  next
    case (remove tokens)
    with step mem_remove_keeps [of c tokens] show ?thesis by (auto simp: adds_def)
  next
    case (load dir d)
    with step load_keeps [of c io dir d L] show ?thesis by (auto simp: adds_def)
  qed
  with step show ?case by simp
qed

section \<open>Bounds\<close>

definition mem_sizes_ok :: "('r, 't, 'x) kv_lib \<Rightarrow> bool" where
  "mem_sizes_ok L \<longleftrightarrow> (\<forall>t. 0 \<le> tq_bytes L t)"

lemma array_memory_nonneg: "0 \<le> array_memory a" "0 \<le> arrays_memory as"
  by (auto simp: array_memory_def arrays_memory_def split: option.splits intro!: sum_list_nonneg)

lemma estimate_nonneg: "mem_sizes_ok L \<Longrightarrow> estimate_kv_cache_memory L c = Inr m \<Longrightarrow> 0 \<le> m"
proof (induction c arbitrary: m)
  case (Cons l ls)
  have pair: "pair_memory st = Some n \<Longrightarrow> 0 \<le> n" for st :: "'a arr option list" and n
    by (auto simp: pair_memory_def array_memory_nonneg split: list.splits)
  have "0 \<le> n" if "layer_memory L l = Inr n" for n
    using that Cons.prems(1) array_memory_nonneg pair
    by (auto simp: layer_memory_def mem_sizes_ok_def intro!: add_nonneg_nonneg
        split: layer.splits option.splits attrs.splits)
  with Cons show ?case by (auto split: sum.splits)
qed simp

theorem reachable_bounds:
  assumes "mem_reachable L io ok loads g available c" and L: "mem_sizes_ok L" and pos: "0 \<le> compute_memory_limit g available"
  shows "(\<forall>e \<in> stored_entries c. 0 \<le> en_memory e) \<and> mc_memory c \<le> mc_max_memory c \<and>
    ((\<forall>dir d. \<not> loads dir d) \<longrightarrow> int (length (mc_entries c)) \<le> max_entries g)"
  using assms(1)
proof (induction rule: mem_reachable.induct)
  case start
  then show ?case using pos
    by (auto simp: new_mem_cache_def Let_def stored_entries_def checked_config_def split: if_splits)
next
  case (step c c')
  from reachable_inv [OF step(1)] have inv: "mem_inv c" and g: "mc_config c = g"
    and m: "mc_max_memory c = compute_memory_limit g available" by auto
  have wf: "mem_wf c" using inv by (simp add: mem_inv_def)
  from step(2) show ?case
  proof (cases rule: mem_step.cases)
    case (mem_fetch tokens)
    with step fetch_keeps [OF inv, of L tokens] show ?thesis by (auto simp: adds_def)
  next
    case (probe tokens)
    with step probe_keeps [OF inv, of tokens] show ?thesis by (auto simp: adds_def)
  next
    case (commit tokens cache e ev)
    have tok: "en_tokens e \<noteq> []" using commit prepare_entry_tokens [OF commit(4)] by simp
    have "0 \<le> en_memory e"
      using commit(4) estimate_nonneg [OF L] by (auto simp: prepare_entry_def create_entry_def split: sum.splits)
    with commit step commit_keeps [OF inv tok, of ev] g show ?thesis by (auto simp: adds_def)
  next
    case (remove tokens)
    have r: "mem_inv c' \<and> adds (\<lambda>_. False) c c'" "mc_entries c' = without {tokens} (mc_entries c)"
      using mem_remove_keeps [OF inv, of tokens] remove by auto
    have "mc_memory c' = memory_sum (without {tokens} (mc_entries c))"
      using r mem_wfD(6) [of c'] by (simp add: mem_inv_def)
    also have "\<dots> \<le> memory_sum (mc_entries c)"
      using step.IH by (intro memory_sum_without) (simp add: stored_entries_def)
    also have "\<dots> = mc_memory c" using mem_wfD(6) [OF wf] by simp
    finally have "mc_memory c' \<le> mc_memory c" .
    moreover have "length (mc_entries c') \<le> length (mc_entries c)" by (simp add: r(2) without_def)
    ultimately show ?thesis using step.IH r by (auto simp: adds_def)
  next
    case clear
    with step pos m show ?thesis by (auto simp: clear_mem_def stored_entries_def checked_config_def)
  next
    case reset
    with step show ?thesis by (auto simp: reset_mem_stats_def stored_entries_def)
  next
    case (load dir d)
    have "0 \<le> en_memory e" if "e \<in> stored_entries c'" for e
      using that step.IH load_keeps [OF inv load(3), of L] estimate_nonneg [OF L] load(1) by (auto simp: adds_def)
    with step load load_keeps [OF inv load(3), of L] show ?thesis by (auto simp: adds_def)
  qed
qed

end
