(* ===== verification/MemSound.thy ===== *)
theory MemSound
  imports MemReach
begin

text \<open>
  What a cache hands out is the key/value state of the tokens it says: an abstract row of keys or
  values belongs to a layer and to the tokens up to its position, and a layer holds a token sequence
  when its offset is the length of the sequence and its rows belong to the prefixes. Storing,
  trimming, compressing and decompressing keep this.
\<close>

section \<open>Layers that hold tokens\<close>

text \<open>
  \<open>key_row l ts x\<close>: \<open>x\<close> is a row of keys that layer \<open>l\<close> may have for the last token of \<open>ts\<close>; the same
  for values. Rows that compression has changed a little can be admitted.
\<close>

record 'r rows_spec =
  key_row :: "nat \<Rightarrow> int list \<Rightarrow> 'r \<Rightarrow> bool"
  value_row :: "nat \<Rightarrow> int list \<Rightarrow> 'r \<Rightarrow> bool"

definition rows_hold :: "(int list \<Rightarrow> 'r \<Rightarrow> bool) \<Rightarrow> int list \<Rightarrow> 'r arr option \<Rightarrow> bool" where
  "rows_hold ok ts a = (case a of None \<Rightarrow> False
     | Some x \<Rightarrow> length ts \<le> length (rows x) \<and> (\<forall>i < length ts. ok (take (Suc i) ts) (rows x ! i)))"

definition kv_holds :: "'r rows_spec \<Rightarrow> nat \<Rightarrow> int list \<Rightarrow> 'r kv \<Rightarrow> bool" where
  "kv_holds S l ts c \<longleftrightarrow> kv_offset c = int (length ts) \<and>
     rows_hold (key_row S l) ts (kv_keys c) \<and> rows_hold (value_row S l) ts (kv_values c)"

text \<open>A compressed layer holds what its decompressed form holds.\<close>

definition plain_of :: "('r, 't, 'x) kv_lib \<Rightarrow> ('r, 't, 'x) layer \<Rightarrow> 'r kv option" where
  "plain_of L layer = (case layer of
       Plain c \<Rightarrow> Some c
     | Quantized q \<Rightarrow> Some \<lparr>kv_keys = Some (mx_dequantize L (q_keys q) (q_group q) (q_bits q)),
         kv_values = Some (mx_dequantize L (q_values q) (q_group q) (q_bits q)), kv_offset = q_offset q\<rparr>
     | Turbo t \<Rightarrow> (let (k, v) = tq_dequantize L t
                 in Some \<lparr>kv_keys = Some k, kv_values = Some v, kv_offset = int (length (rows k))\<rparr>)
     | _ \<Rightarrow> None)"

definition kv_layer_holds ::
  "('r, 't, 'x) kv_lib \<Rightarrow> 'r rows_spec \<Rightarrow> nat \<Rightarrow> int list \<Rightarrow> ('r, 't, 'x) layer \<Rightarrow> bool" where
  "kv_layer_holds L S l ts layer = (case plain_of L layer of None \<Rightarrow> False | Some c \<Rightarrow> kv_holds S l ts c)"

definition cache_holds ::
  "('r, 't, 'x) kv_lib \<Rightarrow> 'r rows_spec \<Rightarrow> int list \<Rightarrow> ('r, 't, 'x) layer list \<Rightarrow> bool" where
  "cache_holds L S ts cache \<longleftrightarrow> (\<forall>l < length cache. kv_layer_holds L S l ts (cache ! l))"

text \<open>
  The documented behaviour of the library: trimming a compressed layer drops its last positions, and
  compressing keeps admissible rows admissible.
\<close>

definition trims_rows :: "int \<Rightarrow> 'r arr \<Rightarrow> 'r arr" where
  "trims_rows n a = a\<lparr>rows := take (length (rows a) - nat n) (rows a)\<rparr>"

definition faithful_lib :: "('r, 't, 'x) kv_lib \<Rightarrow> 'r rows_spec \<Rightarrow> bool" where
  "faithful_lib L S \<longleftrightarrow>
     (\<forall>n t. tq_dequantize L (tq_trim L n t) = map_prod (trims_rows n) (trims_rows n) (tq_dequantize L t)) \<and>
     (\<forall>l ts c group_size bits. kv_holds S l ts c \<longrightarrow> kv_layer_holds L S l ts (Quantized (to_quantized L group_size bits c))) \<and>
     (\<forall>l ts c bits. kv_holds S l ts c \<longrightarrow> kv_layer_holds L S l ts (Turbo (tq_from_cache L c bits)))"

section \<open>Every operation keeps what is held\<close>

lemma rows_hold_prefix: "rows_hold ok ts a \<Longrightarrow> rows_hold ok (take n ts) a"
  by (auto simp: rows_hold_def split: option.splits)

lemma rows_hold_cut:
  "rows_hold ok ts (Some a) \<Longrightarrow> length ts \<le> m \<Longrightarrow> rows_hold ok ts (Some (a\<lparr>rows := take m (rows a)\<rparr>))"
  by (auto simp: rows_hold_def)

lemma kv_holds_prefix:
  assumes "kv_holds S l ts c" "n \<le> length ts"
  shows "kv_holds S l (take n ts) (c\<lparr>kv_offset := max (kv_offset c - (int (length ts) - int n)) 0\<rparr>)"
  using assms by (auto simp: kv_holds_def rows_hold_prefix)

lemma trim_holds:
  assumes L: "faithful_lib L S" and h: "kv_layer_holds L S l ts layer" and n: "n \<le> length ts"
  shows "kv_layer_holds L S l (take n ts) (trim_layer_offset L (int (length ts) - int n) layer)"
proof (cases layer)
  case (Plain c)
  with h n show ?thesis by (simp add: kv_layer_holds_def plain_of_def trim_layer_offset_def kv_holds_prefix)
next
  case (Quantized q)
  with h show ?thesis
    using kv_holds_prefix [OF _ n, of S l "the (plain_of L layer)"]
    by (simp add: kv_layer_holds_def plain_of_def trim_layer_offset_def)
next
  case (Turbo t)
  obtain k v where kv: "tq_dequantize L t = (k, v)" by fastforce
  let ?m = "int (length ts) - int n"
  have d: "tq_dequantize L (tq_trim L ?m t) = (trims_rows ?m k, trims_rows ?m v)"
    using L kv by (simp add: faithful_lib_def)
  from h Turbo kv have h: "length (rows k) = length ts" "rows_hold (key_row S l) ts (Some k)" "rows_hold (value_row S l) ts (Some v)"
    by (auto simp: kv_layer_holds_def plain_of_def kv_holds_def)
  have "length ts \<le> length (rows v)" using h(3) by (simp add: rows_hold_def)
  then have "n \<le> length (rows v) - nat ?m" using n by linarith
  then have "rows_hold (key_row S l) (take n ts) (Some (trims_rows ?m k))" "rows_hold (value_row S l) (take n ts) (Some (trims_rows ?m v))"
    using rows_hold_cut [OF rows_hold_prefix [OF h(2), of n], of "length (rows k) - nat ?m"]
      rows_hold_cut [OF rows_hold_prefix [OF h(3), of n], of "length (rows v) - nat ?m"] h(1) n
    by (simp_all add: trims_rows_def)
  moreover have "length (rows (trims_rows ?m k)) = n" using h(1) n by (simp add: trims_rows_def)
  ultimately show ?thesis
    using n by (simp add: Turbo kv_layer_holds_def plain_of_def trim_layer_offset_def d kv_holds_def)
qed (use h in \<open>simp_all add: kv_layer_holds_def plain_of_def\<close>)

lemma cut_holds: "kv_layer_holds L S l ts layer \<Longrightarrow> kv_layer_holds L S l ts (cut_layer layer)"
proof (cases layer)
  case (Plain c)
  assume h: "kv_layer_holds L S l ts layer"
  have cut: "rows_hold ok ts (Some (cut_rows (int (length ts)) a))" if "rows_hold ok ts (Some a)" for ok and a :: "'a arr"
  proof -
    have "length ts \<le> length (rows a)" using that by (simp add: rows_hold_def)
    then show ?thesis using rows_hold_cut [OF that order_refl] by (simp add: cut_rows_def pyslice_def slice_bound_def min_def)
  qed
  have none: "\<not> rows_hold ok ts None" for ok :: "int list \<Rightarrow> 'a \<Rightarrow> bool" by (simp add: rows_hold_def)
  from h Plain obtain k v where kv: "kv_keys c = Some k" "kv_values c = Some v" "kv_offset c = int (length ts)"
      "rows_hold (key_row S l) ts (Some k)" "rows_hold (value_row S l) ts (Some v)"
    by (cases "kv_keys c"; cases "kv_values c") (auto simp: kv_layer_holds_def plain_of_def kv_holds_def none)
  then show ?thesis using cut [OF kv(4)] cut [OF kv(5)]
    by (simp add: Plain kv_layer_holds_def plain_of_def kv_holds_def cut_layer_def)
qed (simp_all add: cut_layer_def)

text \<open>Decompression gives the plain form, which the same tokens are held by.\<close>

lemma decompress_layer:
  assumes "kv_layer_holds L S l ts layer"
  shows "kv_layer_holds L S l ts (case layer of Quantized q \<Rightarrow> Plain (the (plain_of L layer)) | _ \<Rightarrow> layer)"
    and "kv_layer_holds L S l ts (case layer of Turbo t \<Rightarrow> Plain (the (plain_of L layer)) | _ \<Rightarrow> layer)"
  using assms by (auto simp: kv_layer_holds_def plain_of_def split: layer.splits prod.splits)

lemma length_decompress [simp]: "length (decompress_cache L g cache) = length cache"
  by (simp add: decompress_cache_def turboquant_decompress_cache_def dequantize_cache_def)

lemma decompress_holds:
  assumes "cache_holds L S ts cache"
  shows "cache_holds L S ts (decompress_cache L g cache)"
  unfolding cache_holds_def
proof (intro allI impI)
  fix l assume "l < length (decompress_cache L g cache)"
  then have l: "l < length cache" by simp
  then have "kv_layer_holds L S l ts (cache ! l)" using assms by (simp add: cache_holds_def)
  from decompress_layer [OF this] l show "kv_layer_holds L S l ts (decompress_cache L g cache ! l)"
    by (auto simp: decompress_cache_def turboquant_decompress_cache_def dequantize_cache_def plain_of_def
        split: layer.splits prod.splits)
qed

lemma compress_holds:
  assumes "faithful_lib L S" "cache_holds L S ts cache"
  shows "cache_holds L S ts (compress_for_store L g toks cache)"
  unfolding cache_holds_def
proof (intro allI impI)
  fix l assume "l < length (compress_for_store L g toks cache)"
  then have l: "l < length cache"
    by (auto simp: compress_for_store_def turboquant_compress_cache_def quantize_cache_def Let_def split: if_splits)
  have h: "kv_layer_holds L S l ts (cache ! l)" using assms l by (simp add: cache_holds_def)
  have plain: "kv_holds S l ts c" if "cache ! l = Plain c" for c
    using h that by (simp add: kv_layer_holds_def plain_of_def)
  show "kv_layer_holds L S l ts (compress_for_store L g toks cache ! l)"
    using h l plain assms(1)
    by (cases "cache ! l")
      (auto simp: compress_for_store_def turboquant_compress_cache_def quantize_cache_def Let_def faithful_lib_def)
qed

text \<open>Which compressed layers a configuration may have in its entries.\<close>

definition layer_fits :: "mem_config \<Rightarrow> ('r, 't, 'x) layer \<Rightarrow> bool" where
  "layer_fits g layer \<longleftrightarrow> (case layer of
       Plain _ \<Rightarrow> True | Turbo _ \<Rightarrow> kv_turboquant g | Quantized _ \<Rightarrow> kv_quantize g \<and> \<not> kv_turboquant g | _ \<Rightarrow> False)"

definition is_plain :: "('r, 't, 'x) layer \<Rightarrow> bool" where
  "is_plain layer \<longleftrightarrow> (case layer of Plain _ \<Rightarrow> True | _ \<Rightarrow> False)"

lemma fits_decompressed: "list_all (layer_fits g) cache \<Longrightarrow> list_all is_plain (decompress_cache L g cache)"
  by (auto simp: list_all_iff decompress_cache_def turboquant_decompress_cache_def dequantize_cache_def layer_fits_def is_plain_def
      split: layer.splits prod.splits)

lemma fits_trimmed: "list_all (layer_fits g) cache \<Longrightarrow> list_all (layer_fits g) (trim_cache_offset L cache n)"
  by (auto simp: list_all_iff trim_cache_offset_def trim_layer_offset_def layer_fits_def split: layer.splits)

lemma fits_prepared:
  assumes "list_all is_plain cache"
  shows "list_all (layer_fits g) (compress_for_store L g toks (trim_to_offset L cache))"
proof -
  have "list_all is_plain (trim_to_offset L cache)"
    using assms by (auto simp: trim_to_offset_eq list_all_iff is_plain_def cut_layer_def split: option.splits layer.splits)
  moreover have "list_all (layer_fits g) (compress_for_store L g toks ys)" if "list_all is_plain ys" for ys
    using that
    by (induction ys)
      (auto simp: is_plain_def compress_for_store_def turboquant_compress_cache_def quantize_cache_def Let_def layer_fits_def
        split: layer.splits)
  ultimately show ?thesis by blast
qed

section \<open>What mem_fetch hands out\<close>

text \<open>The callers store plain caches that hold their tokens.\<close>

definition honest :: "('r, 't, 'x) kv_lib \<Rightarrow> 'r rows_spec \<Rightarrow> int list \<Rightarrow> ('r, 't, 'x) layer list \<Rightarrow> bool" where
  "honest L S tokens cache \<longleftrightarrow> cache_holds L S tokens cache \<and> list_all is_plain cache"

definition entry_holds ::
  "('r, 't, 'x) kv_lib \<Rightarrow> 'r rows_spec \<Rightarrow> mem_config \<Rightarrow> ('r, 't, 'x) mem_entry \<Rightarrow> bool" where
  "entry_holds L S g e \<longleftrightarrow> cache_holds L S (en_tokens e) (en_cache e) \<and> list_all (layer_fits g) (en_cache e)"

lemma prepared_holds:
  assumes "faithful_lib L S" "honest L S tokens cache" "prepare_entry L g tokens cache = Inr e"
  shows "entry_holds L S g e"
proof -
  have e: "en_tokens e = tokens" "en_cache e = compress_for_store L g tokens (trim_to_offset L cache)"
    using assms(3) by (auto simp: prepare_entry_def create_entry_def split: sum.splits)
  have "cache_holds L S tokens (trim_to_offset L cache)"
    using assms(2) by (auto simp: honest_def cache_holds_def trim_to_offset_eq cut_holds)
  with e assms show ?thesis by (simp add: entry_holds_def honest_def compress_holds fits_prepared)
qed

lemma reachable_holds:
  assumes "mem_reachable L io (honest L S) (\<lambda>_ _. False) g available c" "faithful_lib L S"
  shows "\<forall>e \<in> stored_entries c. entry_holds L S g e"
  using assms(1)
proof (induction rule: mem_reachable.induct)
  case start
  then show ?case by (simp add: new_mem_cache_def Let_def stored_entries_def)
next
  case (step c c')
  from reachable_inv [OF step(1)] have inv: "mem_inv c" and g: "mc_config c = g" by auto
  from step(2) show ?case
  proof (cases rule: mem_step.cases)
    case (mem_fetch tokens)
    with step fetch_keeps [OF inv, of L tokens] show ?thesis by (auto simp: adds_def)
  next
    case (probe tokens)
    with step probe_keeps [OF inv, of tokens] show ?thesis by (auto simp: adds_def)
  next
    case (commit tokens cache e ev)
    have "en_tokens e \<noteq> []" using commit prepare_entry_tokens [OF commit(4)] by simp
    with commit step commit_keeps(1) [OF inv, of e ev] prepared_holds [OF assms(2) commit(3,4)] g
    show ?thesis by (auto simp: adds_def)
  next
    case (remove tokens)
    with step mem_remove_keeps [OF inv, of tokens] show ?thesis by (auto simp: adds_def)
  qed (use step in \<open>auto simp: clear_mem_def reset_mem_stats_def stored_entries_def\<close>)
qed

theorem fetch_sound:
  assumes r: "mem_reachable L io (honest L S) (\<lambda>_ _. False) g available c" and L: "faithful_lib L S"
    and f: "mem_fetch L T c = returns (Some cache, rest) c'"
  shows "\<exists>n. 0 < n \<and> n \<le> length T \<and> rest = drop n T \<and> cache_holds L S (take n T) cache \<and> list_all is_plain cache"
proof -
  from reachable_inv [OF r] have inv: "mem_inv c" and g: "mc_config c = g" by auto
  then have wf: "mem_wf c" by (simp add: mem_inv_def)
  have T: "T \<noteq> []" using f by (auto simp: mem_fetch_def)
  from fetch_spec [OF wf T, of L] f obtain mt k e n where k: "chosen L c T mt k n" "map_of (mc_entries c) k = Some e"
      "(Some cache, rest) = answer_of L g e n T"
    by (auto simp: g)
  note cov = chosen_covers [OF k(1)]
  have tok: "en_tokens e = k" by (rule mem_wfD(5) [OF wf k(2)])
  have "e \<in> stored_entries c" using map_of_SomeD [OF k(2)] by (force simp: stored_entries_def)
  then have e: "cache_holds L S k (en_cache e)" "list_all (layer_fits g) (en_cache e)"
    using reachable_holds [OF r L] tok by (auto simp: entry_holds_def)
  let ?out = "if length k = n then en_cache e else trim_cache_offset L (en_cache e) (int (length k) - int n)"
  have "cache_holds L S (take n T) ?out"
    using e(1) cov(2,3) trim_holds [OF L _ cov(2)] by (auto simp: cache_holds_def trim_cache_offset_def cov(3) [symmetric])
  moreover have "list_all (layer_fits g) ?out" using e(2) fits_trimmed by auto
  moreover have "cache = decompress_cache L g ?out" "rest = drop n T"
    using k(3) by (simp_all add: answer_of_def tok)
  ultimately show ?thesis
    using decompress_holds fits_decompressed cov(1,5) wf T by blast
qed

end
