(* ===== verification/MemFacts.thy ===== *)
theory MemFacts
  imports MemSound "HOL-Library.Countable"
begin

text \<open>
  The properties of the memory-aware prefix cache, with witnesses on a small library whose rows are
  the tokens themselves, and two of its limits.
\<close>

section \<open>A small library\<close>

text \<open>Rows are integers; compressing keeps the arrays, a turbo cache is the pair of its cut arrays.\<close>

definition toy_lib :: "(int, int arr \<times> int arr, unit) kv_lib" where
  "toy_lib = \<lparr>to_quantized = (\<lambda>gs bits c. \<lparr>q_keys = (case kv_keys c of None \<Rightarrow> [] | Some k \<Rightarrow> [k]),
       q_values = (case kv_values c of None \<Rightarrow> [] | Some v \<Rightarrow> [v]), q_offset = kv_offset c, q_group = gs, q_bits = bits\<rparr>),
     mx_dequantize = (\<lambda>as _ _. hd as),
     tq_from_cache = (\<lambda>c _. (cut_rows (kv_offset c) (the (kv_keys c)), cut_rows (kv_offset c) (the (kv_values c)))),
     tq_dequantize = (\<lambda>t. t), tq_trim = (\<lambda>n. map_prod (trims_rows n) (trims_rows n)),
     tq_bytes = (\<lambda>t. int (length (rows (fst t)))), tq_oversized = (\<lambda>_. False),
     tq_offset = (\<lambda>t. Some (int (length (rows (fst t))))),
     kv_state = (\<lambda>c. case (kv_keys c, kv_values c) of (Some k, Some v) \<Rightarrow> Some (k, v) | _ \<Rightarrow> None),
     answers_trimmable = (\<lambda>l. case l of Foreign x \<Rightarrow> True | _ \<Rightarrow> True)\<rparr>"

definition toy_rows :: "int rows_spec" where
  "toy_rows = \<lparr>key_row = (\<lambda>l ts x. x = last ts), value_row = (\<lambda>l ts x. x = last ts)\<rparr>"

definition toy_arr :: "int list \<Rightarrow> int arr" where
  "toy_arr ts = \<lparr>axis0 = 1, axis1 = 1, rows = ts, axis3 = 1, item_size = 2\<rparr>"

definition toy_layer :: "int list \<Rightarrow> (int, int arr \<times> int arr, unit) layer" where
  "toy_layer ts = Plain \<lparr>kv_keys = Some (toy_arr ts), kv_values = Some (toy_arr ts), kv_offset = int (length ts)\<rparr>"

definition toy_config :: mem_config where
  "toy_config = default_config\<lparr>max_memory_mb := Some 1, max_entries := 2\<rparr>"

lemma toy_sizes: "mem_sizes_ok toy_lib"
  by (simp add: mem_sizes_ok_def toy_lib_def)

lemma take_Suc_last: "i < length ts \<Longrightarrow> last (take (Suc i) ts) = ts ! i"
  by (simp add: take_Suc_conv_app_nth)

lemma toy_faithful: "faithful_lib toy_lib toy_rows"
proof -
  have cut: "rows_hold ok ts (Some (cut_rows (int (length ts)) a)) \<and> length (rows (cut_rows (int (length ts)) a)) = length ts"
    if "rows_hold ok ts (Some a)" for ok ts and a :: "int arr"
    using that rows_hold_cut [OF that order_refl]
    by (auto simp: rows_hold_def cut_rows_def pyslice_def slice_bound_def min_def)
  have some: "\<exists>a. x = Some a" if "rows_hold ok ts x" for ok ts and x :: "int arr option"
    using that by (auto simp: rows_hold_def split: option.splits)
  have q: "kv_layer_holds toy_lib toy_rows l ts (Quantized (to_quantized toy_lib gs bits c))"
    and t: "kv_layer_holds toy_lib toy_rows l ts (Turbo (tq_from_cache toy_lib c bits))"
    if h: "kv_holds toy_rows l ts c" for l ts c gs bits
  proof -
    from h obtain k v where kv: "kv_keys c = Some k" "kv_values c = Some v" "kv_offset c = int (length ts)"
        "rows_hold (key_row toy_rows l) ts (Some k)" "rows_hold (value_row toy_rows l) ts (Some v)"
      using some unfolding kv_holds_def by metis
    show "kv_layer_holds toy_lib toy_rows l ts (Quantized (to_quantized toy_lib gs bits c))"
      using kv by (simp add: kv_layer_holds_def plain_of_def toy_lib_def kv_holds_def)
    show "kv_layer_holds toy_lib toy_rows l ts (Turbo (tq_from_cache toy_lib c bits))"
      using kv cut [OF kv(4)] cut [OF kv(5)] by (simp add: kv_layer_holds_def plain_of_def toy_lib_def kv_holds_def)
  qed
  show ?thesis unfolding faithful_lib_def using q t by (auto simp: toy_lib_def)
qed

lemma toy_honest: "honest toy_lib toy_rows ts [toy_layer ts]"
  by (auto simp: honest_def cache_holds_def kv_layer_holds_def plain_of_def toy_layer_def kv_holds_def rows_hold_def
      toy_rows_def toy_arr_def take_Suc_last is_plain_def)

text \<open>
  The index as text: the letter a as often as the number of the index in an enumeration, then b.
\<close>

definition index_code :: "mem_index \<Rightarrow> nat" where
  "index_code ix = to_nat (ix_version ix, ix_num_entries ix, ix_total_memory ix,
     map (\<lambda>m. (ie_index m, ie_num_tokens m, ie_memory m, ie_types m)) (ix_entries ix))"

lemma index_code_inject: "index_code ix = index_code ix' \<longleftrightarrow> ix = ix'"
proof
  assume "index_code ix = index_code ix'"
  then have eq: "ix_version ix = ix_version ix'" "ix_num_entries ix = ix_num_entries ix'" "ix_total_memory ix = ix_total_memory ix'"
    "map (\<lambda>m. (ie_index m, ie_num_tokens m, ie_memory m, ie_types m)) (ix_entries ix) =
     map (\<lambda>m. (ie_index m, ie_num_tokens m, ie_memory m, ie_types m)) (ix_entries ix')"
    by (simp_all add: index_code_def)
  have "inj (\<lambda>m :: index_entry. (ie_index m, ie_num_tokens m, ie_memory m, ie_types m))"
    by (rule injI, rule index_entry.equality) auto
  from eq(4) inj_map_eq_map [OF this] have "ix_entries ix = ix_entries ix'" by blast
  with eq show "ix = ix'" by (simp add: mem_index.equality)
qed simp

definition toy_index_text :: "mem_index \<Rightarrow> string" where
  "toy_index_text ix = replicate (index_code ix) CHR ''a'' @ ''b''"

definition toy_index_parse :: "string \<Rightarrow> mem_index option" where
  "toy_index_parse t = (if \<exists>ix. toy_index_text ix = t then Some (inv toy_index_text t) else None)"

definition toy_io :: "(int, int arr \<times> int arr, unit) layer list \<Rightarrow> (int, int arr \<times> int arr, unit) mem_io" where
  "toy_io cache = \<lparr>io_save = (\<lambda>_ _. Some (le_bytes 8 1 @ ''h'')), io_load = (\<lambda>_. Some cache),
     io_index_text = toy_index_text, io_index_parse = toy_index_parse, io_header = (\<lambda>_. Some [])\<rparr>"

lemma toy_index_inject: "toy_index_text ix = toy_index_text ix' \<longleftrightarrow> ix = ix'"
  by (auto simp: toy_index_text_def index_code_inject)

lemma toy_index_io: "index_io (toy_io cache)"
proof -
  have "inv toy_index_text (toy_index_text ix) = ix" for ix
    by (rule inv_f_f) (simp add: inj_def toy_index_inject)
  then have "toy_index_parse (toy_index_text ix) = Some ix" for ix by (auto simp: toy_index_parse_def)
  moreover have "toy_index_parse (take n (toy_index_text ix)) = None" if "n < length (toy_index_text ix)" for n ix
  proof -
    have "CHR ''b'' \<notin> set (take n (toy_index_text ix))"
      using that by (auto simp: toy_index_text_def)
    moreover have "CHR ''b'' \<in> set (toy_index_text ix')" for ix' by (simp add: toy_index_text_def)
    ultimately have "toy_index_text ix' \<noteq> take n (toy_index_text ix)" for ix' by metis
    then show ?thesis by (simp add: toy_index_parse_def)
  qed
  ultimately show ?thesis by (simp add: index_io_def toy_io_def)
qed

text \<open>A cache in which two sequences have been stored.\<close>

abbreviation "toy_reach \<equiv> mem_reachable toy_lib (toy_io [toy_layer [1, 2, 3]]) (honest toy_lib toy_rows) (\<lambda>_ _. False) toy_config 0"

definition toy_cache :: "(int, int arr \<times> int arr, unit) mem_cache" where
  "toy_cache = snd (mem_store toy_lib [1, 5] [toy_layer [1, 5]] True
     (snd (mem_store toy_lib [1, 2, 3] [toy_layer [1, 2, 3]] True (new_mem_cache toy_config 0))))"

lemma toy_reachable: "toy_reach toy_cache"
proof -
  have "toy_reach (new_mem_cache toy_config 0)"
    by (rule mem_reachable.start) (simp add: checked_config_def toy_config_def default_config_def)
  then show ?thesis unfolding toy_cache_def by (intro store_reachable toy_honest)
qed

lemma toy_cache_eq: "mc_entries toy_cache = [([1, 2, 3], \<lparr>en_tokens = [1, 2, 3], en_cache = [toy_layer [1, 2, 3]], en_memory = 12\<rparr>),
    ([1, 5], \<lparr>en_tokens = [1, 5], en_cache = [toy_layer [1, 5]], en_memory = 8\<rparr>)]"
  by code_simp

section \<open>Properties\<close>

text \<open>C8: In every state that the calls of any threads reach, with \<open>store\<close> interrupted between its two
  locked parts and with loads from disk: the sorted index lists exactly the stored keys in order, the
  byte count is the sum over the entries and within the limit, the statistics agree with it, and as
  long as nothing was loaded from disk there are at most \<open>max_entries\<close> entries.\<close>

theorem mem_cache_invariant:
  assumes "mem_reachable L io ok loads g available c" "mem_sizes_ok L" "0 \<le> compute_memory_limit g available"
  shows "strictly_sorted (mc_sorted c) \<and> set (mc_sorted c) = set (dict_keys (mc_entries c)) \<and>
    distinct (dict_keys (mc_entries c)) \<and> mc_memory c = memory_sum (mc_entries c) \<and>
    mc_memory c \<le> compute_memory_limit g available \<and> ms_memory (mc_stats c) = mc_memory c \<and>
    ms_count (mc_stats c) = int (length (mc_entries c)) \<and>
    ((\<forall>dir d. \<not> loads dir d) \<longrightarrow> int (length (mc_entries c)) \<le> max_entries g)"
  using reachable_inv [OF assms(1)] reachable_bounds [OF assms]
  by (auto simp: mem_inv_def mem_wf_def gauges_exact_def)

theorem mem_cache_invariant_witness:
  "strictly_sorted (mc_sorted toy_cache) \<and> set (mc_sorted toy_cache) = set (dict_keys (mc_entries toy_cache)) \<and>
    distinct (dict_keys (mc_entries toy_cache)) \<and> mc_memory toy_cache = memory_sum (mc_entries toy_cache) \<and>
    mc_memory toy_cache \<le> compute_memory_limit toy_config 0 \<and> ms_memory (mc_stats toy_cache) = mc_memory toy_cache \<and>
    ms_count (mc_stats toy_cache) = int (length (mc_entries toy_cache)) \<and>
    int (length (mc_entries toy_cache)) \<le> max_entries toy_config"
proof -
  have "0 \<le> compute_memory_limit toy_config 0"
    by (simp add: compute_memory_limit_def toy_config_def default_config_def bytes_per_mb_def)
  from mem_cache_invariant [OF toy_reachable toy_sizes this] show ?thesis by simp
qed

text \<open>C20: A prompt is answered with the best stored entry, and no search raises: the prompt itself; else a
  longest extension, unless it cannot be trimmed; else a longest stored prefix; else an entry that
  shares a longest common prefix, if it can be trimmed. The answer is the entry cut to the covered
  tokens with the rest of the prompt, the entry becomes the most recently used, and the covered
  tokens are counted.\<close>

theorem mem_fetch_best:
  assumes "mem_reachable L io ok loads g available c" "T \<noteq> []"
  shows "(\<exists>mt k e n. chosen L c T mt k n \<and> map_of (mc_entries c) k = Some e \<and>
      mem_fetch L T c = returns (answer_of L g e n T) (hit_state k e mt n c)) \<or>
    no_match L c T \<and> mem_fetch L T c = returns (None, T) (record_miss c)"
  using fetch_spec [OF _ assms(2), of c L] reachable_inv [OF assms(1)] by (auto simp: mem_inv_def)

theorem mem_fetch_best_witness:
  "(\<exists>mt k e n. chosen toy_lib toy_cache [1, 2, 9] mt k n \<and> map_of (mc_entries toy_cache) k = Some e \<and>
      mem_fetch toy_lib [1, 2, 9] toy_cache = returns (answer_of toy_lib toy_config e n [1, 2, 9]) (hit_state k e mt n toy_cache)) \<or>
    no_match toy_lib toy_cache [1, 2, 9] \<and> mem_fetch toy_lib [1, 2, 9] toy_cache = returns (None, [1, 2, 9]) (record_miss toy_cache)"
  by (rule mem_fetch_best [OF toy_reachable]) simp

text \<open>C10: What \<open>fetch\<close> hands out is right: as long as the callers of \<open>store\<close> give plain layers that hold
  the state of their tokens, the returned layers are plain and hold exactly the state of the part of the
  prompt in front of the remaining tokens, whatever was trimmed, compressed, evicted or stored
  between.\<close>

theorem mem_fetch_sound:
  assumes "mem_reachable L io (honest L S) (\<lambda>_ _. False) g available c" "faithful_lib L S"
    and "mem_fetch L T c = returns (Some cache, rest) c'"
  shows "\<exists>n. 0 < n \<and> n \<le> length T \<and> rest = drop n T \<and> cache_holds L S (take n T) cache \<and> list_all is_plain cache"
  by (rule fetch_sound [OF assms])

theorem mem_fetch_sound_witness:
  "\<exists>n. 0 < n \<and> n \<le> length [1, 2, 9 :: int] \<and> [9] = drop n [1, 2, 9 :: int] \<and>
    cache_holds toy_lib toy_rows (take n [1, 2, 9])
      [Plain \<lparr>kv_keys = Some (toy_arr [1, 2, 3]), kv_values = Some (toy_arr [1, 2, 3]), kv_offset = 2\<rparr>] \<and>
    list_all is_plain [Plain \<lparr>kv_keys = Some (toy_arr [1, 2, 3]), kv_values = Some (toy_arr [1, 2, 3]), kv_offset = 2\<rparr> ::
      (int, int arr \<times> int arr, unit) layer]"
proof (rule mem_fetch_sound [OF toy_reachable toy_faithful])
  show "mem_fetch toy_lib [1, 2, 9] toy_cache = returns (Some [Plain \<lparr>kv_keys = Some (toy_arr [1, 2, 3]),
      kv_values = Some (toy_arr [1, 2, 3]), kv_offset = 2\<rparr>], [9]) (snd (mem_fetch toy_lib [1, 2, 9] toy_cache))"
    by code_simp
qed

text \<open>C21: What a store of a new key does: it drops the stored strict prefixes of the key, if it is asked to,
  then the least recently used entries, no more of them than are in the way of the byte limit and the
  number of entries, and puts the entry behind the ones that are left.\<close>

theorem mem_store_evicts:
  assumes "mem_reachable L io ok loads g available c" "T \<noteq> []" "T \<notin> stored_keys c" "en_tokens e = T"
    and "kept = (if ev then without (strict_prefixes T) (mc_entries c) else mc_entries c)"
  shows "\<exists>c' n. store_commit ev e c = returns True c' \<and> n \<le> length kept \<and> mc_entries c' = drop n kept @ [(T, e)] \<and>
    (room (en_memory e) c (drop n kept) \<or> n = length kept) \<and> (\<forall>m<n. \<not> room (en_memory e) c (drop m kept))"
  using store_commit_spec [of c T e ev] reachable_inv [OF assms(1)] assms(2-4) unfolding assms(5) mem_inv_def by blast

definition toy_first :: "token_key \<times> (int, int arr \<times> int arr, unit) mem_entry" where
  "toy_first = ([1, 2, 3], \<lparr>en_tokens = [1, 2, 3], en_cache = [toy_layer [1, 2, 3]], en_memory = 12\<rparr>)"

definition toy_third :: "(int, int arr \<times> int arr, unit) mem_entry" where
  "toy_third = \<lparr>en_tokens = [1, 5, 6], en_cache = [toy_layer [1, 5, 6]], en_memory = 12\<rparr>"

theorem mem_store_evicts_witness:
  "\<exists>c' n. store_commit True toy_third toy_cache = returns True c' \<and> n \<le> length [toy_first] \<and>
    mc_entries c' = drop n [toy_first] @ [([1, 5, 6], toy_third)] \<and>
    (room (en_memory toy_third) toy_cache (drop n [toy_first]) \<or> n = length [toy_first]) \<and>
    (\<forall>m<n. \<not> room (en_memory toy_third) toy_cache (drop m [toy_first]))"
  by (rule mem_store_evicts [OF toy_reachable, where ev = True])
    (simp_all add: stored_keys_def toy_cache_eq without_def strict_prefixes_def strict_prefix_def toy_first_def toy_third_def)

text \<open>C9: Crash safety: whatever operation of a save is the last one before the process dies, even when it
  was done in part, the next load reads the old snapshot or the complete new one; other processes may
  empty the staging directory meanwhile, and writes may fail.\<close>

theorem mem_crash_recovers:
  assumes "index_io io" "index_sys io sys" "settled (rstrip_sep dir) d"
    and "save_run L io sys dir c d = (ok, r)" "crash_disk (rev (snd r)) d d'" "base = rstrip_sep dir"
  shows "recovered io base (base @ ''.new'') (base @ ''.old'') d' = map_of d base \<or>
    ok \<and> recovered io base (base @ ''.new'') (base @ ''.old'') d' = map_of (fst r) base"
proof -
  from save_run_crash(1) [OF assms(1-4), unfolded runs_def, THEN conjunct2, rule_format, OF assms(5)]
  show ?thesis unfolding Let_def assms(6) .
qed

text \<open>C22: Round trip: an undisturbed save answers that it has saved, and a load into an empty cache gives
  back every entry under its tokens and in its order, with the dequantised layers that were written and
  their memory, if they fit.\<close>

theorem mem_save_load:
  assumes "mem_reachable L io ok loads g available c" "mc_entries c \<noteq> []" "settled (rstrip_sep dir) d" "index_io io"
    and "\<forall>(k, e) \<in> set (mc_entries c). persistable L io g' k e"
    and "memory_sum (reloaded L (mc_entries c)) \<le> compute_memory_limit g' available'"
    and "\<forall>(k, e) \<in> set (reloaded L (mc_entries c)). 0 \<le> en_memory e"
  shows "\<exists>d1 c1 d2. save_to_disk L io calm dir c d = (True, d1) \<and>
    load_from_disk L io dir (new_mem_cache g' available') d1 = returns (length (mc_entries c)) (c1, d2) \<and>
    mc_entries c1 = reloaded L (mc_entries c)"
proof (rule save_then_load)
  show "mem_wf c" using reachable_inv [OF assms(1)] by (simp add: mem_inv_def)
  show "mem_wf (new_mem_cache g' available' :: ('a, 'b, 'c) mem_cache)"
    by (simp add: new_mem_cache_def Let_def mem_wf_def memory_sum_def)
qed (use assms in \<open>simp_all add: new_mem_cache_def Let_def\<close>)

text \<open>A cache with one entry.\<close>

definition toy_single :: "(int, int arr \<times> int arr, unit) mem_cache" where
  "toy_single = snd (mem_store toy_lib [1, 2, 3] [toy_layer [1, 2, 3]] True (new_mem_cache toy_config 0))"

lemma toy_single_reachable: "toy_reach toy_single"
proof -
  have "toy_reach (new_mem_cache toy_config 0)"
    by (rule mem_reachable.start) (simp add: checked_config_def toy_config_def default_config_def)
  then show ?thesis unfolding toy_single_def by (intro store_reachable toy_honest)
qed

lemma toy_single_eq: "mc_entries toy_single = [toy_first]"
  by code_simp

theorem mem_save_load_witness:
  "\<exists>d1 c1 d2. save_to_disk toy_lib (toy_io [toy_layer [1, 2, 3]]) calm ''kv'' toy_single [] = (True, d1) \<and>
    load_from_disk toy_lib (toy_io [toy_layer [1, 2, 3]]) ''kv'' (new_mem_cache toy_config 0) d1 =
      returns (length (mc_entries toy_single)) (c1, d2) \<and>
    mc_entries c1 = reloaded toy_lib (mc_entries toy_single)"
proof (rule mem_save_load [OF toy_single_reachable _ _ toy_index_io])
  have "safetensors_is_complete (\<lambda>_. Some []) (le_bytes 8 1 @ ''h'')" by code_simp
  then show "\<forall>(k, e) \<in> set (mc_entries toy_single). persistable toy_lib (toy_io [toy_layer [1, 2, 3]]) toy_config k e"
    unfolding toy_single_eq
    by (simp add: persistable_def toy_io_def toy_first_def persist_cache_def toy_layer_def recorded_types_def
      layer_class_def cache_classes_compatible_def int32_def head_offset_def layer_memory_def toy_lib_def)
  show "memory_sum (reloaded toy_lib (mc_entries toy_single)) \<le> compute_memory_limit toy_config 0"
    "\<forall>(k, e) \<in> set (reloaded toy_lib (mc_entries toy_single)). 0 \<le> en_memory e"
    unfolding toy_single_eq by code_simp+
qed (simp_all add: toy_single_eq settled_def exists_dir_def)

text \<open>A save of it over an old snapshot, operation by operation, and a crash between the renamings.\<close>

abbreviation "toy_files \<equiv> toy_io [toy_layer [1, 2, 3]]"

definition toy_disk :: disk where
  "toy_disk = [(''kv'', [(''note'', ''text'')])]"

definition toy_text :: string where "toy_text = le_bytes 8 1 @ ''h''"
definition toy_tokens :: string where "toy_tokens = concat (map item_bytes [1, 2, 3])"

definition toy_meta :: index_entry where
  "toy_meta = \<lparr>ie_index = 0, ie_num_tokens = 3, ie_memory = 12, ie_types = [''KVCache'']\<rparr>"

lemma toy_names: "entry_file 0 = ''entry_0.safetensors''" "tokens_file 0 = ''entry_0_tokens.bin''" "index_file = ''index.json''"
  by code_simp+

lemma toy_start: "rstrip_sep ''kv'' = ''kv''"
  "run_op (MakeDirs ''kv.new'') (clean_stale ''kv.old'' (clean_stale ''kv.new'' (toy_disk, []))) =
   ([(''kv'', [(''note'', ''text'')]), (''kv.new'', [])], [MakeDirs ''kv.new''])"
  by code_simp+

lemma toy_entry: "save_entries toy_lib toy_files calm ''kv.new'' 0 (mc_entries toy_single)
    ([(''kv'', [(''note'', ''text'')]), (''kv.new'', [])], ops) =
  ([toy_meta], [(''kv'', [(''note'', ''text'')]), (''kv.new'', [(''entry_0.safetensors'', toy_text), (''entry_0_tokens.bin'', toy_tokens)])],
    [WriteFile ''kv.new'' ''entry_0_tokens.bin'' toy_tokens, WriteFile ''kv.new'' ''entry_0.safetensors'' toy_text] @ ops)"
  by (simp add: toy_single_eq save_entry_def toy_first_def toy_io_def write_part_def tokens_bytes_def int32_def calm_def exists_dir_def run_op_def apply_op_def
   toy_names toy_text_def toy_tokens_def toy_meta_def run_purge_def persist_cache_def toy_layer_def layer_class_def Let_def dict_set_def)

lemma toy_index_written:
  assumes "ix_entries ix = [toy_meta]"
  shows "write_index toy_files calm ''kv.new'' ix
    ([(''kv'', [(''note'', ''text'')]), (''kv.new'', [(''entry_0.safetensors'', toy_text), (''entry_0_tokens.bin'', toy_tokens)])], ops) =
   (True, [(''kv'', [(''note'', ''text'')]), (''kv.new'', [(''entry_0.safetensors'', toy_text), (''entry_0_tokens.bin'', toy_tokens), (''index.json'', toy_index_text ix)])], [WriteFile ''kv.new'' ''index.json'' (toy_index_text ix), MakeDirs ''kv.new''] @ ops)"
  using assms by (simp add: write_index_def run_purge_def calm_def both_exist_def read_file_def toy_meta_def toy_names run_op_def apply_op_def write_part_def exists_dir_def toy_io_def
    dict_set_def)

definition toy_index :: mem_index where
  "toy_index = \<lparr>ix_version = 2, ix_num_entries = 1, ix_total_memory = mc_memory toy_single, ix_entries = [toy_meta]\<rparr>"

definition toy_staged :: directory where
  "toy_staged = [(''entry_0.safetensors'', toy_text), (''entry_0_tokens.bin'', toy_tokens), (''index.json'', toy_index_text toy_index)]"

definition toy_ops :: "disk_op list" where
  "toy_ops = [MakeDirs ''kv.new'', WriteFile ''kv.new'' ''entry_0.safetensors'' toy_text,
     WriteFile ''kv.new'' ''entry_0_tokens.bin'' toy_tokens, MakeDirs ''kv.new'',
     WriteFile ''kv.new'' ''index.json'' (toy_index_text toy_index), Rename ''kv'' ''kv.old'', Rename ''kv.new'' ''kv'', RmTree ''kv.old'']"

lemma toy_commit: "commit_swap ''kv'' ''kv.new'' ''kv.old'' ([(''kv'', [(''note'', ''text'')]), (''kv.new'', x)], ops) =
   ([(''kv'', x)], [RmTree ''kv.old'', Rename ''kv.new'' ''kv'', Rename ''kv'' ''kv.old''] @ ops)"
  by (simp add: commit_swap_def exists_dir_def run_op_def apply_op_def dict_set_def dict_del_def Let_def)

lemma toy_run: "save_run toy_lib toy_files calm ''kv'' toy_single toy_disk = (True, [(''kv'', toy_staged)], rev toy_ops)"
proof -
  have names: "''kv'' @ ''.new'' = ''kv.new''" "''kv'' @ ''.old'' = ''kv.old''" by simp_all
  have entries: "mc_entries toy_single \<noteq> []" "int (length (mc_entries toy_single)) = 1" by (simp_all add: toy_single_eq)
  show ?thesis
    by (simp only: save_run_def toy_start names Let_def toy_entry entries if_False prod.case list.simps toy_index_def [symmetric]
      toy_index_written toy_index_def [THEN arg_cong [where f = ix_entries], simplified] bool.case toy_commit)
     (simp add: toy_staged_def toy_ops_def)
qed

lemma crash_between: "crash_disk ops d (fold apply_op (take n ops) d)"
  by (induction ops arbitrary: d n) (auto simp: take_Cons')

text \<open>The disk if the process dies between the two renamings.\<close>

definition toy_crashed :: disk where
  "toy_crashed = [(''kv.new'', toy_staged), (''kv.old'', [(''note'', ''text'')])]"

lemma toy_crash: "crash_disk (rev (snd ([(''kv'', toy_staged)], rev toy_ops))) toy_disk toy_crashed"
proof -
  have "fold apply_op (take 6 toy_ops) toy_disk = toy_crashed"
    by (simp add: toy_ops_def toy_disk_def apply_op_def dict_set_def dict_del_def toy_crashed_def toy_staged_def)
  with crash_between [of toy_ops toy_disk 6] show ?thesis by simp
qed

theorem mem_crash_recovers_witness:
  "recovered toy_files ''kv'' (''kv'' @ ''.new'') (''kv'' @ ''.old'') toy_crashed = map_of toy_disk ''kv'' \<or>
    True \<and> recovered toy_files ''kv'' (''kv'' @ ''.new'') (''kv'' @ ''.old'') toy_crashed =
      map_of (fst ([(''kv'', toy_staged)], rev toy_ops)) ''kv''"
  by (rule mem_crash_recovers [OF toy_index_io _ _ toy_run toy_crash])
    (simp_all add: index_sys_def calm_def settled_def exists_dir_def toy_disk_def toy_start(1))

section \<open>Two limits\<close>

text \<open>
  A layer of a class without \<open>offset\<close> or without plain arrays, such as a list of caches, may answer
  that it can be trimmed; then the entry is used for a shorter prompt although
  \<open>_trim_cache_offset\<close> only copies the layer.
\<close>

lemma wrapper_comes_untrimmed:
  assumes "chosen L c T Supersequence k n" "en_cache e = [Foreign x]" "obj_offset x = None"
  shows "trim_cache_offset L (en_cache e) (int (length k) - int n) = [Foreign x] \<and> n < length k"
proof -
  have "n < length k" using chosen_covers(2,6) [OF assms(1)] by auto
  with assms show ?thesis by (simp add: trim_cache_offset_def trim_layer_offset_def)
qed

text \<open>Loading looks at the byte limit only: the number of entries may pass \<open>max_entries\<close>.\<close>

lemma load_ignores_max_entries:
  "load_entry L io dir d m (c\<lparr>mc_config := (mc_config c)\<lparr>max_entries := n\<rparr>\<rparr>) = load_entry L io dir d m c"
proof -
  have "cache_classes_compatible ts ((mc_config c)\<lparr>max_entries := n\<rparr>) = cache_classes_compatible ts (mc_config c)" for ts
    by (simp add: cache_classes_compatible_def)
  moreover have "mc_entries (c\<lparr>mc_config := g\<rparr>) = mc_entries c" "mc_memory (c\<lparr>mc_config := g\<rparr>) = mc_memory c"
    "mc_max_memory (c\<lparr>mc_config := g\<rparr>) = mc_max_memory c" "mc_config (c\<lparr>mc_config := g\<rparr>) = g" for g by simp_all
  ultimately show ?thesis by (simp only: load_entry_def)
qed

end
