(* ===== verification/Thinking.thy ===== *)
theory Thinking
  imports PyText Complex_Main
begin

text \<open>
  The separation of reasoning and answer, \<^verbatim>\<open>src/fusion_mlx/api/thinking.py\<close>: \<open>extract_thinking\<close>
  for a complete text, \<open>ThinkingParser\<close> for a stream of chunks, and \<open>ThinkingBudgetProcessor\<close>,
  which ends the reasoning after a number of tokens. Token ids are natural numbers.
\<close>

section \<open>Tags in a text\<close>

definition open_tag :: string where
  "open_tag = ''<think>''"

definition close_tag :: string where
  "close_tag = ''</think>''"

definition alt_open_tag :: string where
  "alt_open_tag = ''<mm:think>''"

definition alt_close_tag :: string where
  "alt_close_tag = ''</mm:think>''"

text \<open>\<open>text.find(p)\<close> and \<open>text.replace(p, q)\<close> for a pattern that is not empty.\<close>

fun find_text :: "string \<Rightarrow> string \<Rightarrow> nat option" where
  "find_text p [] = (if p = [] then Some 0 else None)"
| "find_text p (x # xs) = (if starts_with (x # xs) p then Some 0 else map_option Suc (find_text p xs))"

definition has_text :: "string \<Rightarrow> string \<Rightarrow> bool" where
  "has_text p s \<longleftrightarrow> find_text p s \<noteq> None"

function replace_text :: "string \<Rightarrow> string \<Rightarrow> string \<Rightarrow> string" where
  "replace_text p q [] = []"
| "replace_text p q (x # xs) =
     (if p \<noteq> [] \<and> starts_with (x # xs) p then q @ replace_text p q (drop (length p) (x # xs))
      else x # replace_text p q xs)"
  by pat_completeness auto
termination by (relation "measure (\<lambda>(p, q, s). length s)") auto

section \<open>A complete text\<close>

text \<open>
  The search for \<open><think>(.*?)</think>\<close>: the first opening tag and the first closing tag behind
  it, as start, group and end of the match.
\<close>

definition think_match :: "string \<Rightarrow> (nat \<times> string \<times> nat) option" where
  "think_match s = (case find_text open_tag s of
       None \<Rightarrow> None
     | Some i \<Rightarrow> (let rest = drop (i + length open_tag) s
                 in case find_text close_tag rest of
                      None \<Rightarrow> None
                    | Some j \<Rightarrow> Some (i, take j rest, i + length open_tag + j + length close_tag)))"

lemma find_text_bound: "find_text p s = Some i \<Longrightarrow> i + length p \<le> length s"
  by (induction s arbitrary: i) (auto simp: starts_with_def split: if_splits dest: arg_cong [where f = length])

lemma think_match_bound: "think_match s = Some (a, g, b) \<Longrightarrow> a < b \<and> b \<le> length s"
  by (auto simp: think_match_def Let_def close_tag_def open_tag_def split: option.splits dest!: find_text_bound)

text \<open>The loop that takes out the blocks.\<close>

function take_blocks :: "string list \<Rightarrow> string \<Rightarrow> string list \<times> string" where
  "take_blocks parts remaining = (case think_match remaining of
       None \<Rightarrow> (parts, remaining)
     | Some (a, g, b) \<Rightarrow> take_blocks (parts @ [g]) (take a remaining @ drop b remaining))"
  by pat_completeness auto
termination
  by (relation "measure (\<lambda>(parts, s). length s)") (auto dest!: think_match_bound)

declare take_blocks.simps [simp del]

definition join_lines :: "string list \<Rightarrow> string" where
  "join_lines xs = (case xs of [] \<Rightarrow> [] | y # ys \<Rightarrow> y @ concat (map (\<lambda>z. CHR 0x0A # z) ys))"

definition normalise_tags :: "string \<Rightarrow> string" where
  "normalise_tags text =
     (if has_text alt_open_tag text
      then replace_text alt_close_tag close_tag (replace_text alt_open_tag open_tag text)
      else text)"

definition extract_thinking :: "string \<Rightarrow> string option \<Rightarrow> string \<times> string" where
  "extract_thinking raw finish_reason =
     (if raw = [] then ([], [])
      else
        let text = normalise_tags raw; (thinking_parts, remaining) = take_blocks [] text
        in if thinking_parts \<noteq> [] then (strip (join_lines thinking_parts), strip remaining)
           else case (find_text open_tag text, find_text close_tag text) of
             (None, Some j) \<Rightarrow> (strip (take j text), strip (drop (j + length close_tag) text))
           | (Some i, None) \<Rightarrow>
               (let before = take i text; after = drop (i + length open_tag) text
                in if finish_reason = Some ''length'' then (strip after, strip before)
                   else ([], strip (before @ after)))
           | _ \<Rightarrow> ([], text))"

section \<open>A stream of chunks\<close>

record thinking_parser =
  tp_in_thinking :: bool
  tp_buffer :: string
  tp_recovery :: bool
  tp_close_seen :: bool
  tp_accumulated :: "string list"
  tp_content_emitted :: bool

definition new_parser :: "bool \<Rightarrow> bool \<Rightarrow> thinking_parser" where
  "new_parser start_in_thinking recovery_as_content = \<lparr>tp_in_thinking = start_in_thinking, tp_buffer = [],
     tp_recovery = recovery_as_content, tp_close_seen = False, tp_accumulated = [], tp_content_emitted = False\<rparr>"

definition could_be_tag :: "string \<Rightarrow> bool" where
  "could_be_tag s =
     (if length close_tag \<le> length s then False
      else take (length s) open_tag = s \<or> take (length s) close_tag = s)"

text \<open>The deltas of one call, the mode, whether a closing tag was seen, and what is buffered.\<close>

record scan_result =
  sr_thinking :: string
  sr_content :: string
  sr_in_thinking :: bool
  sr_close_seen :: bool
  sr_buffer :: string

definition emit_char :: "bool \<Rightarrow> char \<Rightarrow> scan_result \<Rightarrow> scan_result" where
  "emit_char in_thinking x r =
     (if in_thinking then r\<lparr>sr_thinking := x # sr_thinking r\<rparr> else r\<lparr>sr_content := x # sr_content r\<rparr>)"

function scan_text :: "string \<Rightarrow> bool \<Rightarrow> bool \<Rightarrow> scan_result" where
  "scan_text [] m c = \<lparr>sr_thinking = [], sr_content = [], sr_in_thinking = m, sr_close_seen = c, sr_buffer = []\<rparr>"
| "scan_text (x # xs) m c =
     (if x = CHR ''<'' then
        (if starts_with (x # xs) open_tag then scan_text (drop (length open_tag) (x # xs)) True c
         else if starts_with (x # xs) close_tag then scan_text (drop (length close_tag) (x # xs)) False True
         else if could_be_tag (x # xs)
           then \<lparr>sr_thinking = [], sr_content = [], sr_in_thinking = m, sr_close_seen = c, sr_buffer = x # xs\<rparr>
         else emit_char m x (scan_text xs m c))
      else emit_char m x (scan_text xs m c))"
  by pat_completeness auto
termination by (relation "measure (\<lambda>(s, m, c). length s)") (auto simp: open_tag_def close_tag_def)

definition tp_feed :: "string \<Rightarrow> thinking_parser \<Rightarrow> (string \<times> string) \<times> thinking_parser" where
  "tp_feed text p =
     (if text = [] then (([], []), p)
      else
        let r = scan_text (tp_buffer p @ text) (tp_in_thinking p) (tp_close_seen p)
        in ((sr_thinking r, sr_content r),
            p\<lparr>tp_in_thinking := sr_in_thinking r, tp_buffer := sr_buffer r, tp_close_seen := sr_close_seen r,
              tp_accumulated := (if sr_thinking r \<noteq> [] then tp_accumulated p @ [sr_thinking r] else tp_accumulated p),
              tp_content_emitted := (tp_content_emitted p \<or> sr_content r \<noteq> [])\<rparr>))"

definition tp_finish :: "thinking_parser \<Rightarrow> (string \<times> string) \<times> thinking_parser" where
  "tp_finish p0 =
     (let partial = tp_buffer p0; p = p0\<lparr>tp_buffer := []\<rparr>
      in if tp_in_thinking p \<and> \<not> tp_close_seen p \<and> \<not> tp_content_emitted p \<and> tp_accumulated p \<noteq> [] \<and> tp_recovery p
         then (([], concat (tp_accumulated p) @ partial), p\<lparr>tp_content_emitted := True\<rparr>)
         else if partial = [] then (([], []), p)
         else if tp_in_thinking p then ((partial, []), p\<lparr>tp_accumulated := tp_accumulated p @ [partial]\<rparr>)
         else (([], partial), p\<lparr>tp_content_emitted := True\<rparr>))"

text \<open>A whole stream, as its callers drive it: every chunk is fed, then the parser is finished.\<close>

fun tp_feeds :: "string list \<Rightarrow> thinking_parser \<Rightarrow> (string \<times> string) \<times> thinking_parser" where
  "tp_feeds [] p = (([], []), p)"
| "tp_feeds (x # xs) p =
     (let ((t, c), p1) = tp_feed x p; ((ts, cs), p2) = tp_feeds xs p1 in ((t @ ts, c @ cs), p2))"

definition stream :: "bool \<Rightarrow> bool \<Rightarrow> string list \<Rightarrow> string \<times> string" where
  "stream start recovery chunks =
     (let ((t, c), p) = tp_feeds chunks (new_parser start recovery); ((t', c'), p') = tp_finish p
      in (t @ t', c @ c'))"

section \<open>The budget\<close>

text \<open>
  Logits are a list of numbers, \<open>None\<close> for minus infinity, with the token ids as positions; all ids
  are below its length. The mark \<open>_first_call\<close> is never read. Forcing without a sequence raises
  \<open>IndexError\<close>.
\<close>

type_synonym logits = "rat option list"

record budget_processor =
  bp_end_ids :: "nat list"
  bp_force :: "nat list"
  bp_budget :: int
  bp_start_id :: "nat option"
  bp_tokens :: int
  bp_in_thinking :: bool
  bp_forcing :: bool
  bp_index :: nat
  bp_done :: bool
  bp_suppress :: bool
  bp_recent :: "nat list"
  bp_accepted :: "nat option"

definition new_budget :: "nat list \<Rightarrow> int \<Rightarrow> nat option \<Rightarrow> nat list option \<Rightarrow> nat list option \<Rightarrow> budget_processor" where
  "new_budget end_ids budget start_id leading trailing =
     \<lparr>bp_end_ids = end_ids,
      bp_force = (case leading of None \<Rightarrow> [] | Some l \<Rightarrow> l) @ end_ids @ (case trailing of None \<Rightarrow> [] | Some l \<Rightarrow> l),
      bp_budget = budget, bp_start_id = start_id, bp_tokens = 0, bp_in_thinking = True, bp_forcing = False,
      bp_index = 0, bp_done = False, bp_suppress = False, bp_recent = [], bp_accepted = None\<rparr>"

text \<open>\<open>_update_state\<close>, with the test for a second thinking block as its last part.\<close>

definition reenter :: "nat \<Rightarrow> budget_processor \<Rightarrow> budget_processor" where
  "reenter t p = (if \<not> bp_in_thinking p \<and> bp_start_id p = Some t \<and> t \<noteq> 0 then p\<lparr>bp_in_thinking := True\<rparr> else p)"

definition close_naturally :: "budget_processor \<Rightarrow> budget_processor" where
  "close_naturally p = p\<lparr>bp_in_thinking := False, bp_done := True\<rparr>"

definition update_state :: "nat \<Rightarrow> budget_processor \<Rightarrow> budget_processor" where
  "update_state t p =
     (if bp_forcing p then
        let p1 = p\<lparr>bp_index := bp_index p + 1\<rparr>
        in if length (bp_force p1) \<le> bp_index p1
           then p1\<lparr>bp_in_thinking := False, bp_forcing := False, bp_suppress := True\<rparr> else p1
      else if length (bp_end_ids p) = 1
        then if t = bp_end_ids p ! 0 then close_naturally p else reenter t p
      else
        let recent = bp_recent p @ [t];
            p1 = p\<lparr>bp_recent := (if length (bp_end_ids p) < length recent then tl recent else recent)\<rparr>
        in if bp_recent p1 = bp_end_ids p1 then close_naturally p1 else reenter t p1)"

definition force_next_token :: "budget_processor \<Rightarrow> logits \<Rightarrow> (budget_processor, logits) outcome" where
  "force_next_token p logits =
     (if bp_index p < length (bp_force p)
      then returns ((replicate (length logits) None)[bp_force p ! bp_index p := Some 0]) p
      else raises IndexError p)"

definition suppress_end_tokens :: "budget_processor \<Rightarrow> logits \<Rightarrow> logits" where
  "suppress_end_tokens p logits = fold (\<lambda>t l. l[t := None]) (bp_end_ids p) logits"

definition accept_tokens :: "nat list \<Rightarrow> budget_processor \<Rightarrow> budget_processor" where
  "accept_tokens tokens p = (case bp_accepted p of
       None \<Rightarrow> p\<lparr>bp_accepted := Some (length tokens)\<rparr>
     | Some k \<Rightarrow> (if k < length tokens
                 then (fold update_state (drop k tokens) p)\<lparr>bp_accepted := Some (length tokens)\<rparr> else p))"

definition budget_call :: "nat list \<Rightarrow> logits \<Rightarrow> budget_processor \<Rightarrow> (budget_processor, logits) outcome" where
  "budget_call tokens logits p0 =
     (if bp_done p0 then returns logits p0
      else if bp_suppress p0 then returns (suppress_end_tokens p0 logits) p0
      else
        let p = accept_tokens tokens p0
        in if bp_done p then returns logits p
           else if bp_suppress p then returns (suppress_end_tokens p logits) p
           else if bp_forcing p then force_next_token p logits
           else if bp_in_thinking p then
             let p1 = p\<lparr>bp_tokens := bp_tokens p + 1\<rparr>
             in if bp_budget p1 \<le> bp_tokens p1
                then force_next_token (p1\<lparr>bp_forcing := True, bp_index := 0\<rparr>) logits
                else returns logits p1
           else returns logits p)"

end
