(* ===== verification/ThinkingProps.thy ===== *)
theory ThinkingProps
  imports Thinking
begin

text \<open>
  The stream parser against a reading of the whole text: however the text is cut into chunks, the
  deltas are the characters outside the tags, by the side they stand on. And what \<open>extract_thinking\<close>
  takes out of a text of complete blocks.
\<close>

section \<open>The reading of a whole text\<close>

text \<open>Every character outside a tag with the side it is on; behind them the last side and whether a
  closing tag was read.\<close>

function classify :: "string \<Rightarrow> bool \<Rightarrow> bool \<Rightarrow> (bool \<times> char) list \<times> bool \<times> bool" where
  "classify [] m c = ([], m, c)"
| "classify (x # xs) m c =
     (if starts_with (x # xs) open_tag then classify (drop (length open_tag) (x # xs)) True c
      else if starts_with (x # xs) close_tag then classify (drop (length close_tag) (x # xs)) False True
      else case classify xs m c of (items, r) \<Rightarrow> ((m, x) # items, r))"
  by pat_completeness auto
termination by (relation "measure (\<lambda>(s, m, c). length s)") (auto simp: open_tag_def close_tag_def)

definition side :: "bool \<Rightarrow> (bool \<times> char) list \<Rightarrow> string" where
  "side b items = map snd (filter (\<lambda>p. fst p = b) items)"

lemma side_simps [simp]: "side b [] = []" "side b ((m, x) # items) = (if m = b then x # side b items else side b items)"
  "side b (xs @ ys) = side b xs @ side b ys" "side b (map (Pair m) s) = (if m = b then s else [])"
  by (simp_all add: side_def) (induction s; simp)

lemma tags_open [simp]: "starts_with (CHR ''<'' # xs) open_tag \<longleftrightarrow> starts_with xs ''think>''"
  "starts_with (CHR ''<'' # xs) close_tag \<longleftrightarrow> starts_with xs ''/think>''"
  by (simp_all add: starts_with_def open_tag_def close_tag_def)

lemma tags_other [simp]: "x \<noteq> CHR ''<'' \<Longrightarrow> \<not> starts_with (x # xs) open_tag" "x \<noteq> CHR ''<'' \<Longrightarrow> \<not> starts_with (x # xs) close_tag"
  "\<not> starts_with [] open_tag" "\<not> starts_with [] close_tag"
  by (auto simp: starts_with_def open_tag_def close_tag_def)

lemma starts_with_append: "starts_with s p \<Longrightarrow> starts_with (s @ b) p"
  by (metis append_eq_conv_conj append.assoc append_take_drop_id starts_with_def)

lemma starts_with_iff: "starts_with s p \<longleftrightarrow> (\<exists>r. s = p @ r)"
  by (metis append_eq_conv_conj append_take_drop_id starts_with_def)

text \<open>A text that is no beginning of a tag does not become one when more is added.\<close>

lemma starts_with_more:
  assumes "starts_with (s @ b) p" "\<not> starts_with s p"
  shows "length s < length p" "take (length s) p = s"
proof -
  from assms(1) obtain r where r: "s @ b = p @ r" by (auto simp: starts_with_iff)
  show "length s < length p"
  proof (rule ccontr)
    assume "\<not> length s < length p"
    then have "starts_with s p" using r by (metis append_eq_append_conv_if leI starts_with_def)
    with assms(2) show False by simp
  qed
  with r show "take (length s) p = s" by (metis append_eq_conv_conj less_imp_le take_append append_eq_append_conv_if)
qed

lemma tag_lengths [simp]: "length open_tag = 7" "length close_tag = 8"
  by (simp_all add: open_tag_def close_tag_def)

lemma not_tag_yet:
  assumes "\<not> starts_with s open_tag" "\<not> starts_with s close_tag" "\<not> could_be_tag s"
  shows "\<not> starts_with (s @ b) open_tag \<and> \<not> starts_with (s @ b) close_tag"
  using starts_with_more [of s b open_tag] starts_with_more [of s b close_tag] assms
  by (auto simp: could_be_tag_def)

text \<open>A proper beginning of a tag has no tag in it.\<close>

lemma partial_tag:
  assumes "could_be_tag s" "\<not> starts_with s open_tag" "\<not> starts_with s close_tag"
  shows "classify s m c = (map (Pair m) s, m, c)"
proof -
  have len: "length s < 8" using assms(1) by (auto simp: could_be_tag_def split: if_splits)
  have *: "CHR ''<'' \<notin> set (tl s)"
  proof -
    from assms(1) consider "s = take (length s) open_tag" | "s = take (length s) close_tag"
      by (auto simp: could_be_tag_def split: if_splits)
    then have "tl s = take (length s - 1) (tl open_tag) \<or> tl s = take (length s - 1) (tl close_tag)"
      by cases (metis tl_take)+
    then have "set (tl s) \<subseteq> set (tl open_tag) \<union> set (tl close_tag)" using set_take_subset by fastforce
    then show ?thesis by (auto simp: open_tag_def close_tag_def)
  qed
  have plain: "classify u m c = (map (Pair m) u, m, c)" if "CHR ''<'' \<notin> set u" for u
    using that by (induction u) auto
  show ?thesis
  proof (cases s)
    case (Cons x xs)
    with * assms(2,3) show ?thesis by (simp add: plain)
  qed simp
qed

text \<open>One call of the parser is a step of the reading.\<close>

lemma scan_classify:
  assumes "classify (sr_buffer (scan_text s m c) @ b) (sr_in_thinking (scan_text s m c)) (sr_close_seen (scan_text s m c)) = (items, r)"
  shows "\<exists>items'. classify (s @ b) m c = (items', r) \<and> side True items' = sr_thinking (scan_text s m c) @ side True items \<and>
    side False items' = sr_content (scan_text s m c) @ side False items"
  using assms
proof (induction s m c arbitrary: items r rule: scan_text.induct)
  case (1 m c)
  then show ?case by simp
next
  case (2 x xs m c)
  have emit: ?case if "scan_text (x # xs) m c = emit_char m x (scan_text xs m c)"
    and no: "\<not> starts_with ((x # xs) @ b) open_tag" "\<not> starts_with ((x # xs) @ b) close_tag"
    and IH: "\<And>items r. classify (sr_buffer (scan_text xs m c) @ b) (sr_in_thinking (scan_text xs m c)) (sr_close_seen (scan_text xs m c)) = (items, r) \<Longrightarrow>
      \<exists>items'. classify (xs @ b) m c = (items', r) \<and> side True items' = sr_thinking (scan_text xs m c) @ side True items \<and>
        side False items' = sr_content (scan_text xs m c) @ side False items"
  proof -
    from 2(5) have "classify (sr_buffer (scan_text xs m c) @ b) (sr_in_thinking (scan_text xs m c)) (sr_close_seen (scan_text xs m c)) = (items, r)"
      unfolding that(1) by (simp add: emit_char_def split: if_splits)
    from IH [OF this] obtain items' where "classify (xs @ b) m c = (items', r)"
      "side True items' = sr_thinking (scan_text xs m c) @ side True items" "side False items' = sr_content (scan_text xs m c) @ side False items" by blast
    with no show ?thesis unfolding that(1) by (auto simp: emit_char_def)
  qed
  show ?case
  proof (cases "x = CHR ''<''")
    case False
    then show ?thesis using 2(4) by (intro emit) simp_all
  next
    case lt: True
    consider (op) "starts_with (x # xs) open_tag" | (cl) "\<not> starts_with (x # xs) open_tag" "starts_with (x # xs) close_tag"
      | (part) "\<not> starts_with (x # xs) open_tag" "\<not> starts_with (x # xs) close_tag" "could_be_tag (x # xs)"
      | (plain) "\<not> starts_with (x # xs) open_tag" "\<not> starts_with (x # xs) close_tag" "\<not> could_be_tag (x # xs)" by blast
    then show ?thesis
    proof cases
      case op
      have "starts_with (x # xs @ b) open_tag" using starts_with_append [OF op, of b] by simp
      moreover have "drop 7 (x # xs @ b) = drop 7 (x # xs) @ b" using op by (auto simp: starts_with_iff open_tag_def)
      ultimately show ?thesis using 2(1) [OF lt op] 2(5) lt op by (simp del: tags_open)
    next
      case cl
      have no: "\<not> starts_with (x # xs @ b) open_tag" using cl lt by (auto simp: starts_with_iff open_tag_def close_tag_def)
      have "starts_with (x # xs @ b) close_tag" using starts_with_append [OF cl(2), of b] by simp
      moreover have "drop 8 (x # xs @ b) = drop 8 (x # xs) @ b" using cl by (auto simp: starts_with_iff close_tag_def)
      ultimately show ?thesis using 2(2) [OF lt cl] 2(5) no lt cl by (simp del: tags_open)
    next
      case part
      with 2(5) lt show ?thesis by (simp del: tags_open)
    next
      case plain
      then show ?thesis using 2(3) [OF lt plain] not_tag_yet [OF plain, of b] lt by (intro emit) (simp_all del: tags_open)
    qed
  qed
qed

text \<open>What is buffered is the beginning of a tag.\<close>

definition partial_ok :: "string \<Rightarrow> bool" where
  "partial_ok s \<longleftrightarrow> s = [] \<or> could_be_tag s \<and> \<not> starts_with s open_tag \<and> \<not> starts_with s close_tag"

lemma partial_ok_Nil [simp]: "partial_ok []"
  by (simp add: partial_ok_def)

lemma buffer_emit [simp]: "sr_buffer (emit_char m x r) = sr_buffer r"
  by (simp add: emit_char_def)

lemma partial_classify: "partial_ok s \<Longrightarrow> classify s m c = (map (Pair m) s, m, c)"
  by (auto simp: partial_ok_def partial_tag)

lemma partial_short: "partial_ok s \<Longrightarrow> length s < 8"
  by (auto simp: partial_ok_def could_be_tag_def split: if_splits)

lemma scan_partial: "partial_ok (sr_buffer (scan_text s m c))"
proof (induction s m c rule: scan_text.induct)
  case (2 x xs m c)
  consider "x \<noteq> CHR ''<''" | "x = CHR ''<''" "starts_with (x # xs) open_tag"
    | "x = CHR ''<''" "\<not> starts_with (x # xs) open_tag" "starts_with (x # xs) close_tag"
    | "x = CHR ''<''" "\<not> starts_with (x # xs) open_tag" "\<not> starts_with (x # xs) close_tag" "could_be_tag (x # xs)"
    | "x = CHR ''<''" "\<not> starts_with (x # xs) open_tag" "\<not> starts_with (x # xs) close_tag" "\<not> could_be_tag (x # xs)" by blast
  then show ?case
  proof cases
    case 4
    then show ?thesis by (simp add: partial_ok_def del: tags_open)
  qed (use 2 in \<open>simp_all del: tags_open\<close>)
qed simp

lemma feed_partial: "partial_ok (tp_buffer p) \<Longrightarrow> partial_ok (tp_buffer (snd (tp_feed x p)))"
  by (simp add: tp_feed_def Let_def scan_partial)

lemma feeds_partial: "partial_ok (tp_buffer p) \<Longrightarrow> partial_ok (tp_buffer (snd (tp_feeds xs p)))"
  by (induction xs arbitrary: p) (simp_all add: case_prod_beta feed_partial)

lemma feed_classify:
  assumes "tp_feed x p = ((t, c), p1)" "classify (tp_buffer p1 @ b) (tp_in_thinking p1) (tp_close_seen p1) = (items, r)"
  shows "\<exists>items'. classify (tp_buffer p @ x @ b) (tp_in_thinking p) (tp_close_seen p) = (items', r) \<and>
    side True items' = t @ side True items \<and> side False items' = c @ side False items"
proof (cases "x = []")
  case False
  with assms show ?thesis
    using scan_classify [of "tp_buffer p @ x" "tp_in_thinking p" "tp_close_seen p" b items r]
    by (auto simp: tp_feed_def Let_def)
qed (use assms in \<open>simp add: tp_feed_def\<close>)

lemma feeds_classify:
  assumes "tp_feeds xs p = ((t, c), p1)" "classify (tp_buffer p1 @ b) (tp_in_thinking p1) (tp_close_seen p1) = (items, r)"
  shows "\<exists>items'. classify (tp_buffer p @ concat xs @ b) (tp_in_thinking p) (tp_close_seen p) = (items', r) \<and>
    side True items' = t @ side True items \<and> side False items' = c @ side False items"
  using assms
proof (induction xs arbitrary: p t c)
  case (Cons x xs)
  obtain t1 c1 q where f: "tp_feed x p = ((t1, c1), q)" by (metis prod.collapse)
  obtain t2 c2 q2 where g: "tp_feeds xs q = ((t2, c2), q2)" by (metis prod.collapse)
  from Cons.prems(1) have eq: "t = t1 @ t2" "c = c1 @ c2" "q2 = p1" by (simp_all add: f g)
  from Cons.IH [OF g [unfolded eq(3)] Cons.prems(2)] obtain items1
    where i: "classify (tp_buffer q @ concat xs @ b) (tp_in_thinking q) (tp_close_seen q) = (items1, r)"
      "side True items1 = t2 @ side True items" "side False items1 = c2 @ side False items" by blast
  from feed_classify [OF f i(1)] i(2,3) show ?case by (auto simp: eq)
qed auto

text \<open>What the parser remembers of the deltas.\<close>

lemma feeds_memory:
  assumes "tp_feeds xs p = ((t, c), p1)"
  shows "concat (tp_accumulated p1) = concat (tp_accumulated p) @ t \<and> (tp_accumulated p1 = [] \<longleftrightarrow> tp_accumulated p = [] \<and> t = []) \<and>
    (tp_content_emitted p1 \<longleftrightarrow> tp_content_emitted p \<or> c \<noteq> []) \<and> tp_recovery p1 = tp_recovery p"
  using assms
proof (induction xs arbitrary: p t c)
  case (Cons x xs)
  obtain t1 c1 q where f: "tp_feed x p = ((t1, c1), q)" by (metis prod.collapse)
  obtain t2 c2 q2 where g: "tp_feeds xs q = ((t2, c2), q2)" by (metis prod.collapse)
  from Cons.prems have eq: "t = t1 @ t2" "c = c1 @ c2" "q2 = p1" by (simp_all add: f g)
  have "concat (tp_accumulated q) = concat (tp_accumulated p) @ t1 \<and> (tp_accumulated q = [] \<longleftrightarrow> tp_accumulated p = [] \<and> t1 = []) \<and>
    (tp_content_emitted q \<longleftrightarrow> tp_content_emitted p \<or> c1 \<noteq> []) \<and> tp_recovery q = tp_recovery p"
    using f by (auto simp: tp_feed_def Let_def split: if_splits)
  with Cons.IH [OF g [unfolded eq(3)]] show ?case by (auto simp: eq)
qed auto

text \<open>The stream, whole.\<close>

lemma stream_parts:
  assumes "classify (concat chunks) start False = (items, m, c)"
  obtains t o' buf p where "tp_feeds chunks (new_parser start rec) = ((t, o'), p)" "tp_buffer p = buf" "tp_in_thinking p = m"
    "tp_close_seen p = c" "length buf < 8" "side True items = t @ (if m then buf else [])" "side False items = o' @ (if m then [] else buf)"
    "concat (tp_accumulated p) = t" "tp_accumulated p = [] \<longleftrightarrow> t = []" "tp_content_emitted p \<longleftrightarrow> o' \<noteq> []" "tp_recovery p = rec"
proof -
  obtain t o' p where f: "tp_feeds chunks (new_parser start rec) = ((t, o'), p)" by (metis prod.collapse)
  have ok: "partial_ok (tp_buffer p)"
    using feeds_partial [of "new_parser start rec" chunks] unfolding f by (simp add: new_parser_def)
  from feeds_classify [OF f, of "[]", simplified, OF partial_classify [OF ok]] assms
  have "m = tp_in_thinking p" "c = tp_close_seen p" "side True items = t @ (if m then tp_buffer p else [])"
    "side False items = o' @ (if m then [] else tp_buffer p)" by (auto simp: new_parser_def)
  with f ok feeds_memory [OF f] that show ?thesis by (auto simp: new_parser_def partial_short)
qed

lemma stream_exact:
  assumes "classify (concat chunks) start False = (items, m, c)"
  shows "stream start False chunks = (side True items, side False items)"
    and "\<not> (m \<and> \<not> c \<and> side False items = []) \<Longrightarrow> stream start True chunks = (side True items, side False items)"
    and "m \<Longrightarrow> \<not> c \<Longrightarrow> side False items = [] \<Longrightarrow> 8 \<le> length (side True items) \<Longrightarrow> snd (stream start True chunks) = side True items"
proof -
  show "stream start False chunks = (side True items, side False items)"
    by (rule stream_parts [OF assms, where rec = False])
      (auto simp: stream_def tp_finish_def Let_def)
  show "stream start True chunks = (side True items, side False items)" if "\<not> (m \<and> \<not> c \<and> side False items = [])"
    by (rule stream_parts [OF assms, where rec = True])
      (use that in \<open>auto simp: stream_def tp_finish_def Let_def split: if_splits\<close>)
  show "snd (stream start True chunks) = side True items"
    if "m" "\<not> c" "side False items = []" "8 \<le> length (side True items)"
    by (rule stream_parts [OF assms, where rec = True])
      (use that in \<open>auto simp: stream_def tp_finish_def Let_def split: if_splits\<close>)
qed

section \<open>Texts of complete blocks\<close>

definition tag_free :: "string \<Rightarrow> bool" where
  "tag_free s \<longleftrightarrow> \<not> has_text open_tag s \<and> \<not> has_text close_tag s"

definition blocks :: "(string \<times> string) list \<Rightarrow> string" where
  "blocks bs = concat (map (\<lambda>(r, a). open_tag @ r @ close_tag @ a) bs)"

lemma blocks_simps [simp]: "blocks [] = []" "blocks ((r, a) # bs) = open_tag @ r @ close_tag @ a @ blocks bs"
  by (simp_all add: blocks_def)

lemma has_text_simps: "has_text p [] \<longleftrightarrow> p = []" "has_text p (x # xs) \<longleftrightarrow> starts_with (x # xs) p \<or> has_text p xs"
  by (simp_all add: has_text_def)

lemma has_text_append: "has_text p u \<Longrightarrow> has_text p (u @ v)"
proof (induction u)
  case Nil
  then show ?case by (cases v) (simp_all add: has_text_simps starts_with_def)
next
  case (Cons x u)
  then show ?case using starts_with_append [of "x # u" p v] by (auto simp: has_text_simps)
qed

text \<open>A pattern whose first character does not occur again cannot lie across the start of another.\<close>

lemma no_straddle:
  assumes "starts_with (u @ x # w) (x # q)" "x \<notin> set q" "u \<noteq> []"
  shows "starts_with u (x # q)"
proof (rule ccontr)
  assume no: "\<not> starts_with u (x # q)"
  note less = starts_with_more [OF assms(1) no]
  obtain r where "u @ x # w = (x # q) @ r" using assms(1) by (auto simp: starts_with_iff)
  then have "(x # q) ! length u = x" using less(1) by (metis nth_append nth_append_length)
  with assms(2,3) less(1) show False by (cases "length u") (auto simp: nth_Cons')
qed

lemma find_first:
  assumes "x \<notin> set q" "\<not> has_text (x # q) u"
  shows "find_text (x # q) (u @ x # q @ v) = Some (length u)"
  using assms(2)
proof (induction u)
  case Nil
  then show ?case by (simp add: starts_with_def)
next
  case (Cons y u)
  have "\<not> starts_with ((y # u) @ x # q @ v) (x # q)"
    using no_straddle [of "y # u" x "q @ v" q] assms(1) Cons.prems by (auto simp: has_text_simps)
  with Cons show ?case by (simp add: has_text_simps)
qed

lemma find_open: "tag_free u \<Longrightarrow> find_text open_tag (u @ open_tag @ v) = Some (length u)"
  using find_first [of "CHR ''<''" "''think>''" u v] by (simp add: tag_free_def open_tag_def)

lemma find_close: "tag_free u \<Longrightarrow> find_text close_tag (u @ close_tag @ v) = Some (length u)"
  using find_first [of "CHR ''<''" "''/think>''" u v] by (simp add: tag_free_def close_tag_def)

lemma tag_free_prefix: "tag_free (u @ v) \<Longrightarrow> tag_free u"
  using has_text_append by (auto simp: tag_free_def)

lemma take_blocks_all:
  assumes "tag_free (before @ concat (map snd bs))" "\<forall>b \<in> set bs. tag_free (fst b)"
  shows "take_blocks parts (before @ blocks bs) = (parts @ map fst bs, before @ concat (map snd bs))"
  using assms
proof (induction bs arbitrary: before parts)
  case Nil
  then have "think_match before = None" by (simp add: think_match_def tag_free_def has_text_def)
  then show ?case by (simp add: take_blocks.simps)
next
  case (Cons b bs)
  obtain r a where b: "b = (r, a)" by (cases b) auto
  have "tag_free before" "tag_free r" using Cons.prems tag_free_prefix by (auto simp: b)
  then have "think_match (before @ blocks (b # bs)) = Some (length before, r, length before + length r + 15)"
    by (simp add: think_match_def b find_open find_close)
  then have "take_blocks parts (before @ blocks (b # bs)) = take_blocks (parts @ [r]) ((before @ a) @ blocks bs)"
    by (subst take_blocks.simps) (simp add: b)
  also have "\<dots> = ((parts @ [r]) @ map fst bs, (before @ a) @ concat (map snd bs))"
    using Cons.prems by (intro Cons.IH) (auto simp: b)
  finally show ?case by (simp add: b)
qed

lemma classify_plain:
  assumes "tag_free u" "v = [] \<or> hd v = CHR ''<''" "classify v m c = (items, r)"
  shows "classify (u @ v) m c = (map (Pair m) u @ items, r)"
  using assms(1)
proof (induction u)
  case (Cons x u)
  have no: "\<not> starts_with ((x # u) @ v) p" if "p = CHR ''<'' # q" "CHR ''<'' \<notin> set q" "\<not> has_text p (x # u)" for p q
  proof (cases v)
    case Nil
    with that show ?thesis by (simp add: has_text_simps)
  next
    case (Cons y ys)
    with assms(2) no_straddle [of "x # u" "CHR ''<''" ys q] that show ?thesis by (auto simp: has_text_simps)
  qed
  have "\<not> starts_with (x # u @ v) open_tag" "\<not> starts_with (x # u @ v) close_tag"
    using no [of open_tag "''think>''"] no [of close_tag "''/think>''"] Cons.prems
    by (simp_all add: tag_free_def open_tag_def close_tag_def)
  moreover have "tag_free u" using Cons.prems by (simp add: tag_free_def has_text_simps)
  ultimately show ?case using Cons.IH by simp
qed (simp add: assms(3))

lemma classify_tags: "classify (open_tag @ s) m c = classify s True c" "classify (close_tag @ s) m c = classify s False True"
  by (simp_all add: open_tag_def close_tag_def starts_with_def)

lemma hd_blocks: "blocks bs = [] \<or> hd (blocks bs) = CHR ''<''"
  by (cases bs) (auto simp: open_tag_def)

lemma classify_blocks:
  assumes "tag_free before" "\<forall>b \<in> set bs. tag_free (fst b) \<and> tag_free (snd b)"
  shows "\<exists>items. classify (before @ blocks bs) False c = (items, False, c \<or> bs \<noteq> []) \<and>
    side True items = concat (map fst bs) \<and> side False items = before @ concat (map snd bs)"
  using assms
proof (induction bs arbitrary: before c)
  case Nil
  have "classify [] False c = ([], False, c)" by simp
  from classify_plain [OF Nil(1) _ this] show ?case by auto
next
  case (Cons b bs)
  obtain r a where b: "b = (r, a)" by (cases b) auto
  obtain items where i: "classify (a @ blocks bs) False True = (items, False, True)"
    "side True items = concat (map fst bs)" "side False items = a @ concat (map snd bs)"
    using Cons.IH [of a True] Cons.prems by (auto simp: b)
  have "classify (close_tag @ a @ blocks bs) True c = (items, False, True)" by (simp add: classify_tags i)
  from classify_plain [OF _ _ this, of r] have "classify (r @ close_tag @ a @ blocks bs) True c = (map (Pair True) r @ items, False, True)"
    using Cons.prems by (simp add: b close_tag_def)
  then have "classify (blocks (b # bs)) False c = (map (Pair True) r @ items, False, True)" by (simp add: b classify_tags)
  from classify_plain [OF Cons.prems(1) hd_blocks this] i show ?case by (auto simp: b)
qed

end
