(* ===== verification/ThinkBudget.thy ===== *)
theory ThinkBudget
  imports Thinking "HOL-Library.Sublist"
begin

text \<open>
  Generation under a thinking budget: a run samples tokens among those whose logits the processor has
  left finite. The phases of the processor in such a run.
\<close>

inductive generates ::
  "(nat list \<Rightarrow> logits) \<Rightarrow> nat list \<Rightarrow> budget_processor \<Rightarrow> nat list \<Rightarrow> budget_processor \<Rightarrow> bool"
  for model prompt p0 where
  start: "generates model prompt p0 [] p0"
| sample: "\<lbrakk>generates model prompt p0 gs p; budget_call (prompt @ gs) (model (prompt @ gs)) p = returns l p';
    t < length l; l ! t \<noteq> None\<rbrakk> \<Longrightarrow> generates model prompt p0 (gs @ [t]) p'"

section \<open>Logits\<close>

lemma forced_token: "t < N \<Longrightarrow> (replicate N None)[k := Some v] ! t \<noteq> None \<Longrightarrow> t = k"
  by (cases "k < N") (auto simp: nth_list_update split: if_splits)

lemma suppressed:
  fixes l :: logits
  assumes "t < length l" "fold (\<lambda>t l. l[t := None]) ts l ! t \<noteq> None"
  shows "t \<notin> set ts"
proof -
  have gone: "fold (\<lambda>t l. l[t := None]) ts l ! t = None" if "l ! t = None" "t < length l" for l :: logits and ts
    using that
  proof (induction ts arbitrary: l)
    case (Cons a ts)
    then have "l[a := None] ! t = None" by (cases "a = t") auto
    with Cons show ?case by simp
  qed simp
  show ?thesis using assms
  proof (induction ts arbitrary: l)
    case (Cons a ts)
    have "t \<notin> set ts" using Cons.IH [of "l[a := None]"] Cons.prems by simp
    moreover have "t \<noteq> a"
    proof
      assume "t = a"
      then have "fold (\<lambda>t l. l[t := None]) (a # ts) l ! t = None" using gone [of "l[a := None]" ts] Cons.prems(1) by simp
      with Cons.prems(2) show False by simp
    qed
    ultimately show ?case by simp
  qed simp
qed

lemma length_suppressed [simp]: "length (fold (\<lambda>t l. l[t := None]) ts l) = length l"
  by (induction ts arbitrary: l) auto

section \<open>The phases\<close>

definition free_tokens :: "int \<Rightarrow> nat" where
  "free_tokens budget = nat (budget - 1)"

definition configured :: "nat list \<Rightarrow> nat list \<Rightarrow> int \<Rightarrow> budget_processor \<Rightarrow> bool" where
  "configured ends fs budget p \<longleftrightarrow> bp_end_ids p = ends \<and> bp_force p = fs \<and> bp_budget p = budget"

definition window :: "nat list \<Rightarrow> nat list \<Rightarrow> nat list" where
  "window ends ts = drop (length ts - length ends) ts"

lemma window_snoc: "window ends (ts @ [t]) =
    (if length ends < length (window ends ts @ [t]) then tl (window ends ts @ [t]) else window ends ts @ [t])"
proof (cases "length ends \<le> length ts")
  case True
  have "window ends (ts @ [t]) = tl (drop (length ts - length ends) (ts @ [t]))"
  proof -
    have "length (ts @ [t]) - length ends = Suc (length ts - length ends)" using True by simp
    then show ?thesis by (simp only: window_def drop_Suc tl_drop)
  qed
  also have "\<dots> = tl (window ends ts @ [t])" by (simp add: window_def)
  finally show ?thesis using True by (simp add: window_def)
qed (simp add: window_def)

lemma window_suffix: "window ends ts = ends \<longleftrightarrow> suffix ends ts"
  by (metis append_take_drop_id diff_diff_cancel length_drop length_append add_diff_cancel_right' append_eq_conv_conj diff_le_self suffix_def window_def)

definition free_phase :: "nat \<Rightarrow> nat list \<Rightarrow> int \<Rightarrow> nat list \<Rightarrow> budget_processor \<Rightarrow> bool" where
  "free_phase k ends budget gs p \<longleftrightarrow> \<not> bp_done p \<and> \<not> bp_suppress p \<and> \<not> bp_forcing p \<and> bp_in_thinking p \<and>
     gs \<noteq> [] \<and> bp_accepted p = Some (k + length gs - 1) \<and> bp_tokens p = int (length gs) \<and> length gs \<le> free_tokens budget \<and>
     (length ends \<noteq> 1 \<longrightarrow> bp_recent p = window ends (butlast gs))"

definition forcing_phase :: "nat \<Rightarrow> nat list \<Rightarrow> int \<Rightarrow> nat list \<Rightarrow> budget_processor \<Rightarrow> bool" where
  "forcing_phase k fs budget gs p \<longleftrightarrow> \<not> bp_done p \<and> \<not> bp_suppress p \<and> bp_forcing p \<and>
     bp_accepted p = Some (k + length gs - 1) \<and> length gs = Suc (free_tokens budget + bp_index p) \<and> bp_index p < length fs \<and>
     drop (free_tokens budget) gs = take (Suc (bp_index p)) fs"

definition suppress_phase :: "nat list \<Rightarrow> nat list \<Rightarrow> int \<Rightarrow> nat list \<Rightarrow> budget_processor \<Rightarrow> bool" where
  "suppress_phase ends fs budget gs p \<longleftrightarrow> \<not> bp_done p \<and> bp_suppress p \<and>
     (\<exists>rest. drop (free_tokens budget) gs = fs @ rest \<and> set rest \<inter> set ends = {}) \<and> free_tokens budget \<le> length gs"

definition done_phase :: "nat list \<Rightarrow> int \<Rightarrow> nat list \<Rightarrow> budget_processor \<Rightarrow> bool" where
  "done_phase ends budget gs p \<longleftrightarrow> bp_done p \<and> (\<exists>j \<le> free_tokens budget. j < length gs \<and> suffix ends (take j gs))"

definition some_phase :: "nat list \<Rightarrow> nat list \<Rightarrow> nat list \<Rightarrow> int \<Rightarrow> budget_processor \<Rightarrow> nat list \<Rightarrow> budget_processor \<Rightarrow> bool" where
  "some_phase prompt ends fs budget p0 gs p \<longleftrightarrow> configured ends fs budget p \<and>
     (gs = [] \<and> p = p0 \<or> free_phase (length prompt) ends budget gs p \<or> forcing_phase (length prompt) fs budget gs p \<or>
      suppress_phase ends fs budget gs p \<or> done_phase ends budget gs p)"

text \<open>Reading the last token outside the forced sequence.\<close>

lemma update_free:
  assumes "configured ends fs budget p" "free_phase k ends budget gs p" "ends \<noteq> []"
  shows "suffix ends gs \<Longrightarrow> bp_done (update_state (last gs) p)"
    and "\<not> suffix ends gs \<Longrightarrow> \<exists>r. update_state (last gs) p = p\<lparr>bp_recent := r\<rparr> \<and> (length ends \<noteq> 1 \<longrightarrow> r = window ends gs)"
    and "configured ends fs budget (update_state (last gs) p)"
proof -
  have gs: "gs = butlast gs @ [last gs]" and p: "\<not> bp_forcing p" "bp_in_thinking p" "bp_end_ids p = ends"
    and w: "length ends \<noteq> 1 \<longrightarrow> bp_recent p = window ends (butlast gs)"
    using assms by (auto simp: free_phase_def configured_def)
  have one: "last gs = ends ! 0 \<longleftrightarrow> suffix ends gs" if "length ends = 1"
  proof -
    obtain e where e: "ends = [e]" using \<open>length ends = 1\<close> by (metis One_nat_def length_0_conv length_Suc_conv)
    show ?thesis by (subst (2) gs) (auto simp: e suffix_def)
  qed
  have rec: "(if length ends < length (bp_recent p @ [last gs]) then tl (bp_recent p @ [last gs]) else bp_recent p @ [last gs]) = window ends gs"
    if "length ends \<noteq> 1" using w that window_snoc [of ends "butlast gs" "last gs"] gs by simp
  show "bp_done (update_state (last gs) p)" if "suffix ends gs"
    using p one rec that window_suffix [of ends gs] by (auto simp: update_state_def Let_def close_naturally_def)
  show "\<exists>r. update_state (last gs) p = p\<lparr>bp_recent := r\<rparr> \<and> (length ends \<noteq> 1 \<longrightarrow> r = window ends gs)" if "\<not> suffix ends gs"
    using p one rec that window_suffix [of ends gs]
    by (cases "length ends = 1") (auto simp: update_state_def Let_def reenter_def intro: exI [of _ "bp_recent p"])
  show "configured ends fs budget (update_state (last gs) p)"
    using assms(1) p by (auto simp: configured_def update_state_def Let_def close_naturally_def reenter_def)
qed

lemma accept_one:
  assumes "gs \<noteq> []" "bp_accepted p = Some (length prompt + length gs - 1)"
  shows "accept_tokens (prompt @ gs) p = (update_state (last gs) p)\<lparr>bp_accepted := Some (length prompt + length gs)\<rparr>"
proof -
  have "drop (length prompt + length gs - 1) (prompt @ gs) = [last gs]"
    using assms(1) by (cases gs rule: rev_cases) auto
  with assms show ?thesis unfolding accept_tokens_def by (simp del: drop_append)
qed

text \<open>One call and one token further, from each phase.\<close>

lemma in_forced:
  assumes "bp_forcing p" "bp_force p = fs" "bp_index p < length fs" "force_next_token p l0 = returns l p'" "t < length l" "l ! t \<noteq> None"
  shows "p' = p" "t = fs ! bp_index p"
proof -
  have eq: "l = (replicate (length l0) None)[fs ! bp_index p := Some 0]" "p' = p"
    using assms by (auto simp: force_next_token_def)
  then show "p' = p" by simp
  show "t = fs ! bp_index p" using assms(5,6) unfolding eq(1) by (intro forced_token) simp_all
qed

text \<open>The part of a call behind the reading of tokens, when no phase has ended.\<close>

lemma count_step:
  assumes p: "\<not> bp_done p" "\<not> bp_suppress p" "\<not> bp_forcing p" "bp_in_thinking p" "configured ends fs budget p"
    and n: "bp_tokens p = int (length gs)" "length gs \<le> free_tokens budget" "bp_accepted p = Some (k + length gs)"
    and w: "length ends \<noteq> 1 \<longrightarrow> bp_recent p = window ends gs" and fs: "fs \<noteq> []"
    and call: "(let p1 = p\<lparr>bp_tokens := bp_tokens p + 1\<rparr> in if bp_budget p1 \<le> bp_tokens p1
        then force_next_token (p1\<lparr>bp_forcing := True, bp_index := 0\<rparr>) l0 else returns l0 p1) = returns l p'"
    and t: "t < length l" "l ! t \<noteq> None"
  shows "configured ends fs budget p' \<and>
    (free_phase k ends budget (gs @ [t]) p' \<or> forcing_phase k fs budget (gs @ [t]) p')"
proof (cases "budget \<le> int (length gs) + 1")
  case True
  define q where "q = p\<lparr>bp_tokens := bp_tokens p + 1, bp_forcing := True, bp_index := 0\<rparr>"
  have "force_next_token q l0 = returns l p'"
    using call True p(5) n(1) by (simp add: q_def configured_def)
  moreover have "bp_forcing q" "bp_force q = fs" "bp_index q = 0" using p(5) by (simp_all add: q_def configured_def)
  ultimately have "p' = q" "t = fs ! 0" using in_forced [of q fs l0 l p' t] fs t by auto
  moreover have "free_tokens budget = length gs" using True n(2) by (simp add: free_tokens_def)
  ultimately have "forcing_phase k fs budget (gs @ [t]) p'"
    using p n fs by (cases fs) (simp_all add: forcing_phase_def q_def)
  moreover have "configured ends fs budget p'" using p(5) \<open>p' = q\<close> by (simp add: q_def configured_def)
  ultimately show ?thesis by simp
next
  case False
  then have "p' = p\<lparr>bp_tokens := bp_tokens p + 1\<rparr>" using call p(5) n(1) by (simp add: configured_def)
  moreover have "Suc (length gs) \<le> free_tokens budget" using False by (simp add: free_tokens_def)
  ultimately have "free_phase k ends budget (gs @ [t]) p'" using p n w by (simp add: free_phase_def)
  moreover have "configured ends fs budget p'" using p(5) \<open>p' = _\<close> by (simp add: configured_def)
  ultimately show ?thesis by simp
qed

lemma phase_step:
  assumes ph: "some_phase prompt ends fs budget p0 gs p" and p0: "p0 = new_budget ends budget sid leading trailing" "fs = bp_force p0"
    and ends: "ends \<noteq> []"
    and call: "budget_call (prompt @ gs) l0 p = returns l p'" and t: "t < length l" "l ! t \<noteq> None"
  shows "some_phase prompt ends fs budget p0 (gs @ [t]) p'"
proof -
  have fs: "fs \<noteq> []" using p0 ends by (simp add: new_budget_def)
  have conf: "configured ends fs budget p" using ph by (simp add: some_phase_def)
  consider (first) "gs = []" "p = p0" | (free) "free_phase (length prompt) ends budget gs p"
    | (forcing) "forcing_phase (length prompt) fs budget gs p" | (suppress) "suppress_phase ends fs budget gs p"
    | (ended) "done_phase ends budget gs p"
    using ph by (auto simp: some_phase_def)
  then show ?thesis
  proof cases
    case first
    define q where "q = p0\<lparr>bp_accepted := Some (length prompt)\<rparr>"
    have "accept_tokens (prompt @ gs) p = q" using first by (simp add: accept_tokens_def q_def p0 new_budget_def)
    then have c: "(let p1 = q\<lparr>bp_tokens := bp_tokens q + 1\<rparr> in if bp_budget p1 \<le> bp_tokens p1
        then force_next_token (p1\<lparr>bp_forcing := True, bp_index := 0\<rparr>) l0 else returns l0 p1) = returns l p'"
      using call first by (simp add: budget_call_def q_def p0 new_budget_def)
    from count_step [OF _ _ _ _ _ _ _ _ _ fs c t, of ends budget gs "length prompt"] first conf show ?thesis
      by (auto simp: some_phase_def q_def p0 new_budget_def configured_def window_def)
  next
    case free
    define q where "q = update_state (last gs) p"
    have "length gs > 0" using free by (simp add: free_phase_def)
    then have acc: "accept_tokens (prompt @ gs) p = q\<lparr>bp_accepted := Some (length prompt + length gs)\<rparr>" (is "_ = ?q")
      unfolding q_def using free by (intro accept_one) (auto simp: free_phase_def)
    have b: "budget_call (prompt @ gs) l0 p = (if bp_done ?q then returns l0 ?q
           else if bp_suppress ?q then returns (suppress_end_tokens ?q l0) ?q
           else if bp_forcing ?q then force_next_token ?q l0
           else if bp_in_thinking ?q then
             let p1 = ?q\<lparr>bp_tokens := bp_tokens ?q + 1\<rparr>
             in if bp_budget p1 \<le> bp_tokens p1
                then force_next_token (p1\<lparr>bp_forcing := True, bp_index := 0\<rparr>) l0
                else returns l0 p1
           else returns l0 ?q)"
      using free by (simp add: budget_call_def acc free_phase_def Let_def)
    note u = update_free [OF conf free ends]
    show ?thesis
    proof (cases "suffix ends gs")
      case True
      have "bp_done ?q" using u(1) [OF True] by (simp add: q_def)
      then have "p' = ?q" using call unfolding b by simp
      moreover have "configured ends fs budget ?q" using u(3) by (simp add: q_def configured_def)
      moreover have "done_phase ends budget (gs @ [t]) ?q"
        using True free \<open>bp_done ?q\<close> by (auto simp: done_phase_def free_phase_def intro: exI [of _ "length gs"])
      ultimately show ?thesis by (simp add: some_phase_def)
    next
      case False
      then obtain r where r: "q = p\<lparr>bp_recent := r\<rparr>" "length ends \<noteq> 1 \<longrightarrow> r = window ends gs"
        using u(2) by (auto simp: q_def)
      have c: "(let p1 = ?q\<lparr>bp_tokens := bp_tokens ?q + 1\<rparr> in if bp_budget p1 \<le> bp_tokens p1
          then force_next_token (p1\<lparr>bp_forcing := True, bp_index := 0\<rparr>) l0 else returns l0 p1) = returns l p'"
        using call free unfolding b by (simp add: r free_phase_def)
      from count_step [OF _ _ _ _ _ _ _ _ _ fs c t, of ends budget gs "length prompt"] free conf r show ?thesis
        by (auto simp: some_phase_def free_phase_def configured_def)
    qed
  next
    case forcing
    have pos: "length gs > 0" using forcing by (simp add: forcing_phase_def)
    define i where "i = bp_index p"
    define q where "q = (if length fs \<le> Suc i then p\<lparr>bp_index := Suc i, bp_in_thinking := False, bp_forcing := False, bp_suppress := True\<rparr>
        else p\<lparr>bp_index := Suc i\<rparr>)"
    have acc: "accept_tokens (prompt @ gs) p = q\<lparr>bp_accepted := Some (length prompt + length gs)\<rparr>" (is "_ = ?q")
    proof -
      have "update_state (last gs) p = q"
        using forcing conf by (simp add: update_state_def q_def i_def forcing_phase_def configured_def Let_def)
      moreover have "gs \<noteq> []" "bp_accepted p = Some (length prompt + length gs - 1)"
        using pos forcing by (auto simp: forcing_phase_def)
      ultimately show ?thesis using accept_one by metis
    qed
    have F: "drop (free_tokens budget) gs = take (Suc i) fs" "length gs = Suc (free_tokens budget + i)" "i < length fs"
      using forcing by (simp_all add: forcing_phase_def i_def)
    have conf': "configured ends fs budget ?q" using conf by (simp add: q_def configured_def)
    show ?thesis
    proof (cases "length fs \<le> Suc i")
      case True
      then have "p' = ?q" "l = suppress_end_tokens ?q l0"
        using call forcing True by (auto simp add: budget_call_def forcing_phase_def acc Let_def q_def)
      then have "t \<notin> set ends" using suppressed [of t l0 ends] t conf' by (simp add: suppress_end_tokens_def configured_def)
      then have "suppress_phase ends fs budget (gs @ [t]) ?q"
        using forcing F True by (simp add: suppress_phase_def q_def forcing_phase_def)
      with conf' \<open>p' = ?q\<close> show ?thesis by (simp add: some_phase_def)
    next
      case False
      then have c: "force_next_token ?q l0 = returns l p'"
        using call forcing False by (simp add: budget_call_def forcing_phase_def acc Let_def q_def)
      have "bp_forcing ?q" "bp_force ?q = fs" "bp_index ?q = Suc i" using False forcing conf
        by (simp_all add: q_def forcing_phase_def configured_def)
      with in_forced [OF _ _ _ c t, of fs] False have "p' = ?q" "t = fs ! Suc i" by auto
      moreover have "forcing_phase (length prompt) fs budget (gs @ [fs ! Suc i]) ?q"
        using forcing F False by (simp add: forcing_phase_def q_def take_Suc_conv_app_nth [of "Suc (bp_index p)" fs])
      ultimately show ?thesis using conf' by (simp add: some_phase_def)
    qed
  next
    case suppress
    then have "p' = p" "l = suppress_end_tokens p l0" using call by (auto simp: budget_call_def suppress_phase_def)
    then have "t \<notin> set ends" using suppressed [of t l0 ends] t conf by (simp add: suppress_end_tokens_def configured_def)
    with suppress have "suppress_phase ends fs budget (gs @ [t]) p" by (auto simp: suppress_phase_def)
    with conf \<open>p' = p\<close> show ?thesis by (simp add: some_phase_def)
  next
    case ended
    then have "p' = p" using call by (auto simp: budget_call_def done_phase_def)
    moreover have "done_phase ends budget (gs @ [t]) p" using ended by (fastforce simp: done_phase_def)
    ultimately show ?thesis using conf by (simp add: some_phase_def)
  qed
qed

lemma run_phase:
  assumes "generates model prompt p0 gs p" "p0 = new_budget ends budget sid leading trailing" "ends \<noteq> []"
  shows "some_phase prompt ends (bp_force p0) budget p0 gs p"
  using assms(1)
proof (induction rule: generates.induct)
  case start
  then show ?case using assms(2) by (simp add: some_phase_def configured_def new_budget_def)
next
  case (sample gs p l p' t)
  from phase_step [OF sample.IH assms(2) refl assms(3) sample.hyps(2-4)] show ?case .
qed

text \<open>What the phases mean for the tokens: the reasoning ends in time, by itself or by force, and a
  forced end is not repeated.\<close>

definition ends_in_time :: "nat list \<Rightarrow> nat list \<Rightarrow> int \<Rightarrow> nat list \<Rightarrow> bool" where
  "ends_in_time ends fs budget gs \<longleftrightarrow> (let free = free_tokens budget in
     (\<exists>j \<le> free. j < length gs \<and> suffix ends (take j gs)) \<or>
     take (length fs) (drop free gs) = take (length gs - free) fs \<and> set (drop (free + length fs) gs) \<inter> set ends = {})"

lemma phase_ends_in_time:
  assumes "some_phase prompt ends fs budget p0 gs p"
  shows "ends_in_time ends fs budget gs"
proof -
  consider "length gs \<le> free_tokens budget" | "forcing_phase (length prompt) fs budget gs p" | "suppress_phase ends fs budget gs p" | "done_phase ends budget gs p"
    using assms by (auto simp: some_phase_def free_phase_def)
  then show ?thesis
  proof cases
    case 3
    then obtain rest where r: "drop (free_tokens budget) gs = fs @ rest" "set rest \<inter> set ends = {}" "free_tokens budget \<le> length gs"
      by (auto simp: suppress_phase_def)
    have "drop (free_tokens budget + length fs) gs = rest"
      using r(1) by (metis add.commute append_eq_conv_conj drop_drop)
    moreover have "length fs \<le> length gs - free_tokens budget" using r(1) by (metis length_append length_drop le_add1)
    ultimately show ?thesis using r by (simp add: ends_in_time_def Let_def)
  qed (auto simp: ends_in_time_def Let_def forcing_phase_def done_phase_def min_def)
qed

text \<open>The processor always answers, with logits for all tokens.\<close>

lemma call_answers:
  assumes "bp_forcing (accept_tokens ts p) \<Longrightarrow> bp_index (accept_tokens ts p) < length (bp_force (accept_tokens ts p))"
    and "bp_force (accept_tokens ts p) \<noteq> []"
  shows "\<exists>l p'. budget_call ts l0 p = returns l p' \<and> length l = length l0"
  using assms by (auto simp: budget_call_def force_next_token_def suppress_end_tokens_def Let_def)

lemma force_kept: "bp_force (update_state t p) = bp_force p" "bp_force (accept_tokens ts p) = bp_force p"
proof -
  show *: "bp_force (update_state t p) = bp_force p" for t p
    by (auto simp: update_state_def close_naturally_def reenter_def Let_def)
  have "bp_force (fold update_state us p) = bp_force p" for us by (induction us arbitrary: p) (auto simp: *)
  then show "bp_force (accept_tokens ts p) = bp_force p" by (auto simp: accept_tokens_def split: option.splits)
qed

lemma update_index:
  "bp_forcing (update_state t p) \<Longrightarrow> bp_index (update_state t p) < length (bp_force (update_state t p))"
  by (auto simp: update_state_def close_naturally_def reenter_def Let_def split: if_splits)

lemma call_returns:
  assumes ph: "some_phase prompt ends fs budget p0 gs p" and p0: "p0 = new_budget ends budget sid leading trailing"
    and ends: "ends \<noteq> []" "fs = bp_force p0"
  shows "\<exists>l p'. budget_call (prompt @ gs) l0 p = returns l p' \<and> length l = length l0"
proof (cases "bp_done p \<or> bp_suppress p")
  case True
  then show ?thesis by (auto simp: budget_call_def suppress_end_tokens_def)
next
  case False
  then consider (first) "gs = []" "p = p0" | (later) "gs \<noteq> []" "bp_accepted p = Some (length prompt + length gs - 1)"
  proof -
    from False ph have "gs = [] \<and> p = p0 \<or> free_phase (length prompt) ends budget gs p \<or> forcing_phase (length prompt) fs budget gs p"
      by (auto simp: some_phase_def suppress_phase_def done_phase_def)
    then have "gs = [] \<and> p = p0 \<or> gs \<noteq> [] \<and> bp_accepted p = Some (length prompt + length gs - 1)"
      by (cases gs) (simp_all add: free_phase_def forcing_phase_def, auto)
    with that show ?thesis by blast
  qed
  then have "bp_forcing (accept_tokens (prompt @ gs) p) \<Longrightarrow>
    bp_index (accept_tokens (prompt @ gs) p) < length (bp_force (accept_tokens (prompt @ gs) p))"
  proof cases
    case first
    then show "bp_forcing (accept_tokens (prompt @ gs) p) \<Longrightarrow> ?thesis" by (simp add: accept_tokens_def p0 new_budget_def)
  next
    case later
    then show "bp_forcing (accept_tokens (prompt @ gs) p) \<Longrightarrow> ?thesis" using update_index by (simp add: accept_one)
  qed
  moreover have "bp_force (accept_tokens (prompt @ gs) p) \<noteq> []"
    using ph p0 ends by (simp add: force_kept some_phase_def configured_def new_budget_def)
  ultimately show ?thesis by (rule call_answers)
qed

end
