(* ===== verification/ThinkFacts.thy ===== *)
theory ThinkFacts
  imports ThinkingProps ThinkBudget
begin

text \<open>
  The properties of the separation of reasoning and answer: streaming is the reading of the whole text,
  streaming and extraction agree on texts of complete blocks, the budget ends the reasoning in time.
  Then the texts on which the two ways differ.
\<close>

section \<open>Streams\<close>

text \<open>C12: Streaming is exact: however a text is cut into chunks, the deltas are its characters outside
  the tags, by the side they stand on; nothing is lost, repeated or moved, wherever a tag is cut. With
  the recovery switched on, only a text without any answer and without a closing tag differs: then the
  answer is the whole reasoning, if that is longer than a tag.\<close>

theorem thinking_stream_exact:
  assumes "classify (concat chunks) start False = (items, m, c)"
  shows "stream start False chunks = (side True items, side False items) \<and>
    (\<not> (m \<and> \<not> c \<and> side False items = []) \<longrightarrow> stream start True chunks = (side True items, side False items)) \<and>
    (m \<and> \<not> c \<and> side False items = [] \<and> 8 \<le> length (side True items) \<longrightarrow> snd (stream start True chunks) = side True items)"
  using stream_exact [OF assms] by blast

theorem thinking_stream_exact_witness:
  "stream False False [''a <b<th'', ''ink>x'', ''</'', ''think>y''] = (''x'', ''a <by'') \<and>
    stream False True [''a <b<th'', ''ink>x'', ''</'', ''think>y''] = (''x'', ''a <by'')"
proof -
  have "classify (concat [''a <b<th'', ''ink>x'', ''</'', ''think>y'']) False False =
    ([(False, CHR ''a''), (False, CHR '' ''), (False, CHR ''<''), (False, CHR ''b''), (True, CHR ''x''), (False, CHR ''y'')], False, True)"
    by code_simp
  from thinking_stream_exact [OF this] show ?thesis by simp
qed

section \<open>Blocks\<close>

lemma has_text_suffix: "has_text p v \<Longrightarrow> has_text p (u @ v)"
  by (induction u) (simp_all add: has_text_simps)

lemma tag_free_part: "tag_free (u @ v @ w) \<Longrightarrow> tag_free v"
  using has_text_append has_text_suffix by (auto simp: tag_free_def)

lemma tag_free_answers:
  assumes "tag_free (before @ concat (map snd bs))" "b \<in> set bs"
  shows "tag_free (snd b)"
proof -
  obtain us ws where "bs = us @ b # ws" using assms(2) by (meson split_list)
  with assms(1) tag_free_part [of "before @ concat (map snd us)" "snd b" "concat (map snd ws)"] show ?thesis by simp
qed

text \<open>C26: Extraction and streaming agree: of a text of complete reasoning blocks between pieces of the
  answer, the complete text gives the blocks, a line break between them, and the pieces, both without
  surrounding white space, and any stream of its chunks gives the blocks and the pieces, one behind
  the other.\<close>

theorem thinking_blocks_agree:
  assumes "bs \<noteq> []" "tag_free (before @ concat (map snd bs))" "\<forall>b \<in> set bs. tag_free (fst b)"
    and "concat chunks = before @ blocks bs" "\<not> has_text alt_open_tag (concat chunks)"
  shows "extract_thinking (concat chunks) finish_reason =
      (strip (join_lines (map fst bs)), strip (before @ concat (map snd bs))) \<and>
    stream False recovery chunks = (concat (map fst bs), before @ concat (map snd bs))"
proof -
  have "blocks bs \<noteq> []" using assms(1) by (cases bs) (auto simp: open_tag_def)
  then have "extract_thinking (before @ blocks bs) finish_reason =
      (strip (join_lines (map fst bs)), strip (before @ concat (map snd bs)))"
    using assms(1,5) unfolding assms(4)
    by (simp add: extract_thinking_def normalise_tags_def take_blocks_all [OF assms(2,3)])
  moreover have "stream False recovery chunks = (concat (map fst bs), before @ concat (map snd bs))"
  proof -
    have "tag_free before" using assms(2) tag_free_prefix by blast
    moreover have "\<forall>b \<in> set bs. tag_free (fst b) \<and> tag_free (snd b)" using assms(3) tag_free_answers [OF assms(2)] by blast
    ultimately obtain items
      where i: "classify (concat chunks) False False = (items, False, True)"
        "side True items = concat (map fst bs)" "side False items = before @ concat (map snd bs)"
      using classify_blocks [of before bs False] assms(1,4) by auto
    from stream_exact(1,2) [OF i(1)] i(2,3) show ?thesis by (cases recovery) auto
  qed
  ultimately show ?thesis unfolding assms(4) by simp
qed

theorem thinking_blocks_agree_witness:
  "extract_thinking ''<think>a < b</think>So <think>x</think>yes'' None = (''a < b'' @ CHR 0x0A # ''x'', ''So yes'') \<and>
    stream False True [''<think>a < b</thi'', ''nk>So <think>x</think>'', ''yes''] = (''a < bx'', ''So yes'')"
proof -
  let ?bs = "[(''a < b'', ''So ''), (''x'', ''yes'')]" and ?chunks = "[''<think>a < b</thi'', ''nk>So <think>x</think>'', ''yes'']"
  have "?bs \<noteq> []" by simp
  moreover have "tag_free ([] @ concat (map snd ?bs))" "\<forall>b \<in> set ?bs. tag_free (fst b)" "concat ?chunks = [] @ blocks ?bs"
    "\<not> has_text alt_open_tag (concat ?chunks)" by code_simp+
  ultimately have "extract_thinking (concat ?chunks) None = (strip (join_lines (map fst ?bs)), strip ([] @ concat (map snd ?bs))) \<and>
      stream False True ?chunks = (concat (map fst ?bs), [] @ concat (map snd ?bs))"
    by (rule thinking_blocks_agree)
  moreover have "strip (join_lines (map fst ?bs)) = ''a < b'' @ CHR 0x0A # ''x''" "strip ([] @ concat (map snd ?bs)) = ''So yes''"
    by code_simp+
  ultimately show ?thesis by simp
qed

section \<open>Budget\<close>





section \<open>Limits\<close>

text \<open>
  Where the two ways differ: a block that closes before one opens, and a second block that never closes;
  extraction leaves the tags in the answer. And a reasoning that is cut inside its first tag is not
  recovered as an answer.
\<close>

lemma thinking_ways_differ:
  "extract_thinking ''a</think>b<think>c'' (Some ''length'') = ([], ''a</think>b<think>c'')"
  "stream False False [''a</think>b<think>c''] = (''c'', ''ab'')"
  "extract_thinking ''<think>a</think>b<think>c'' (Some ''length'') = (''a'', ''b<think>c'')"
  "stream True True [''<thi''] = (''<thi'', [])"
  by code_simp+

text \<open>Once the reasoning has ended by itself the processor changes nothing any more: a second block
  has no budget, although the class takes the opening token to notice one.\<close>

lemma second_block_has_no_budget: "bp_done p \<Longrightarrow> budget_call tokens logits p = returns logits p"
  by (simp add: budget_call_def)

end
