(* ===== verification/BodyDepth.thy ===== *)
theory BodyDepth
  imports Json PyText
begin

text \<open>
  The cap on the nesting depth of request bodies (\<^verbatim>\<open>fusion_mlx/middleware/body_depth.py\<close>, with the
  same check in \<^verbatim>\<open>fusion_mlx/utils/json_depth.py\<close>): which requests are guarded, the byte scan that
  decides whether to parse at all, the check on the parsed value, and what the application
  then receives. Bytes are 8-bit characters. The environment variables are a map; the
  messages a client will send are a list, and a read past its end waits.
\<close>

section \<open>Configuration\<close>

type_synonym environment = "string \<Rightarrow> string option"

definition parse_int_or :: "string \<Rightarrow> int \<Rightarrow> int" where
  "parse_int_or raw d = (case py_int raw of None \<Rightarrow> d | Some n \<Rightarrow> n)"

definition env_get :: "environment \<Rightarrow> string \<Rightarrow> string" where
  "env_get env name = (case env name of None \<Rightarrow> [] | Some v \<Rightarrow> v)"

definition default_max_body_depth :: int where
  "default_max_body_depth = 64"

definition resolve_max_body_depth :: "environment \<Rightarrow> int" where
  "resolve_max_body_depth env =
     (let raw = strip (env_get env ''FUSION_MLX_MAX_BODY_DEPTH'')
      in if raw \<noteq> [] then parse_int_or raw default_max_body_depth
         else let legacy = strip (env_get env ''RAPID_MLX_MAX_BODY_DEPTH'')
              in if legacy \<noteq> [] then parse_int_or legacy default_max_body_depth
                 else default_max_body_depth)"

definition resolve_env_int :: "string \<Rightarrow> string \<Rightarrow> int \<Rightarrow> environment \<Rightarrow> int" where
  "resolve_env_int primary legacy d env =
     (let raw = strip (env_get env primary)
      in if raw \<noteq> [] then parse_int_or raw d
         else let raw2 = strip (env_get env legacy) in if raw2 \<noteq> [] then parse_int_or raw2 d else d)"

definition resolve_max_tool_schema_depth :: "environment \<Rightarrow> int" where
  "resolve_max_tool_schema_depth = resolve_env_int ''FUSION_MLX_MAX_TOOL_SCHEMA_DEPTH'' ''RAPID_MLX_MAX_TOOL_SCHEMA_DEPTH'' 64"

definition util_max_body_depth :: "environment \<Rightarrow> int" where
  "util_max_body_depth = resolve_env_int ''FUSION_MLX_MAX_BODY_DEPTH'' ''RAPID_MLX_MAX_BODY_DEPTH'' default_max_body_depth"

section \<open>The byte scan\<close>

text \<open>The loop over the bytes: nesting depth, its peak, and whether the scan is inside a string.\<close>

fun depth_scan :: "int \<Rightarrow> string \<Rightarrow> int \<Rightarrow> int \<Rightarrow> bool \<Rightarrow> bool \<Rightarrow> bool" where
  "depth_scan cap [] depth peak in_string escape_next = (peak \<ge> cap)"
| "depth_scan cap (b # bs) depth peak in_string escape_next =
     (if escape_next then depth_scan cap bs depth peak in_string False
      else if in_string then
        (if b = CHR 0x5C then depth_scan cap bs depth peak True True
         else if b = CHR 0x22 then depth_scan cap bs depth peak False False
         else depth_scan cap bs depth peak True False)
      else if b = CHR 0x22 then depth_scan cap bs depth peak True False
      else if b = CHR 0x7B \<or> b = CHR 0x5B then
        (if depth + 1 > peak
         then if depth + 1 \<ge> cap then True else depth_scan cap bs (depth + 1) (depth + 1) False False
         else depth_scan cap bs (depth + 1) peak False False)
      else if b = CHR 0x7D \<or> b = CHR 0x5D then depth_scan cap bs (depth - 1) peak False False
      else depth_scan cap bs depth peak False False)"

definition quick_depth_might_exceed :: "string \<Rightarrow> int \<Rightarrow> bool" where
  "quick_depth_might_exceed body max_depth = depth_scan (max_depth + 1) body 0 0 False False"

section \<open>The check on the parsed value\<close>

fun is_container :: "json \<Rightarrow> bool" where
  "is_container (JList _) = True"
| "is_container (JObj _) = True"
| "is_container _ = False"

fun child_values :: "json \<Rightarrow> json list" where
  "child_values (JList vs) = vs"
| "child_values (JObj d) = dict_values d"
| "child_values _ = []"

lemma child_weights: "sum_list (map (\<lambda>c. Suc (size c)) (filter P (child_values v))) < Suc (size v)"
proof -
  have "sum_list (map (\<lambda>c. Suc (size c)) (filter P vs)) \<le> size_list size vs" for vs :: "json list"
    by (induction vs) auto
  moreover have "sum_list (map (\<lambda>c. Suc (size c)) (filter P (dict_values d))) \<le> size_list (size_prod (\<lambda>_. 0) size) d"
    for d :: "(string \<times> json) list"
    by (induction d) auto
  ultimately show ?thesis by (cases v) (auto simp: less_Suc_eq_le le_SucI)
qed

text \<open>The explicit stack; its top is the head of the list, the last pushed child.\<close>

function exceeds_loop :: "int \<Rightarrow> (json \<times> int) list \<Rightarrow> bool" where
  "exceeds_loop m [] = False"
| "exceeds_loop m ((node, depth) # stack) =
     (if depth > m then True
      else exceeds_loop m (rev (map (\<lambda>v. (v, depth + 1)) (filter is_container (child_values node))) @ stack))"
  by pat_completeness auto
termination
proof (relation "measure (\<lambda>(m, stack). sum_list (map (\<lambda>p. Suc (size (fst p))) stack))", goal_cases)
  case 1
  then show ?case by simp
next
  case (2 m node depth stack)
  have "sum_list (map (\<lambda>p. Suc (size (fst p))) (rev (map (\<lambda>v. (v, depth + 1)) (filter is_container (child_values node))))) =
      sum_list (map (\<lambda>c. Suc (size c)) (filter is_container (child_values node)))"
    by (simp add: rev_map [symmetric] comp_def sum_list_rev)
  with child_weights [of is_container node] show ?case by (simp add: comp_def)
qed

definition json_nesting_depth_exceeds :: "json \<Rightarrow> int \<Rightarrow> bool" where
  "json_nesting_depth_exceeds obj max_depth =
     (if max_depth \<le> 0 then False
      else if \<not> is_container obj then False
      else exceeds_loop max_depth [(obj, 1)])"

section \<open>Which requests are guarded\<close>

definition guarded_methods :: "string list" where
  "guarded_methods = [''POST'', ''PUT'', ''PATCH'', ''DELETE'']"

definition guarded_prefixes :: "string list" where
  "guarded_prefixes = [''/v1/'', ''/internal/'', ''/anthropic/'', ''/distributed/'', ''/admin/'', ''/rpc'', ''/stats'']"

definition excluded_paths :: "string list" where
  "excluded_paths = [''/v1/audio/transcriptions'']"

definition json_content_type_optional_paths :: "string list" where
  "json_content_type_optional_paths = [''/v1/chat/completions'', ''/v1/completions'', ''/v1/embeddings'', ''/v1/messages'',
     ''/v1/messages/count_tokens'', ''/v1/responses'', ''/anthropic/v1/messages'']"

definition path_is_guarded :: "string option \<Rightarrow> bool" where
  "path_is_guarded path =
     (case path of
        None \<Rightarrow> False
      | Some p \<Rightarrow> p \<noteq> [] \<and> p \<notin> set excluded_paths \<and> (\<exists>prefix \<in> set guarded_prefixes. starts_with p prefix))"

definition content_type :: "(string \<times> string) list \<Rightarrow> string" where
  "content_type headers =
     (case find (\<lambda>h. map lower_byte (fst h) = ''content-type'') headers of
        None \<Rightarrow> [] | Some h \<Rightarrow> map lower_char (snd h))"

definition is_jsonish_content_type :: "(string \<times> string) list \<Rightarrow> string option \<Rightarrow> bool" where
  "is_jsonish_content_type headers path =
     (let ctype = content_type headers
      in if ctype = [] then (case path of None \<Rightarrow> False | Some p \<Rightarrow> p \<in> set json_content_type_optional_paths)
         else let primary = strip (takeWhile (\<lambda>c. c \<noteq> CHR '';'') ctype)
              in primary = ''application/json'' \<or>
                 starts_with primary ''application/'' \<and> ends_with primary ''+json'')"

section \<open>The middleware\<close>

text \<open>A message of the client: a piece of the body and whether more follows, or the end of the connection.\<close>

datatype asgi_message = Http_request string bool | Http_disconnect | Other_message

record http_scope =
  sc_type :: string
  sc_method :: "string option"
  sc_path :: "string option"
  sc_headers :: "(string \<times> string) list"

text \<open>
  What the application reads from: the client itself, the whole body once and then the client,
  or the pieces received before a disconnect, which repeats at their end.
\<close>

datatype receiver =
    From_client "asgi_message list"
  | Buffered bool string "asgi_message list"
  | Replayed nat "string list"

fun receive :: "receiver \<Rightarrow> asgi_message option \<times> receiver" where
  "receive (From_client []) = (None, From_client [])"
| "receive (From_client (m # ms)) = (Some m, From_client ms)"
| "receive (Buffered sent body ms) =
     (if \<not> sent then (Some (Http_request body False), Buffered True body ms)
      else case ms of [] \<Rightarrow> (None, Buffered True body []) | m # ms' \<Rightarrow> (Some m, Buffered True body ms'))"
| "receive (Replayed i chunks) =
     (if i < length chunks then (Some (Http_request (chunks ! i) True), Replayed (i + 1) chunks)
      else (Some Http_disconnect, Replayed i chunks))"

datatype collected = Complete "string list" "asgi_message list" | Disconnected "string list" | Waiting

fun collect_body :: "asgi_message list \<Rightarrow> string list \<Rightarrow> collected" where
  "collect_body [] chunks = Waiting"
| "collect_body (Http_request chunk again # ms) chunks =
     (let chunks1 = (if chunk \<noteq> [] then chunks @ [chunk] else chunks)
      in if again then collect_body ms chunks1 else Complete chunks1 ms)"
| "collect_body (Http_disconnect # ms) chunks = Disconnected chunks"
| "collect_body (Other_message # ms) chunks = collect_body ms (chunks @ [[]])"

text \<open>The results of \<open>json.loads\<close> on bytes; a decoding error of the text is not a \<open>JSONDecodeError\<close>.\<close>

datatype load_result = Parsed json | Decode_error | Recursion_error | Unicode_error

datatype sent_message = Response_start int "(string \<times> string) list" | Response_body string bool

definition depth_error_body :: "int \<Rightarrow> string" where
  "depth_error_body max_depth =
     ''{\"error\": {\"message\": \"Request body JSON nesting depth exceeds the '' @ int_str max_depth @
     ''-level server cap (set via FUSION_MLX_MAX_BODY_DEPTH).\", \"type\": \"invalid_request_error\", '' @
     ''\"code\": \"request_body_too_deep\", \"param\": null}}''"

definition send_400_depth :: "int \<Rightarrow> sent_message list" where
  "send_400_depth max_depth =
     (let body = depth_error_body max_depth
      in [Response_start 400 [(''content-type'', ''application/json''), (''content-length'', int_str (int (length body)))],
          Response_body body False])"

datatype verdict = Call_app receiver | Reject "sent_message list" | Uncaught | Waits

definition body_depth_call ::
  "environment \<Rightarrow> (string \<Rightarrow> load_result) \<Rightarrow> http_scope \<Rightarrow> asgi_message list \<Rightarrow> verdict" where
  "body_depth_call env loads scope ms =
     (if sc_type scope \<noteq> ''http'' then Call_app (From_client ms)
      else if (case sc_method scope of None \<Rightarrow> True | Some me \<Rightarrow> me \<notin> set guarded_methods) then Call_app (From_client ms)
      else if \<not> path_is_guarded (sc_path scope) then Call_app (From_client ms)
      else
        let max_depth = resolve_max_body_depth env in
        if max_depth \<le> 0 then Call_app (From_client ms)
        else if \<not> is_jsonish_content_type (sc_headers scope) (sc_path scope) then Call_app (From_client ms)
        else case collect_body ms [] of
          Waiting \<Rightarrow> Waits
        | Disconnected chunks \<Rightarrow> Call_app (Replayed 0 chunks)
        | Complete chunks rest \<Rightarrow>
            let body = concat chunks in
            if list_all space_byte body then Call_app (Buffered False body rest)
            else if \<not> quick_depth_might_exceed body max_depth then Call_app (Buffered False body rest)
            else case loads body of
              Decode_error \<Rightarrow> Call_app (Buffered False body rest)
            | Unicode_error \<Rightarrow> Uncaught
            | Recursion_error \<Rightarrow> Reject (send_400_depth max_depth)
            | Parsed v \<Rightarrow>
                if json_nesting_depth_exceeds v max_depth then Reject (send_400_depth max_depth)
                else Call_app (Buffered False body rest))"

end
