(* ===== verification/BodySize.thy ===== *)
theory BodySize
  imports BodyDepth Complex_Main
begin

text \<open>
  The cap on the size of request bodies, \<^verbatim>\<open>src/fusion_mlx/middleware/body_size.py\<close>: an application
  is called with a \<open>receive\<close> that counts bytes and gives up on a silent client, and a \<open>send\<close> that
  may replace the response. The application is any process over these two calls; it may catch what
  \<open>receive\<close> raises. Sending to the server does not fail.
\<close>

section \<open>Configuration\<close>

definition default_max_request_bytes :: int where
  "default_max_request_bytes = 8 * 1024 * 1024"

definition default_receive_timeout :: rat where
  "default_receive_timeout = 15"

definition limited_prefixes :: "string list" where
  "limited_prefixes = [''/v1/'', ''/internal/'', ''/anthropic/'', ''/distributed/'', ''/admin/'', ''/rpc'', ''/stats'']"

definition unlimited_paths :: "string list" where
  "unlimited_paths = [''/v1/audio/transcriptions'']"

definition path_is_limited :: "string option \<Rightarrow> bool" where
  "path_is_limited path = (case path of
       None \<Rightarrow> False
     | Some p \<Rightarrow> p \<noteq> [] \<and> p \<notin> set unlimited_paths \<and> list_ex (\<lambda>prefix. starts_with p prefix) limited_prefixes)"

text \<open>
  The value of the environment, then that of the configuration (\<open>None\<close> if reading it raises); zero
  stands for the default. \<open>parse\<close> is Python's \<open>float\<close> of a text, without a value where that is not a finite number.
\<close>

definition resolve_limit :: "environment \<Rightarrow> int option \<Rightarrow> int" where
  "resolve_limit env config =
     (let raw = strip (env_get env ''FUSION_MLX_MAX_REQUEST_BYTES'');
          from_config = (case config of None \<Rightarrow> default_max_request_bytes
            | Some cap \<Rightarrow> (if 0 < cap then cap else default_max_request_bytes))
      in case (if raw = [] then None else py_int raw) of
           None \<Rightarrow> from_config
         | Some cap \<Rightarrow> (if 0 < cap then cap else if cap = 0 then default_max_request_bytes else from_config))"

definition resolve_receive_timeout :: "environment \<Rightarrow> (string \<Rightarrow> rat option) \<Rightarrow> rat option \<Rightarrow> rat" where
  "resolve_receive_timeout env parse config =
     (let raw = strip (env_get env ''FUSION_MLX_BODY_RECEIVE_TIMEOUT_SECONDS'');
          from_config = (case config of None \<Rightarrow> default_receive_timeout
            | Some t \<Rightarrow> (if 0 < t then t else if t = 0 then default_receive_timeout else 0))
      in case (if raw = [] then None else parse raw) of
           None \<Rightarrow> from_config
         | Some t \<Rightarrow> (if 0 < t then t else if t = 0 then default_receive_timeout else from_config))"

definition advertised_length :: "(string \<times> string) list \<Rightarrow> int option" where
  "advertised_length headers =
     (case find (\<lambda>h. map lower_byte (fst h) = ''content-length'') headers of
        None \<Rightarrow> None | Some h \<Rightarrow> py_int (strip (snd h)))"

section \<open>Applications and clients\<close>

datatype asgi_error = Body_too_large int | Receive_timed_out int | Other_error

datatype recv_result = Got asgi_message | Threw asgi_error

codatatype asgi_app =
    Finish
  | Fail asgi_error
  | Send sent_message asgi_app
  | Receive "recv_result \<Rightarrow> asgi_app"

text \<open>What the client does: a message, or a silence as long as the time limit. Behind the last of
  these it is silent for ever.\<close>

datatype client_event = Message asgi_message | Pause

datatype read_result = Read asgi_message | Silence | Waits_for_ever

fun read_client :: "bool \<Rightarrow> client_event list \<Rightarrow> read_result \<times> client_event list" where
  "read_client timed [] = (if timed then Silence else Waits_for_ever, [])"
| "read_client timed (Message m # es) = (Read m, es)"
| "read_client timed (Pause # es) = (if timed then (Silence, es) else read_client timed es)"

text \<open>The variables of one request, with what the application was given and has tried to send.\<close>

record limit_state =
  ls_client :: "client_event list"
  ls_total :: int
  ls_started :: bool
  ls_completed :: bool
  ls_body_complete :: bool
  ls_tripped :: "int option"
  ls_replaced :: bool
  ls_out :: "sent_message list"
  ls_given :: "asgi_message list"
  ls_tried :: "sent_message list"

definition new_request :: "client_event list \<Rightarrow> limit_state" where
  "new_request client = \<lparr>ls_client = client, ls_total = 0, ls_started = False, ls_completed = False,
     ls_body_complete = False, ls_tripped = None, ls_replaced = False, ls_out = [], ls_given = [], ls_tried = []\<rparr>"

section \<open>The wrapped calls\<close>

record limit_config =
  lc_limit :: int
  lc_timeout :: rat
  lc_show :: "rat \<Rightarrow> string"

definition give :: "asgi_message \<Rightarrow> limit_state \<Rightarrow> recv_result \<times> limit_state" where
  "give m s = (Got m, s\<lparr>ls_given := ls_given s @ [m]\<rparr>)"

definition bounded_receive :: "limit_config \<Rightarrow> limit_state \<Rightarrow> (recv_result \<times> limit_state) option" where
  "bounded_receive g s =
     (case read_client (0 < lc_timeout g \<and> \<not> ls_body_complete s) (ls_client s) of
        (Waits_for_ever, _) \<Rightarrow> None
      | (Silence, es) \<Rightarrow> Some (Threw (Receive_timed_out (ls_total s)), s\<lparr>ls_client := es, ls_tripped := Some (ls_total s)\<rparr>)
      | (Read m, es) \<Rightarrow>
          (let s1 = s\<lparr>ls_client := es\<rparr>
           in Some (case m of
                Http_request body again \<Rightarrow>
                  (let s2 = s1\<lparr>ls_total := ls_total s1 + int (length body)\<rparr>
                   in if 0 < lc_limit g \<and> lc_limit g < ls_total s2 then (Threw (Body_too_large (ls_total s2)), s2)
                      else give m (if again then s2 else s2\<lparr>ls_body_complete := True\<rparr>))
              | _ \<Rightarrow> give m s1)))"

definition server_send :: "sent_message \<Rightarrow> limit_state \<Rightarrow> limit_state" where
  "server_send m s = s\<lparr>ls_out := ls_out s @ [m]\<rparr>"

definition format_408_body :: "limit_config \<Rightarrow> int \<Rightarrow> string" where
  "format_408_body g streamed =
     ''{\"error\": {\"message\": \"Request timed out: no body bytes received for '' @ lc_show g (lc_timeout g) @
     ''s (streamed='' @ int_str streamed @ '' bytes).\", \"type\": \"invalid_request_error\", '' @
     ''\"code\": \"request_timeout\", \"param\": null}}''"

definition response_408 :: "limit_config \<Rightarrow> int \<Rightarrow> sent_message list" where
  "response_408 g streamed =
     (let body = format_408_body g streamed
      in [Response_start 408 [(''content-type'', ''application/json''), (''content-length'', int_str (int (length body))),
            (''connection'', ''close'')],
          Response_body body False])"

definition format_message :: "int option \<Rightarrow> int \<Rightarrow> int \<Rightarrow> string" where
  "format_message advertised limit streamed = (case advertised of
       None \<Rightarrow> ''Request body too large: streamed '' @ int_str streamed @ '' bytes exceeded the '' @ int_str limit @ ''-byte server cap.''
     | Some n \<Rightarrow> ''Request body too large: Content-Length '' @ int_str n @ '' bytes exceeds the '' @ int_str limit @ ''-byte server cap.'')"

definition response_413 :: "int option \<Rightarrow> int \<Rightarrow> int \<Rightarrow> sent_message list" where
  "response_413 advertised limit streamed =
     (let body = ''{\"error\": {\"message\": \"'' @ format_message advertised limit streamed @
            ''\", \"type\": \"invalid_request_error\", \"code\": \"request_too_large\", \"param\": null}}''
      in [Response_start 413 [(''content-type'', ''application/json''), (''content-length'', int_str (int (length body)))],
          Response_body body False])"

definition note_sent :: "sent_message \<Rightarrow> limit_state \<Rightarrow> limit_state" where
  "note_sent m s = (case m of
       Response_start _ _ \<Rightarrow> s\<lparr>ls_started := True\<rparr>
     | Response_body _ again \<Rightarrow> (if again then s else s\<lparr>ls_completed := True\<rparr>))"

definition guarded_send :: "limit_config \<Rightarrow> sent_message \<Rightarrow> limit_state \<Rightarrow> limit_state" where
  "guarded_send g m s0 =
     (let s = s0\<lparr>ls_tried := ls_tried s0 @ [m]\<rparr>
      in if ls_replaced s then s
         else case (ls_tripped s, m) of
           (Some streamed, Response_start _ _) \<Rightarrow>
             (if ls_completed s then server_send m (note_sent m s)
              else (fold server_send (response_408 g streamed) (s\<lparr>ls_started := True\<rparr>))\<lparr>ls_completed := True, ls_replaced := True\<rparr>)
         | (Some _, Response_body _ _) \<Rightarrow>
             (if ls_completed s then server_send m (note_sent m s) else s\<lparr>ls_replaced := True\<rparr>)
         | (None, _) \<Rightarrow> server_send m (note_sent m s))"

section \<open>Running an application\<close>

datatype run_result = Running | Waiting | Ended | Raised asgi_error

text \<open>A number of calls of the application, over any \<open>receive\<close> and \<open>send\<close>.\<close>

fun run_app ::
  "(limit_state \<Rightarrow> (recv_result \<times> limit_state) option) \<Rightarrow> (sent_message \<Rightarrow> limit_state \<Rightarrow> limit_state) \<Rightarrow> nat \<Rightarrow>
     asgi_app \<Rightarrow> limit_state \<Rightarrow> run_result \<times> limit_state" where
  "run_app rcv snd_to 0 app s = (Running, s)"
| "run_app rcv snd_to (Suc n) app s = (case app of
       Finish \<Rightarrow> (Ended, s)
     | Fail e \<Rightarrow> (Raised e, s)
     | Send m k \<Rightarrow> run_app rcv snd_to n k (snd_to m s)
     | Receive k \<Rightarrow> (case rcv s of None \<Rightarrow> (Waiting, s) | Some (r, s1) \<Rightarrow> run_app rcv snd_to n (k r) s1))"

definition plain_receive :: "limit_state \<Rightarrow> (recv_result \<times> limit_state) option" where
  "plain_receive s = (case read_client False (ls_client s) of
       (Read m, es) \<Rightarrow> Some (give m (s\<lparr>ls_client := es\<rparr>)) | _ \<Rightarrow> None)"

text \<open>The two handlers around the application.\<close>

definition end_response :: "sent_message list \<Rightarrow> limit_state \<Rightarrow> limit_state" where
  "end_response answer s =
     (if ls_completed s then s
      else if ls_started s then server_send (Response_body [] False) s
      else fold server_send answer s)"

definition handle_error :: "limit_config \<Rightarrow> run_result \<times> limit_state \<Rightarrow> run_result \<times> limit_state" where
  "handle_error g r = (case r of
       (Raised (Receive_timed_out streamed), s) \<Rightarrow> (Ended, end_response (response_408 g streamed) s)
     | (Raised (Body_too_large streamed), s) \<Rightarrow> (Ended, end_response (response_413 None (lc_limit g) streamed) s)
     | _ \<Rightarrow> r)"

definition body_limit_call ::
  "environment \<Rightarrow> (string \<Rightarrow> rat option) \<Rightarrow> (rat \<Rightarrow> string) \<Rightarrow> int option \<Rightarrow> rat option \<Rightarrow> http_scope \<Rightarrow>
     asgi_app \<Rightarrow> nat \<Rightarrow> client_event list \<Rightarrow> run_result \<times> limit_state" where
  "body_limit_call env parse shw max_bytes max_wait scope app n client =
     (let plain = run_app plain_receive server_send n app (new_request client)
      in if sc_type scope \<noteq> ''http'' then plain
         else if (case sc_method scope of None \<Rightarrow> True | Some m \<Rightarrow> m \<notin> set guarded_methods) then plain
         else
           let timeout = resolve_receive_timeout env parse max_wait;
               limit = (if path_is_limited (sc_path scope) then resolve_limit env max_bytes else 0);
               g = \<lparr>lc_limit = limit, lc_timeout = timeout, lc_show = shw\<rparr>
           in if limit = 0 \<and> timeout \<le> 0 then plain
              else case advertised_length (sc_headers scope) of
                Some a \<Rightarrow>
                  (if 0 < limit \<and> limit < a then (Ended, fold server_send (response_413 (Some a) limit 0) (new_request client))
                   else handle_error g (run_app (bounded_receive g) (guarded_send g) n app (new_request client)))
              | None \<Rightarrow> handle_error g (run_app (bounded_receive g) (guarded_send g) n app (new_request client)))"

end
