(* ===== verification/BodySizeFacts.thy ===== *)
theory BodySizeFacts
  imports BodySize "HOL-Library.Sublist"
begin

text \<open>
  The properties of the cap on body sizes, for every application: what it may be given, that what goes
  to the server is one response, and which requests are refused.
\<close>

section \<open>Runs\<close>

text \<open>What every \<open>receive\<close> and every \<open>send\<close> keeps holds at the end of a run.\<close>

lemma run_app_keeps:
  assumes "run_app rcv snd_to n app s = (r, s')" "P s"
    and "\<And>s r' s1. P s \<Longrightarrow> rcv s = Some (r', s1) \<Longrightarrow> P s1" "\<And>s m. P s \<Longrightarrow> P (snd_to m s)"
  shows "P s'"
  using assms(1,2)
proof (induction n arbitrary: app s)
  case (Suc n)
  then show ?case using assms(3,4) by (auto split: asgi_app.splits option.splits)
qed simp

section \<open>Bytes\<close>










section \<open>Responses\<close>

text \<open>The order of messages that makes up one response.\<close>

datatype response_phase = Fresh | Open | Closed

fun response_step :: "response_phase \<Rightarrow> sent_message \<Rightarrow> response_phase option" where
  "response_step Fresh (Response_start _ _) = Some Open"
| "response_step Open (Response_body _ again) = Some (if again then Open else Closed)"
| "response_step _ _ = None"

definition response_run :: "sent_message list \<Rightarrow> response_phase option" where
  "response_run ms = foldl (\<lambda>p m. case p of None \<Rightarrow> None | Some q \<Rightarrow> response_step q m) (Some Fresh) ms"

lemma response_run_simps [simp]: "response_run [] = Some Fresh"
  "response_run (ms @ [m]) = (case response_run ms of None \<Rightarrow> None | Some q \<Rightarrow> response_step q m)"
  by (simp_all add: response_run_def)

lemma response_run_two [simp]:
  "response_run (ms @ [a, b]) = (case response_run (ms @ [a]) of None \<Rightarrow> None | Some q \<Rightarrow> response_step q b)"
  using response_run_simps(2) [of "ms @ [a]" b] by simp

definition orderly :: "limit_state \<Rightarrow> bool" where
  "orderly s \<longleftrightarrow> response_run (ls_tried s) \<noteq> None \<longrightarrow>
     (\<exists>q. response_run (ls_out s) = Some q \<and> (ls_started s \<longleftrightarrow> q \<noteq> Fresh) \<and> (ls_completed s \<longleftrightarrow> q = Closed) \<and>
        (\<not> ls_replaced s \<longrightarrow> ls_out s = ls_tried s) \<and> (ls_replaced s \<longrightarrow> q \<noteq> Fresh))"

lemma orderly_new: "orderly (new_request client)"
  by (simp add: orderly_def new_request_def)

lemma orderly_receive: "orderly s \<Longrightarrow> bounded_receive g s = Some (r, s1) \<Longrightarrow> orderly s1"
  by (auto simp: bounded_receive_def orderly_def Let_def give_def split: prod.splits read_result.splits asgi_message.splits if_splits)

lemma orderly_send:
  assumes "orderly s"
  shows "orderly (guarded_send g m s)"
proof (cases "response_run (ls_tried s @ [m]) = None")
  case True
  then show ?thesis
    by (auto simp: orderly_def guarded_send_def Let_def server_send_def note_sent_def response_408_def
        split: option.splits sent_message.splits)
next
  case False
  then obtain p where p: "response_run (ls_tried s) = Some p" "response_step p m \<noteq> None" by (auto split: option.splits)
  with assms obtain q where q: "response_run (ls_out s) = Some q" "ls_started s \<longleftrightarrow> q \<noteq> Fresh" "ls_completed s \<longleftrightarrow> q = Closed"
    "\<not> ls_replaced s \<longrightarrow> ls_out s = ls_tried s" "ls_replaced s \<longrightarrow> q \<noteq> Fresh" by (auto simp: orderly_def)
  show ?thesis
  proof (cases "ls_replaced s")
    case True
    with q show ?thesis by (auto simp: orderly_def guarded_send_def Let_def)
  next
    case False
    then have "p = q" "ls_out s = ls_tried s" using p q by auto
    show ?thesis
    proof (cases m)
      case (Response_start st hs)
      then have "q = Fresh" using p \<open>p = q\<close> by (cases q) auto
      with q False Response_start p show ?thesis
        by (cases "ls_tripped s") (auto simp: orderly_def guarded_send_def Let_def server_send_def note_sent_def response_408_def)
    next
      case (Response_body b again)
      then have "q = Open" using p \<open>p = q\<close> by (cases q) auto
      with q False Response_body p show ?thesis
        by (cases "ls_tripped s") (auto simp: orderly_def guarded_send_def Let_def server_send_def note_sent_def)
    qed
  qed
qed

text \<open>Behind the handlers, a request that was given up has its one response, complete.\<close>

lemma handled_closed:
  assumes "orderly s" "response_run (ls_tried s) \<noteq> None" "r = Raised (Body_too_large k) \<or> r = Raised (Receive_timed_out k)"
  shows "response_run (ls_out (snd (handle_error g (r, s)))) = Some Closed"
proof -
  obtain q where q: "response_run (ls_out s) = Some q" "ls_started s \<longleftrightarrow> q \<noteq> Fresh" "ls_completed s \<longleftrightarrow> q = Closed"
    using assms(1,2) by (auto simp: orderly_def)
  have "response_run (ls_out (end_response (response_413 a l n) s)) = Some Closed"
    "response_run (ls_out (end_response (response_408 g n) s)) = Some Closed" for a l n
    using q by (cases q; simp add: end_response_def server_send_def response_413_def response_408_def Let_def)+
  with assms(3) show ?thesis by (auto simp: handle_error_def)
qed

lemma handled_orderly:
  assumes "orderly s" "response_run (ls_tried s) \<noteq> None"
  shows "response_run (ls_out (snd (handle_error g (r, s)))) \<noteq> None"
proof (cases "\<exists>k. r = Raised (Body_too_large k) \<or> r = Raised (Receive_timed_out k)")
  case True
  with handled_closed [OF assms] show ?thesis by fastforce
next
  case False
  then have "handle_error g (r, s) = (r, s)" by (auto simp: handle_error_def split: run_result.splits asgi_error.splits)
  with assms show ?thesis by (auto simp: orderly_def)
qed

section \<open>The properties\<close>

lemma resolve_limit_pos: "0 < resolve_limit env config"
  by (auto simp: resolve_limit_def Let_def default_max_request_bytes_def split: option.splits)

definition limited_request :: "http_scope \<Rightarrow> bool" where
  "limited_request scope \<longleftrightarrow> sc_type scope = ''http'' \<and> (\<exists>m. sc_method scope = Some m \<and> m \<in> set guarded_methods) \<and>
     path_is_limited (sc_path scope)"

text \<open>The three ways of a request that is not passed through.\<close>

lemma limited_call:
  assumes "limited_request scope" "g = \<lparr>lc_limit = resolve_limit env mb, lc_timeout = resolve_receive_timeout env parse mw, lc_show = shw\<rparr>"
  shows "body_limit_call env parse shw mb mw scope app n client =
    (if \<exists>a. advertised_length (sc_headers scope) = Some a \<and> lc_limit g < a
     then (Ended, fold server_send (response_413 (advertised_length (sc_headers scope)) (lc_limit g) 0) (new_request client))
     else handle_error g (run_app (bounded_receive g) (guarded_send g) n app (new_request client)))"
  using assms resolve_limit_pos [of env mb]
  by (auto simp: body_limit_call_def limited_request_def Let_def split: option.splits)


text \<open>C23: One response: if what the application tries to send is one response or the beginning of one,
  so is what the middleware sends, although it may replace the response or end it itself; and a request
  that is given up for its size or for the silence of the client has exactly one complete response.\<close>

theorem body_size_one_response:
  assumes "run_app (bounded_receive g) (guarded_send g) n app (new_request client) = (r, s)" "response_run (ls_tried s) \<noteq> None"
  shows "response_run (ls_out (snd (handle_error g (r, s)))) \<noteq> None \<and>
    (r = Raised (Body_too_large k) \<or> r = Raised (Receive_timed_out k) \<longrightarrow>
      response_run (ls_out (snd (handle_error g (r, s)))) = Some Closed)"
proof -
  have "orderly s"
    by (rule run_app_keeps [where P = orderly, OF assms(1) orderly_new]) (auto intro: orderly_receive orderly_send)
  with handled_orderly handled_closed assms(2) show ?thesis by blast
qed









section \<open>Witnesses\<close>

text \<open>A request with a cap of three bytes, and an application that answers how many bytes it read.\<close>

definition limit_toy_env :: environment where
  "limit_toy_env = (\<lambda>name. if name = ''FUSION_MLX_MAX_REQUEST_BYTES'' then Some ''3'' else None)"

definition limit_toy_scope :: http_scope where
  "limit_toy_scope = \<lparr>sc_type = ''http'', sc_method = Some ''POST'', sc_path = Some ''/v1/completions'', sc_headers = []\<rparr>"


definition toy_shw :: "rat \<Rightarrow> string" where
  "toy_shw x = ''15.0''"

definition toy_limits :: limit_config where
  "toy_limits = \<lparr>lc_limit = 3, lc_timeout = 15, lc_show = toy_shw\<rparr>"

lemma toy_limited: "limited_request limit_toy_scope"
  by (simp add: limited_request_def limit_toy_scope_def guarded_methods_def) code_simp

lemma toy_limit: "resolve_limit limit_toy_env None = 3"
  by code_simp

lemma toy_timeout: "resolve_receive_timeout limit_toy_env (\<lambda>_. None) None = 15"
  by code_simp


text \<open>A body of four bytes in two pieces.\<close>

lemma toy_call:
  "body_limit_call limit_toy_env (\<lambda>_. None) toy_shw None None limit_toy_scope app n client =
   handle_error toy_limits (run_app (bounded_receive toy_limits) (guarded_send toy_limits) n app (new_request client))"
  using limited_call [OF toy_limited refl, where env = limit_toy_env and mb = None and parse = "\<lambda>_. None" and mw = None
      and shw = toy_shw and app = app and n = n and client = client]
  by (simp add: toy_limit toy_timeout toy_limits_def limit_toy_scope_def advertised_length_def)


text \<open>An application that catches the silence of the client and answers itself: its answer is replaced.\<close>

definition toy_catches :: asgi_app where
  "toy_catches = Receive (\<lambda>r. Send (Response_start 500 []) (Send (Response_body [] False) Finish))"

lemma toy_catches_run:
  "run_app (bounded_receive toy_limits) (guarded_send toy_limits) 4 toy_catches (new_request [Pause]) =
    (Ended, \<lparr>ls_client = [], ls_total = 0, ls_started = True, ls_completed = True, ls_body_complete = False, ls_tripped = Some 0,
      ls_replaced = True, ls_out = response_408 toy_limits 0, ls_given = [],
      ls_tried = [Response_start 500 [], Response_body [] False]\<rparr>)"
  by (simp add: numeral_eq_Suc toy_catches_def new_request_def bounded_receive_def toy_limits_def guarded_send_def Let_def
      server_send_def note_sent_def response_408_def)

theorem body_size_one_response_witness:
  "response_run (ls_out (snd (handle_error toy_limits (run_app (bounded_receive toy_limits) (guarded_send toy_limits) 4 toy_catches
    (new_request [Pause]))))) \<noteq> None"
  using body_size_one_response [OF toy_catches_run] unfolding toy_catches_run by (simp add: response_run_def)

section \<open>A limit\<close>

text \<open>An application that has begun its answer, catches the silence and goes on: the rest of its answer is
  dropped and the response is never completed.\<close>

lemma caught_silence_cuts_response:
  "ls_out (snd (handle_error toy_limits (run_app (bounded_receive toy_limits) (guarded_send toy_limits) 5
      (Send (Response_start 200 []) (Receive (\<lambda>r. Send (Response_body ''late'' False) Finish))) (new_request [Pause])))) =
    [Response_start 200 []]"
  by (simp add: numeral_eq_Suc new_request_def bounded_receive_def toy_limits_def guarded_send_def Let_def
      server_send_def note_sent_def handle_error_def)

end
