(* ===== verification/RadixIndex.thy ===== *)
theory RadixIndex
  imports Json
begin

text \<open>
  \<open>RadixPrefixIndex\<close> of \<^verbatim>\<open>fusion_mlx/runtime/radix_index.py\<close>: the token trie that looks up the longest
  stored prefix of a request. The nodes form a tree that nothing else shares, so the in-place
  updates along a path are a rebuilt path here. Times are read by the caller of the model and
  passed in as \<open>ns\<close>; a file is its parsed content (\<open>json\<close>), or nothing.
\<close>

section \<open>State\<close>

datatype radix_node = Node (children: "(int \<times> radix_node) list") (is_terminal: bool) (node_refs: int)

record radix_stats =
  rs_hits :: int
  rs_misses :: int
  rs_inserts :: int
  rs_removes :: int
  rs_deduped :: int
  rs_node_count :: int
  rs_entry_count :: int
  rs_max_depth :: int
  rs_recent :: "int list"

record radix_index =
  root :: radix_node
  rstats :: radix_stats

definition new_node :: radix_node where
  "new_node = Node [] False 0"

definition fresh_radix_stats :: radix_stats where
  "fresh_radix_stats = \<lparr>rs_hits = 0, rs_misses = 0, rs_inserts = 0, rs_removes = 0, rs_deduped = 0,
     rs_node_count = 0, rs_entry_count = 0, rs_max_depth = 0, rs_recent = []\<rparr>"

definition radix_new :: radix_index where
  "radix_new = \<lparr>root = new_node, rstats = fresh_radix_stats\<rparr>"

text \<open>The deque of the last 256 lookup times.\<close>

definition record_lookup :: "int \<Rightarrow> radix_stats \<Rightarrow> radix_stats" where
  "record_lookup ns st = (let xs = rs_recent st @ [ns] in st\<lparr>rs_recent := drop (length xs - 256) xs\<rparr>)"

definition lookup_p50 :: "radix_stats \<Rightarrow> rat" where
  "lookup_p50 st = (if rs_recent st = [] then 0
     else let s = sort (rs_recent st) in of_int (s ! (length s div 2)) / 1000000000)"

text \<open>\<open>int(len(s) * 0.99)\<close> is \<open>length s * 99 div 100\<close> for all lengths up to 256.\<close>

definition lookup_p99 :: "radix_stats \<Rightarrow> rat" where
  "lookup_p99 st = (if rs_recent st = [] then 0
     else let s = sort (rs_recent st) in of_int (s ! (length s * 99 div 100 - 1)) / 1000000000)"

section \<open>Mutation\<close>

definition bytes_per_token :: int where
  "bytes_per_token = 4"

text \<open>The loop of \<open>insert\<close> below a node, and the marking of its last node.\<close>

fun insert_walk ::
  "int list \<Rightarrow> int \<Rightarrow> int \<Rightarrow> bool \<Rightarrow> radix_node \<Rightarrow> radix_stats \<Rightarrow> radix_node \<times> int \<times> radix_stats" where
  "insert_walk [] depth shared still (Node cs t r) st =
     (Node cs True r, shared, if t then st else st\<lparr>rs_entry_count := rs_entry_count st + 1\<rparr>)"
| "insert_walk (tok # toks) depth shared still (Node cs t r) st =
     (let (child, still1, shared1, st1) =
            (case map_of cs tok of
               None \<Rightarrow> (new_node, False, shared, st\<lparr>rs_node_count := rs_node_count st + 1\<rparr>)
             | Some c \<Rightarrow> (c, still, if still then shared + 1 else shared, st));
          child1 = Node (children child) (is_terminal child) (node_refs child + 1);
          st2 = (if depth > rs_max_depth st1 then st1\<lparr>rs_max_depth := depth\<rparr> else st1);
          (child2, shared2, st3) = insert_walk toks (depth + 1) shared1 still1 child1 st2
      in (Node (dict_set tok child2 cs) t r, shared2, st3))"

definition radix_insert :: "int list \<Rightarrow> radix_index \<Rightarrow> radix_index" where
  "radix_insert tokens x =
     (if tokens = [] then x
      else let (n, shared, st) = insert_walk tokens 1 0 True (root x) (rstats x)
           in x\<lparr>root := n, rstats := st\<lparr>rs_inserts := rs_inserts st + 1,
                rs_deduped := rs_deduped st + shared * bytes_per_token\<rparr>\<rparr>)"

text \<open>
  The way down and the way back of \<open>remove\<close>: the new node and the number of pruned nodes, or
  \<open>None\<close> when the path is missing or ends at a node that is not terminal.
\<close>

fun remove_walk :: "int list \<Rightarrow> radix_node \<Rightarrow> (radix_node \<times> int) option" where
  "remove_walk [] (Node cs t r) = (if t then Some (Node cs False r, 0) else None)"
| "remove_walk (tok # toks) (Node cs t r) =
     (case map_of cs tok of
        None \<Rightarrow> None
      | Some c \<Rightarrow>
          (case remove_walk toks c of
             None \<Rightarrow> None
           | Some (Node cs1 t1 r1, pruned) \<Rightarrow>
               if r1 - 1 \<le> 0 \<and> cs1 = []
               then Some (Node (dict_del tok cs) t r, pruned + 1)
               else Some (Node (dict_set tok (Node cs1 t1 (r1 - 1)) cs) t r, pruned)))"

definition radix_remove :: "int list \<Rightarrow> radix_index \<Rightarrow> bool \<times> radix_index" where
  "radix_remove tokens x =
     (if tokens = [] then (False, x)
      else case remove_walk tokens (root x) of
        None \<Rightarrow> (False, x)
      | Some (n, pruned) \<Rightarrow>
          (True, x\<lparr>root := n, rstats := (rstats x)\<lparr>rs_entry_count := rs_entry_count (rstats x) - 1,
             rs_removes := rs_removes (rstats x) + 1,
             rs_node_count := rs_node_count (rstats x) - pruned\<rparr>\<rparr>))"

definition radix_clear :: "radix_index \<Rightarrow> radix_index" where
  "radix_clear x = x\<lparr>root := new_node, rstats := (rstats x)\<lparr>rs_node_count := 0, rs_entry_count := 0, rs_max_depth := 0\<rparr>\<rparr>"

definition rebuild_from_keys :: "int list list \<Rightarrow> radix_index \<Rightarrow> radix_index" where
  "rebuild_from_keys keys x = fold radix_insert keys (radix_clear x)"

section \<open>Lookup\<close>

fun lookup_walk :: "int list \<Rightarrow> radix_node \<Rightarrow> int list \<Rightarrow> nat \<Rightarrow> int list \<times> nat" where
  "lookup_walk [] node matched last_depth = (matched, last_depth)"
| "lookup_walk (tok # toks) node matched last_depth =
     (case map_of (children node) tok of
        None \<Rightarrow> (matched, last_depth)
      | Some c \<Rightarrow>
          lookup_walk toks c (matched @ [tok])
            (if is_terminal c then length (matched @ [tok]) else last_depth))"

definition longest_prefix :: "int list \<Rightarrow> int \<Rightarrow> radix_index \<Rightarrow> (int list \<times> int list option) \<times> radix_index" where
  "longest_prefix query ns x =
     (let (matched, d) = lookup_walk query (root x) [] 0;
          st = record_lookup ns (rstats x)
      in if d > 0 then ((take d matched, Some (take d matched)), x\<lparr>rstats := st\<lparr>rs_hits := rs_hits st + 1\<rparr>\<rparr>)
         else ((matched, None), x\<lparr>rstats := st\<lparr>rs_misses := rs_misses st + 1\<rparr>\<rparr>))"

fun ends_at :: "int list \<Rightarrow> radix_node \<Rightarrow> bool" where
  "ends_at [] node = is_terminal node"
| "ends_at (tok # toks) node =
     (case map_of (children node) tok of None \<Rightarrow> False | Some c \<Rightarrow> ends_at toks c)"

definition radix_contains :: "int list \<Rightarrow> radix_index \<Rightarrow> bool" where
  "radix_contains tokens x = ends_at tokens (root x)"

definition radix_len :: "radix_index \<Rightarrow> int" where
  "radix_len x = rs_entry_count (rstats x)"

section \<open>Persistence\<close>

fun node_size :: "radix_node \<Rightarrow> nat" where
  "node_size (Node cs t r) = Suc (sum_list (map (\<lambda>p. node_size (snd p)) cs))"

lemma sum_list_rev_sizes: "sum_list (map f (rev xs)) = sum_list (map f xs)" for f :: "'a \<Rightarrow> nat"
  by (induction xs) auto

text \<open>The explicit stack of the depth-first walk; its top is the head of the list.\<close>

function collect_walk :: "(radix_node \<times> int list) list \<Rightarrow> int list list \<Rightarrow> int list list" where
  "collect_walk [] out = out"
| "collect_walk ((Node cs t r, path) # stack) out =
     collect_walk (rev (map (\<lambda>(tok, c). (c, path @ [tok])) cs) @ stack) (if t then out @ [path] else out)"
  by pat_completeness auto

termination
proof (relation "measure (\<lambda>(stack, out). sum_list (map (\<lambda>p. node_size (fst p)) stack))", goal_cases)
  case 1
  then show ?case by simp
next
  case (2 cs t r path stack out)
  have "sum_list (map ((\<lambda>p. node_size (fst p)) \<circ> (\<lambda>(tok, c). (c, path @ [tok]))) cs) =
      sum_list (map (\<lambda>p. node_size (snd p)) cs)"
    by (intro arg_cong [where f = sum_list] map_cong) auto
  then show ?case by (simp add: rev_map [symmetric] sum_list_rev_sizes)
qed

definition collect_terminal_keys :: "radix_index \<Rightarrow> int list list" where
  "collect_terminal_keys x = collect_walk [(root x, [])] []"

text \<open>In Python a boolean is an integer, and \<open>1.0 == True == 1\<close>.\<close>

definition as_int :: "json \<Rightarrow> int option" where
  "as_int v = (case v of JInt i \<Rightarrow> Some i | JBool b \<Rightarrow> Some (if b then 1 else 0) | _ \<Rightarrow> None)"

definition radix_index_version :: int where
  "radix_index_version = 1"

definition version_ok :: "json option \<Rightarrow> bool" where
  "version_ok v = (case v of
     Some (JInt i) \<Rightarrow> i = radix_index_version
   | Some (JBool b) \<Rightarrow> (if b then 1 else 0) = radix_index_version
   | Some (JFloat q) \<Rightarrow> q = of_int radix_index_version
   | _ \<Rightarrow> False)"

fun parse_keys :: "json list \<Rightarrow> int list list" where
  "parse_keys [] = []"
| "parse_keys (JList raw # rest) =
     (if \<forall>v \<in> set raw. as_int v \<noteq> None then map (the \<circ> as_int) raw # parse_keys rest else parse_keys rest)"
| "parse_keys (_ # rest) = parse_keys rest"

definition save_payload :: "rat \<Rightarrow> radix_index \<Rightarrow> json" where
  "save_payload now x =
     (let keys = collect_terminal_keys x
      in JObj [(''version'', JInt radix_index_version), (''saved_at'', JFloat now),
          (''entry_count'', JInt (int (length keys))), (''node_count'', JInt (rs_node_count (rstats x))),
          (''deduped_prefix_bytes_saved'', JInt (rs_deduped (rstats x))),
          (''keys'', JList (map (\<lambda>k. JList (map JInt k)) keys))])"

text \<open>The file: \<open>None\<close> when it does not exist, \<open>Some None\<close> when it cannot be read or parsed.\<close>

definition radix_load :: "json option option \<Rightarrow> radix_index \<Rightarrow> bool \<times> radix_index" where
  "radix_load file x =
     (case file of
        Some (Some (JObj d)) \<Rightarrow>
          if version_ok (map_of d ''version'')
          then (case map_of d ''keys'' of
                  Some (JList raw) \<Rightarrow> (True, rebuild_from_keys (parse_keys raw) x)
                | _ \<Rightarrow> (False, x))
          else (False, x)
      | _ \<Rightarrow> (False, x))"

end
