(* ===== verification/RadixProps.thy ===== *)
theory RadixProps
  imports RadixIndex "HOL-Library.Multiset" "HOL-Library.Sublist"
begin

text \<open>
  The radix index stores a set of token sequences. \<open>keys_of\<close> is that set; inserting, removing
  and looking up act on it as their names say, the gauges of the statistics count its entries
  and the nodes of the trie, and saving and loading keep it. The contract is the locale
  \<open>prefix_store\<close>, interpreted on the index.
\<close>

section \<open>Well-formed tries\<close>

definition weight :: "radix_node \<Rightarrow> int" where
  "weight n = sum_list (map (\<lambda>p. node_refs (snd p)) (children n)) + (if is_terminal n then 1 else 0)"

text \<open>
  \<open>refs_ok ex n\<close>: keys are unique at every node, and every node below \<open>n\<close> has at least as many
  references as its children and its own entry need, exactly as many if \<open>ex\<close>.
\<close>

fun refs_ok :: "bool \<Rightarrow> radix_node \<Rightarrow> bool" where
  "refs_ok ex (Node cs t r) \<longleftrightarrow> distinct (dict_keys cs) \<and>
     (\<forall>p \<in> set cs. refs_ok ex (snd p) \<and> weight (snd p) \<le> node_refs (snd p) \<and> 1 \<le> node_refs (snd p) \<and>
        (ex \<longrightarrow> weight (snd p) = node_refs (snd p)))"

declare refs_ok.simps [simp del]

lemma refs_ok_child:
  assumes "refs_ok ex (Node cs t r)" "map_of cs k = Some c"
  shows "refs_ok ex c" "weight c \<le> node_refs c" "1 \<le> node_refs c" "ex \<Longrightarrow> weight c = node_refs c"
proof -
  from assms(2) have "(k, c) \<in> set cs" by (rule map_of_SomeD)
  with assms(1) show "refs_ok ex c" "weight c \<le> node_refs c" "1 \<le> node_refs c" "ex \<Longrightarrow> weight c = node_refs c"
    by (auto simp: refs_ok.simps)
qed

lemma refs_ok_keys: "refs_ok ex (Node cs t r) \<Longrightarrow> distinct (dict_keys cs)"
  by (simp add: refs_ok.simps)

lemma refs_ok_set:
  assumes "refs_ok ex (Node cs t r)" "refs_ok ex c" "weight c \<le> node_refs c" "1 \<le> node_refs c"
    and "ex \<longrightarrow> weight c = node_refs c"
  shows "refs_ok ex (Node (dict_set k c cs) t' r')"
  using assms by (auto simp: refs_ok.simps set_dict_set)

lemma refs_ok_del: "refs_ok ex (Node cs t r) \<Longrightarrow> refs_ok ex (Node (dict_del k cs) t' r')"
  by (auto simp: refs_ok.simps set_dict_del)

lemma refs_ok_mark: "refs_ok ex (Node cs t r) = refs_ok ex (Node cs t' r')"
  by (simp add: refs_ok.simps)

lemma refs_ok_new [simp]: "refs_ok ex new_node"
  by (simp add: new_node_def refs_ok.simps)

lemma weight_new [simp]: "weight new_node = 0" "node_refs new_node = 0"
  by (simp_all add: weight_def new_node_def)

definition keys_of :: "radix_node \<Rightarrow> int list set" where
  "keys_of n = {p. ends_at p n}"

lemma ends_at_new [simp]: "\<not> ends_at p new_node"
  by (cases p) (simp_all add: new_node_def)

section \<open>Inserting\<close>

text \<open>The tree part of the insertion walk.\<close>

definition child_or_new :: "(int \<times> radix_node) list \<Rightarrow> int \<Rightarrow> radix_node" where
  "child_or_new cs k = (case map_of cs k of None \<Rightarrow> new_node | Some c \<Rightarrow> c)"

definition bump :: "radix_node \<Rightarrow> radix_node" where
  "bump n = Node (children n) (is_terminal n) (node_refs n + 1)"

lemma bump_sel [simp]: "children (bump n) = children n" "is_terminal (bump n) = is_terminal n"
  "node_refs (bump n) = node_refs n + 1" "weight (bump n) = weight n"
  by (simp_all add: bump_def weight_def)

lemma ends_at_bump [simp]: "ends_at p (bump n) = ends_at p n"
  by (cases p) simp_all

lemma refs_ok_bump [simp]: "refs_ok ex (bump n) = refs_ok ex n"
  by (cases n) (simp add: bump_def refs_ok.simps)

fun trie_add :: "int list \<Rightarrow> radix_node \<Rightarrow> radix_node" where
  "trie_add [] (Node cs t r) = Node cs True r"
| "trie_add (k # ks) (Node cs t r) = Node (dict_set k (trie_add ks (bump (child_or_new cs k))) cs) t r"

lemma fst_insert_walk: "fst (insert_walk toks d sh still n st) = trie_add toks n"
proof (induction toks arbitrary: d sh still n st)
  case Nil
  then show ?case by (cases n) simp
next
  case (Cons k ks)
  obtain cs t r where n: "n = Node cs t r" by (cases n)
  show ?case
  proof (cases "map_of cs k")
    case None
    have "fst (insert_walk (k # ks) d sh still n st) = Node (dict_set k (fst (insert_walk ks (d + 1) sh False
        (bump new_node) (if d > rs_max_depth st then st\<lparr>rs_node_count := rs_node_count st + 1, rs_max_depth := d\<rparr>
         else st\<lparr>rs_node_count := rs_node_count st + 1\<rparr>))) cs) t r"
      using None by (simp add: n Let_def bump_def split: prod.split)
    then show ?thesis using None by (simp add: Cons n child_or_new_def)
  next
    case (Some c)
    have "fst (insert_walk (k # ks) d sh still n st) = Node (dict_set k (fst (insert_walk ks (d + 1)
        (if still then sh + 1 else sh) still (bump c)
        (if d > rs_max_depth st then st\<lparr>rs_max_depth := d\<rparr> else st))) cs) t r"
      using Some by (simp add: n Let_def bump_def split: prod.split)
    then show ?thesis using Some by (simp add: Cons n child_or_new_def)
  qed
qed

lemma ends_at_add: "ends_at p (trie_add toks n) \<longleftrightarrow> p = toks \<or> ends_at p n"
proof (induction toks arbitrary: p n)
  case Nil
  obtain cs t r where "n = Node cs t r" by (cases n)
  then show ?case by (cases p) auto
next
  case (Cons k ks)
  obtain cs t r where n: "n = Node cs t r" by (cases n)
  have "ends_at q (child_or_new cs k) \<longleftrightarrow> (case map_of cs k of None \<Rightarrow> False | Some c \<Rightarrow> ends_at q c)" for q
    by (simp add: child_or_new_def split: option.split)
  with Cons show ?case by (cases p) (auto simp: n map_of_dict_set)
qed

lemma keys_of_add: "keys_of (trie_add toks n) = insert toks (keys_of n)"
  by (auto simp: keys_of_def ends_at_add)

lemma refs_add [simp]: "node_refs (trie_add toks n) = node_refs n"
  by (cases toks; cases n) simp_all

lemma child_or_new_ok:
  assumes "refs_ok ex (Node cs t r)"
  shows "refs_ok ex (child_or_new cs k)" "weight (child_or_new cs k) \<le> node_refs (child_or_new cs k)"
    "0 \<le> node_refs (child_or_new cs k)" "ex \<Longrightarrow> weight (child_or_new cs k) = node_refs (child_or_new cs k)"
  using refs_ok_child [OF assms] by (cases "map_of cs k"; fastforce simp: child_or_new_def)+

lemma weight_set:
  assumes "distinct (dict_keys cs)"
  shows "weight (Node (dict_set k c cs) t r) = weight (Node cs t r) + node_refs c - node_refs (child_or_new cs k)"
  using sum_list_dict_set [OF assms, of node_refs k c]
  by (simp add: weight_def child_or_new_def split: option.split)

text \<open>
  Inserting adds one to the weight of the node it starts from, except when the very last node
  was an entry already; only then a node may end up with more references than it needs.
\<close>

lemma refs_ok_add:
  assumes "refs_ok ex n" "ex \<Longrightarrow> \<not> ends_at toks n"
  shows "refs_ok ex (trie_add toks n) \<and> weight (trie_add toks n) \<le> weight n + 1 \<and>
    (\<not> ends_at toks n \<longrightarrow> weight (trie_add toks n) = weight n + 1)"
  using assms
proof (induction toks arbitrary: n)
  case Nil
  obtain cs t r where "n = Node cs t r" by (cases n)
  with Nil show ?case by (auto simp: weight_def refs_ok.simps)
next
  case (Cons k ks)
  obtain cs t r where n: "n = Node cs t r" by (cases n)
  note ok = Cons.prems(1) [unfolded n]
  let ?c = "child_or_new cs k"
  let ?c' = "trie_add ks (bump ?c)"
  have sub: "\<not> ends_at (k # ks) n \<longleftrightarrow> \<not> ends_at ks ?c" by (simp add: n child_or_new_def split: option.split)
  have IH: "refs_ok ex ?c'" "weight ?c' \<le> weight ?c + 1" "\<not> ends_at ks ?c \<longrightarrow> weight ?c' = weight ?c + 1"
    using Cons.IH [of "bump ?c"] child_or_new_ok [OF ok, of k] Cons.prems(2) sub by auto
  have "refs_ok ex (trie_add (k # ks) n)"
    unfolding n trie_add.simps
  proof (rule refs_ok_set [OF ok IH(1)])
    show "weight ?c' \<le> node_refs ?c'" "1 \<le> node_refs ?c'" "ex \<longrightarrow> weight ?c' = node_refs ?c'"
      using IH(2,3) child_or_new_ok [OF ok, of k] Cons.prems(2) sub by auto
  qed
  moreover have "weight (trie_add (k # ks) n) = weight n + 1"
    using weight_set [OF refs_ok_keys [OF ok], of k ?c' t r] by (simp add: n)
  ultimately show ?case by simp
qed

section \<open>Removing\<close>

fun nodes :: "radix_node \<Rightarrow> int" where
  "nodes (Node cs t r) = 1 + sum_list (map (\<lambda>p. nodes (snd p)) cs)"

declare nodes.simps [simp del]

lemma nodes_new [simp]: "nodes new_node = 1"
  by (simp add: new_node_def nodes.simps)

lemma nodes_bump [simp]: "nodes (bump n) = nodes n"
  by (cases n) (simp add: bump_def nodes.simps)

lemma nodes_set:
  assumes "distinct (dict_keys cs)"
  shows "nodes (Node (dict_set k c cs) t r) =
    nodes (Node cs t' r') + nodes c - (case map_of cs k of None \<Rightarrow> 0 | Some w \<Rightarrow> nodes w)"
  using sum_list_dict_set [OF assms, of nodes k c] by (simp add: nodes.simps)

lemma sum_del:
  fixes f :: "radix_node \<Rightarrow> int"
  assumes "distinct (dict_keys cs)" "map_of cs k = Some c"
  shows "sum_list (map (\<lambda>p. f (snd p)) (dict_del k cs)) = sum_list (map (\<lambda>p. f (snd p)) cs) - f c"
  using sum_list_dict_del [OF assms, of f] by (simp add: comp_def)

lemma sum_refs_pos:
  assumes "refs_ok ex (Node cs t r)" "cs \<noteq> []"
  shows "1 \<le> sum_list (map (\<lambda>p. node_refs (snd p)) cs)"
proof -
  have pos: "0 \<le> sum_list (map (\<lambda>p. node_refs (snd p)) ds)" if "set ds \<subseteq> set cs" for ds
    using assms(1) that by (intro sum_list_nonneg) (fastforce simp: refs_ok.simps)
  obtain p ds where cs: "cs = p # ds" using assms(2) by (cases cs) auto
  with assms(1) have "1 \<le> node_refs (snd p)" by (simp add: refs_ok.simps)
  moreover have "set ds \<subseteq> set cs" using cs by auto
  ultimately show ?thesis using pos [of ds] cs by simp
qed

lemma remove_walk_None: "remove_walk toks n = None \<longleftrightarrow> \<not> ends_at toks n"
proof (induction toks arbitrary: n)
  case Nil
  then show ?case by (cases n) simp
next
  case (Cons k ks)
  obtain cs t r where n: "n = Node cs t r" by (cases n)
  show ?case
  proof (cases "map_of cs k")
    case None
    then show ?thesis by (simp add: n)
  next
    case (Some c)
    show ?thesis
    proof (cases "remove_walk ks c")
      case None
      with Cons [of c] Some show ?thesis by (simp add: n)
    next
      case s: (Some q)
      obtain cs1 t1 r1 pr where "q = (Node cs1 t1 r1, pr)" by (metis prod.collapse radix_node.collapse)
      with Cons [of c] Some s show ?thesis by (simp add: n)
    qed
  qed
qed

lemma remove_walk_Some:
  assumes "refs_ok ex n" "remove_walk toks n = Some (n', pr)"
  shows "(\<forall>p. ends_at p n' \<longleftrightarrow> ends_at p n \<and> p \<noteq> toks) \<and> refs_ok ex n' \<and> weight n' = weight n - 1 \<and>
    node_refs n' = node_refs n \<and> nodes n' = nodes n - pr"
  using assms
proof (induction toks arbitrary: n n' pr)
  case Nil
  obtain cs t r where n: "n = Node cs t r" by (cases n)
  have "ends_at p (Node cs False r) \<longleftrightarrow> ends_at p (Node cs True r) \<and> p \<noteq> []" for p by (cases p) auto
  with Nil show ?case by (auto simp: n weight_def refs_ok.simps nodes.simps split: if_splits)
next
  case (Cons k ks)
  obtain cs t r where n: "n = Node cs t r" by (cases n)
  note ok = Cons.prems(1) [unfolded n]
  from Cons.prems(2) obtain c where c: "map_of cs k = Some c" by (auto simp: n split: option.splits)
  with Cons.prems(2) obtain cs1 t1 r1 pr1 where d: "remove_walk ks c = Some (Node cs1 t1 r1, pr1)"
    by (auto simp: n split: option.splits radix_node.splits)
  note cok = refs_ok_child [OF ok c]
  from Cons.IH [OF cok(1) d] have IH: "\<And>p. ends_at p (Node cs1 t1 r1) \<longleftrightarrow> ends_at p c \<and> p \<noteq> ks"
    "refs_ok ex (Node cs1 t1 r1)" "weight (Node cs1 t1 r1) = weight c - 1" "r1 = node_refs c"
    "nodes (Node cs1 t1 r1) = nodes c - pr1" by auto
  have w: "weight (Node cs1 t1 r) = weight (Node cs1 t1 r1)" for r by (simp add: weight_def)
  have e: "ends_at p (Node cs1 t1 (r1 - 1)) = ends_at p (Node cs1 t1 r1)" for p by (cases p) auto
  have nd: "nodes (Node cs1 t1 (r1 - 1)) = nodes (Node cs1 t1 r1)" by (simp add: nodes.simps)
  have cn: "child_or_new cs k = c" using c by (simp add: child_or_new_def)
  show ?case
  proof (cases "r1 - 1 \<le> 0 \<and> cs1 = []")
    case True
    with Cons.prems(2) c d have n': "n' = Node (dict_del k cs) t r" "pr = pr1 + 1" by (auto simp: n)
    have r1: "r1 = 1" using True IH(4) cok(3) by simp
    have t1: "\<not> t1"
    proof
      assume t1
      then have "weight (Node cs1 t1 r1) = 1" using True by (simp add: weight_def)
      with IH(3,4) cok(2) r1 show False by simp
    qed
    have none: "\<not> ends_at p c" if "p \<noteq> ks" for p
      using IH(1) [of p] that True t1 by (cases p) auto
    have "ends_at p n' \<longleftrightarrow> ends_at p n \<and> p \<noteq> k # ks" for p
      using none c by (cases p) (auto simp: n n' map_of_dict_del)
    moreover have "weight n' = weight n - 1"
      using sum_del [OF refs_ok_keys [OF ok] c, of node_refs] IH(4) r1 by (simp add: n n' weight_def)
    moreover have "nodes n' = nodes n - pr"
      using sum_del [OF refs_ok_keys [OF ok] c, of nodes] IH(5) True by (simp add: n n' nodes.simps)
    ultimately show ?thesis using refs_ok_del [OF ok] by (simp add: n n')
  next
    case False
    let ?c = "Node cs1 t1 (r1 - 1)"
    from False Cons.prems(2) c d have n': "n' = Node (dict_set k ?c cs) t r" "pr = pr1" by (auto simp: n)
    have "1 \<le> r1 - 1"
    proof (rule ccontr)
      assume "\<not> 1 \<le> r1 - 1"
      with False have "cs1 \<noteq> []" by auto
      with sum_refs_pos [OF IH(2)] have "1 \<le> weight (Node cs1 t1 r1)" by (simp add: weight_def)
      with IH(3,4) cok(2) \<open>\<not> 1 \<le> r1 - 1\<close> show False by simp
    qed
    then have "refs_ok ex n'"
      unfolding n'(1) using IH(2,3,4) cok(2,4) w
      by (intro refs_ok_set [OF ok]) (auto simp: refs_ok.simps)
    moreover have "ends_at p n' \<longleftrightarrow> ends_at p n \<and> p \<noteq> k # ks" for p
      using c e IH(1) by (cases p) (auto simp: n n' map_of_dict_set)
    moreover have "weight n' = weight n - 1"
      using weight_set [OF refs_ok_keys [OF ok], of k ?c t r] IH(4) by (simp add: n n' cn)
    moreover have "nodes n' = nodes n - pr"
      using nodes_set [OF refs_ok_keys [OF ok], of k ?c t r t r] c nd IH(5) by (simp add: n n')
    ultimately show ?thesis by (simp add: n n')
  qed
qed

section \<open>The gauges\<close>

lemma insert_walk_entries:
  "rs_entry_count (snd (snd (insert_walk toks d sh still n st))) =
     rs_entry_count st + (if ends_at toks n then 0 else 1)"
proof (induction toks arbitrary: d sh still n st)
  case Nil
  then show ?case by (cases n) simp
next
  case (Cons k ks)
  obtain cs t r where n: "n = Node cs t r" by (cases n)
  have e: "ends_at p (Node (children c) (is_terminal c) j) = ends_at p c" for p c j
    by (cases p) simp_all
  show ?case
    by (cases "map_of cs k") (simp_all add: n Let_def e Cons split: prod.split, simp_all add: Cons e prod_eq_iff)
qed


lemma insert_walk_nodes:
  assumes "refs_ok ex n"
  shows "rs_node_count (snd (snd (insert_walk toks d sh still n st))) =
     rs_node_count st + nodes (trie_add toks n) - nodes n"
  using assms
proof (induction toks arbitrary: d sh still n st)
  case Nil
  then show ?case by (cases n) (simp add: nodes.simps)
next
  case (Cons k ks)
  obtain cs t r where n: "n = Node cs t r" by (cases n)
  note ok = Cons.prems [unfolded n]
  note step = nodes_set [OF refs_ok_keys [OF ok], of k "trie_add ks (bump (child_or_new cs k))" t r t r]
  have IH: "rs_node_count (snd (snd (insert_walk ks d sh still (Node (children c) (is_terminal c) (node_refs c + 1)) st))) =
      rs_node_count st + nodes (trie_add ks (bump c)) - nodes c" if "refs_ok ex c" for c d sh still st
    using Cons.IH [of "bump c" d sh still st] that unfolding refs_ok_bump nodes_bump by (simp add: bump_def)
  show ?case
  proof (cases "map_of cs k")
    case None
    then show ?thesis using step IH [OF refs_ok_new]
      by (simp add: n Let_def child_or_new_def split: prod.split) (simp add: prod_eq_iff)
  next
    case (Some c)
    then show ?thesis using step IH [OF refs_ok_child(1) [OF ok Some]]
      by (simp add: n Let_def child_or_new_def split: prod.split) (simp add: prod_eq_iff)
  qed
qed

section \<open>Collecting the entries\<close>

fun key_list :: "radix_node \<Rightarrow> int list list" where
  "key_list (Node cs t r) =
     (if t then [[]] else []) @ concat (map (\<lambda>p. map ((#) (fst p)) (key_list (snd p))) cs)"

declare key_list.simps [simp del]

lemma refs_ok_entry: "refs_ok ex (Node cs t r) \<Longrightarrow> (k, c) \<in> set cs \<Longrightarrow> map_of cs k = Some c"
  by (simp add: refs_ok.simps)

lemma set_key_list: "refs_ok ex n \<Longrightarrow> p \<in> set (key_list n) \<longleftrightarrow> ends_at p n"
proof (induction p arbitrary: n)
  case Nil
  then show ?case by (cases n) (auto simp: key_list.simps)
next
  case (Cons k ks)
  obtain cs t r where n: "n = Node cs t r" by (cases n)
  note ok = Cons.prems [unfolded n]
  have "k # ks \<in> set (key_list n) \<longleftrightarrow> (\<exists>c. (k, c) \<in> set cs \<and> ks \<in> set (key_list c))"
    by (force simp: n key_list.simps)
  also have "\<dots> \<longleftrightarrow> (\<exists>c. map_of cs k = Some c \<and> ks \<in> set (key_list c))"
    using refs_ok_entry [OF ok] map_of_SomeD by metis
  also have "\<dots> \<longleftrightarrow> ends_at (k # ks) n"
    using Cons.IH [OF refs_ok_child(1) [OF ok]] by (auto simp: n split: option.split)
  finally show ?case .
qed

lemma distinct_concat_keys:
  assumes "distinct (dict_keys cs)" "\<forall>p \<in> set cs. distinct (f p)"
  shows "distinct (concat (map (\<lambda>p. map ((#) (fst p)) (f p)) cs))"
  using assms by (induction cs) (auto simp: distinct_map inj_on_def rev_image_eqI)

lemma distinct_key_list: "refs_ok ex n \<Longrightarrow> distinct (key_list n)"
proof (induction n)
  case (Node cs t r)
  have "\<forall>p \<in> set cs. distinct (key_list (snd p))"
    using Node by (auto simp: refs_ok.simps)
  with distinct_concat_keys [OF refs_ok_keys [OF Node.prems]] show ?case
    by (auto simp: key_list.simps)
qed

lemma collect_walk_mset:
  "mset (collect_walk stack out) = mset out +
     mset (concat (map (\<lambda>(n, path). map ((@) path) (key_list n)) stack))"
proof (induction stack out rule: collect_walk.induct)
  case (1 out)
  then show ?case by simp
next
  case (2 cs t r path stack out)
  let ?f = "\<lambda>(n, path). map ((@) path) (key_list n)"
  have rev: "mset (concat (map ?f (rev xs))) = mset (concat (map ?f xs))" for xs
    by (induction xs) auto
  have "map ((@) path) (concat (map (\<lambda>p. map ((#) (fst p)) (key_list (snd p))) cs)) =
      concat (map ?f (map (\<lambda>(tok, c). (c, path @ [tok])) cs))"
  proof -
    have "(@) (path @ [k]) = (\<lambda>xs. path @ k # xs)" for k by (rule ext) simp
    then show ?thesis by (simp add: map_concat comp_def case_prod_unfold)
  qed
  then have "mset (concat (map ?f (rev (map (\<lambda>(tok, c). (c, path @ [tok])) cs)))) =
      mset (map ((@) path) (concat (map (\<lambda>p. map ((#) (fst p)) (key_list (snd p))) cs)))"
    unfolding rev by simp
  with 2 show ?case by (simp add: key_list.simps)
qed

lemma collect_terminal_keys_mset: "mset (collect_terminal_keys x) = mset (key_list (root x))"
proof -
  have "map ((@) []) xs = xs" for xs :: "int list list" by (induction xs) auto
  then show ?thesis by (simp add: collect_terminal_keys_def collect_walk_mset del: mset_map map_append)
qed

section \<open>Lookup\<close>

text \<open>The lengths of the prefixes of a request that are stored.\<close>

definition stored_prefixes :: "int list \<Rightarrow> radix_node \<Rightarrow> nat list" where
  "stored_prefixes q n = filter (\<lambda>i. ends_at (take i q) n) [1..<Suc (length q)]"

lemma stored_prefixes_Nil [simp]: "stored_prefixes [] n = []"
  by (simp add: stored_prefixes_def)

lemma stored_prefixes_Cons: "stored_prefixes (k # ks) n =
    (case map_of (children n) k of None \<Rightarrow> []
     | Some c \<Rightarrow> (if is_terminal c then [1] else []) @ map Suc (stored_prefixes ks c))"
proof -
  have up: "[1..<Suc (length (k # ks))] = 1 # map Suc [1..<Suc (length ks)]"
    by (simp add: map_Suc_upt upt_conv_Cons del: upt_Suc)
  show ?thesis
  proof (cases "map_of (children n) k")
    case None
    then have "\<forall>i \<in> set [1..<Suc (length (k # ks))]. \<not> ends_at (take i (k # ks)) n"
      by (auto simp: take_Cons split: nat.splits)
    then show ?thesis using None unfolding stored_prefixes_def by (simp only: filter_False) simp
  next
    case (Some c)
    then have "ends_at (take (Suc i) (k # ks)) n = ends_at (take i ks) c" for i by simp
    then have "filter (\<lambda>i. ends_at (take i (k # ks)) n) (map Suc xs) = map Suc (filter (\<lambda>i. ends_at (take i ks) c) xs)" for xs
      by (simp add: filter_map comp_def)
    moreover have "ends_at (take 1 (k # ks)) n = is_terminal c" using Some by simp
    ultimately show ?thesis using Some unfolding stored_prefixes_def up by simp
  qed
qed

lemma lookup_walk_spec:
  assumes "lookup_walk q n m d = (m', d')"
  shows "\<exists>j \<le> length q. m' = m @ take j q \<and> (\<forall>i \<in> set (stored_prefixes q n). i \<le> j) \<and>
    d' = (if stored_prefixes q n = [] then d else length m + last (stored_prefixes q n))"
  using assms
proof (induction q arbitrary: n m d)
  case Nil
  then show ?case by auto
next
  case (Cons k ks)
  show ?case
  proof (cases "map_of (children n) k")
    case None
    with Cons.prems show ?thesis by (intro exI [of _ 0]) (simp add: stored_prefixes_Cons)
  next
    case (Some c)
    let ?d = "if is_terminal c then length (m @ [k]) else d"
    from Cons.prems Some have "lookup_walk ks c (m @ [k]) ?d = (m', d')" by simp
    from Cons.IH [OF this] obtain j where "j \<le> length ks" "m' = (m @ [k]) @ take j ks"
      "\<forall>i \<in> set (stored_prefixes ks c). i \<le> j"
      "d' = (if stored_prefixes ks c = [] then ?d else length (m @ [k]) + last (stored_prefixes ks c))" by blast
    with Some show ?thesis
      by (intro exI [of _ "Suc j"]) (auto simp: stored_prefixes_Cons last_map)
  qed
qed


section \<open>The index\<close>

definition entries :: "radix_index \<Rightarrow> int list set" where
  "entries x = keys_of (root x)"

definition radix_ok :: "bool \<Rightarrow> radix_index \<Rightarrow> bool" where
  "radix_ok ex x \<longleftrightarrow> refs_ok ex (root x) \<and> [] \<notin> entries x \<and>
     rs_entry_count (rstats x) = int (card (entries x)) \<and> rs_node_count (rstats x) = nodes (root x) - 1"

lemma entries_key_list: "refs_ok ex (root x) \<Longrightarrow> entries x = set (key_list (root x))"
  by (auto simp: entries_def keys_of_def set_key_list)

lemma finite_entries: "radix_ok ex x \<Longrightarrow> finite (entries x)"
  using entries_key_list [of ex x] by (simp add: radix_ok_def)

lemma radix_new_ok: "radix_ok ex radix_new" and entries_new: "entries radix_new = {}"
  by (simp_all add: radix_ok_def radix_new_def entries_def keys_of_def fresh_radix_stats_def)

lemma radix_clear_ok: "radix_ok ex (radix_clear x)" and entries_clear: "entries (radix_clear x) = {}"
  by (simp_all add: radix_ok_def radix_clear_def entries_def keys_of_def)

lemma radix_insert_root:
  "tokens \<noteq> [] \<Longrightarrow> root (radix_insert tokens x) = trie_add tokens (root x)"
  using fst_insert_walk [of tokens 1 0 True "root x" "rstats x"]
  by (simp add: radix_insert_def case_prod_unfold Let_def)

lemma entries_insert: "entries (radix_insert tokens x) = (if tokens = [] then entries x else insert tokens (entries x))"
  by (cases "tokens = []") (simp_all add: entries_def keys_of_add radix_insert_root, simp add: radix_insert_def)

lemma radix_insert_ok:
  assumes ok: "radix_ok ex x" and new: "ex \<Longrightarrow> tokens \<notin> entries x"
  shows "radix_ok ex (radix_insert tokens x)"
proof (cases "tokens = []")
  case True
  with ok show ?thesis by (simp add: radix_insert_def)
next
  case False
  have r: "refs_ok ex (root x)" using ok by (simp add: radix_ok_def)
  have "refs_ok ex (root (radix_insert tokens x))"
    using refs_ok_add [OF r] new False by (simp add: radix_insert_root entries_def keys_of_def)
  moreover have "rs_entry_count (rstats (radix_insert tokens x)) = rs_entry_count (rstats x) + (if tokens \<in> entries x then 0 else 1)"
    using insert_walk_entries [of tokens 1 0 True "root x" "rstats x"] False
    by (simp add: radix_insert_def entries_def keys_of_def case_prod_unfold Let_def)
  moreover have "rs_node_count (rstats (radix_insert tokens x)) =
      rs_node_count (rstats x) + nodes (root (radix_insert tokens x)) - nodes (root x)"
    using insert_walk_nodes [OF r, of tokens 1 0 True "rstats x"] False unfolding radix_insert_root [OF False]
    by (simp add: radix_insert_def case_prod_unfold Let_def)
  ultimately show ?thesis
    using ok finite_entries [OF ok] False by (auto simp: radix_ok_def entries_insert card_insert_if)
qed

lemma radix_remove_spec:
  assumes ok: "radix_ok ex x"
  shows "fst (radix_remove tokens x) \<longleftrightarrow> tokens \<in> entries x" "radix_ok ex (snd (radix_remove tokens x))"
    "entries (snd (radix_remove tokens x)) = entries x - {tokens}"
proof -
  have r: "refs_ok ex (root x)" and nil: "[] \<notin> entries x" using ok by (simp_all add: radix_ok_def)
  have "(fst (radix_remove tokens x) \<longleftrightarrow> tokens \<in> entries x) \<and> radix_ok ex (snd (radix_remove tokens x)) \<and>
    entries (snd (radix_remove tokens x)) = entries x - {tokens}"
  proof (cases "tokens \<in> entries x")
    case False
    then have "radix_remove tokens x = (False, x)"
      using remove_walk_None [of tokens "root x"] by (auto simp: radix_remove_def entries_def keys_of_def)
    with ok False show ?thesis by simp
  next
    case True
    then have ne: "tokens \<noteq> []" using nil by auto
    from True obtain n' pr where w: "remove_walk tokens (root x) = Some (n', pr)"
      using remove_walk_None [of tokens "root x"] by (auto simp: entries_def keys_of_def)
    from remove_walk_Some [OF r w] have s: "\<And>p. ends_at p n' \<longleftrightarrow> ends_at p (root x) \<and> p \<noteq> tokens"
      "refs_ok ex n'" "nodes n' = nodes (root x) - pr" by auto
    let ?x = "snd (radix_remove tokens x)"
    have x: "fst (radix_remove tokens x)" "root ?x = n'" "rs_entry_count (rstats ?x) = rs_entry_count (rstats x) - 1"
      "rs_node_count (rstats ?x) = rs_node_count (rstats x) - pr"
      using w ne by (simp_all add: radix_remove_def)
    have e: "entries ?x = entries x - {tokens}" using s(1) by (auto simp: entries_def keys_of_def x(2))
    have "int (card (entries x - {tokens})) = int (card (entries x)) - 1"
      using card_Suc_Diff1 [OF finite_entries [OF ok] True] by linarith
    with ok e s x nil True show ?thesis by (simp add: radix_ok_def)
  qed
  then show "fst (radix_remove tokens x) \<longleftrightarrow> tokens \<in> entries x" "radix_ok ex (snd (radix_remove tokens x))"
    "entries (snd (radix_remove tokens x)) = entries x - {tokens}" by blast+
qed

lemma rebuild_spec: "radix_ok False (rebuild_from_keys keys x) \<and>
    entries (rebuild_from_keys keys x) = set keys - {[]}"
proof -
  have "radix_ok False (fold radix_insert keys y) \<and> entries (fold radix_insert keys y) = entries y \<union> (set keys - {[]})"
    if "radix_ok False y" for y
    using that
  proof (induction keys arbitrary: y)
    case (Cons k ks)
    from Cons.IH [OF radix_insert_ok [OF Cons.prems, of k]] show ?case by (auto simp: entries_insert)
  qed simp
  from this [OF radix_clear_ok [of False x]] show ?thesis by (simp add: rebuild_from_keys_def entries_clear)
qed

text \<open>\<open>longest_prefix\<close> answers with the longest stored sequence that is a prefix of the request.\<close>

lemma last_filter_upt:
  assumes "filter P [a..<b] \<noteq> []"
  shows "P (last (filter P [a..<b]))" "last (filter P [a..<b]) \<in> {a..<b}"
    "\<And>i. i \<in> {a..<b} \<Longrightarrow> P i \<Longrightarrow> i \<le> last (filter P [a..<b])"
proof -
  let ?xs = "filter P [a..<b]"
  have l: "last ?xs \<in> set ?xs" using assms by (rule last_in_set)
  then show "P (last ?xs)" "last ?xs \<in> {a..<b}" by auto
  fix i assume "i \<in> {a..<b}" "P i"
  then have "i \<in> set ?xs" by simp
  moreover have "sorted ?xs" by (rule sorted_wrt_filter) simp
  ultimately show "i \<le> last ?xs" using assms by (metis append_butlast_last_id sorted_append in_set_conv_decomp Un_iff set_append list.set_intros(1) order_refl set_ConsD empty_iff list.set(1))
qed

lemma longest_prefix_spec:
  assumes "[] \<notin> entries x"
  shows "snd (fst (longest_prefix q ns x)) = Some k \<longleftrightarrow>
    k \<in> entries x \<and> prefix k q \<and> (\<forall>k' \<in> entries x. prefix k' q \<longrightarrow> length k' \<le> length k)"
proof -
  obtain m' d' where w: "lookup_walk q (root x) [] 0 = (m', d')" by force
  from lookup_walk_spec [OF w] obtain j where j: "j \<le> length q" "m' = take j q"
    "\<forall>i \<in> set (stored_prefixes q (root x)). i \<le> j"
    "d' = (if stored_prefixes q (root x) = [] then 0 else last (stored_prefixes q (root x)))" by auto
  have pre: "prefix k' q \<and> k' \<in> entries x \<longleftrightarrow> (\<exists>i \<in> set (stored_prefixes q (root x)). k' = take i q)" for k'
  proof
    assume a: "prefix k' q \<and> k' \<in> entries x"
    then have "k' = take (length k') q" by (auto simp: prefix_def)
    moreover have "1 \<le> length k'" using a assms by (cases k') auto
    moreover have "length k' \<le> length q" using a prefix_length_le by blast
    ultimately show "\<exists>i \<in> set (stored_prefixes q (root x)). k' = take i q"
      using a by (intro bexI [of _ "length k'"]) (auto simp: stored_prefixes_def entries_def keys_of_def simp del: upt_Suc)
  qed (auto simp: stored_prefixes_def entries_def keys_of_def take_is_prefix)
  show ?thesis
  proof (cases "stored_prefixes q (root x) = []")
    case True
    with w j have "snd (fst (longest_prefix q ns x)) = None" by (simp add: longest_prefix_def Let_def)
    with pre [of k] True show ?thesis by auto
  next
    case False
    note l = last_filter_upt [OF False [unfolded stored_prefixes_def], folded stored_prefixes_def]
    define i where "i = last (stored_prefixes q (root x))"
    have i: "ends_at (take i q) (root x)" "i \<in> {1..<Suc (length q)}" "i \<in> set (stored_prefixes q (root x))"
      using l(1,2) False by (simp_all add: i_def)
    have len: "length (take i q) = i" using i(2) by simp
    have "snd (fst (longest_prefix q ns x)) = Some (take i q)"
      using w j False i(2,3) by (simp add: longest_prefix_def Let_def i_def [symmetric] min_def)
    moreover have "take i q \<in> entries x" "prefix (take i q) q"
      using i(1) by (simp_all add: entries_def keys_of_def take_is_prefix)
    moreover have max: "\<forall>k' \<in> entries x. prefix k' q \<longrightarrow> length k' \<le> i"
    proof (intro ballI impI)
      fix k' assume "k' \<in> entries x" "prefix k' q"
      with pre [of k'] obtain i' where i': "i' \<in> set (stored_prefixes q (root x))" "k' = take i' q" by auto
      then have "i' \<le> i" using l(3) [of i'] by (auto simp: i_def stored_prefixes_def)
      with i' show "length k' \<le> i" by simp
    qed
    ultimately show ?thesis
    proof -
      assume a: "snd (fst (longest_prefix q ns x)) = Some (take i q)" "take i q \<in> entries x" "prefix (take i q) q"
      have "k = take i q" if "k \<in> entries x" "prefix k q" "\<forall>k' \<in> entries x. prefix k' q \<longrightarrow> length k' \<le> length k"
      proof -
        have "length k = i" using that max a(2,3) len by (metis le_antisym)
        with that(2) show ?thesis by (auto simp: prefix_def)
      qed
      with a max len show ?thesis by auto
    qed
  qed
qed


section \<open>The contract the prefix cache relies on\<close>

text \<open>
  The cache that owns the entries keeps the index beside them: it inserts and removes keys and
  asks for the longest stored prefix of a request.
\<close>

locale prefix_store =
  fixes ok :: "'s \<Rightarrow> bool"
    and stored :: "'s \<Rightarrow> int list set"
    and ins :: "int list \<Rightarrow> 's \<Rightarrow> 's"
    and del :: "int list \<Rightarrow> 's \<Rightarrow> 's"
    and find :: "int list \<Rightarrow> 's \<Rightarrow> int list option"
  assumes ins_ok: "ok s \<Longrightarrow> ok (ins k s)"
    and del_ok: "ok s \<Longrightarrow> ok (del k s)"
    and stored_ins: "ok s \<Longrightarrow> stored (ins k s) = stored s \<union> ({k} - {[]})"
    and stored_del: "ok s \<Longrightarrow> stored (del k s) = stored s - {k}"
    and find_longest: "ok s \<Longrightarrow> find q s = Some k \<longleftrightarrow>
      k \<in> stored s \<and> prefix k q \<and> (\<forall>k' \<in> stored s. prefix k' q \<longrightarrow> length k' \<le> length k)"
begin

definition act :: "bool \<times> int list \<Rightarrow> 's \<Rightarrow> 's" where
  "act op s = (if fst op then ins (snd op) s else del (snd op) s)"

text \<open>After any history of operations a key is stored exactly if its last operation inserted it.\<close>

lemma history: "ok s \<Longrightarrow> ok (fold act ops s) \<and>
    (k \<noteq> [] \<longrightarrow> (k \<in> stored (fold act ops s) \<longleftrightarrow>
      (case filter (\<lambda>op. snd op = k) (rev ops) of [] \<Rightarrow> k \<in> stored s | op # _ \<Rightarrow> fst op)))"
proof (induction ops rule: rev_induct)
  case Nil
  then show ?case by simp
next
  case (snoc op ops)
  then have "ok (fold act ops s)" by blast
  with snoc ins_ok del_ok stored_ins stored_del show ?case by (auto simp: act_def)
qed

lemma find_prefix: "ok s \<Longrightarrow> find q s = Some k \<Longrightarrow> prefix k q \<and> k \<in> stored s"
  by (simp add: find_longest)

text \<open>A longer request never gets a shorter answer.\<close>

lemma find_extend:
  assumes "ok s" "find q s = Some k" "find (q @ r) s = Some k'"
  shows "prefix k k'"
proof -
  from assms have k: "prefix k q" "k \<in> stored s" by (simp_all add: find_longest)
  then have "prefix k (q @ r)" by simp
  moreover from assms have "prefix k' (q @ r)" "length k \<le> length k'"
    using k calculation by (simp_all add: find_longest)
  ultimately show ?thesis by (rule prefix_length_prefix)
qed

lemma find_deleted: "ok s \<Longrightarrow> find q (del k s) \<noteq> Some k"
  using del_ok stored_del by (auto simp: find_longest)

end

definition radix_find :: "int list \<Rightarrow> radix_index \<Rightarrow> int list option" where
  "radix_find q x = snd (fst (longest_prefix q 0 x))"

definition radix_drop :: "int list \<Rightarrow> radix_index \<Rightarrow> radix_index" where
  "radix_drop k x = snd (radix_remove k x)"

lemma radix_ok_nil: "radix_ok ex x \<Longrightarrow> [] \<notin> entries x"
  by (simp add: radix_ok_def)

interpretation rx: prefix_store "radix_ok False" entries radix_insert radix_drop radix_find
proof (unfold_locales, goal_cases)
  case (1 s k) then show ?case by (simp add: radix_insert_ok)
next
  case (2 s k) then show ?case by (simp add: radix_drop_def radix_remove_spec)
next
  case (3 s k) then show ?case by (auto simp: entries_insert)
next
  case (4 s k) then show ?case by (simp add: radix_drop_def radix_remove_spec)
next
  case (5 s q k) then show ?case unfolding radix_find_def by (intro longest_prefix_spec radix_ok_nil)
qed

section \<open>Saving and loading\<close>

lemma parse_keys_ints: "parse_keys (map (\<lambda>k. JList (map JInt k)) ks) = ks"
  by (induction ks) (auto simp: as_int_def comp_def)

lemma collect_set: "radix_ok ex x \<Longrightarrow> set (collect_terminal_keys x) = entries x"
  using collect_terminal_keys_mset [of x] entries_key_list [of ex x]
  by (metis mset_eq_setD radix_ok_def)

lemma collect_distinct: "radix_ok ex x \<Longrightarrow> distinct (collect_terminal_keys x)"
  using mset_eq_imp_distinct_iff [OF collect_terminal_keys_mset [of x]] distinct_key_list [of ex "root x"]
  by (simp add: radix_ok_def)


section \<open>Histories of the index\<close>

datatype radix_op = Insert "int list" | Remove "int list" | Query "int list" int | Clear | Rebuild "int list list"

fun radix_step :: "radix_op \<Rightarrow> radix_index \<Rightarrow> radix_index" where
  "radix_step (Insert k) x = radix_insert k x"
| "radix_step (Remove k) x = snd (radix_remove k x)"
| "radix_step (Query q ns) x = snd (longest_prefix q ns x)"
| "radix_step Clear x = radix_clear x"
| "radix_step (Rebuild ks) x = rebuild_from_keys ks x"

definition radix_run :: "radix_op list \<Rightarrow> radix_index" where
  "radix_run ops = fold radix_step ops radix_new"

text \<open>What a history should store.\<close>

fun spec_step :: "radix_op \<Rightarrow> int list set \<Rightarrow> int list set" where
  "spec_step (Insert k) S = S \<union> ({k} - {[]})"
| "spec_step (Remove k) S = S - {k}"
| "spec_step (Query q ns) S = S"
| "spec_step Clear S = {}"
| "spec_step (Rebuild ks) S = set ks - {[]}"

lemma query_frame: "root (snd (longest_prefix q ns x)) = root x"
  "rs_entry_count (rstats (snd (longest_prefix q ns x))) = rs_entry_count (rstats x)"
  "rs_node_count (rstats (snd (longest_prefix q ns x))) = rs_node_count (rstats x)"
  by (simp_all add: longest_prefix_def record_lookup_def Let_def split: prod.split)

lemma radix_step_ok:
  assumes "radix_ok False x"
  shows "radix_ok False (radix_step op x) \<and> entries (radix_step op x) = spec_step op (entries x)"
proof (cases op)
  case (Insert k) then show ?thesis using assms rx.ins_ok rx.stored_ins by simp
next
  case (Remove k) then show ?thesis using radix_remove_spec [OF assms] by simp
next
  case (Query q ns) then show ?thesis using assms query_frame [of q ns x] by (simp add: radix_ok_def entries_def)
next
  case Clear then show ?thesis by (simp add: radix_clear_ok entries_clear)
next
  case (Rebuild ks) then show ?thesis using rebuild_spec [of ks x] by simp
qed

lemma radix_run_ok: "radix_ok False (radix_run ops) \<and> entries (radix_run ops) = fold spec_step ops {}"
proof -
  have "radix_ok False (fold radix_step ops x) \<and> entries (fold radix_step ops x) = fold spec_step ops (entries x)"
    if "radix_ok False x" for x
    using that
  proof (induction ops arbitrary: x)
    case (Cons op ops)
    from radix_step_ok [OF Cons.prems, of op] Cons.IH show ?case by simp
  qed simp
  from this [OF radix_new_ok] show ?thesis by (simp add: radix_run_def entries_new)
qed

text \<open>C5: The radix index implements a set of token sequences: after any history of inserts,
  removals, queries, clears and rebuilds, membership is membership in the set the history
  describes, and a removal answers whether the sequence was there.\<close>

theorem radix_implements_set:
  "(tokens \<noteq> [] \<longrightarrow> radix_contains tokens (radix_run ops) = (tokens \<in> fold spec_step ops {})) \<and>
   fst (radix_remove tokens (radix_run ops)) = (tokens \<in> fold spec_step ops {})"
  using radix_run_ok [of ops] radix_remove_spec(1) [of False "radix_run ops" tokens]
  by (auto simp: radix_contains_def entries_def keys_of_def)

theorem radix_implements_set_witness:
  "radix_contains [1, 2] (radix_run [Insert [1], Insert [1, 2], Remove [1]]) \<and>
   \<not> radix_contains [1] (radix_run [Insert [1], Insert [1, 2], Remove [1]])"
  using radix_implements_set [of "[1, 2]" "[Insert [1], Insert [1, 2], Remove [1]]"]
    radix_implements_set [of "[1]" "[Insert [1], Insert [1, 2], Remove [1]]"] by simp

text \<open>C19: After any history, the key returned by the prefix lookup is the longest stored sequence
  that is a prefix of the request, and there is none exactly when no stored sequence is one.\<close>

theorem radix_longest_prefix:
  "snd (fst (longest_prefix q ns (radix_run ops))) = Some k \<longleftrightarrow>
     k \<in> fold spec_step ops {} \<and> prefix k q \<and>
     (\<forall>k' \<in> fold spec_step ops {}. prefix k' q \<longrightarrow> length k' \<le> length k)"
  using longest_prefix_spec [OF radix_ok_nil, of False "radix_run ops"] radix_run_ok [of ops] by simp

theorem radix_longest_prefix_witness:
  "snd (fst (longest_prefix [1, 2, 3, 4] 7 (radix_run [Insert [1], Insert [1, 2, 3], Insert [2]]))) = Some [1, 2, 3]"
  unfolding radix_longest_prefix by (simp add: prefix_def)

text \<open>The gauges are exact after any history: the entry count is the number of stored
  sequences and the node count the number of nodes of the trie below its root.\<close>

theorem radix_gauges_exact:
  "radix_len (radix_run ops) = int (card (fold spec_step ops {})) \<and>
   rs_node_count (rstats (radix_run ops)) = nodes (root (radix_run ops)) - 1"
  using radix_run_ok [of ops] by (simp add: radix_len_def radix_ok_def)

text \<open>Round trip: the saved payload loads into any index, which then stores exactly the saved
  set, with an exact entry count; the saved key list has no repetitions.\<close>

theorem radix_save_load:
  "fst (radix_load (Some (Some (save_payload now (radix_run ops)))) x) \<and>
   entries (snd (radix_load (Some (Some (save_payload now (radix_run ops)))) x)) = fold spec_step ops {} \<and>
   radix_len (snd (radix_load (Some (Some (save_payload now (radix_run ops)))) x)) = radix_len (radix_run ops) \<and>
   distinct (collect_terminal_keys (radix_run ops))"
proof -
  let ?x = "radix_run ops"
  have ok: "radix_ok False ?x" "entries ?x = fold spec_step ops {}" using radix_run_ok by auto
  have l: "radix_load (Some (Some (save_payload now ?x))) x = (True, rebuild_from_keys (collect_terminal_keys ?x) x)"
    by (simp add: radix_load_def save_payload_def Let_def version_ok_def radix_index_version_def parse_keys_ints)
  have "set (collect_terminal_keys ?x) - {[]} = entries ?x"
    using collect_set [OF ok(1)] radix_ok_nil [OF ok(1)] by auto
  with rebuild_spec [of "collect_terminal_keys ?x" x] ok collect_distinct [OF ok(1)] show ?thesis
    unfolding l by (simp add: radix_len_def radix_ok_def)
qed

section \<open>The documented reference counts\<close>

text \<open>
  The node documentation says that \<open>ref_count\<close> equals the sum over the children plus one for an
  entry. That holds as long as no stored sequence is inserted again.
\<close>

definition no_reinsert :: "radix_op list \<Rightarrow> bool" where
  "no_reinsert ops \<longleftrightarrow> (\<forall>i < length ops. \<forall>k. ops ! i = Insert k \<longrightarrow> k \<notin> fold spec_step (take i ops) {}) \<and>
     (\<forall>op \<in> set ops. \<forall>ks. op \<noteq> Rebuild ks)"

lemma no_reinsert_snoc: "no_reinsert (ops @ [op]) \<longleftrightarrow> no_reinsert ops \<and>
    (\<forall>k. op = Insert k \<longrightarrow> k \<notin> fold spec_step ops {}) \<and> (\<forall>ks. op \<noteq> Rebuild ks)"
  by (auto simp: no_reinsert_def nth_append less_Suc_eq)

lemma radix_run_exact: "no_reinsert ops \<Longrightarrow> radix_ok True (radix_run ops)"
proof (induction ops rule: rev_induct)
  case Nil
  then show ?case by (simp add: radix_run_def radix_new_ok)
next
  case (snoc op ops)
  then have ok: "radix_ok True (radix_run ops)" by (simp add: no_reinsert_snoc)
  have run: "radix_run (ops @ [op]) = radix_step op (radix_run ops)" by (simp add: radix_run_def)
  show ?case
  proof (cases op)
    case (Insert k)
    with snoc.prems radix_run_ok [of ops] have "k \<notin> entries (radix_run ops)" by (simp add: no_reinsert_snoc)
    with radix_insert_ok [OF ok] show ?thesis unfolding run unfolding Insert by simp
  next
    case (Query q ns)
    show ?thesis using ok query_frame [of q ns "radix_run ops"] unfolding run unfolding Query
      by (simp add: radix_ok_def entries_def)
  next
    case (Remove k)
    show ?thesis using radix_remove_spec(2) [OF ok] unfolding run unfolding Remove by simp
  next
    case Clear
    show ?thesis using radix_clear_ok unfolding run unfolding Clear by simp
  next
    case (Rebuild ks)
    with snoc.prems show ?thesis by (simp add: no_reinsert_snoc)
  qed
qed

lemma exact_has_entry: "refs_ok True n \<Longrightarrow> 1 \<le> weight n \<Longrightarrow> \<exists>p. ends_at p n"
proof (induction n)
  case (Node cs t r)
  show ?case
  proof (cases t)
    case True
    then show ?thesis by (intro exI [of _ "[]"]) simp
  next
    case False
    with Node.prems(2) obtain k c ds where cs: "cs = (k, c) # ds" by (cases cs) (auto simp: weight_def)
    with Node.prems(1) have "refs_ok True c" "1 \<le> weight c" by (auto simp: refs_ok.simps)
    with Node.IH [of "(k, c)" c] cs obtain p where "ends_at p c" by auto
    with cs show ?thesis by (intro exI [of _ "k # p"]) simp
  qed
qed

text \<open>If no stored sequence is ever inserted again, the documented equation for the reference
  counts holds at every node, and an index whose entries are all removed has no node left.\<close>

theorem radix_refs_without_reinsert:
  assumes "no_reinsert ops"
  shows "refs_ok True (root (radix_run ops)) \<and>
    (fold spec_step ops {} = {} \<longrightarrow> rs_node_count (rstats (radix_run ops)) = 0)"
proof (intro conjI impI)
  let ?x = "radix_run ops"
  have ok: "radix_ok True ?x" using radix_run_exact [OF assms] .
  then show r: "refs_ok True (root ?x)" by (simp add: radix_ok_def)
  assume "fold spec_step ops {} = {}"
  then have none: "\<not> ends_at p (root ?x)" for p using radix_run_ok [of ops] by (auto simp: entries_def keys_of_def)
  obtain cs t r' where n: "root ?x = Node cs t r'" by (cases "root ?x")
  have "cs = []"
  proof (rule ccontr)
    assume "cs \<noteq> []"
    with sum_refs_pos [OF r [unfolded n]] have "1 \<le> weight (root ?x)" by (simp add: weight_def n)
    with exact_has_entry [OF r] none show False by blast
  qed
  then show "rs_node_count (rstats ?x) = 0" using ok by (simp add: radix_ok_def n nodes.simps)
qed

theorem radix_refs_without_reinsert_witness:
  "refs_ok True (root (radix_run [Insert [1, 2], Insert [1], Remove [1], Remove [1, 2]])) \<and>
    fold spec_step [Insert [1, 2], Insert [1], Remove [1], Remove [1, 2]] {} = {} \<and>
    rs_node_count (rstats (radix_run [Insert [1, 2], Insert [1], Remove [1], Remove [1, 2]])) = 0"
proof -
  let ?ops = "[Insert [1, 2], Insert [1], Remove [1], Remove [1, 2]]"
  have "no_reinsert ?ops" by (auto simp: no_reinsert_def less_Suc_eq nth_Cons split: nat.splits)
  moreover have "fold spec_step ?ops {} = {}" by auto
  ultimately show ?thesis using radix_refs_without_reinsert [of ?ops] by simp
qed

text \<open>Inserting a stored sequence again counts its references twice: after one removal the
  index is empty, but its nodes stay in the trie for good, against the documented meaning of
  the reference count and of pruning.\<close>

lemma radix_reinsert_leaks_nodes:
  "let x = radix_run [Insert [5, 6], Insert [5, 6], Remove [5, 6]]
   in radix_len x = 0 \<and> rs_node_count (rstats x) = 2 \<and>
      root x = Node [(5, Node [(6, Node [] False 1)] False 1)] False 0"
  by code_simp

end
