(* ===== verification/CacheRollback.thy ===== *)
theory CacheRollback
  imports Prelude Complex_Main
begin

text \<open>
  Rollback across cache layers (\<^verbatim>\<open>fusion_mlx/cache/cache_rollback.py\<close>). A leaf registers a
  function that evicts one key from its layer; it acts on the state of all layers, the type
  variable \<open>'w\<close>, and may raise. Handles are shared objects that are only ever added, so a
  handle is named by its position in the manager and a token holds positions: registering a
  name again changes the handle that older tokens hold as well. The manager's lock is held for
  whole methods; a token's time is read by the caller.
\<close>

record ('k, 'w) leaf_handle =
  lh_name :: string
  lh_evict :: "'k \<Rightarrow> 'w \<Rightarrow> ('w, bool) outcome"

type_synonym ('k, 'w) rollback_manager = "('k, 'w) leaf_handle list"

record 'k rollback_token =
  rt_keys :: "'k list"
  rt_leaves :: "nat list"
  rt_time :: rat
  rt_rolled_back :: bool

text \<open>\<open>CacheLeafHandle.evict\<close>: an exception of the layer counts as \<open>False\<close>.\<close>

definition leaf_evict :: "('k, 'w) leaf_handle \<Rightarrow> 'k \<Rightarrow> 'w \<Rightarrow> bool \<times> 'w" where
  "leaf_evict h k w = (case lh_evict h k w of (Inr b, w1) \<Rightarrow> (b, w1) | (Inl e, w1) \<Rightarrow> (False, w1))"

fun register_leaf :: "string \<Rightarrow> ('k \<Rightarrow> 'w \<Rightarrow> ('w, bool) outcome) \<Rightarrow> ('k, 'w) rollback_manager \<Rightarrow>
    ('k, 'w) rollback_manager" where
  "register_leaf name f [] = [\<lparr>lh_name = name, lh_evict = f\<rparr>]"
| "register_leaf name f (h # hs) =
     (if lh_name h = name then h\<lparr>lh_evict := f\<rparr> # hs else h # register_leaf name f hs)"

definition manager_leaves :: "('k, 'w) rollback_manager \<Rightarrow> nat list" where
  "manager_leaves m = [0..<length m]"

definition snapshot :: "'k list \<Rightarrow> rat \<Rightarrow> ('k, 'w) rollback_manager \<Rightarrow> 'k rollback_token" where
  "snapshot keys now m = \<lparr>rt_keys = keys, rt_leaves = manager_leaves m, rt_time = now, rt_rolled_back = False\<rparr>"

definition evict_one :: "('k, 'w) rollback_manager \<Rightarrow> 'k \<Rightarrow> nat \<Rightarrow> int \<times> 'w \<Rightarrow> int \<times> 'w" where
  "evict_one m k i = (\<lambda>(total, w). case leaf_evict (m ! i) k w of
     (True, w1) \<Rightarrow> (total + 1, w1) | (False, w1) \<Rightarrow> (total, w1))"

definition rollback :: "('k, 'w) rollback_manager \<Rightarrow> 'k rollback_token \<Rightarrow> 'w \<Rightarrow> int \<times> 'k rollback_token \<times> 'w" where
  "rollback m tok w =
     (if rt_rolled_back tok then (0, tok, w)
      else let (total, w1) = fold (\<lambda>k. fold (evict_one m k) (rt_leaves tok)) (rt_keys tok) (0, w)
           in (total, tok\<lparr>rt_rolled_back := True\<rparr>, w1))"

definition rollback_keys :: "'k list \<Rightarrow> rat \<Rightarrow> ('k, 'w) rollback_manager \<Rightarrow> 'w \<Rightarrow> int \<times> 'w" where
  "rollback_keys keys now m w = (let (total, tok, w1) = rollback m (snapshot keys now m) w in (total, w1))"

text \<open>
  \<open>with manager.rollback_context(keys): body\<close>: the token is taken before the body runs; when the
  body raises, its exit rolls back and, returning \<open>False\<close>, lets the exception pass.
\<close>

definition context_exit :: "('k, 'w) rollback_manager \<Rightarrow> 'k rollback_token \<Rightarrow> bool \<Rightarrow> 'w \<Rightarrow> 'w" where
  "context_exit m tok raised w = (if raised then snd (snd (rollback m tok w)) else w)"

definition rollback_context ::
  "('k, 'w) rollback_manager \<Rightarrow> 'k list \<Rightarrow> rat \<Rightarrow> ('w \<Rightarrow> ('w, 'a) outcome) \<Rightarrow> 'w \<Rightarrow> ('w, 'a) outcome" where
  "rollback_context m keys now body w =
     (let tok = snapshot keys now m; (r, w1) = body w in (r, context_exit m tok (isl r) w1))"

section \<open>The contract of the layers\<close>

text \<open>
  What the manager relies on: evicting a key that is not pinned answers whether the layer held
  it, and the layer no longer holds it; no other key and no other layer is affected.
\<close>

locale leaf_caches =
  fixes leaves :: "('k \<Rightarrow> 'w \<Rightarrow> ('w, bool) outcome) list"
    and holds :: "nat \<Rightarrow> 'k \<Rightarrow> 'w \<Rightarrow> bool"
    and pinned :: "nat \<Rightarrow> 'k \<Rightarrow> 'w \<Rightarrow> bool"
    and ok :: "'w \<Rightarrow> bool"
  assumes keeps_ok: "ok w \<Longrightarrow> i < length leaves \<Longrightarrow> ok (snd ((leaves ! i) k w))"
    and removes: "ok w \<Longrightarrow> i < length leaves \<Longrightarrow> \<not> pinned i k w \<Longrightarrow>
      fst ((leaves ! i) k w) = Inr (holds i k w) \<and> \<not> holds i k (snd ((leaves ! i) k w))"
    and frame: "ok w \<Longrightarrow> i < length leaves \<Longrightarrow> \<not> pinned i k w \<Longrightarrow> (j, k') \<noteq> (i, k) \<Longrightarrow>
      holds j k' (snd ((leaves ! i) k w)) = holds j k' w \<and>
      pinned j k' (snd ((leaves ! i) k w)) = pinned j k' w"
begin

lemma evict_pairs:
  assumes "map lh_evict m = leaves" "distinct ps" "\<And>k i. (k, i) \<in> set ps \<Longrightarrow> i < length leaves \<and> \<not> pinned i k w" "ok w"
  shows "let (n, w1) = fold (\<lambda>(k, i). evict_one m k i) ps (t, w)
    in ok w1 \<and> n = t + int (length (filter (\<lambda>(k, i). holds i k w) ps)) \<and>
       (\<forall>i k. holds i k w1 \<longleftrightarrow> holds i k w \<and> (k, i) \<notin> set ps)"
  using assms(2-4)
proof (induction ps arbitrary: w t)
  case Nil
  then show ?case by simp
next
  case (Cons p ps)
  obtain k i where p: "p = (k, i)" by force
  define w1 where "w1 = snd ((leaves ! i) k w)"
  from Cons.prems(2) [of k i] p have i: "i < length leaves" "\<not> pinned i k w" by auto
  from i assms(1) have h: "lh_evict (m ! i) = leaves ! i" by (metis length_map nth_map)
  from removes [OF Cons.prems(3) i] have r: "(leaves ! i) k w = (Inr (holds i k w), w1)" "\<not> holds i k w1"
    by (auto simp: w1_def prod_eq_iff)
  have step: "evict_one m k i (t, w) = (t + (if holds i k w then 1 else 0), w1)"
    using r(1) by (auto simp: evict_one_def leaf_evict_def h split: bool.splits)
  have fr: "holds j k' w1 = holds j k' w" "pinned j k' w1 = pinned j k' w" if "(j, k') \<noteq> (i, k)" for j k'
    using frame [OF Cons.prems(3) i that] by (auto simp: w1_def)
  have "i' < length leaves \<and> \<not> pinned i' k' w1" if "(k', i') \<in> set ps" for k' i'
    using Cons.prems(1,2) that fr(2) [of i' k'] p by auto
  moreover have "ok w1" unfolding w1_def by (rule keeps_ok [OF Cons.prems(3) i(1)])
  moreover have "distinct ps" using Cons.prems(1) by simp
  ultimately have IH: "let (n, w2) = fold (\<lambda>(k, i). evict_one m k i) ps (t + (if holds i k w then 1 else 0), w1)
    in ok w2 \<and> n = t + (if holds i k w then 1 else 0) + int (length (filter (\<lambda>(k, i). holds i k w1) ps)) \<and>
       (\<forall>i k. holds i k w2 \<longleftrightarrow> holds i k w1 \<and> (k, i) \<notin> set ps)"
    using Cons.IH [of w1 "t + (if holds i k w then 1 else 0)"] by blast
  have "filter (\<lambda>(k, i). holds i k w1) ps = filter (\<lambda>(k, i). holds i k w) ps"
  proof (rule filter_cong [OF refl])
    fix q assume q: "q \<in> set ps"
    obtain k' j where "q = (k', j)" by force
    with q Cons.prems(1) p have "(j, k') \<noteq> (i, k)" by auto
    then show "(case q of (k, i) \<Rightarrow> holds i k w1) = (case q of (k, i) \<Rightarrow> holds i k w)"
      using fr(1) \<open>q = (k', j)\<close> by simp
  qed
  moreover have "holds j k' w1 \<and> (k', j) \<notin> set ps \<longleftrightarrow> holds j k' w \<and> (k', j) \<notin> set (p # ps)" for j k'
    using fr(1) [of j k'] r(2) p by (cases "(j, k') = (i, k)") auto
  moreover obtain n2 w2 where
    f: "fold (\<lambda>(k, i). evict_one m k i) ps (t + (if holds i k w then 1 else 0), w1) = (n2, w2)" by force
  moreover from f have "fold (\<lambda>(k, i). evict_one m k i) (p # ps) (t, w) = (n2, w2)" by (simp add: p step)
  ultimately show ?case using IH unfolding p by simp
qed

lemma nested_fold: "fold (\<lambda>k. fold (f k) is) ks s = fold (\<lambda>(k, i). f k i) (List.product ks is) s"
  by (induction ks arbitrary: s) (simp_all add: fold_map comp_def)

text \<open>A rollback of unpinned keys removes exactly those keys from every layer and counts them.\<close>

lemma rollback_clears:
  assumes "map lh_evict m = leaves" "distinct keys" "ok w"
    and "\<And>k i. k \<in> set keys \<Longrightarrow> i < length leaves \<Longrightarrow> \<not> pinned i k w"
    and "rollback_keys keys now m w = (n, w')"
  shows "(\<forall>i k. holds i k w' \<longleftrightarrow> holds i k w \<and> \<not> (k \<in> set keys \<and> i < length leaves)) \<and>
    n = int (length (filter (\<lambda>(k, i). holds i k w) (List.product keys [0..<length leaves]))) \<and> ok w'"
proof -
  let ?ps = "List.product keys [0..<length leaves]"
  have len: "length m = length leaves" using assms(1) by (metis length_map)
  have "distinct ?ps" by (simp add: distinct_product assms(2))
  moreover have "i < length leaves \<and> \<not> pinned i k w" if "(k, i) \<in> set ?ps" for k i
    using that assms(4) by auto
  ultimately have "let (n, w1) = fold (\<lambda>(k, i). evict_one m k i) ?ps (0, w)
    in ok w1 \<and> n = 0 + int (length (filter (\<lambda>(k, i). holds i k w) ?ps)) \<and>
       (\<forall>i k. holds i k w1 \<longleftrightarrow> holds i k w \<and> (k, i) \<notin> set ?ps)"
    by (rule evict_pairs [OF assms(1) _ _ assms(3)])
  moreover have "fold (\<lambda>(k, i). evict_one m k i) ?ps (0, w) = (n, w')"
    using assms(5) by (simp add: rollback_keys_def rollback_def snapshot_def manager_leaves_def nested_fold len case_prod_beta
        Let_def prod_eq_iff)
  ultimately show ?thesis by auto
qed

end

end
