(* ===== verification/ResponseCache.thy ===== *)
theory ResponseCache
  imports Json PyText
begin

text \<open>
  The cache of complete responses (\<^verbatim>\<open>fusion_mlx/cache/response_cache.py\<close>): its state, its
  policy and every operation of \<open>ResponseCache\<close>. Times (\<open>time.monotonic\<close>) are read by the
  caller of the model and passed in as \<open>now\<close>; times and temperatures are rationals.
\<close>

section \<open>State\<close>

datatype cache_policy = FORCE | ONLY_IF_CACHED | BYPASS | WRITE_ONLY | NO_STORE

record response_stats =
  rc_hits :: int
  rc_misses :: int
  rc_evictions :: int
  rc_size_bytes :: int
  rc_entry_count :: int

text \<open>A response to be cached: a JSON document, or an object \<open>json.dumps\<close> raises on.\<close>

datatype response = Document json | Unserialisable

record response_entry =
  re_key :: string
  re_value :: json
  re_size :: int
  re_created :: rat
  re_access :: rat
  re_ttl :: rat
  re_model :: string

text \<open>The store is an ordered dictionary; its first key is the least recently used one.\<close>

record response_cache =
  rc_max_entries :: int
  rc_max_entry_bytes :: int
  rc_default_ttl :: rat
  rc_max_total_bytes :: int
  rc_store :: "(string, response_entry) pydict"
  rc_stats :: response_stats

definition fresh_response_stats :: response_stats where
  "fresh_response_stats = \<lparr>rc_hits = 0, rc_misses = 0, rc_evictions = 0, rc_size_bytes = 0, rc_entry_count = 0\<rparr>"

definition hit_rate :: "response_stats \<Rightarrow> rat" where
  "hit_rate st = (let total = rc_hits st + rc_misses st
     in if total > 0 then of_int (rc_hits st) / of_int total else 0)"

definition response_cache_new :: "int \<Rightarrow> int \<Rightarrow> rat \<Rightarrow> int \<Rightarrow> response_cache" where
  "response_cache_new me mb ttl mt = \<lparr>rc_max_entries = me, rc_max_entry_bytes = mb, rc_default_ttl = ttl,
     rc_max_total_bytes = mt, rc_store = [], rc_stats = fresh_response_stats\<rparr>"

definition default_response_cache :: response_cache where
  "default_response_cache = response_cache_new 256 65536 3600 (64 * 1024 * 1024)"

definition upd_rstats :: "(response_stats \<Rightarrow> response_stats) \<Rightarrow> response_cache \<Rightarrow> response_cache" where
  "upd_rstats f c = c\<lparr>rc_stats := f (rc_stats c)\<rparr>"

section \<open>Key and policy\<close>

text \<open>A number as the request carries it; \<open>str\<close> prints an integer and a float differently.\<close>

datatype py_num = PyInt int | PyFloat rat

definition num_str :: "(rat \<Rightarrow> string) \<Rightarrow> py_num option \<Rightarrow> string" where
  "num_str fl v = (case v of None \<Rightarrow> ''-1'' | Some (PyInt i) \<Rightarrow> int_str i | Some (PyFloat q) \<Rightarrow> fl q)"

record chat_params =
  cp_model :: string
  cp_messages :: json
  cp_temperature :: "py_num option"
  cp_top_p :: "py_num option"
  cp_max_tokens :: "int option"
  cp_stop :: "json option"
  cp_tools :: "json option"
  cp_response_format :: "json option"
  cp_seed :: "int option"
  cp_grammar :: "string option"
  cp_adapters :: "string option"

text \<open>\<open>v or d\<close> for an optional list or dictionary: an empty one gives \<open>d\<close> as well.\<close>

definition falsy :: "json \<Rightarrow> bool" where
  "falsy v = (case v of JNull \<Rightarrow> True | JBool b \<Rightarrow> \<not> b | JInt i \<Rightarrow> i = 0 | JFloat q \<Rightarrow> q = 0
     | JStr s \<Rightarrow> s = [] | JList vs \<Rightarrow> vs = [] | JObj d \<Rightarrow> d = [])"

definition or_else :: "json option \<Rightarrow> json \<Rightarrow> json" where
  "or_else v d = (case v of None \<Rightarrow> d | Some w \<Rightarrow> if falsy w then d else w)"

definition int_opt_str :: "int option \<Rightarrow> string" where
  "int_opt_str v = (case v of None \<Rightarrow> ''-1'' | Some i \<Rightarrow> int_str i)"

text \<open>
  The signature of an adapter directory (\<open>adapter_path_signature\<close>): the total size and the
  latest modification time of the weight files found under it are the file system's answer
  \<open>scan\<close>; without weight files the path itself is the signature.
\<close>

definition adapter_path_signature :: "(string \<Rightarrow> string) \<Rightarrow> (string \<Rightarrow> int \<times> rat) \<Rightarrow> string \<Rightarrow> string" where
  "adapter_path_signature sha scan path =
     (if path = [] then []
      else let (total, mtime) = scan path
           in if total = 0 then path
              else sha (path @ ''|'' @ int_str total @ ''|'' @ int_str \<lfloor>mtime\<rfloor>))"

definition fingerprint_parts ::
  "(string \<Rightarrow> string) \<Rightarrow> (string \<Rightarrow> int \<times> rat) \<Rightarrow> (rat \<Rightarrow> string) \<Rightarrow> chat_params \<Rightarrow> string list" where
  "fingerprint_parts sha scan fl p =
     [cp_model p,
      (case cp_adapters p of None \<Rightarrow> [] | Some a \<Rightarrow> if a = [] then [] else adapter_path_signature sha scan a),
      dumps fl True (cp_messages p),
      num_str fl (cp_temperature p),
      num_str fl (cp_top_p p),
      int_opt_str (cp_max_tokens p),
      dumps fl True (or_else (cp_stop p) (JList [])),
      dumps fl True (or_else (cp_tools p) (JList [])),
      dumps fl True (or_else (cp_response_format p) (JObj [])),
      int_opt_str (cp_seed p),
      (case cp_grammar p of None \<Rightarrow> [] | Some g \<Rightarrow> g)]"

definition fingerprint ::
  "(string \<Rightarrow> string) \<Rightarrow> (string \<Rightarrow> int \<times> rat) \<Rightarrow> (rat \<Rightarrow> string) \<Rightarrow> chat_params \<Rightarrow> string" where
  "fingerprint sha scan fl p = sha (join ''|'' (fingerprint_parts sha scan fl p))"

definition resolve_policy :: "py_num option \<Rightarrow> (string, string) pydict \<Rightarrow> cache_policy" where
  "resolve_policy temperature headers =
     (let header = (case map_of headers ''x-cache'' of Some v \<Rightarrow> v
            | None \<Rightarrow> (case map_of headers ''X-Cache'' of Some v \<Rightarrow> v | None \<Rightarrow> []));
          h = strip (map lower_char header)
      in if h = ''bypass'' then BYPASS
         else if h = ''force'' then FORCE
         else if h = ''only-if-cached'' then ONLY_IF_CACHED
         else if h = ''no-store'' then NO_STORE
         else case temperature of
                None \<Rightarrow> BYPASS
              | Some (PyInt i) \<Rightarrow> if i = 0 then FORCE else BYPASS
              | Some (PyFloat q) \<Rightarrow> if q = 0 then FORCE else BYPASS)"

section \<open>Operations\<close>

definition expired :: "rat \<Rightarrow> response_entry \<Rightarrow> bool" where
  "expired now e = (now - re_created e > re_ttl e)"

definition rc_evict :: "string \<Rightarrow> response_cache \<Rightarrow> response_cache" where
  "rc_evict key c =
     (case map_of (rc_store c) key of
        None \<Rightarrow> c
      | Some e \<Rightarrow>
          (let d = dict_del key (rc_store c)
           in upd_rstats (\<lambda>st. st\<lparr>rc_size_bytes := rc_size_bytes st - re_size e,
                rc_evictions := rc_evictions st + 1, rc_entry_count := int (length d)\<rparr>) (c\<lparr>rc_store := d\<rparr>)))"

definition expired_keys :: "rat \<Rightarrow> response_cache \<Rightarrow> string list" where
  "expired_keys now c = map fst (filter (\<lambda>p. expired now (snd p)) (rc_store c))"

definition rc_sweep_expired :: "rat \<Rightarrow> response_cache \<Rightarrow> int \<times> response_cache" where
  "rc_sweep_expired now c = (int (length (expired_keys now c)), fold rc_evict (expired_keys now c) c)"

text \<open>\<open>move_to_end\<close> of the ordered dictionary, with the access time of the entry set.\<close>

definition rc_touch :: "string \<Rightarrow> response_entry \<Rightarrow> rat \<Rightarrow> response_cache \<Rightarrow> response_cache" where
  "rc_touch key e now c = c\<lparr>rc_store := dict_del key (rc_store c) @ [(key, e\<lparr>re_access := now\<rparr>)]\<rparr>"

definition rc_get :: "string \<Rightarrow> rat \<Rightarrow> response_cache \<Rightarrow> json option \<times> response_cache" where
  "rc_get key now c =
     (case map_of (rc_store c) key of
        None \<Rightarrow> (None, upd_rstats (\<lambda>st. st\<lparr>rc_misses := rc_misses st + 1\<rparr>) c)
      | Some e \<Rightarrow>
          if expired now e
          then (None, upd_rstats (\<lambda>st. st\<lparr>rc_misses := rc_misses st + 1\<rparr>) (rc_evict key c))
          else (Some (re_value e), upd_rstats (\<lambda>st. st\<lparr>rc_hits := rc_hits st + 1\<rparr>) (rc_touch key e now c)))"

text \<open>The eviction loop of \<open>put\<close>: it pops the first entry until the new one fits or none is left.\<close>

fun make_room :: "int \<Rightarrow> int \<Rightarrow> int \<Rightarrow> (string, response_entry) pydict \<Rightarrow> response_stats \<Rightarrow>
    (string, response_entry) pydict \<times> response_stats" where
  "make_room me mt sz [] st = ([], st)"
| "make_room me mt sz (p # ps) st =
     (if int (length (p # ps)) \<ge> me \<or> rc_size_bytes st + sz > mt
      then make_room me mt sz ps (st\<lparr>rc_size_bytes := rc_size_bytes st - re_size (snd p),
             rc_evictions := rc_evictions st + 1\<rparr>)
      else (p # ps, st))"

definition drop_old :: "string \<Rightarrow> response_cache \<Rightarrow> response_cache" where
  "drop_old key c =
     (case map_of (rc_store c) key of
        None \<Rightarrow> c
      | Some e \<Rightarrow> upd_rstats (\<lambda>st. st\<lparr>rc_size_bytes := rc_size_bytes st - re_size e\<rparr>)
                   (c\<lparr>rc_store := dict_del key (rc_store c)\<rparr>))"

text \<open>\<open>ttl or self._default_ttl\<close>: a time to live of zero counts as not given.\<close>

definition ttl_or :: "rat option \<Rightarrow> rat \<Rightarrow> rat" where
  "ttl_or ttl d = (case ttl of None \<Rightarrow> d | Some t \<Rightarrow> if t = 0 then d else t)"

definition put_entry :: "string \<Rightarrow> json \<Rightarrow> int \<Rightarrow> rat option \<Rightarrow> string \<Rightarrow> rat \<Rightarrow> response_cache \<Rightarrow> response_cache" where
  "put_entry key v sz ttl model now c =
     (let c1 = snd (rc_sweep_expired now (drop_old key c));
          (d, st) = make_room (rc_max_entries c1) (rc_max_total_bytes c1) sz (rc_store c1) (rc_stats c1);
          e = \<lparr>re_key = key, re_value = v, re_size = sz, re_created = now, re_access = now,
               re_ttl = ttl_or ttl (rc_default_ttl c1), re_model = model\<rparr>;
          d1 = dict_set key e d
      in c1\<lparr>rc_store := d1, rc_stats := st\<lparr>rc_size_bytes := rc_size_bytes st + sz, rc_entry_count := int (length d1)\<rparr>\<rparr>)"

definition rc_put ::
  "(rat \<Rightarrow> string) \<Rightarrow> string \<Rightarrow> response \<Rightarrow> rat option \<Rightarrow> string \<Rightarrow> rat \<Rightarrow> response_cache \<Rightarrow> bool \<times> response_cache" where
  "rc_put fl key value ttl model now c =
     (case value of
        Unserialisable \<Rightarrow> (False, c)
      | Document v \<Rightarrow>
          (let sz = int (length (dumps fl False v))
           in if sz > rc_max_entry_bytes c then (False, c)
              else (True, put_entry key v sz ttl model now c)))"

definition rc_invalidate :: "string \<Rightarrow> response_cache \<Rightarrow> bool \<times> response_cache" where
  "rc_invalidate key c =
     (case map_of (rc_store c) key of
        None \<Rightarrow> (False, c)
      | Some e \<Rightarrow>
          (let d = dict_del key (rc_store c)
           in (True, upd_rstats (\<lambda>st. st\<lparr>rc_size_bytes := rc_size_bytes st - re_size e, rc_entry_count := int (length d)\<rparr>)
                 (c\<lparr>rc_store := d\<rparr>))))"

definition rc_clear :: "response_cache \<Rightarrow> response_cache" where
  "rc_clear c = upd_rstats (\<lambda>st. st\<lparr>rc_size_bytes := 0, rc_entry_count := 0\<rparr>) (c\<lparr>rc_store := []\<rparr>)"

definition rc_invalidate_model :: "string \<Rightarrow> response_cache \<Rightarrow> int \<times> response_cache" where
  "rc_invalidate_model model c =
     (if model = [] then (0, c)
      else let stale = map fst (filter (\<lambda>p. re_model (snd p) = model) (rc_store c));
               c1 = fold drop_old stale c
           in (int (length stale), upd_rstats (\<lambda>st. st\<lparr>rc_entry_count := int (length (rc_store c1))\<rparr>) c1))"

definition has_response_id :: "string \<Rightarrow> json \<Rightarrow> bool" where
  "has_response_id rid v = (case v of JObj d \<Rightarrow> map_of d ''id'' = Some (JStr rid) | _ \<Rightarrow> False)"

definition rc_get_by_response_id :: "string \<Rightarrow> rat \<Rightarrow> response_cache \<Rightarrow> json option \<times> response_cache" where
  "rc_get_by_response_id rid now c =
     (case find (\<lambda>p. has_response_id rid (re_value (snd p))) (rc_store c) of
        None \<Rightarrow> (None, c)
      | Some (k, e) \<Rightarrow> (Some (re_value e), rc_touch (re_key e) e now c))"

section \<open>The global instance\<close>

definition get_response_cache :: "response_cache option \<Rightarrow> response_cache \<times> response_cache option" where
  "get_response_cache g = (case g of None \<Rightarrow> (default_response_cache, Some default_response_cache) | Some c \<Rightarrow> (c, Some c))"

text \<open>The old object, cleared for those who still hold it, and the global that is unset.\<close>

definition reset_response_cache :: "response_cache option \<Rightarrow> response_cache option \<times> response_cache option" where
  "reset_response_cache g = (map_option rc_clear g, None)"

end
