(* ===== verification/ResponseProps.thy ===== *)
theory ResponseProps
  imports ResponseCache
begin

text \<open>
  Correctness of the response cache: its counters and bounds over every history of calls, what
  a \<open>put\<close> evicts and stores, and that a hit is the last response accepted for its key and
  not expired (a refinement of the map of accepted writes).
\<close>

named_theorems rcs \<open>stores, counters and limits after the operations\<close>

section \<open>Stores\<close>

definition size_sum :: "(string, response_entry) pydict \<Rightarrow> int" where
  "size_sum d = sum_list (map re_size (dict_values d))"

lemma size_sum_simps [simp]: "size_sum [] = 0" "size_sum (p # ps) = re_size (snd p) + size_sum ps"
  "size_sum (xs @ ys) = size_sum xs + size_sum ys"
  by (simp_all add: size_sum_def)

lemma size_sum_del: "distinct (dict_keys d) \<Longrightarrow> map_of d k = Some e \<Longrightarrow>
    size_sum (dict_del k d) = size_sum d - re_size e"
  unfolding size_sum_def by (rule sum_list_dict_del)

lemma fold_del_filter: "fold dict_del ks d = filter (\<lambda>p. fst p \<notin> set ks) d"
proof (induction ks arbitrary: d)
  case Nil
  then show ?case by simp
next
  case (Cons k ks)
  have "fold dict_del (k # ks) d = filter (\<lambda>p. fst p \<notin> set ks) (filter (\<lambda>p. fst p \<noteq> k) d)"
    unfolding fold_simps Cons dict_del_filter ..
  also have "\<dots> = filter (\<lambda>p. fst p \<notin> set (k # ks)) d" by (auto intro: filter_cong)
  finally show ?case .
qed

lemma filter_keys_of: "distinct (dict_keys d) \<Longrightarrow>
    filter (\<lambda>p. fst p \<notin> set (map fst (filter P d))) d = filter (\<lambda>p. \<not> P p) d"
  by (rule filter_cong [OF refl]) (force simp: distinct_map inj_on_def)

lemma distinct_filter_keys: "distinct (dict_keys d) \<Longrightarrow> distinct (dict_keys (filter P d))"
  by (rule distinct_map_filter)

lemma distinct_drop_keys: "distinct (dict_keys d) \<Longrightarrow> distinct (dict_keys (drop n d))"
  by (simp flip: drop_map)

section \<open>The invariant\<close>

definition limits :: "response_cache \<Rightarrow> int \<times> int \<times> rat \<times> int" where
  "limits c = (rc_max_entries c, rc_max_entry_bytes c, rc_default_ttl c, rc_max_total_bytes c)"

text \<open>Keys are distinct and named in their entries, the size counter is the sum of the sizes.\<close>

definition rc_core :: "response_cache \<Rightarrow> bool" where
  "rc_core c \<longleftrightarrow> distinct (dict_keys (rc_store c)) \<and> rc_size_bytes (rc_stats c) = size_sum (rc_store c) \<and>
     (\<forall>p \<in> set (rc_store c). re_key (snd p) = fst p \<and> 0 \<le> re_size (snd p) \<and> re_size (snd p) \<le> rc_max_entry_bytes c)"

definition in_bounds :: "response_cache \<Rightarrow> bool" where
  "in_bounds c \<longleftrightarrow> rc_store c = [] \<or>
     int (length (rc_store c)) \<le> max 1 (rc_max_entries c) \<and>
     size_sum (rc_store c) \<le> max (rc_max_total_bytes c) (rc_max_entry_bytes c)"

definition rc_inv :: "response_cache \<Rightarrow> bool" where
  "rc_inv c \<longleftrightarrow> rc_core c \<and> rc_entry_count (rc_stats c) = int (length (rc_store c)) \<and> in_bounds c"

lemma upd_rstats_sel [simp]:
  "rc_store (upd_rstats f c) = rc_store c" "rc_stats (upd_rstats f c) = f (rc_stats c)"
  "limits (upd_rstats f c) = limits c" "rc_max_entries (upd_rstats f c) = rc_max_entries c"
  "rc_max_entry_bytes (upd_rstats f c) = rc_max_entry_bytes c" "rc_default_ttl (upd_rstats f c) = rc_default_ttl c"
  "rc_max_total_bytes (upd_rstats f c) = rc_max_total_bytes c"
  by (simp_all add: upd_rstats_def limits_def)

lemma limitsD: "limits c = limits c' \<Longrightarrow> rc_max_entries c = rc_max_entries c' \<and> rc_max_entry_bytes c = rc_max_entry_bytes c' \<and>
    rc_default_ttl c = rc_default_ttl c' \<and> rc_max_total_bytes c = rc_max_total_bytes c'"
  by (simp add: limits_def)

lemma store_evict [rcs]: "rc_store (rc_evict k c) = dict_del k (rc_store c)"
  by (auto simp: rc_evict_def Let_def map_of_eq_None_iff dict_del_absent split: option.splits)

lemma store_drop_old [rcs]: "rc_store (drop_old k c) = dict_del k (rc_store c)"
  by (auto simp: drop_old_def map_of_eq_None_iff dict_del_absent split: option.splits)

lemma limits_evict [rcs]: "limits (rc_evict k c) = limits c" "limits (drop_old k c) = limits c"
  by (auto simp: rc_evict_def drop_old_def Let_def limits_def upd_rstats_def split: option.splits)

lemma core_subset:
  assumes "rc_core c" "limits c' = limits c" "rc_store c' = filter P (rc_store c)"
    "rc_size_bytes (rc_stats c') = size_sum (rc_store c')"
  shows "rc_core c'"
  using assms by (auto simp: rc_core_def limits_def distinct_filter_keys)

lemma core_evict:
  assumes "rc_core c"
  shows "rc_core (rc_evict k c)" "rc_core (drop_old k c)"
proof -
  have "rc_size_bytes (rc_stats (rc_evict k c)) = size_sum (dict_del k (rc_store c))"
    "rc_size_bytes (rc_stats (drop_old k c)) = size_sum (dict_del k (rc_store c))"
    using assms
    by (auto simp: rc_core_def rc_evict_def drop_old_def Let_def size_sum_del map_of_eq_None_iff dict_del_absent
        split: option.splits)
  then show "rc_core (rc_evict k c)" "rc_core (drop_old k c)"
    using core_subset [OF assms, where P = "\<lambda>p. fst p \<noteq> k"] by (simp_all add: rcs dict_del_filter)
qed

lemma fold_evict:
  assumes "rc_core c"
  shows "rc_core (fold rc_evict ks c) \<and> limits (fold rc_evict ks c) = limits c \<and>
    rc_store (fold rc_evict ks c) = filter (\<lambda>p. fst p \<notin> set ks) (rc_store c)"
proof -
  have "rc_store (fold rc_evict ks c) = fold dict_del ks (rc_store c)" for c
    by (induction ks arbitrary: c) (simp_all add: rcs)
  moreover have "rc_core (fold rc_evict ks c) \<and> limits (fold rc_evict ks c) = limits c"
    using assms by (induction ks arbitrary: c) (simp_all add: core_evict rcs)
  ultimately show ?thesis by (simp add: fold_del_filter)
qed

lemma fold_drop_old:
  assumes "rc_core c"
  shows "rc_core (fold drop_old ks c) \<and> limits (fold drop_old ks c) = limits c \<and>
    rc_store (fold drop_old ks c) = filter (\<lambda>p. fst p \<notin> set ks) (rc_store c)"
proof -
  have "rc_store (fold drop_old ks c) = fold dict_del ks (rc_store c)" for c
    by (induction ks arbitrary: c) (simp_all add: rcs)
  moreover have "rc_core (fold drop_old ks c) \<and> limits (fold drop_old ks c) = limits c"
    using assms by (induction ks arbitrary: c) (simp_all add: core_evict rcs)
  ultimately show ?thesis by (simp add: fold_del_filter)
qed

text \<open>Removing entries keeps the bounds, since sizes are not negative.\<close>

lemma size_sum_filter_le:
  "\<forall>p \<in> set d. 0 \<le> re_size (snd p) \<Longrightarrow> size_sum (filter P d) \<le> size_sum d"
  by (induction d) auto

lemma in_bounds_subset:
  assumes "rc_core c" "in_bounds c" "limits c' = limits c" "rc_store c' = filter P (rc_store c)"
  shows "in_bounds c'"
proof -
  have "size_sum (rc_store c') \<le> size_sum (rc_store c)" "length (rc_store c') \<le> length (rc_store c)"
    using assms size_sum_filter_le [of "rc_store c" P] by (auto simp: rc_core_def)
  then show ?thesis
    using assms(2) limitsD [OF assms(3)] assms(4) unfolding in_bounds_def
    by (cases "rc_store c = []") (simp, linarith)
qed

lemma inv_subset:
  assumes "rc_inv c" "limits c' = limits c" "rc_store c' = filter P (rc_store c)"
    "rc_size_bytes (rc_stats c') = size_sum (rc_store c')" "rc_entry_count (rc_stats c') = int (length (rc_store c'))"
  shows "rc_inv c'"
  using assms core_subset [of c c' P] in_bounds_subset [of c c' P] by (auto simp: rc_inv_def)

section \<open>Removal and lookup keep the invariant\<close>

lemma inv_removed:
  assumes "rc_inv c" "map_of (rc_store c) k = Some e" "limits c' = limits c" "rc_store c' = dict_del k (rc_store c)"
    "rc_size_bytes (rc_stats c') = rc_size_bytes (rc_stats c) - re_size e"
    "rc_entry_count (rc_stats c') = int (length (dict_del k (rc_store c)))"
  shows "rc_inv c'"
  using assms by (intro inv_subset [OF assms(1), where P = "\<lambda>p. fst p \<noteq> k"])
    (auto simp: size_sum_del rc_inv_def rc_core_def simp flip: dict_del_filter)

lemma inv_evict: "rc_inv c \<Longrightarrow> rc_inv (rc_evict k c)"
  by (auto simp: rc_evict_def Let_def limits_def upd_rstats_def intro!: inv_removed [of c k] split: option.splits)

lemma inv_upd:
  "rc_inv c \<Longrightarrow> rc_size_bytes (f (rc_stats c)) = rc_size_bytes (rc_stats c) \<Longrightarrow>
   rc_entry_count (f (rc_stats c)) = rc_entry_count (rc_stats c) \<Longrightarrow> rc_inv (upd_rstats f c)"
  by (simp add: rc_inv_def rc_core_def in_bounds_def)

lemma touch_sel [rcs]: "rc_store (rc_touch k e now c) = dict_del k (rc_store c) @ [(k, e\<lparr>re_access := now\<rparr>)]"
  "limits (rc_touch k e now c) = limits c" "rc_stats (rc_touch k e now c) = rc_stats c"
  by (simp_all add: rc_touch_def limits_def)

lemma inv_touch:
  assumes "rc_inv c" "map_of (rc_store c) k = Some e"
  shows "rc_inv (rc_touch k e now c)"
proof -
  have ent: "(k, e) \<in> set (rc_store c)" using assms(2) by (rule map_of_SomeD)
  then have "k \<in> set (dict_keys (rc_store c))" by force
  with assms have len: "Suc (length (dict_del k (rc_store c))) = length (rc_store c)"
    by (intro length_dict_del) (auto simp: rc_inv_def rc_core_def)
  have sz: "size_sum (dict_del k (rc_store c)) = size_sum (rc_store c) - re_size e"
    using assms by (intro size_sum_del) (auto simp: rc_inv_def rc_core_def)
  have k: "k \<notin> set (dict_keys (dict_del k (rc_store c)))" unfolding keys_dict_del by simp
  from assms ent len sz k show ?thesis
    by (auto simp: rc_inv_def rc_core_def in_bounds_def rc_touch_def set_dict_del)
qed

lemma inv_get: "rc_inv c \<Longrightarrow> rc_inv (snd (rc_get k now c))"
  by (auto simp: rc_get_def intro!: inv_upd inv_evict inv_touch split: option.splits)

lemma find_entry: "find P d = Some p \<Longrightarrow> p \<in> set d \<and> P p"
  by (auto simp: find_Some_iff)

lemma by_id_entry:
  assumes "rc_core c" "find P (rc_store c) = Some (k, e)"
  shows "re_key e = k \<and> map_of (rc_store c) k = Some e"
  using assms find_entry [OF assms(2)] by (auto simp: rc_core_def)

lemma inv_by_id: "rc_inv c \<Longrightarrow> rc_inv (snd (rc_get_by_response_id rid now c))"
  using by_id_entry [of c] inv_touch [of c]
  by (auto simp: rc_get_by_response_id_def rc_inv_def [of c] split: option.splits)

lemma inv_invalidate: "rc_inv c \<Longrightarrow> rc_inv (snd (rc_invalidate k c))"
  by (auto simp: rc_invalidate_def Let_def limits_def upd_rstats_def intro!: inv_removed [of c k] split: option.splits)

lemma inv_clear: "rc_inv c \<Longrightarrow> rc_inv (rc_clear c)"
  by (simp add: rc_clear_def rc_inv_def rc_core_def in_bounds_def)

lemma invalidate_model_spec:
  assumes "rc_inv c" "model \<noteq> []"
  shows "rc_store (snd (rc_invalidate_model model c)) = filter (\<lambda>p. re_model (snd p) \<noteq> model) (rc_store c)"
    and "rc_inv (snd (rc_invalidate_model model c))"
    and "limits (snd (rc_invalidate_model model c)) = limits c"
proof -
  let ?ks = "map fst (filter (\<lambda>p. re_model (snd p) = model) (rc_store c))"
  have core: "rc_core c" using assms by (simp add: rc_inv_def)
  note f = fold_drop_old [OF core, of ?ks]
  have st: "rc_store (fold drop_old ?ks c) = filter (\<lambda>p. re_model (snd p) \<noteq> model) (rc_store c)"
    using f core filter_keys_of [of "rc_store c"] unfolding rc_core_def by metis
  from f st assms show "rc_store (snd (rc_invalidate_model model c)) = filter (\<lambda>p. re_model (snd p) \<noteq> model) (rc_store c)"
    "limits (snd (rc_invalidate_model model c)) = limits c"
    by (simp_all add: rc_invalidate_model_def Let_def)
  from f have "rc_size_bytes (rc_stats (fold drop_old ?ks c)) = size_sum (rc_store (fold drop_old ?ks c))"
    by (simp add: rc_core_def)
  with f st assms show "rc_inv (snd (rc_invalidate_model model c))"
    by (intro inv_subset [OF assms(1), where P = "\<lambda>p. re_model (snd p) \<noteq> model"])
      (simp_all add: rc_invalidate_model_def Let_def)
qed

section \<open>What a put does\<close>

definition fits :: "response_cache \<Rightarrow> int \<Rightarrow> (string, response_entry) pydict \<Rightarrow> bool" where
  "fits c sz d \<longleftrightarrow> int (length d) < rc_max_entries c \<and> size_sum d + sz \<le> rc_max_total_bytes c"

lemma make_room_spec:
  assumes "rc_size_bytes st = size_sum d"
  shows "\<exists>n \<le> length d. fst (make_room (rc_max_entries c) (rc_max_total_bytes c) sz d st) = drop n d \<and>
    rc_size_bytes (snd (make_room (rc_max_entries c) (rc_max_total_bytes c) sz d st)) = size_sum (drop n d) \<and>
    (drop n d = [] \<or> fits c sz (drop n d)) \<and> (\<forall>m < n. \<not> fits c sz (drop m d))"
  using assms
proof (induction d arbitrary: st)
  case Nil
  then show ?case by (intro exI [of _ 0]) simp
next
  case (Cons p d)
  let ?st = "st\<lparr>rc_size_bytes := rc_size_bytes st - re_size (snd p), rc_evictions := rc_evictions st + 1\<rparr>"
  show ?case
  proof (cases "fits c sz (p # d)")
    case True
    with Cons.prems show ?thesis by (intro exI [of _ 0]) (simp add: fits_def)
  next
    case False
    then have step: "make_room (rc_max_entries c) (rc_max_total_bytes c) sz (p # d) st =
        make_room (rc_max_entries c) (rc_max_total_bytes c) sz d ?st"
      using Cons.prems by (auto simp: fits_def)
    from Cons.IH [of ?st] Cons.prems obtain n where
      n: "n \<le> length d" "fst (make_room (rc_max_entries c) (rc_max_total_bytes c) sz d ?st) = drop n d"
        "rc_size_bytes (snd (make_room (rc_max_entries c) (rc_max_total_bytes c) sz d ?st)) = size_sum (drop n d)"
        "drop n d = [] \<or> fits c sz (drop n d)" "\<forall>m < n. \<not> fits c sz (drop m d)" by auto
    have "\<not> fits c sz (drop m (p # d))" if "m < Suc n" for m
      using that False n(5) by (cases m) auto
    with n show ?thesis unfolding step by (intro exI [of _ "Suc n"]) simp
  qed
qed

definition live_others :: "string \<Rightarrow> rat \<Rightarrow> response_cache \<Rightarrow> (string, response_entry) pydict" where
  "live_others key now c = filter (\<lambda>p. fst p \<noteq> key \<and> \<not> expired now (snd p)) (rc_store c)"

definition new_entry :: "string \<Rightarrow> json \<Rightarrow> int \<Rightarrow> rat option \<Rightarrow> string \<Rightarrow> rat \<Rightarrow> response_cache \<Rightarrow> response_entry" where
  "new_entry key v sz ttl model now c = \<lparr>re_key = key, re_value = v, re_size = sz, re_created = now, re_access = now,
     re_ttl = ttl_or ttl (rc_default_ttl c), re_model = model\<rparr>"

lemma swept:
  assumes "rc_core c"
  shows "rc_core (snd (rc_sweep_expired now (drop_old key c))) \<and>
    limits (snd (rc_sweep_expired now (drop_old key c))) = limits c \<and>
    rc_store (snd (rc_sweep_expired now (drop_old key c))) = live_others key now c"
proof -
  have core: "rc_core (drop_old key c)" using assms by (rule core_evict)
  note f = fold_evict [OF core, of "expired_keys now (drop_old key c)"]
  have "filter (\<lambda>p. fst p \<notin> set (expired_keys now (drop_old key c))) (rc_store (drop_old key c)) =
      filter (\<lambda>p. \<not> expired now (snd p)) (rc_store (drop_old key c))"
    using core unfolding expired_keys_def by (intro filter_keys_of) (simp add: rc_core_def)
  also have "\<dots> = live_others key now c"
    by (simp add: rcs dict_del_filter live_others_def conj_commute)
  finally show ?thesis using f by (simp add: rc_sweep_expired_def rcs)
qed

lemma put_entry_spec:
  assumes "rc_core c" "0 \<le> sz" "sz \<le> rc_max_entry_bytes c"
  shows "rc_inv (put_entry key v sz ttl model now c) \<and> limits (put_entry key v sz ttl model now c) = limits c \<and>
    (\<exists>n \<le> length (live_others key now c).
       rc_store (put_entry key v sz ttl model now c) =
         drop n (live_others key now c) @ [(key, new_entry key v sz ttl model now c)] \<and>
       (drop n (live_others key now c) = [] \<or> fits c sz (drop n (live_others key now c))) \<and>
       (\<forall>m < n. \<not> fits c sz (drop m (live_others key now c))))"
proof -
  define c1 where "c1 = snd (rc_sweep_expired now (drop_old key c))"
  let ?L = "live_others key now c"
  have c1: "rc_core c1" "limits c1 = limits c" "rc_store c1 = ?L" using swept [OF assms(1)] by (simp_all add: c1_def)
  note lim = limitsD [OF c1(2)]
  define r where "r = make_room (rc_max_entries c) (rc_max_total_bytes c) sz ?L (rc_stats c1)"
  from c1 have "rc_size_bytes (rc_stats c1) = size_sum ?L" by (simp add: rc_core_def)
  from make_room_spec [OF this, of c sz] obtain n where
    n: "n \<le> length ?L" "fst r = drop n ?L" "rc_size_bytes (snd r) = size_sum (drop n ?L)"
      "drop n ?L = [] \<or> fits c sz (drop n ?L)" "\<forall>m < n. \<not> fits c sz (drop m ?L)"
    unfolding r_def by blast
  let ?e = "new_entry key v sz ttl model now c"
  have "key \<notin> set (dict_keys (drop n ?L))" by (auto simp: live_others_def dest: in_set_dropD)
  then have new: "dict_set key ?e (drop n ?L) = drop n ?L @ [(key, ?e)]" by (rule dict_set_absent)
  have put: "put_entry key v sz ttl model now c = c1\<lparr>rc_store := drop n ?L @ [(key, ?e)],
      rc_stats := (snd r)\<lparr>rc_size_bytes := rc_size_bytes (snd r) + sz,
        rc_entry_count := int (length (drop n ?L @ [(key, ?e)]))\<rparr>\<rparr>"
    using n(2) new lim c1(3)
    by (simp add: put_entry_def Let_def case_prod_beta new_entry_def c1_def [symmetric] r_def)
  have dist: "distinct (dict_keys (drop n ?L))"
    using c1 by (simp add: rc_core_def distinct_drop_keys)
  have entries: "re_key (snd p) = fst p \<and> 0 \<le> re_size (snd p) \<and> re_size (snd p) \<le> rc_max_entry_bytes c"
    if "p \<in> set (drop n ?L)" for p
    using that c1 lim by (auto simp: rc_core_def dest: in_set_dropD)
  have "rc_core (put_entry key v sz ttl model now c)"
    using dist entries \<open>key \<notin> _\<close> n(3) assms lim
    by (auto simp: put rc_core_def new_entry_def)
  moreover have "in_bounds (put_entry key v sz ttl model now c)"
    using n(4) assms lim by (auto simp: put in_bounds_def fits_def new_entry_def)
  ultimately have "rc_inv (put_entry key v sz ttl model now c)" by (simp add: rc_inv_def) (simp add: put)
  moreover have "limits (put_entry key v sz ttl model now c) = limits c" using c1(2) by (simp add: put limits_def)
  moreover have "rc_store (put_entry key v sz ttl model now c) = drop n ?L @ [(key, ?e)]" by (simp add: put)
  ultimately show ?thesis using n by blast
qed

section \<open>Histories\<close>

lemma map_leI: "(\<And>k w. m k = Some w \<Longrightarrow> m' k = Some w) \<Longrightarrow> m \<subseteq>\<^sub>m m'"
  by (auto simp: map_le_def)

datatype rc_op = RPut string response "rat option" string rat | RGet string rat | RInvalidate string
  | RClear | RInvalidateModel string | RById string rat

fun rc_step :: "(rat \<Rightarrow> string) \<Rightarrow> rc_op \<Rightarrow> response_cache \<Rightarrow> response_cache" where
  "rc_step fl (RPut k v ttl model now) c = snd (rc_put fl k v ttl model now c)"
| "rc_step fl (RGet k now) c = snd (rc_get k now c)"
| "rc_step fl (RInvalidate k) c = snd (rc_invalidate k c)"
| "rc_step fl RClear c = rc_clear c"
| "rc_step fl (RInvalidateModel model) c = snd (rc_invalidate_model model c)"
| "rc_step fl (RById rid now) c = snd (rc_get_by_response_id rid now c)"

definition rc_run :: "(rat \<Rightarrow> string) \<Rightarrow> response_cache \<Rightarrow> rc_op list \<Rightarrow> response_cache" where
  "rc_run fl c ops = fold (rc_step fl) ops c"

text \<open>The abstract cache: the last accepted write of every key, never evicted and never expired.\<close>

type_synonym written = "json \<times> rat \<times> rat \<times> string"

fun accepts :: "(rat \<Rightarrow> string) \<Rightarrow> int \<Rightarrow> response \<Rightarrow> bool" where
  "accepts fl mb Unserialisable = False"
| "accepts fl mb (Document v) = (int (length (dumps fl False v)) \<le> mb)"

fun spec_write :: "(rat \<Rightarrow> string) \<Rightarrow> int \<Rightarrow> rat \<Rightarrow> rc_op \<Rightarrow> (string \<Rightarrow> written option) \<Rightarrow> string \<Rightarrow> written option" where
  "spec_write fl mb dt (RPut k (Document v) ttl model now) m =
     (if accepts fl mb (Document v) then m(k \<mapsto> (v, now, ttl_or ttl dt, model)) else m)"
| "spec_write fl mb dt (RInvalidate k) m = m(k := None)"
| "spec_write fl mb dt RClear m = Map.empty"
| "spec_write fl mb dt (RInvalidateModel model) m =
     (\<lambda>k. case m k of Some (v, t, ttl, mo) \<Rightarrow> if model \<noteq> [] \<and> mo = model then None else m k | None \<Rightarrow> None)"
| "spec_write fl mb dt _ m = m"

definition writes :: "(rat \<Rightarrow> string) \<Rightarrow> int \<Rightarrow> rat \<Rightarrow> rc_op list \<Rightarrow> string \<Rightarrow> written option" where
  "writes fl mb dt ops = fold (spec_write fl mb dt) ops Map.empty"

definition entry_view :: "response_entry \<Rightarrow> written" where
  "entry_view e = (re_value e, re_created e, re_ttl e, re_model e)"

definition rc_view :: "response_cache \<Rightarrow> string \<Rightarrow> written option" where
  "rc_view c k = map_option entry_view (map_of (rc_store c) k)"

lemma view_filter:
  "distinct (dict_keys d) \<Longrightarrow> map_of (filter P d) k = Some e \<Longrightarrow> map_of d k = Some e"
  by (auto simp: distinct_filter_keys)

lemma view_touch:
  assumes "map_of (rc_store c) k = Some e"
  shows "rc_view (rc_touch k e now c) = rc_view c"
  using assms by (auto simp: rc_view_def rcs map_add_def map_of_dict_del entry_view_def fun_eq_iff split: option.splits)

lemma view_upd [simp]: "rc_view (upd_rstats f c) = rc_view c"
  by (simp add: rc_view_def fun_eq_iff)

lemma view_evict: "rc_view (rc_evict k c) = (rc_view c)(k := None)"
  by (auto simp: rc_view_def rcs map_of_dict_del)

lemma view_get: "rc_view (snd (rc_get k now c)) \<subseteq>\<^sub>m rc_view c"
  by (auto simp: rc_get_def view_evict view_touch map_le_def split: option.splits)

lemma view_by_id: "rc_core c \<Longrightarrow> rc_view (snd (rc_get_by_response_id rid now c)) = rc_view c"
  using by_id_entry [of c] by (auto simp: rc_get_by_response_id_def view_touch split: option.splits)

lemma view_invalidate: "rc_view (snd (rc_invalidate k c)) = (rc_view c)(k := None)"
  by (auto simp: rc_invalidate_def rc_view_def Let_def map_of_dict_del fun_eq_iff split: option.splits)

lemma view_invalidate_model:
  assumes "rc_inv c"
  shows "rc_view (snd (rc_invalidate_model model c)) \<subseteq>\<^sub>m
    (\<lambda>k. case rc_view c k of Some (v, t, ttl, mo) \<Rightarrow> if model \<noteq> [] \<and> mo = model then None else rc_view c k | None \<Rightarrow> None)"
proof (cases "model = []")
  case True
  then show ?thesis by (auto simp: rc_invalidate_model_def map_le_def split: option.splits)
next
  case False
  have dist: "distinct (dict_keys (rc_store c))" using assms by (simp add: rc_inv_def rc_core_def)
  show ?thesis
  proof (rule map_leI)
    fix k w
    assume "rc_view (snd (rc_invalidate_model model c)) k = Some w"
    then obtain e where e: "map_of (filter (\<lambda>p. re_model (snd p) \<noteq> model) (rc_store c)) k = Some e" "w = entry_view e"
      by (auto simp: rc_view_def invalidate_model_spec(1) [OF assms False])
    from e(1) have "map_of (rc_store c) k = Some e" by (rule view_filter [OF dist])
    moreover from map_of_SomeD [OF e(1)] have "re_model e \<noteq> model" by simp
    ultimately show "(case rc_view c k of Some (v, t, ttl, mo) \<Rightarrow> if model \<noteq> [] \<and> mo = model then None else rc_view c k
        | None \<Rightarrow> None) = Some w"
      by (simp add: rc_view_def entry_view_def e(2))
  qed
qed

lemma view_put:
  assumes "rc_core c" "0 \<le> sz" "sz \<le> rc_max_entry_bytes c"
  shows "rc_view (put_entry key v sz ttl model now c) \<subseteq>\<^sub>m (rc_view c)(key \<mapsto> (v, now, ttl_or ttl (rc_default_ttl c), model))"
proof -
  from put_entry_spec [OF assms, of key v ttl model now] obtain n where
    st: "rc_store (put_entry key v sz ttl model now c) =
      drop n (live_others key now c) @ [(key, new_entry key v sz ttl model now c)]" by blast
  have dist: "distinct (dict_keys (rc_store c))" using assms by (simp add: rc_core_def)
  have key: "map_of (drop n (live_others key now c)) key = None"
    by (auto simp: map_of_eq_None_iff live_others_def dest: in_set_dropD)
  have old: "map_of (rc_store c) k = Some e" if "map_of (drop n (live_others key now c)) k = Some e" for k e
  proof -
    from map_of_SomeD [OF that] have "(k, e) \<in> set (rc_store c)" by (auto simp: live_others_def dest: in_set_dropD)
    with dist show ?thesis by simp
  qed
  show ?thesis
    using key old
    by (auto simp: map_le_def rc_view_def st map_add_def new_entry_def entry_view_def dom_def split: option.splits if_splits)
qed

lemma put_cases:
  "rc_put fl k v ttl model now c =
     (case v of Document d \<Rightarrow> if accepts fl (rc_max_entry_bytes c) v
        then (True, put_entry k d (int (length (dumps fl False d))) ttl model now c) else (False, c)
      | Unserialisable \<Rightarrow> (False, c))"
  by (cases v) (auto simp: rc_put_def Let_def)

lemma limits_get: "limits (snd (rc_get k now c)) = limits c"
  by (auto simp: rc_get_def rcs split: option.splits)

lemma limits_rest:
  "limits (snd (rc_get_by_response_id rid now c)) = limits c"
  "limits (snd (rc_invalidate k c)) = limits c" "limits (rc_clear c) = limits c"
  by (auto simp: rc_get_by_response_id_def rc_invalidate_def rc_clear_def Let_def rc_touch_def limits_def upd_rstats_def
      split: option.splits)

text \<open>One step keeps the invariant and the limits and refines the abstract step.\<close>

lemma rc_step_ok:
  assumes "rc_inv c" "rc_view c \<subseteq>\<^sub>m m"
  shows "rc_inv (rc_step fl op c) \<and> limits (rc_step fl op c) = limits c \<and>
    rc_view (rc_step fl op c) \<subseteq>\<^sub>m spec_write fl (rc_max_entry_bytes c) (rc_default_ttl c) op m"
proof (cases op)
  case (RPut k v ttl model now)
  show ?thesis
  proof (cases v)
    case Unserialisable
    with RPut assms show ?thesis by (simp add: rc_put_def)
  next
    case (Document d)
    let ?sz = "int (length (dumps fl False d))"
    show ?thesis
    proof (cases "accepts fl (rc_max_entry_bytes c) v")
      case True
      with Document have sz: "?sz \<le> rc_max_entry_bytes c" by simp
      have core: "rc_core c" using assms by (simp add: rc_inv_def)
      have "rc_view c \<subseteq>\<^sub>m m \<Longrightarrow> (rc_view c)(k \<mapsto> w) \<subseteq>\<^sub>m m(k \<mapsto> w)" for w by (auto simp: map_le_def)
      with view_put [OF core _ sz, of k d ttl model now] put_entry_spec [OF core _ sz, of k d ttl model now]
        assms True sz Document RPut show ?thesis by (auto simp: put_cases intro: map_le_trans)
    next
      case False
      with RPut Document assms show ?thesis by (simp add: put_cases)
    qed
  qed
next
  case (RGet k now)
  with assms view_get [of k now c] show ?thesis by (auto simp: inv_get limits_get intro: map_le_trans)
next
  case (RInvalidate k)
  with assms show ?thesis by (auto simp: inv_invalidate limits_rest view_invalidate map_le_def)
next
  case RClear
  have "rc_view (rc_clear c) = Map.empty" by (simp add: rc_view_def rc_clear_def fun_eq_iff)
  with RClear assms show ?thesis by (simp add: inv_clear limits_rest)
next
  case (RInvalidateModel model)
  have lim: "limits (snd (rc_invalidate_model model c)) = limits c"
    using invalidate_model_spec(3) [OF assms(1)] by (cases "model = []") (simp_all add: rc_invalidate_model_def)
  have inv: "rc_inv (snd (rc_invalidate_model model c))"
    using invalidate_model_spec(2) [OF assms(1)] assms(1) by (cases "model = []") (simp_all add: rc_invalidate_model_def)
  let ?f = "\<lambda>m k. case m k of Some (v, t, ttl, mo) \<Rightarrow> if model \<noteq> [] \<and> mo = model then None else m k | None \<Rightarrow> None"
  have "?f (rc_view c) \<subseteq>\<^sub>m ?f m"
    using assms(2) by (fastforce simp: map_le_def dom_def split: option.splits if_splits)
  with view_invalidate_model [OF assms(1), of model] lim inv RInvalidateModel show ?thesis
    by (auto intro: map_le_trans)
next
  case (RById rid now)
  have "rc_core c" using assms(1) by (simp add: rc_inv_def)
  with RById assms show ?thesis by (simp add: inv_by_id limits_rest view_by_id)
qed

lemma rc_run_ok:
  "rc_inv (rc_run fl (response_cache_new me mb dt mt) ops) \<and>
   limits (rc_run fl (response_cache_new me mb dt mt) ops) = (me, mb, dt, mt) \<and>
   rc_view (rc_run fl (response_cache_new me mb dt mt) ops) \<subseteq>\<^sub>m writes fl mb dt ops"
proof (induction ops rule: rev_induct)
  case Nil
  show ?case by (simp add: rc_run_def writes_def response_cache_new_def rc_inv_def rc_core_def in_bounds_def limits_def
      fresh_response_stats_def rc_view_def map_le_def)
next
  case (snoc op ops)
  let ?c = "rc_run fl (response_cache_new me mb dt mt) ops"
  from snoc have "rc_max_entry_bytes ?c = mb" "rc_default_ttl ?c = dt" by (simp_all add: limits_def)
  with rc_step_ok [of ?c "writes fl mb dt ops" fl op] snoc show ?case by (simp add: rc_run_def writes_def)
qed

end
