(* ===== verification/ResponseFacts.thy ===== *)
theory ResponseFacts
  imports ResponseProps
begin

text \<open>The properties of the response cache, over every history of calls on a new cache.\<close>

text \<open>C35: After any history of calls the counters of the response cache are exact and its bounds
  hold: keys are distinct, the size counter is the sum of the entry sizes, the entry counter the
  number of entries, there are at most \<open>max_entries\<close> entries (one if that is less) and their
  sizes add up to at most \<open>max_total_bytes\<close> (or the size of one entry if that is more).\<close>

theorem response_cache_bounded:
  "let c = rc_run fl (response_cache_new me mb dt mt) ops
   in distinct (dict_keys (rc_store c)) \<and>
      rc_size_bytes (rc_stats c) = size_sum (rc_store c) \<and>
      rc_entry_count (rc_stats c) = int (length (rc_store c)) \<and>
      (rc_store c = [] \<or> rc_entry_count (rc_stats c) \<le> max 1 me \<and> rc_size_bytes (rc_stats c) \<le> max mt mb)"
  using rc_run_ok [of fl me mb dt mt ops]
  by (auto simp: Let_def rc_inv_def rc_core_def in_bounds_def limits_def)

text \<open>C36: A hit is never stale: what \<open>get\<close> returns for a key after any history is the response of
  the last accepted \<open>put\<close> for that key that no later invalidation, model invalidation or
  clearing has removed, and its time to live has not passed.\<close>

theorem response_hits_are_fresh:
  assumes "fst (rc_get key now (rc_run fl (response_cache_new me mb dt mt) ops)) = Some v"
  shows "\<exists>t ttl model. writes fl mb dt ops key = Some (v, t, ttl, model) \<and> now - t \<le> ttl"
proof -
  let ?c = "rc_run fl (response_cache_new me mb dt mt) ops"
  from assms obtain e where e: "map_of (rc_store ?c) key = Some e" "\<not> expired now e" "v = re_value e"
    by (auto simp: rc_get_def split: option.splits if_splits)
  then have "rc_view ?c key = Some (v, re_created e, re_ttl e, re_model e)" by (simp add: rc_view_def entry_view_def)
  with rc_run_ok [of fl me mb dt mt ops] have "writes fl mb dt ops key = Some (v, re_created e, re_ttl e, re_model e)"
    by (fastforce simp: map_le_def dom_def)
  with e(2) show ?thesis by (auto simp: expired_def)
qed

definition toy_history :: "rc_op list" where
  "toy_history = [RPut ''k'' (Document (JInt 1)) (Some 10) ''m'' 0, RPut ''k'' (Document (JInt 2)) (Some 10) ''m'' 1,
     RPut ''j'' (Document (JInt 3)) (Some 10) ''n'' 2, RInvalidateModel ''n'']"

lemma toy_history_run:
  "fst (rc_get ''k'' 5 (rc_run (\<lambda>_. []) (response_cache_new 2 10 60 20) toy_history)) = Some (JInt 2)"
  by code_simp

theorem response_hits_are_fresh_witness:
  "\<exists>t ttl model. writes (\<lambda>_. []) 10 60 toy_history ''k'' = Some (JInt 2, t, ttl, model) \<and> 5 - t \<le> ttl"
  by (rule response_hits_are_fresh [OF toy_history_run])

text \<open>C37: An accepted \<open>put\<close> keeps the unexpired entries of the other keys in their order, drops the
  fewest of them from the least recently used end that make the new entry fit, and puts the
  new entry last; until its time to live has passed the next \<open>get\<close> returns it.\<close>

theorem response_put_evicts_least:
  assumes "c = rc_run fl (response_cache_new me mb dt mt) ops" "int (length (dumps fl False v)) \<le> mb"
    and "rc_put fl key (Document v) ttl model now c = (accepted, c')"
  shows "accepted \<and>
    (\<exists>n \<le> length (live_others key now c).
       rc_store c' = drop n (live_others key now c) @
         [(key, new_entry key v (int (length (dumps fl False v))) ttl model now c)] \<and>
       (n = length (live_others key now c) \<or> fits c (int (length (dumps fl False v))) (drop n (live_others key now c))) \<and>
       (\<forall>m < n. \<not> fits c (int (length (dumps fl False v))) (drop m (live_others key now c)))) \<and>
    (later - now \<le> ttl_or ttl dt \<longrightarrow> fst (rc_get key later c') = Some v)"
proof -
  let ?sz = "int (length (dumps fl False v))" and ?L = "live_others key now c"
  have c: "rc_core c" "?sz \<le> rc_max_entry_bytes c" "rc_default_ttl c = dt"
    using rc_run_ok [of fl me mb dt mt ops] assms(1,2) by (simp_all add: rc_inv_def limits_def)
  then have acc: accepted "c' = put_entry key v ?sz ttl model now c" using assms(3) by (simp_all add: put_cases)
  from put_entry_spec [OF c(1) _ c(2), of key v ttl model now] obtain n where
    n: "n \<le> length ?L" "rc_store c' = drop n ?L @ [(key, new_entry key v ?sz ttl model now c)]"
      "drop n ?L = [] \<or> fits c ?sz (drop n ?L)" "\<forall>m < n. \<not> fits c ?sz (drop m ?L)"
    unfolding acc(2) by auto
  have "map_of (drop n ?L) key = None"
    by (auto simp: map_of_eq_None_iff live_others_def dest: in_set_dropD)
  then have "map_of (rc_store c') key = Some (new_entry key v ?sz ttl model now c)" by (simp add: n(2) map_add_def)
  then have "later - now \<le> ttl_or ttl dt \<longrightarrow> fst (rc_get key later c') = Some v"
    by (auto simp: rc_get_def expired_def new_entry_def c(3))
  moreover have "n = length ?L \<or> fits c ?sz (drop n ?L)" using n(1,3) by auto
  ultimately show ?thesis using n(1,2,4) acc(1) by blast
qed

theorem response_put_evicts_least_witness:
  "\<exists>c'. rc_put (\<lambda>_. []) ''x'' (Document (JInt 7)) None [] 4 (rc_run (\<lambda>_. []) (response_cache_new 2 10 60 20) toy_history) = (True, c') \<and>
     fst (rc_get ''x'' 30 c') = Some (JInt 7)"
proof -
  let ?c = "rc_run (\<lambda>_. []) (response_cache_new 2 10 60 20) toy_history"
  obtain acc c' where p: "rc_put (\<lambda>_. []) ''x'' (Document (JInt 7)) None [] 4 ?c = (acc, c')" by force
  have small: "int (length (dumps (\<lambda>_. []) False (JInt 7))) \<le> 10" by code_simp
  from response_put_evicts_least [OF refl small p, of 30] p show ?thesis by (simp add: ttl_or_def)
qed

text \<open>Two ways around the time to live: a lookup by response id returns an entry that \<open>get\<close>
  refuses as expired, and a time to live of zero is replaced by the default one.\<close>

lemma response_ttl_gaps:
  "let doc = JObj [(''id'', JStr ''r1'')];
       c = snd (rc_put (\<lambda>_. []) ''k'' (Document doc) (Some 10) [] 0 default_response_cache);
       z = snd (rc_put (\<lambda>_. []) ''k'' (Document doc) (Some 0) [] 0 default_response_cache)
   in fst (rc_get ''k'' 100 c) = None \<and> fst (rc_get_by_response_id ''r1'' 100 c) = Some doc \<and>
      fst (rc_get ''k'' 3600 z) = Some doc"
  by code_simp

end
