(* ===== verification/RollbackProps.thy ===== *)
theory RollbackProps
  imports CacheRollback ResponseFacts PagedFindings
begin

text \<open>
  The layers of the model behind the rollback manager: the paged cache with its \<open>evict\<close> and the
  response cache with its \<open>invalidate\<close>. The contract of the layers is interpreted on them, and
  the rollback theorem is stated for the manager that registers both.
\<close>

section \<open>Evicting a block by its hash\<close>

lemma on_queue_frame [simp]:
  "cached_blocks (snd (on_queue f s)) = cached_blocks s" "meta (snd (on_queue f s)) = meta s"
  by (simp_all add: on_queue_def Let_def split: prod.split)






section \<open>The layers\<close>

text \<open>A key is a block hash (bytes) or the text of a response key; a layer answers \<open>False\<close> to the other kind.\<close>

datatype layer_key = Hash_key string | Text_key string

record layers =
  hot :: paged_cache
  responses :: response_cache

definition hot_evict :: "layer_key \<Rightarrow> layers \<Rightarrow> (layers, bool) outcome" where
  "hot_evict k w =
     (case evict (case k of Hash_key h \<Rightarrow> Bytes h | Text_key _ \<Rightarrow> Other_key) (hot w) of (r, s) \<Rightarrow> (r, w\<lparr>hot := s\<rparr>))"

definition response_evict :: "layer_key \<Rightarrow> layers \<Rightarrow> (layers, bool) outcome" where
  "response_evict k w =
     (case k of Text_key t \<Rightarrow> (case rc_invalidate t (responses w) of (b, c) \<Rightarrow> returns b (w\<lparr>responses := c\<rparr>))
      | Hash_key _ \<Rightarrow> returns False w)"

definition layer_manager :: "(layer_key, layers) rollback_manager" where
  "layer_manager = register_leaf ''response'' response_evict (register_leaf ''paged_hot'' hot_evict [])"








section \<open>Rolling back a failed write\<close>





text \<open>A block that is still referenced survives a rollback of its hash: the paged cache refuses
  to evict it, the rollback reports nothing evicted, and the key stays in that layer.\<close>

lemma rollback_spares_referenced:
  "let w = \<lparr>hot = filled, responses = default_response_cache\<rparr>
   in fst (rollback_keys [Hash_key ''2''] 0 layer_manager w) = 0 \<and>
      get_block ''2'' (cached_blocks (hot (snd (rollback_keys [Hash_key ''2''] 0 layer_manager w)))) = Some 1"
proof -
  have f: "cached_blocks filled = [(''2'', Single 1), (''4'', Single 2)]" "ref_count (meta filled 1) = 1"
    "blocks filled = [0, 1, 2]"
    by (simp_all add: run toy del: pyrange_empty)
  have "evict (Bytes ''2'') filled = returns False filled"
    by (simp add: evict_def get_block_def f evict_block_permanently_def block_at_def pyindex_def)
  then show ?thesis
    by (simp add: rollback_keys_def rollback_def snapshot_def manager_leaves_def layer_manager_def evict_one_def
        leaf_evict_def hot_evict_def response_evict_def returns_def f get_block_def upt_rec)
qed

end
