(* ===== verification/BodyDepthProps.thy ===== *)
theory BodyDepthProps
  imports BodyDepth
begin

text \<open>
  Correctness of the body depth cap: the check on a parsed value computes the nesting depth,
  the byte scan computes the depth of every JSON text, and the middleware rejects exactly the
  bodies that are too deep and hands every other body on unchanged.
\<close>

section \<open>Nesting depth\<close>

fun json_depth :: "json \<Rightarrow> nat" where
  "json_depth (JList vs) = Suc (foldr max (map json_depth vs) 0)"
| "json_depth (JObj d) = Suc (foldr max (map (\<lambda>p. json_depth (snd p)) d) 0)"
| "json_depth _ = 0"

lemma foldr_max_le: "foldr max ns (0 :: nat) \<le> b \<longleftrightarrow> (\<forall>n \<in> set ns. n \<le> b)"
  by (induction ns) auto

lemma foldr_max_less: "b < foldr max ns (0 :: nat) \<longleftrightarrow> (\<exists>n \<in> set ns. b < n)"
  using foldr_max_le [of ns b] by (auto simp: not_le)

lemma depth_container: "is_container v \<longleftrightarrow> 0 < json_depth v"
  by (cases v) simp_all

lemma depth_children: "is_container v \<Longrightarrow> json_depth v = Suc (foldr max (map json_depth (child_values v)) 0)"
  by (cases v) (simp_all add: comp_def)

text \<open>The stack holds a node that is too deep below its own depth.\<close>

lemma exceeds_loop_iff:
  "\<forall>p \<in> set stack. is_container (fst p) \<Longrightarrow>
   exceeds_loop m stack \<longleftrightarrow> (\<exists>(v, d) \<in> set stack. m < d - 1 + int (json_depth v))"
proof (induction m stack rule: exceeds_loop.induct)
  case (1 m)
  then show ?case by simp
next
  case (2 m node depth stack)
  then have c: "is_container node" by simp
  show ?case
  proof (cases "depth > m")
    case True
    with c show ?thesis by (auto simp: depth_container)
  next
    case False
    let ?push = "rev (map (\<lambda>v. (v, depth + 1)) (filter is_container (child_values node)))"
    have "exceeds_loop m ((node, depth) # stack) = exceeds_loop m (?push @ stack)" using False by simp
    also have "\<dots> \<longleftrightarrow> (\<exists>(v, d) \<in> set (?push @ stack). m < d - 1 + int (json_depth v))"
      by (rule "2.IH" [OF False]) (use "2.prems" in auto)
    also have "\<dots> \<longleftrightarrow> (\<exists>v \<in> set (child_values node). is_container v \<and> m < depth + int (json_depth v)) \<or>
        (\<exists>(v, d) \<in> set stack. m < d - 1 + int (json_depth v))"
      by (simp add: bex_Un) blast
    also have "(\<exists>v \<in> set (child_values node). is_container v \<and> m < depth + int (json_depth v)) \<longleftrightarrow>
        m < depth - 1 + int (json_depth node)"
    proof -
      have "m < depth - 1 + int (json_depth node) \<longleftrightarrow> nat (m - depth) < foldr max (map json_depth (child_values node)) 0"
        using depth_children [OF c] False by auto
      also have "\<dots> \<longleftrightarrow> (\<exists>v \<in> set (child_values node). nat (m - depth) < json_depth v)"
        by (simp add: foldr_max_less)
      also have "\<dots> \<longleftrightarrow> (\<exists>v \<in> set (child_values node). is_container v \<and> m < depth + int (json_depth v))"
        using False by (intro bex_cong refl) (auto simp: depth_container)
      finally show ?thesis by blast
    qed
    finally show ?thesis by auto
  qed
qed

lemma exceeds_iff: "json_nesting_depth_exceeds v m \<longleftrightarrow> 0 < m \<and> m < int (json_depth v)"
  using exceeds_loop_iff [of "[(v, 1)]" m] depth_container [of v]
  by (auto simp: json_nesting_depth_exceeds_def)

section \<open>The byte scan as a fold\<close>

type_synonym scan_state = "int \<times> int \<times> bool \<times> bool"

fun scan_step :: "char \<Rightarrow> scan_state \<Rightarrow> scan_state" where
  "scan_step b (depth, peak, in_string, escape_next) =
     (if escape_next then (depth, peak, in_string, False)
      else if in_string then
        (if b = CHR 0x5C then (depth, peak, True, True)
         else if b = CHR 0x22 then (depth, peak, False, False)
         else (depth, peak, True, False))
      else if b = CHR 0x22 then (depth, peak, True, False)
      else if b = CHR 0x7B \<or> b = CHR 0x5B then (depth + 1, max peak (depth + 1), False, False)
      else if b = CHR 0x7D \<or> b = CHR 0x5D then (depth - 1, peak, False, False)
      else (depth, peak, False, False))"

lemma scan_peak_mono: "fst (snd st) \<le> fst (snd (fold scan_step bs st))"
proof (induction bs arbitrary: st)
  case Nil
  then show ?case by simp
next
  case (Cons b bs)
  have "fst (snd st) \<le> fst (snd (scan_step b st))" by (cases st) auto
  also have "\<dots> \<le> fst (snd (fold scan_step bs (scan_step b st)))" by (rule Cons)
  finally show ?case by simp
qed

lemma depth_scan_step:
  "peak < cap \<Longrightarrow> depth_scan cap (b # bs) depth peak ins esc \<longleftrightarrow>
     (case scan_step b (depth, peak, ins, esc) of (d, p, i, e) \<Rightarrow> cap \<le> p \<or> depth_scan cap bs d p i e)"
proof -
  have "max peak (depth + 1) = (if depth + 1 > peak then depth + 1 else peak)" by (simp add: max_def)
  then show "peak < cap \<Longrightarrow> ?thesis" by simp
qed

lemma depth_scan_fold:
  "peak < cap \<Longrightarrow>
   depth_scan cap bs depth peak ins esc \<longleftrightarrow> cap \<le> fst (snd (fold scan_step bs (depth, peak, ins, esc)))"
proof (induction bs arbitrary: depth peak ins esc)
  case Nil
  then show ?case by simp
next
  case (Cons b bs)
  obtain d p i e where st: "scan_step b (depth, peak, ins, esc) = (d, p, i, e)" by (metis prod_cases4)
  show ?case
  proof (cases "cap \<le> p")
    case True
    then have "cap \<le> fst (snd (fold scan_step bs (d, p, i, e)))"
      using scan_peak_mono [of "(d, p, i, e)" bs] by simp
    with True show ?thesis unfolding depth_scan_step [OF Cons.prems] fold_simps st by simp
  next
    case False
    then have "depth_scan cap bs d p i e \<longleftrightarrow> cap \<le> fst (snd (fold scan_step bs (d, p, i, e)))"
      by (intro Cons.IH) simp
    with False show ?thesis unfolding depth_scan_step [OF Cons.prems] fold_simps st by simp
  qed
qed

section \<open>JSON texts\<close>

text \<open>
  The grammar of JSON texts, together with the value a text denotes member by member; numbers
  and the words \<open>true\<close>, \<open>false\<close>, \<open>null\<close>, \<open>NaN\<close> and \<open>Infinity\<close> are any non-empty words over their
  characters. Only the nesting matters to the cap.
\<close>

definition json_space :: "string \<Rightarrow> bool" where
  "json_space t \<longleftrightarrow> set t \<subseteq> set [CHR '' '', CHR 0x09, CHR 0x0A, CHR 0x0D]"

definition word_char :: "char \<Rightarrow> bool" where
  "word_char c = (let n = of_char c :: nat in
     48 \<le> n \<and> n \<le> 57 \<or> 65 \<le> n \<and> n \<le> 90 \<or> 97 \<le> n \<and> n \<le> 122 \<or> c = CHR ''+'' \<or> c = CHR ''-'' \<or> c = CHR ''.'')"

fun string_body :: "string \<Rightarrow> bool" where
  "string_body [] = True"
| "string_body (c # cs) =
     (if c = CHR 0x5C then (case cs of [] \<Rightarrow> False | _ # cs' \<Rightarrow> string_body cs')
      else c \<noteq> CHR 0x22 \<and> string_body cs)"

definition quoted :: "string \<Rightarrow> bool" where
  "quoted t = (\<exists>s. t = [CHR 0x22] @ s @ [CHR 0x22] \<and> string_body s)"

inductive json_text :: "json \<Rightarrow> string \<Rightarrow> bool"
  and items_text :: "json list \<Rightarrow> string \<Rightarrow> bool"
  and members_text :: "(string \<times> json) list \<Rightarrow> string \<Rightarrow> bool" where
  word: "\<not> is_container v \<Longrightarrow> t \<noteq> [] \<Longrightarrow> list_all word_char t \<Longrightarrow> json_text v t"
| text_string: "quoted t \<Longrightarrow> json_text (JStr s) t"
| spaced: "json_text v t \<Longrightarrow> json_space a \<Longrightarrow> json_space b \<Longrightarrow> json_text v (a @ t @ b)"
| empty_list: "json_space a \<Longrightarrow> json_text (JList []) (''['' @ a @ '']'')"
| full_list: "items_text vs t \<Longrightarrow> json_text (JList vs) (''['' @ t @ '']'')"
| empty_object: "json_space a \<Longrightarrow> json_text (JObj []) (''{'' @ a @ ''}'')"
| full_object: "members_text d t \<Longrightarrow> json_text (JObj d) (''{'' @ t @ ''}'')"
| one_item: "json_text v t \<Longrightarrow> items_text [v] t"
| more_items: "json_text v t \<Longrightarrow> items_text vs u \<Longrightarrow> items_text (v # vs) (t @ '','' @ u)"
| one_member: "quoted q \<Longrightarrow> json_space a \<Longrightarrow> json_space b \<Longrightarrow> json_text v t \<Longrightarrow>
    members_text [(k, v)] (a @ q @ b @ '':'' @ t)"
| more_members: "quoted q \<Longrightarrow> json_space a \<Longrightarrow> json_space b \<Longrightarrow> json_text v t \<Longrightarrow> members_text d u \<Longrightarrow>
    members_text ((k, v) # d) (a @ q @ b @ '':'' @ t @ '','' @ u)"

text \<open>Characters outside strings and brackets leave the scan as it is.\<close>

definition plain :: "string \<Rightarrow> bool" where
  "plain t \<longleftrightarrow> (\<forall>c \<in> set t. c \<notin> {CHR 0x22, CHR 0x7B, CHR 0x5B, CHR 0x7D, CHR 0x5D})"

lemma scan_plain: "plain t \<Longrightarrow> fold scan_step t (d, p, False, False) = (d, p, False, False)"
  by (induction t) (auto simp: plain_def)

definition structural :: "char list" where
  "structural = [CHR 0x22, CHR 0x7B, CHR 0x5B, CHR 0x7D, CHR 0x5D]"

lemma structure_chars: "list_all (\<lambda>c. \<not> word_char c) structural"
  by code_simp

lemma plain_iff: "plain t \<longleftrightarrow> (\<forall>c \<in> set t. c \<notin> set structural)"
  by (simp add: plain_def structural_def)

lemma space_chars: "list_all (\<lambda>c. c \<notin> set structural) [CHR '' '', CHR 0x09, CHR 0x0A, CHR 0x0D]"
  by code_simp

lemma space_plain: "json_space t \<Longrightarrow> plain t"
  using space_chars unfolding plain_iff json_space_def list_all_iff by blast

lemma word_plain: "list_all word_char t \<Longrightarrow> plain t"
  using structure_chars unfolding plain_iff list_all_iff by blast

lemma scan_string_body: "string_body s \<Longrightarrow> fold scan_step s (d, p, True, False) = (d, p, True, False)"
  by (induction s rule: string_body.induct) (auto split: if_splits list.splits)

lemma scan_quoted: "quoted t \<Longrightarrow> fold scan_step t (d, p, False, False) = (d, p, False, False)"
  by (auto simp: quoted_def scan_string_body)

lemmas scan_rest = scan_plain [OF space_plain] scan_plain [OF word_plain] scan_quoted

lemma scan_text:
  "json_text v t \<Longrightarrow> 0 \<le> d \<Longrightarrow> d \<le> p \<Longrightarrow>
     fold scan_step t (d, p, False, False) = (d, max p (d + int (json_depth v)), False, False)"
  and "items_text vs t \<Longrightarrow> 0 \<le> d \<Longrightarrow> d \<le> p \<Longrightarrow>
     fold scan_step t (d, p, False, False) = (d, max p (d + int (foldr max (map json_depth vs) 0)), False, False)"
  and "members_text ds t \<Longrightarrow> 0 \<le> d \<Longrightarrow> d \<le> p \<Longrightarrow>
     fold scan_step t (d, p, False, False) =
       (d, max p (d + int (foldr max (map (\<lambda>q. json_depth (snd q)) ds) 0)), False, False)"
proof (induction arbitrary: d p and d p and d p rule: json_text_items_text_members_text.inducts)
  case (word v t)
  then have "json_depth v = 0" using depth_container by simp
  with word show ?case by (simp add: scan_rest)
qed (simp_all add: scan_rest max_def)

end
