(* ===== verification/BodyDepthFacts.thy ===== *)
theory BodyDepthFacts
  imports BodyDepthProps
begin

text \<open>The properties of the body depth cap.\<close>

section \<open>What loading a text gives\<close>

text \<open>A repeated key of an object keeps its last value.\<close>

fun loaded :: "json \<Rightarrow> json" where
  "loaded (JList vs) = JList (map loaded vs)"
| "loaded (JObj d) = JObj (fold (\<lambda>p. dict_set (fst p) (snd p)) (map (\<lambda>p. (fst p, loaded (snd p))) d) [])"
| "loaded v = v"

lemma dict_set_values: "set (dict_values (dict_set k v d)) \<subseteq> insert v (set (dict_values d))"
  by (induction d) auto

lemma fold_set_values:
  "set (dict_values (fold (\<lambda>p. dict_set (fst p) (snd p)) ps d)) \<subseteq> set (dict_values d) \<union> set (dict_values ps)"
proof (induction ps arbitrary: d)
  case Nil
  then show ?case by simp
next
  case (Cons p ps)
  show ?case
    using Cons.IH [of "dict_set (fst p) (snd p) d"] dict_set_values [of "fst p" "snd p" d] by auto
qed

lemma loaded_depth: "json_depth (loaded v) \<le> json_depth v"
proof (induction v rule: loaded.induct)
  case (1 vs)
  have "json_depth (loaded w) \<le> foldr max (map json_depth vs) 0" if "w \<in> set vs" for w
    using 1 [OF that] that foldr_max_le [THEN iffD1, rule_format, OF order.refl, of "json_depth w" "map json_depth vs"]
    by simp
  then show ?case by (auto simp: foldr_max_le)
next
  case (2 d)
  let ?ps = "map (\<lambda>p. (fst p, loaded (snd p))) d"
  have "json_depth w \<le> foldr max (map (\<lambda>p. json_depth (snd p)) d) 0"
    if "w \<in> set (dict_values (fold (\<lambda>p. dict_set (fst p) (snd p)) ?ps []))" for w
  proof -
    from that fold_set_values [of ?ps "[]"] obtain p where p: "p \<in> set d" "w = loaded (snd p)" by auto
    with 2 have "json_depth w \<le> json_depth (snd p)" by (metis prod.collapse)
    also have "\<dots> \<le> foldr max (map (\<lambda>p. json_depth (snd p)) d) 0"
      using p(1) foldr_max_le [THEN iffD1, rule_format, OF order.refl, of "json_depth (snd p)" "map (\<lambda>p. json_depth (snd p)) d"]
      by auto
    finally show ?thesis .
  qed
  then show ?case by (auto simp: foldr_max_le)
qed simp_all

section \<open>The scan and the check\<close>

text \<open>C39: On every JSON text the byte scan finds out whether the text nests deeper than the cap,
  whatever strings and escapes it contains, and it never lets a body pass without parsing
  whose parsed value the depth check would refuse.\<close>

theorem quick_scan_exact:
  assumes "json_text v body" "0 \<le> m"
  shows "(quick_depth_might_exceed body m \<longleftrightarrow> m < int (json_depth v)) \<and>
    (json_nesting_depth_exceeds (loaded v) m \<longrightarrow> quick_depth_might_exceed body m)"
proof -
  have "quick_depth_might_exceed body m \<longleftrightarrow> m < int (json_depth v)"
    using assms(2) scan_text(1) [OF assms(1), of 0 0] by (auto simp: quick_depth_might_exceed_def depth_scan_fold)
  with loaded_depth [of v] show ?thesis by (auto simp: exceeds_iff)
qed

lemma toy_text: "json_text (JList [JList [], JStr s]) ''[[ ],\"[[[\"]''"
proof -
  have "quoted ''\"[[[\"''" unfolding quoted_def by (rule exI [of _ "''[[[''"]) simp
  then have "items_text [JList [], JStr s] (''['' @ '' '' @ '']'' @ '','' @ ''\"[[[\"'')"
    using more_items [OF empty_list [of "'' ''"] one_item [OF text_string]] by (simp add: json_space_def)
  from full_list [OF this] show ?thesis by simp
qed

theorem quick_scan_exact_witness:
  "(quick_depth_might_exceed ''[[ ],\"[[[\"]'' 2 \<longleftrightarrow> 2 < int (json_depth (JList [JList [], JStr ''x'']))) \<and>
   \<not> quick_depth_might_exceed ''[[ ],\"[[[\"]'' 2"
  using quick_scan_exact [OF toy_text [of "''x''"], of 2] by simp

text \<open>The explicit-stack check decides whether the nesting depth of the value exceeds a positive
  cap; a cap of zero or less switches it off. The two modules that read the cap from the
  environment read the same one.\<close>

theorem depth_check_exact:
  "(json_nesting_depth_exceeds v m \<longleftrightarrow> 0 < m \<and> m < int (json_depth v)) \<and>
   util_max_body_depth env = resolve_max_body_depth env"
  by (simp add: exceeds_iff util_max_body_depth_def resolve_env_int_def resolve_max_body_depth_def Let_def)

section \<open>The middleware\<close>

definition guards :: "environment \<Rightarrow> http_scope \<Rightarrow> bool" where
  "guards env scope \<longleftrightarrow> sc_type scope = ''http'' \<and> (\<exists>me \<in> set guarded_methods. sc_method scope = Some me) \<and>
     path_is_guarded (sc_path scope) \<and> 0 < resolve_max_body_depth env \<and>
     is_jsonish_content_type (sc_headers scope) (sc_path scope)"

lemma guarded_call:
  assumes "guards env scope" "collect_body ms [] = Complete chunks rest"
  shows "body_depth_call env loads scope ms =
    (let body = concat chunks in
     if list_all space_byte body then Call_app (Buffered False body rest)
     else if \<not> quick_depth_might_exceed body (resolve_max_body_depth env) then Call_app (Buffered False body rest)
     else case loads body of
       Decode_error \<Rightarrow> Call_app (Buffered False body rest)
     | Unicode_error \<Rightarrow> Uncaught
     | Recursion_error \<Rightarrow> Reject (send_400_depth (resolve_max_body_depth env))
     | Parsed v \<Rightarrow> if json_nesting_depth_exceeds v (resolve_max_body_depth env)
         then Reject (send_400_depth (resolve_max_body_depth env)) else Call_app (Buffered False body rest))"
  using assms by (auto simp: guards_def body_depth_call_def Let_def split: option.splits)

lemma not_space_chars: "list_all (\<lambda>c. \<not> space_byte c) [CHR 0x22, CHR 0x7B, CHR 0x5B]"
  by code_simp

lemma word_not_space: "word_char c \<Longrightarrow> \<not> space_byte c"
  by (auto simp: word_char_def space_byte_def Let_def)

lemma text_not_blank:
  "json_text v t \<Longrightarrow> \<not> list_all space_byte t"
  "items_text vs t \<Longrightarrow> True" "members_text ds t \<Longrightarrow> True"
proof (induction rule: json_text_items_text_members_text.inducts)
  case (word v t)
  then show ?case using word_not_space by (cases t) auto
next
  case (text_string t s)
  then show ?case using not_space_chars by (auto simp: quoted_def)
qed (use not_space_chars in simp_all)

text \<open>C40: A guarded request with a JSON body is rejected with status 400 exactly when its value
  nests deeper than the configured cap; otherwise the application is called and is given the
  bytes of the whole body.\<close>

theorem body_cap_exact:
  assumes "guards env scope" "collect_body ms [] = Complete chunks rest"
    and "json_text v (concat chunks)" "loads (concat chunks) = Parsed (loaded v)"
  shows "body_depth_call env loads scope ms =
    (if resolve_max_body_depth env < int (json_depth (loaded v))
     then Reject (send_400_depth (resolve_max_body_depth env))
     else Call_app (Buffered False (concat chunks) rest))"
proof -
  have m: "0 < resolve_max_body_depth env" using assms(1) by (simp add: guards_def)
  have "\<not> list_all space_byte (concat chunks)" by (rule text_not_blank(1) [OF assms(3)])
  with m assms(4) quick_scan_exact [OF assms(3), of "resolve_max_body_depth env"] exceeds_iff [of "loaded v"] show ?thesis
    by (auto simp: guarded_call [OF assms(1,2)] Let_def)
qed

definition toy_scope :: http_scope where
  "toy_scope = \<lparr>sc_type = ''http'', sc_method = Some ''POST'', sc_path = Some ''/v1/chat/completions'', sc_headers = []\<rparr>"

definition toy_environment :: environment where
  "toy_environment = [''FUSION_MLX_MAX_BODY_DEPTH'' \<mapsto> '' 1 '']"

lemma toy_guards: "guards toy_environment toy_scope" "resolve_max_body_depth toy_environment = 1"
  by code_simp+

theorem body_cap_exact_witness:
  "body_depth_call toy_environment (\<lambda>_. Parsed (JList [JList [], JStr ''x''])) toy_scope
     [Http_request ''[[ ]'' True, Http_request '',\"[[[\"]'' False, Http_disconnect] = Reject (send_400_depth 1)"
proof -
  have "collect_body [Http_request ''[[ ]'' True, Http_request '',\"[[[\"]'' False, Http_disconnect] [] =
      Complete [''[[ ]'', '',\"[[[\"]''] [Http_disconnect]" by simp
  from body_cap_exact [OF toy_guards(1) this, of "JList [JList [], JStr ''x'']"] toy_text [of "''x''"]
  show ?thesis by (simp add: toy_guards(2))
qed

text \<open>Reading a request body to its end, or to the end of the connection.\<close>

fun read_body :: "nat \<Rightarrow> receiver \<Rightarrow> string \<Rightarrow> string option" where
  "read_body 0 r acc = None"
| "read_body (Suc n) r acc =
     (case receive r of
        (None, r1) \<Rightarrow> None
      | (Some Http_disconnect, r1) \<Rightarrow> None
      | (Some Other_message, r1) \<Rightarrow> read_body n r1 acc
      | (Some (Http_request c again), r1) \<Rightarrow> if again then read_body n r1 (acc @ c) else Some (acc @ c))"

lemma read_client:
  "length ms < n \<Longrightarrow> read_body n (From_client ms) (concat chunks) =
    (case collect_body ms chunks of Complete cs rest \<Rightarrow> Some (concat cs) | _ \<Rightarrow> None)"
proof (induction ms arbitrary: n chunks)
  case Nil
  then show ?case by (cases n) simp_all
next
  case (Cons m ms)
  then obtain k where n: "n = Suc k" "length ms < k" by (cases n) auto
  show ?case
  proof (cases m)
    case (Http_request c again)
    have "concat (if c \<noteq> [] then chunks @ [c] else chunks) = concat chunks @ c" by simp
    with n Cons.IH [OF n(2), of "if c \<noteq> [] then chunks @ [c] else chunks"] Http_request show ?thesis
      by (auto simp: Let_def)
  next
    case Http_disconnect
    with n show ?thesis by simp
  next
    case Other_message
    with n Cons.IH [OF n(2), of "chunks @ [[]]"] show ?thesis by simp
  qed
qed

lemma read_replayed: "read_body n (Replayed i chunks) acc = None"
  by (induction n arbitrary: i acc) auto

text \<open>The middleware is transparent: whenever it calls the application, reading the request
  body there gives the bytes the client sent, or ends as early as the client does.\<close>

theorem replay_is_transparent:
  assumes "body_depth_call env loads scope ms = Call_app r" "length ms < n"
  shows "read_body n r [] = read_body n (From_client ms) []"
proof (cases "r = From_client ms")
  case False
  obtain k where n: "n = Suc k" using assms(2) by (cases n) auto
  from read_client [OF assms(2), of "[]"]
  have c: "read_body n (From_client ms) [] = (case collect_body ms [] of Complete cs rest \<Rightarrow> Some (concat cs) | _ \<Rightarrow> None)"
    by simp
  from False assms(1)
  consider cs rest where "collect_body ms [] = Complete cs rest" "r = Buffered False (concat cs) rest"
    | cs where "collect_body ms [] = Disconnected cs" "r = Replayed 0 cs"
    by (auto simp: body_depth_call_def Let_def split: if_splits collected.splits load_result.splits)
  then show ?thesis
    by cases (simp_all add: c read_replayed, simp add: n)
qed simp

theorem replay_is_transparent_witness:
  "read_body 3 (Buffered False ''{}'' []) [] = read_body 3 (From_client [Http_request ''{'' True, Http_request ''}'' False]) []"
proof (rule replay_is_transparent)
  show "body_depth_call toy_environment (\<lambda>_. Decode_error) toy_scope [Http_request ''{'' True, Http_request ''}'' False] =
      Call_app (Buffered False ''{}'' [])" by code_simp
qed simp

section \<open>Bodies in another encoding\<close>

definition utf16le :: "nat list \<Rightarrow> string" where
  "utf16le us = concat (map (\<lambda>u. [char_of (u mod 256), char_of (u div 256)]) us)"

text \<open>The text \<open>["x",[[...]]]\<close>, with the character U+2200 for \<open>x\<close> and \<open>n\<close> inner brackets.\<close>

definition hidden_nesting :: "nat \<Rightarrow> string" where
  "hidden_nesting n = utf16le ([0x5B, 0x22, 0x2200, 0x22, 0x2C] @ replicate n 0x5B @ replicate n 0x5D @ [0x5D])"

lemma utf16le_append: "utf16le (xs @ ys) = utf16le xs @ utf16le ys"
  by (simp add: utf16le_def)

lemma code_chars:
  "char_of (0 :: nat) = CHR 0x00" "char_of (34 :: nat) = CHR 0x22" "char_of (44 :: nat) = CHR 0x2C"
  "char_of (91 :: nat) = CHR 0x5B" "char_of (93 :: nat) = CHR 0x5D"
  by code_simp+

lemma code_char_2200: "char_of (8704 :: nat) = CHR 0x00"
  by (subst char_of_mod_256 [symmetric]) (simp del: char_of_mod_256 add: code_chars)

lemma utf16le_units: "utf16le [0x5B] = [CHR 0x5B, CHR 0x00]" "utf16le [0x5D] = [CHR 0x5D, CHR 0x00]"
  "utf16le [0x5B, 0x22, 0x2200, 0x22, 0x2C] =
     [CHR 0x5B, CHR 0x00, CHR 0x22, CHR 0x00, CHR 0x00, CHR 0x22, CHR 0x22, CHR 0x00, CHR 0x2C, CHR 0x00]"
  by (simp_all add: utf16le_def code_chars code_char_2200)

lemma scan_replicate:
  "fold scan_step (utf16le [u]) st = st \<Longrightarrow> fold scan_step (utf16le (replicate n u)) st = st"
proof (induction n)
  case 0
  then show ?case by (simp add: utf16le_def)
next
  case (Suc n)
  have "utf16le (replicate (Suc n) u) = utf16le [u] @ utf16le (replicate n u)" by (simp add: utf16le_def)
  with Suc show ?case by simp
qed

lemma scan_inside:
  "fold scan_step (utf16le (replicate n 0x5B)) (d, p, True, False) = (d, p, True, False)"
  "fold scan_step (utf16le (replicate n 0x5D)) (d, p, True, False) = (d, p, True, False)"
  by (rule scan_replicate, simp add: utf16le_units)+

text \<open>\<open>json.loads\<close> also reads UTF-16, which the byte scan does not know: the second byte of a
  character such as U+2200 looks like a quote, so a body of any depth passes the scan unparsed
  under every positive cap.\<close>

lemma utf16_hides_depth: "\<not> quick_depth_might_exceed (hidden_nesting n) (1 + int k)"
proof -
  have "fold scan_step (utf16le [0x5B, 0x22, 0x2200, 0x22, 0x2C]) (0, 0, False, False) = (1, 1, True, False)"
    unfolding utf16le_units by simp
  moreover have "fold scan_step (utf16le [0x5D]) (1, 1, True, False) = (1, 1, True, False)"
    unfolding utf16le_units by simp
  ultimately have "fold scan_step (hidden_nesting n) (0, 0, False, False) = (1, 1, True, False)"
    unfolding hidden_nesting_def utf16le_append fold_append comp_def by (simp only: scan_inside)
  then show ?thesis by (simp add: quick_depth_might_exceed_def depth_scan_fold)
qed

end
