(* ===== verification/PromptLookup.thy ===== *)
theory PromptLookup
  imports Prelude Complex_Main
begin

text \<open>
  Prompt lookup decoding (\<^verbatim>\<open>fusion_mlx/speculative/prompt_lookup.py\<close>): the n-gram index over the
  tokens seen so far, the draft it offers, and the generation loop that verifies drafts. The
  language model is outside the repository: a key/value cache is the token sequence it was
  filled with, and \<open>next_token\<close> is the token the model and a deterministic sampler give after a
  sequence. The probabilities that are yielded with each token are not modelled.
\<close>

section \<open>The decoder\<close>

record prompt_lookup =
  pl_num_draft_tokens :: int
  pl_ngram_size :: int
  pl_min_matches :: int
  pl_history :: "int list"
  pl_index :: "(int list, int list) pydict"
  pl_total_drafts :: int
  pl_successful_drafts :: int
  pl_partial_drafts :: int
  pl_total_draft_tokens :: int
  pl_accepted_tokens :: int

definition pl_new :: "int \<Rightarrow> int \<Rightarrow> int \<Rightarrow> prompt_lookup" where
  "pl_new num_draft ngram min_matches = \<lparr>pl_num_draft_tokens = num_draft, pl_ngram_size = ngram,
     pl_min_matches = min_matches, pl_history = [], pl_index = [], pl_total_drafts = 0, pl_successful_drafts = 0,
     pl_partial_drafts = 0, pl_total_draft_tokens = 0, pl_accepted_tokens = 0\<rparr>"

definition pl_reset :: "prompt_lookup \<Rightarrow> prompt_lookup" where
  "pl_reset p = p\<lparr>pl_history := [], pl_index := []\<rparr>"

text \<open>The index is a \<open>defaultdict(list)\<close>: a missing n-gram starts as the empty list.\<close>

definition positions_of :: "(int list, int list) pydict \<Rightarrow> int list \<Rightarrow> int list" where
  "positions_of d g = (case map_of d g of None \<Rightarrow> [] | Some ps \<Rightarrow> ps)"

definition index_ngram :: "int list \<Rightarrow> int \<Rightarrow> int \<Rightarrow> (int list, int list) pydict \<Rightarrow> (int list, int list) pydict" where
  "index_ngram history pos n d =
     (let start = pos - n + 1
      in if start \<ge> 0
         then let g = pyslice start (pos + 1) history in dict_set g (positions_of d g @ [start]) d
         else d)"

definition add_token :: "int \<Rightarrow> prompt_lookup \<Rightarrow> prompt_lookup" where
  "add_token token p =
     (let history = pl_history p @ [token];
          pos = int (length history) - 1
      in p\<lparr>pl_history := history,
           pl_index := fold (index_ngram history pos) (pyrange 1 (min (pl_ngram_size p + 1) (pos + 2))) (pl_index p)\<rparr>)"

definition add_prompt_tokens :: "int list \<Rightarrow> prompt_lookup \<Rightarrow> prompt_lookup" where
  "add_prompt_tokens tokens p = fold add_token tokens p"

definition add_generated_token :: "int \<Rightarrow> prompt_lookup \<Rightarrow> prompt_lookup" where
  "add_generated_token token p = add_token token p"

text \<open>The loop over the earlier positions: the best draft so far and its length.\<close>

fun draft_loop :: "prompt_lookup \<Rightarrow> int \<Rightarrow> int list \<Rightarrow> int list \<Rightarrow> int \<Rightarrow> int list" where
  "draft_loop p current [] draft best = draft"
| "draft_loop p current (start # ps) draft best =
     (if start = current then draft_loop p current ps draft best
      else
        let cont_begin = start + pl_ngram_size p;
            cont_end = min (cont_begin + pl_num_draft_tokens p) (int (length (pl_history p)));
            continuation = pyslice cont_begin cont_end (pl_history p)
        in if int (length continuation) \<ge> pl_min_matches p \<and> int (length continuation) > best
           then draft_loop p current ps (pyslice 0 (pl_num_draft_tokens p) continuation) (int (length continuation))
           else draft_loop p current ps draft best)"

definition get_draft_tokens :: "prompt_lookup \<Rightarrow> int list \<times> prompt_lookup" where
  "get_draft_tokens p =
     (if int (length (pl_history p)) < pl_ngram_size p then ([], p)
      else
        let query = pyslice (- pl_ngram_size p) (int (length (pl_history p))) (pl_history p);
            positions = positions_of (pl_index p) query
        in if positions = [] then ([], p)
           else
             let current = int (length (pl_history p)) - pl_ngram_size p;
                 draft = draft_loop p current positions [] 0
             in if int (length draft) \<ge> pl_min_matches p
                then (draft, p\<lparr>pl_total_drafts := pl_total_drafts p + 1,
                       pl_total_draft_tokens := pl_total_draft_tokens p + int (length draft)\<rparr>)
                else ([], p))"

definition record_accepted :: "int \<Rightarrow> int \<Rightarrow> prompt_lookup \<Rightarrow> prompt_lookup" where
  "record_accepted num_accepted num_drafted p =
     (if num_accepted > 0
      then let p1 = p\<lparr>pl_accepted_tokens := pl_accepted_tokens p + num_accepted\<rparr>
           in if num_drafted > 0 \<and> num_accepted \<ge> num_drafted
              then p1\<lparr>pl_successful_drafts := pl_successful_drafts p1 + 1\<rparr>
              else p1\<lparr>pl_partial_drafts := pl_partial_drafts p1 + 1\<rparr>
      else p)"

definition acceptance_rate :: "prompt_lookup \<Rightarrow> rat" where
  "acceptance_rate p =
     (if pl_total_draft_tokens p > 0 then of_int (pl_accepted_tokens p) / of_int (pl_total_draft_tokens p) else 0)"

section \<open>Generation\<close>

text \<open>The prompt is fed in pieces of \<open>step\<close> tokens until at most that many are left; for \<open>step\<close> 0 this never ends.\<close>

partial_function (option) prefill :: "int \<Rightarrow> int list \<Rightarrow> int list \<Rightarrow> (int list \<times> int list) option" where
  "prefill step tokens cache =
     (if int (length tokens) > step
      then prefill step (pyslice step (int (length tokens)) tokens) (cache @ pyslice 0 step tokens)
      else Some (tokens, cache))"

declare prefill.simps [code]

text \<open>
  The comparison of the draft with the verified tokens: the number of accepted tokens, the
  number of tokens so far, the decoder and the output. It stops at the first mismatch and at
  the token limit.
\<close>

fun accept_drafts :: "int \<Rightarrow> (int \<times> int) list \<Rightarrow> nat \<Rightarrow> int \<Rightarrow> prompt_lookup \<Rightarrow> (int \<times> bool) list \<Rightarrow>
    nat \<times> int \<times> prompt_lookup \<times> (int \<times> bool) list" where
  "accept_drafts max_tokens [] na ntoks p out = (na, ntoks, p, out)"
| "accept_drafts max_tokens ((d, v) # rest) na ntoks p out =
     (if d = v then
        (if ntoks + 1 \<ge> max_tokens then (na + 1, ntoks + 1, add_generated_token d p, out @ [(d, True)])
         else accept_drafts max_tokens rest (na + 1) (ntoks + 1) (add_generated_token d p) (out @ [(d, True)]))
      else (na, ntoks, p, out))"

lemma accept_drafts_more: "ntoks \<le> fst (snd (accept_drafts m ps na ntoks p out))"
proof (induction m ps na ntoks p out rule: accept_drafts.induct)
  case (2 m d v rest na ntoks p out)
  then show ?case by (auto intro: order.trans [of _ "ntoks + 1"])
qed simp

text \<open>The verified tokens: what the model predicts after the current token and each part of the draft.\<close>

definition verify :: "(int list \<Rightarrow> int) \<Rightarrow> int list \<Rightarrow> int \<Rightarrow> int list \<Rightarrow> int list" where
  "verify next_token cache token draft = map (\<lambda>i. next_token (cache @ [token] @ take i draft)) [0..<Suc (length draft)]"

text \<open>The \<open>while\<close> loop; the result is the output, the decoder and the cache.\<close>

function generate_loop :: "(int list \<Rightarrow> int) \<Rightarrow> int \<Rightarrow> int \<Rightarrow> int \<Rightarrow> prompt_lookup \<Rightarrow> int list \<Rightarrow> (int \<times> bool) list \<Rightarrow>
    (int \<times> bool) list \<times> prompt_lookup \<times> int list" where
  "generate_loop next_token max_tokens token ntoks p cache out =
     (if ntoks \<ge> max_tokens then (out, p, cache)
      else if ntoks + 1 \<ge> max_tokens then (out @ [(token, False)], p, cache)
      else
        let (draft, p1) = get_draft_tokens (add_generated_token token p)
        in if draft \<noteq> [] then
             let verified = verify next_token cache token draft;
                 r = accept_drafts max_tokens (zip draft (butlast verified)) 0 (ntoks + 1) p1 (out @ [(token, False)]);
                 na = fst r;
                 p2 = record_accepted (int na) (int (length draft)) (fst (snd (snd r)));
                 cache1 = cache @ [token] @ draft
             in if fst (snd r) \<ge> max_tokens then (snd (snd (snd r)), p2, cache1)
                else generate_loop next_token max_tokens (verified ! na) (fst (snd r)) p2
                       (take (length cache1 - (length draft - na)) cache1) (snd (snd (snd r)))
           else generate_loop next_token max_tokens (next_token (cache @ [token])) (ntoks + 1) p1 (cache @ [token])
                  (out @ [(token, False)]))"
  by pat_completeness auto
termination
proof (relation "measure (\<lambda>(next_token, max_tokens, token, ntoks, p, cache, out). nat (max_tokens - ntoks))", goal_cases)
  case 1
  then show ?case by simp
next
  case (2 next_token max_tokens token ntoks p cache out x draft p1 verified r na p2 cache1)
  have "ntoks + 1 \<le> fst (snd r)" unfolding 2 by (rule accept_drafts_more)
  with 2(1) 2(2) show ?case by simp
next
  case 3
  then show ?case by simp
qed

definition prompt_lookup_generate_step ::
  "(int list \<Rightarrow> int) \<Rightarrow> int list \<Rightarrow> int \<Rightarrow> int \<Rightarrow> int \<Rightarrow> int \<Rightarrow> ((int \<times> bool) list \<times> prompt_lookup \<times> int list) option" where
  "prompt_lookup_generate_step next_token prompt num_draft ngram max_tokens step =
     (let p = add_prompt_tokens prompt (pl_new num_draft ngram 2)
      in case prefill step prompt [] of
           None \<Rightarrow> None
         | Some (y, cache) \<Rightarrow>
             Some (generate_loop next_token max_tokens (next_token (cache @ y)) 0 p (cache @ y) []))"

end
