(* ===== verification/PromptProps.thy ===== *)
theory PromptProps
  imports PromptLookup
begin

text \<open>
  Correctness of prompt lookup decoding: the index holds exactly the occurrences of every
  n-gram, a draft continues the first earlier occurrence of the last tokens, and the generated
  tokens are those the model generates without drafts.
\<close>

section \<open>Occurrences\<close>

definition occurs_at :: "int list \<Rightarrow> int list \<Rightarrow> nat \<Rightarrow> bool" where
  "occurs_at g h s \<longleftrightarrow> s + length g \<le> length h \<and> take (length g) (drop s h) = g"

definition occurrences :: "int list \<Rightarrow> int list \<Rightarrow> nat list" where
  "occurrences g h = filter (occurs_at g h) [0..<Suc (length h)]"

lemma upt_split: "c \<le> n \<Longrightarrow> [0..<n] = [0..<c] @ [c..<n]"
  using upt_add_eq_append [of 0 c "n - c"] by simp

lemma occurs_snoc_old: "s + length g \<le> length h \<Longrightarrow> occurs_at g (h @ [t]) s = occurs_at g h s"
  by (simp add: occurs_at_def)

lemma occurrences_snoc:
  assumes "g \<noteq> []"
  shows "occurrences g (h @ [t]) = occurrences g h @
    (if length g \<le> Suc (length h) \<and> drop (Suc (length h) - length g) (h @ [t]) = g
     then [Suc (length h) - length g] else [])"
proof (cases "length g \<le> Suc (length h)")
  case False
  then have "occurrences g (h @ [t]) = []" "occurrences g h = []"
    by (auto simp: occurrences_def occurs_at_def filter_empty_conv)
  with False show ?thesis by simp
next
  case True
  define c where "c = Suc (length h) - length g"
  have c: "c + length g = Suc (length h)" "c \<le> length h"
    using True assms by (simp_all add: c_def) (cases g; simp)
  have "[0..<Suc (Suc (length h))] = [0..<c] @ [c] @ [Suc c..<Suc (Suc (length h))]"
    using upt_split [of c "Suc (Suc (length h))"] c(2) by (simp add: upt_conv_Cons del: upt_Suc)
  moreover have "filter (occurs_at g (h @ [t])) [Suc c..<Suc (Suc (length h))] = []"
    using c(1) by (auto simp: filter_empty_conv occurs_at_def)
  moreover have "filter (occurs_at g (h @ [t])) [0..<c] = filter (occurs_at g h) [0..<c]"
    using c(1) by (intro filter_cong refl occurs_snoc_old) auto
  moreover have "occurs_at g (h @ [t]) c \<longleftrightarrow> drop c (h @ [t]) = g"
    using c by (auto simp: occurs_at_def)
  ultimately have new: "occurrences g (h @ [t]) = filter (occurs_at g h) [0..<c] @ (if drop c (h @ [t]) = g then [c] else [])"
    unfolding occurrences_def by simp
  have "[0..<Suc (length h)] = [0..<c] @ [c..<Suc (length h)]"
    using upt_split [of c "Suc (length h)"] c(2) by simp
  moreover have "filter (occurs_at g h) [c..<Suc (length h)] = []"
    using c(1) by (auto simp: filter_empty_conv occurs_at_def)
  ultimately have "occurrences g h = filter (occurs_at g h) [0..<c]" unfolding occurrences_def by simp
  with new True show ?thesis by (simp add: c_def)
qed

section \<open>The index\<close>

lemma positions_set: "positions_of (dict_set k v d) g = (if g = k then v else positions_of d g)"
  by (simp add: positions_of_def map_of_dict_set)

lemma index_ngram_positions:
  assumes "1 \<le> n" "int n \<le> int (length h)"
  shows "positions_of (index_ngram h (int (length h) - 1) (int n) d) g =
    positions_of d g @ (if length g = n \<and> drop (length h - n) h = g then [int (length h - n)] else [])"
proof -
  have "pyslice (int (length h) - int n) (int (length h)) h = drop (length h - n) h"
    using assms by (subst pyslice_nonneg) (auto simp: nat_diff_distrib' take_all)
  moreover have "length (drop (length h - n) h) = n" using assms by simp
  ultimately show ?thesis using assms
    by (auto simp: index_ngram_def Let_def positions_set of_nat_diff)
qed

lemma fold_index:
  assumes "\<forall>n \<in> set ns. 1 \<le> n \<and> n \<le> int (length h)" "distinct ns"
  shows "positions_of (fold (index_ngram h (int (length h) - 1)) ns d) g =
    positions_of d g @ (if int (length g) \<in> set ns \<and> drop (length h - length g) h = g then [int (length h - length g)] else [])"
  using assms
proof (induction ns arbitrary: d)
  case Nil
  then show ?case by simp
next
  case (Cons n ns)
  then have n: "1 \<le> n" "n \<le> int (length h)" by auto
  then obtain k where k: "n = int k" "1 \<le> k" using nonneg_int_cases [of n] by auto
  have "positions_of (fold (index_ngram h (int (length h) - 1)) ns (index_ngram h (int (length h) - 1) n d)) g =
      positions_of (index_ngram h (int (length h) - 1) n d) g @
      (if int (length g) \<in> set ns \<and> drop (length h - length g) h = g then [int (length h - length g)] else [])"
    using Cons by simp
  also have "positions_of (index_ngram h (int (length h) - 1) n d) g =
      positions_of d g @ (if length g = k \<and> drop (length h - k) h = g then [int (length h - k)] else [])"
    using index_ngram_positions [of k h d g] k n(2) by simp
  finally show ?case using Cons.prems(2) k by auto
qed

definition index_ok :: "prompt_lookup \<Rightarrow> bool" where
  "index_ok p \<longleftrightarrow> (\<forall>g. positions_of (pl_index p) g =
     (if 1 \<le> length g \<and> int (length g) \<le> pl_ngram_size p then map int (occurrences g (pl_history p)) else []))"

lemma index_ok_add:
  assumes "index_ok p"
  shows "index_ok (add_token t p)"
  unfolding index_ok_def
proof
  fix g
  let ?h = "pl_history p @ [t]" and ?ns = "pyrange 1 (min (pl_ngram_size p + 1) (int (length (pl_history p @ [t])) + 1))"
  have "positions_of (pl_index (add_token t p)) g = positions_of (pl_index p) g @
      (if int (length g) \<in> set ?ns \<and> drop (length ?h - length g) ?h = g then [int (length ?h - length g)] else [])"
    unfolding add_token_def Let_def using fold_index [of ?ns ?h "pl_index p" g] by (simp add: add.commute)
  moreover have "g \<noteq> [] \<Longrightarrow> map int (occurrences g ?h) = map int (occurrences g (pl_history p)) @
      (if length g \<le> length ?h \<and> drop (length ?h - length g) ?h = g then [int (length ?h - length g)] else [])"
    using occurrences_snoc [of g "pl_history p" t] by simp
  moreover have "pl_history (add_token t p) = ?h" "pl_ngram_size (add_token t p) = pl_ngram_size p"
    by (simp_all add: add_token_def Let_def)
  ultimately show "positions_of (pl_index (add_token t p)) g =
     (if 1 \<le> length g \<and> int (length g) \<le> pl_ngram_size (add_token t p)
      then map int (occurrences g (pl_history (add_token t p))) else [])"
    using assms unfolding index_ok_def by (cases "g = []") (auto simp: Suc_le_eq)
qed

lemma add_tokens:
  "index_ok p \<Longrightarrow> index_ok (add_prompt_tokens ts p) \<and> pl_history (add_prompt_tokens ts p) = pl_history p @ ts \<and>
   pl_ngram_size (add_prompt_tokens ts p) = pl_ngram_size p \<and> pl_min_matches (add_prompt_tokens ts p) = pl_min_matches p \<and>
   pl_num_draft_tokens (add_prompt_tokens ts p) = pl_num_draft_tokens p"
proof (induction ts arbitrary: p)
  case Nil
  then show ?case by (simp add: add_prompt_tokens_def)
next
  case (Cons t ts)
  have "pl_history (add_token t p) = pl_history p @ [t]" "pl_ngram_size (add_token t p) = pl_ngram_size p"
    "pl_min_matches (add_token t p) = pl_min_matches p" "pl_num_draft_tokens (add_token t p) = pl_num_draft_tokens p"
    by (simp_all add: add_token_def Let_def)
  with Cons.IH [OF index_ok_add [OF Cons.prems, of t]] show ?case by (simp add: add_prompt_tokens_def)
qed

lemma index_ok_new: "index_ok (pl_new k n m)" "index_ok (pl_reset p)"
  by (auto simp: index_ok_def pl_new_def pl_reset_def positions_of_def occurrences_def occurs_at_def)

section \<open>Drafts\<close>

definition continuation_at :: "prompt_lookup \<Rightarrow> nat \<Rightarrow> int list" where
  "continuation_at p s = take (nat (pl_num_draft_tokens p)) (drop (s + nat (pl_ngram_size p)) (pl_history p))"

lemma pyslice_continuation:
  assumes "0 \<le> pl_ngram_size p" "0 \<le> pl_num_draft_tokens p" "int s + pl_ngram_size p \<le> int (length (pl_history p))"
  shows "pyslice (int s + pl_ngram_size p) (min (int s + pl_ngram_size p + pl_num_draft_tokens p) (int (length (pl_history p))))
    (pl_history p) = continuation_at p s"
proof -
  have "nat (int s + pl_ngram_size p) = s + nat (pl_ngram_size p)" using assms by (simp add: nat_add_distrib)
  moreover have "take (nat (min (pl_num_draft_tokens p) (int (length (pl_history p)) - (int s + pl_ngram_size p))))
      (drop (s + nat (pl_ngram_size p)) (pl_history p)) = continuation_at p s"
  proof (cases "pl_num_draft_tokens p \<le> int (length (pl_history p)) - (int s + pl_ngram_size p)")
    case True
    then show ?thesis by (simp add: continuation_at_def)
  next
    case False
    with assms show ?thesis by (auto simp: continuation_at_def min_def)
  qed
  moreover have "min (int s + pl_ngram_size p + pl_num_draft_tokens p) (int (length (pl_history p))) - (int s + pl_ngram_size p) =
      min (pl_num_draft_tokens p) (int (length (pl_history p)) - (int s + pl_ngram_size p))" by linarith
  ultimately show ?thesis using assms by (simp add: pyslice_nonneg)
qed

lemma draft_step:
  assumes "0 \<le> pl_ngram_size p" "0 \<le> pl_num_draft_tokens p" "int s + pl_ngram_size p \<le> int (length (pl_history p))"
  shows "draft_loop p current (int s # ps) draft best =
    (if int s \<noteq> current \<and> int (length (continuation_at p s)) \<ge> pl_min_matches p \<and> int (length (continuation_at p s)) > best
     then draft_loop p current ps (continuation_at p s) (int (length (continuation_at p s)))
     else draft_loop p current ps draft best)"
proof -
  have "pyslice 0 (pl_num_draft_tokens p) (continuation_at p s) = continuation_at p s"
    using assms(2) by (subst pyslice_nonneg) (simp_all add: continuation_at_def)
  then show ?thesis by (simp add: Let_def pyslice_continuation [OF assms])
qed

text \<open>A later occurrence has a shorter continuation, so it never replaces an earlier one.\<close>

lemma draft_rest:
  assumes "0 \<le> pl_ngram_size p" "0 \<le> pl_num_draft_tokens p"
    and "\<forall>s \<in> set ss. int s + pl_ngram_size p \<le> int (length (pl_history p)) \<and>
      (int s \<noteq> current \<longrightarrow> int (length (continuation_at p s)) < pl_min_matches p \<or> int (length (continuation_at p s)) \<le> best)"
  shows "draft_loop p current (map int ss) draft best = draft"
  using assms(3)
proof (induction ss)
  case Nil
  then show ?case by simp
next
  case (Cons s ss)
  then show ?case using draft_step [OF assms(1,2), of s current "map int ss" draft best] by auto
qed

lemma continuation_antimono: "s \<le> s' \<Longrightarrow> length (continuation_at p s') \<le> length (continuation_at p s)"
  by (simp add: continuation_at_def min_le_iff_disj diff_le_mono2 le_diff_conv) linarith

lemma draft_first:
  assumes p: "0 \<le> pl_ngram_size p" "0 \<le> pl_num_draft_tokens p" "1 \<le> pl_min_matches p"
    and "sorted (s # ss)" "\<forall>x \<in> set (s # ss). int x + pl_ngram_size p \<le> int (length (pl_history p))"
    and cur: "current = int (length (pl_history p)) - pl_ngram_size p"
  shows "draft_loop p current (map int (s # ss)) [] 0 =
    (if pl_min_matches p \<le> int (length (continuation_at p s)) then continuation_at p s else [])"
proof (cases "pl_min_matches p \<le> int (length (continuation_at p s))")
  case True
  have "continuation_at p s = []" if "int s = current"
  proof -
    from that cur p(1) have "length (pl_history p) = s + nat (pl_ngram_size p)" by linarith
    then show ?thesis by (simp add: continuation_at_def)
  qed
  with True p(3) have "int s \<noteq> current" by auto
  then have "draft_loop p current (map int (s # ss)) [] 0 =
      draft_loop p current (map int ss) (continuation_at p s) (int (length (continuation_at p s)))"
    using draft_step [OF p(1,2), of s current "map int ss" "[]" 0] True p(3) assms(5) by simp
  also have "\<dots> = continuation_at p s"
    using assms(4,5) continuation_antimono [of s _ p] by (intro draft_rest [OF p(1,2)]) auto
  finally show ?thesis using True by simp
next
  case False
  have "draft_loop p current (map int (s # ss)) [] 0 = []"
    using False assms(4,5) continuation_antimono [of s _ p]
    by (intro draft_rest [OF p(1,2)]) (fastforce intro: order.strict_trans1)
  with False show ?thesis by simp
qed

lemma occurrences_sorted: "sorted (occurrences g h)"
  by (simp add: occurrences_def sorted_wrt_filter del: upt_Suc)

lemma get_draft_spec:
  assumes "index_ok p" "1 \<le> pl_ngram_size p" "0 \<le> pl_num_draft_tokens p" "1 \<le> pl_min_matches p"
    and "pl_ngram_size p \<le> int (length (pl_history p))"
  defines "q \<equiv> drop (length (pl_history p) - nat (pl_ngram_size p)) (pl_history p)"
  defines "d \<equiv> continuation_at p (hd (occurrences q (pl_history p)))"
  shows "fst (get_draft_tokens p) = (if pl_min_matches p \<le> int (length d) then d else [])"
proof -
  let ?h = "pl_history p" and ?n = "nat (pl_ngram_size p)"
  have q: "length q = ?n" "1 \<le> ?n" using assms(2,5) by (auto simp: q_def)
  have "pyslice (- pl_ngram_size p) (int (length ?h)) ?h = q"
    using assms(2,5) by (simp add: pyslice_def slice_bound_def q_def nat_diff_distrib)
  moreover have "positions_of (pl_index p) q = map int (occurrences q ?h)"
    using assms(1,2) q by (simp add: index_ok_def)
  moreover have "occurs_at q ?h (length ?h - ?n)" using q assms(5) by (auto simp: occurs_at_def q_def)
  then have "length ?h - ?n \<in> set (occurrences q ?h)" by (simp add: occurrences_def del: upt_Suc)
  then obtain s ss where occ: "occurrences q ?h = s # ss" by (cases "occurrences q ?h") auto
  moreover have "\<forall>x \<in> set (s # ss). int x + pl_ngram_size p \<le> int (length ?h)"
    unfolding occ [symmetric] using q assms(2) by (auto simp: occurrences_def occurs_at_def)
  moreover have "sorted (s # ss)" unfolding occ [symmetric] by (rule occurrences_sorted)
  ultimately show ?thesis
    using draft_first [OF _ assms(3,4), of s ss] assms(2,4,5) by (simp add: get_draft_tokens_def Let_def d_def)
qed

section \<open>Generation\<close>

text \<open>What the model generates without drafts.\<close>

fun greedy :: "(int list \<Rightarrow> int) \<Rightarrow> int list \<Rightarrow> nat \<Rightarrow> int list" where
  "greedy f ctx 0 = []"
| "greedy f ctx (Suc n) = f ctx # greedy f (ctx @ [f ctx]) n"

lemma greedy_add: "greedy f ctx (m + n) = greedy f ctx m @ greedy f (ctx @ greedy f ctx m) n"
  by (induction m arbitrary: ctx) simp_all

definition predicted :: "(int list \<Rightarrow> int) \<Rightarrow> int list \<Rightarrow> int list \<Rightarrow> int list" where
  "predicted f ctx ds = map (\<lambda>i. f (ctx @ take i ds)) [0..<length ds]"

lemma predicted_Cons: "predicted f ctx (d # ds) = f ctx # predicted f (ctx @ [d]) ds"
  by (simp add: predicted_def upt_conv_Cons map_Suc_upt [symmetric] comp_def del: upt_Suc)

lemma accept_spec:
  assumes "ntoks < max_tokens"
  shows "\<exists>j p' out'. accept_drafts max_tokens (zip ds (predicted f ctx ds)) na ntoks p out = (na + j, ntoks + int j, p', out') \<and>
    j \<le> length ds \<and> take j ds = greedy f ctx j \<and> map fst out' = map fst out @ take j ds \<and> ntoks + int j \<le> max_tokens"
  using assms
proof (induction ds arbitrary: ctx na ntoks p out)
  case Nil
  then show ?case by (intro exI [of _ 0]) (simp add: predicted_def)
next
  case (Cons d ds)
  show ?case
  proof (cases "d = f ctx")
    case False
    with Cons.prems show ?thesis by (intro exI [of _ 0]) (simp add: predicted_Cons)
  next
    case True
    show ?thesis
    proof (cases "ntoks + 1 \<ge> max_tokens")
      case full: True
      with Cons.prems True show ?thesis by (intro exI [of _ "Suc 0"]) (simp add: predicted_Cons)
    next
      case False
      then have "ntoks + 1 < max_tokens" by simp
      from Cons.IH [OF this, of "ctx @ [d]" "na + 1" "add_generated_token d p" "out @ [(d, True)]"]
      obtain j p' out' where "accept_drafts max_tokens (zip ds (predicted f (ctx @ [d]) ds)) (na + 1) (ntoks + 1)
          (add_generated_token d p) (out @ [(d, True)]) = (na + 1 + j, ntoks + 1 + int j, p', out')"
        "j \<le> length ds" "take j ds = greedy f (ctx @ [d]) j" "map fst out' = map fst (out @ [(d, True)]) @ take j ds"
        "ntoks + 1 + int j \<le> max_tokens" by blast
      with True False show ?thesis by (intro exI [of _ "Suc j"]) (simp add: predicted_Cons)
    qed
  qed
qed

lemma verify_predicted: "butlast (verify f cache t draft) = predicted f (cache @ [t]) draft"
  by (simp add: verify_def predicted_def)

lemma verify_nth: "j \<le> length draft \<Longrightarrow> verify f cache t draft ! j = f (cache @ [t] @ take j draft)"
  by (simp add: verify_def nth_append del: upt_Suc)

declare generate_loop.simps [simp del]

lemma generate_greedy:
  "token = f cache \<Longrightarrow>
   map fst (fst (generate_loop f max_tokens token ntoks p cache out)) = map fst out @ greedy f cache (nat (max_tokens - ntoks))"
proof (induction f max_tokens token ntoks p cache out rule: generate_loop.induct)
  case (1 f max_tokens token ntoks p cache out)
  consider "max_tokens \<le> ntoks" | "ntoks + 1 = max_tokens" | "ntoks + 1 < max_tokens" by linarith
  then show ?case
  proof cases
    case 1
    then show ?thesis by (simp add: generate_loop.simps)
  next
    case 2
    then have "nat (max_tokens - ntoks) = Suc 0" by simp
    with 2 "1.prems" show ?thesis by (simp add: generate_loop.simps)
  next
    case 3
    obtain draft p1 where d: "get_draft_tokens (add_generated_token token p) = (draft, p1)" by force
    have n: "nat (max_tokens - ntoks) = Suc (nat (max_tokens - (ntoks + 1)))" using 3 by simp
    show ?thesis
    proof (cases "draft = []")
      case True
      have "generate_loop f max_tokens token ntoks p cache out =
          generate_loop f max_tokens (f (cache @ [token])) (ntoks + 1) p1 (cache @ [token]) (out @ [(token, False)])"
        using 3 by (subst generate_loop.simps) (simp add: d True)
      moreover have "map fst (fst (generate_loop f max_tokens (f (cache @ [token])) (ntoks + 1) p1 (cache @ [token]) (out @ [(token, False)]))) =
          map fst (out @ [(token, False)]) @ greedy f (cache @ [token]) (nat (max_tokens - (ntoks + 1)))"
        using "1.IH"(2) [OF _ _ d [symmetric] refl] 3 True by simp
      ultimately show ?thesis unfolding n using "1.prems" by simp
    next
      case False
      let ?v = "verify f cache token draft"
      from accept_spec [OF 3, of draft f "cache @ [token]" 0 p1 "out @ [(token, False)]"] obtain j p' out' where
        acc: "accept_drafts max_tokens (zip draft (butlast ?v)) 0 (ntoks + 1) p1 (out @ [(token, False)]) = (j, ntoks + 1 + int j, p', out')"
        and j: "j \<le> length draft" "take j draft = greedy f (cache @ [token]) j" "ntoks + 1 + int j \<le> max_tokens"
        and out': "map fst out' = map fst out @ token # take j draft"
        by (auto simp: verify_predicted)
      let ?p2 = "record_accepted (int j) (int (length draft)) p'" and ?c = "cache @ [token] @ draft"
      have split: "nat (max_tokens - (ntoks + 1)) = j + nat (max_tokens - (ntoks + 1 + int j))" using j(3) by simp
      have tr: "take (length ?c - (length draft - j)) ?c = cache @ [token] @ take j draft" using j(1) by simp
      show ?thesis
      proof (cases "ntoks + 1 + int j \<ge> max_tokens")
        case True
        then have "generate_loop f max_tokens token ntoks p cache out = (out', ?p2, ?c)"
          using 3 False by (subst generate_loop.simps) (simp add: d acc Let_def)
        with True out' j(2,3) split show ?thesis unfolding n using "1.prems" by simp
      next
        case more: False
        let ?rest = "generate_loop f max_tokens (?v ! j) (ntoks + 1 + int j) ?p2 (cache @ [token] @ take j draft) out'"
        have "generate_loop f max_tokens token ntoks p cache out = ?rest"
          using 3 False more tr by (subst generate_loop.simps) (simp add: d acc Let_def)
        moreover have "map fst (fst ?rest) = map fst out' @ greedy f (cache @ [token] @ take j draft) (nat (max_tokens - (ntoks + 1 + int j)))"
          using "1.IH"(1) [OF _ _ d [symmetric] refl False refl refl refl refl refl] 3 more acc tr verify_nth [OF j(1), of f cache token]
          by simp
        ultimately show ?thesis
          unfolding n split greedy.simps greedy_add using "1.prems" out' j(2) by simp
      qed
    qed
  qed
qed

end
