(* ===== verification/PromptFacts.thy ===== *)
theory PromptFacts
  imports PromptProps
begin

text \<open>The properties of prompt lookup decoding.\<close>

text \<open>A draft is never invented: after any tokens have been added the decoder offers exactly the
  tokens that followed the first occurrence of the last \<open>n\<close> tokens, up to the draft limit, and
  nothing if fewer than \<open>min_matches\<close> tokens followed it.\<close>

theorem draft_continues_first_occurrence:
  assumes "1 \<le> n" "n \<le> int (length ts)" "0 \<le> k" "1 \<le> m"
  shows "fst (get_draft_tokens (add_prompt_tokens ts (pl_new k n m))) =
    (let s = hd (occurrences (drop (length ts - nat n) ts) ts);
         d = take (nat k) (drop (s + nat n) ts)
     in if m \<le> int (length d) then d else [])"
proof -
  let ?p = "add_prompt_tokens ts (pl_new k n m)"
  have p: "index_ok ?p" "pl_history ?p = ts" "pl_ngram_size ?p = n" "pl_min_matches ?p = m" "pl_num_draft_tokens ?p = k"
    using add_tokens [OF index_ok_new(1), of ts k n m] by (simp_all add: pl_new_def)
  with get_draft_spec [OF p(1)] assms show ?thesis by (simp add: continuation_at_def Let_def)
qed

theorem draft_continues_first_occurrence_witness:
  "fst (get_draft_tokens (add_prompt_tokens [1, 2, 3, 9, 1, 2, 7, 1, 2] (pl_new 3 2 1))) = [3, 9, 1]"
  using draft_continues_first_occurrence [of 2 "[1, 2, 3, 9, 1, 2, 7, 1, 2]" 3 1]
  by (simp add: occurrences_def occurs_at_def upt_rec numeral_eq_Suc)




end
