(* ===== verification/DraftTree.thy ===== *)
theory DraftTree
  imports Prelude Complex_Main
begin

text \<open>
  Draft trees for speculative decoding and their verification, and the virtual append offset
  (\<^verbatim>\<open>fusion_mlx/speculative/tree_mask.py\<close>). A tree is the list of its nodes; a parent is an index,
  -1 for the root. The loops follow parents or children and need not end on a malformed tree:
  \<open>None\<close> is a loop that does not return.
\<close>

section \<open>Trees\<close>

record draft_node =
  dn_token :: int
  dn_parent :: int

type_synonym draft_tree = "draft_node list"

definition draft_node_of :: "int \<Rightarrow> int \<Rightarrow> draft_node" where
  "draft_node_of token parent = \<lparr>dn_token = token, dn_parent = parent\<rparr>"

definition from_chain :: "int \<Rightarrow> int list \<Rightarrow> draft_tree" where
  "from_chain root_token chain_tokens =
     draft_node_of root_token (-1) # map (\<lambda>(i, t). draft_node_of t (int i)) (enumerate 0 chain_tokens)"

text \<open>Appending a chain below a node; the result is the tree and the last node of the chain.\<close>

fun extend_chain :: "int list \<Rightarrow> int \<Rightarrow> draft_tree \<Rightarrow> draft_tree \<times> int" where
  "extend_chain [] cur nodes = (nodes, cur)"
| "extend_chain (t # ts) cur nodes =
     extend_chain ts (int (length (nodes @ [draft_node_of t cur])) - 1) (nodes @ [draft_node_of t cur])"

definition from_branches :: "int \<Rightarrow> int list \<Rightarrow> int list list \<Rightarrow> draft_tree" where
  "from_branches root_token shared_prefix branches =
     (let (nodes, prefix_tail) = extend_chain shared_prefix 0 [draft_node_of root_token (-1)]
      in fold (\<lambda>branch nodes. fst (extend_chain branch prefix_tail nodes)) branches nodes)"

definition tree_tokens :: "draft_tree \<Rightarrow> int list" where
  "tree_tokens t = map dn_token t"

text \<open>The walk up to the root; the path is collected from the node upwards and then reversed.\<close>

partial_function (option) ancestors_walk :: "draft_tree \<Rightarrow> int \<Rightarrow> int list \<Rightarrow> (py_error + int list) option" where
  "ancestors_walk t cur path =
     (if cur \<ge> 0
      then (case pyindex t cur of
              Inl e \<Rightarrow> Some (Inl e)
            | Inr node \<Rightarrow> ancestors_walk t (dn_parent node) (path @ [cur]))
      else Some (Inr (rev path)))"

declare ancestors_walk.simps [code]

definition ancestors_of :: "draft_tree \<Rightarrow> int \<Rightarrow> (py_error + int list) option" where
  "ancestors_of t idx = ancestors_walk t idx []"

section \<open>The attention mask\<close>

definition mask_row :: "draft_tree \<Rightarrow> nat \<Rightarrow> (py_error + rat list) option" where
  "mask_row t i =
     (case ancestors_of t (int i) of
        None \<Rightarrow> None
      | Some (Inl e) \<Rightarrow> Some (Inl e)
      | Some (Inr anc) \<Rightarrow> Some (Inr (map (\<lambda>j. if int j \<in> set anc then 1 else 0) [0..<length t])))"

fun mask_rows :: "draft_tree \<Rightarrow> nat list \<Rightarrow> (py_error + rat list list) option" where
  "mask_rows t [] = Some (Inr [])"
| "mask_rows t (i # is) =
     (case mask_row t i of
        None \<Rightarrow> None
      | Some (Inl e) \<Rightarrow> Some (Inl e)
      | Some (Inr row) \<Rightarrow>
          (case mask_rows t is of
             None \<Rightarrow> None
           | Some (Inl e) \<Rightarrow> Some (Inl e)
           | Some (Inr rows) \<Rightarrow> Some (Inr (row # rows))))"

definition build_tree_attention_mask :: "draft_tree \<Rightarrow> (py_error + rat list list) option" where
  "build_tree_attention_mask t = mask_rows t [0..<length t]"

section \<open>Verification\<close>

record tree_verify_result =
  tv_accepted_tokens :: "int list"
  tv_bonus_token :: int
  tv_accepted_len :: int
  tv_accepted_path :: "int list"
  tv_n_verified :: int

text \<open>\<open>children[node.parent].append(i)\<close> for every node in order; a parent past the end raises.\<close>

definition children_of :: "draft_tree \<Rightarrow> nat \<Rightarrow> nat list" where
  "children_of t p = filter (\<lambda>i. dn_parent (t ! i) = int p) [0..<length t]"

definition parents_in_range :: "draft_tree \<Rightarrow> bool" where
  "parents_in_range t = list_all (\<lambda>n. dn_parent n < int (length t)) t"

definition accepted_children :: "draft_tree \<Rightarrow> int list \<Rightarrow> nat \<Rightarrow> nat list" where
  "accepted_children t target_argmax node =
     filter (\<lambda>c. target_argmax ! node = dn_token (t ! c)) (children_of t node)"

text \<open>The stack of paths; its top is the head of the list. A path is reversed: its last node first.\<close>

partial_function (option) verify_walk :: "draft_tree \<Rightarrow> int list \<Rightarrow> nat list list \<Rightarrow> nat list \<Rightarrow> nat list option" where
  "verify_walk t target_argmax stack best =
     (case stack of
        [] \<Rightarrow> Some best
      | path # rest \<Rightarrow>
          (let cs = accepted_children t target_argmax (hd path)
           in if cs = [] then verify_walk t target_argmax rest (if length path > length best then path else best)
              else verify_walk t target_argmax (rev (map (\<lambda>c. c # path) cs) @ rest) best))"

declare verify_walk.simps [code]

definition verify_tree_logits :: "draft_tree \<Rightarrow> int list \<Rightarrow> (py_error + tree_verify_result) option" where
  "verify_tree_logits t target_argmax =
     (if t = [] then Some (Inr \<lparr>tv_accepted_tokens = [], tv_bonus_token = -1, tv_accepted_len = 0,
                              tv_accepted_path = [], tv_n_verified = 0\<rparr>)
      else if length target_argmax \<noteq> length t then Some (Inl ValueError)
      else if \<not> parents_in_range t then Some (Inl IndexError)
      else case verify_walk t target_argmax [[0]] [0] of
        None \<Rightarrow> None
      | Some best \<Rightarrow>
          (let path = rev best; toks = map (\<lambda>i. dn_token (t ! i)) (tl path)
           in Some (Inr \<lparr>tv_accepted_tokens = toks, tv_bonus_token = target_argmax ! (hd best),
                tv_accepted_len = int (length toks), tv_accepted_path = map int path, tv_n_verified = int (length t)\<rparr>)))"

section \<open>The virtual append offset\<close>

text \<open>
  The paged cache below is outside the model: \<open>'kv\<close> is the keys and values of one step,
  \<open>update_and_fetch\<close> appends steps to the cache, and its offset is their number. \<open>on\<close> is the
  switch \<open>FUSION_SHIM_TREE_MASK\<close>, read at every call.
\<close>

record 'kv virtual_append =
  va_cache :: "'kv list"
  va_offset :: int
  va_staged :: "'kv list option"
  va_staged_steps :: int
  va_committed :: int
  va_rolled_back :: int

definition va_new :: "'kv list \<Rightarrow> 'kv virtual_append" where
  "va_new cache = \<lparr>va_cache = cache, va_offset = 0, va_staged = None, va_staged_steps = 0, va_committed = 0, va_rolled_back = 0\<rparr>"

definition real_offset :: "'kv virtual_append \<Rightarrow> int" where
  "real_offset v = int (length (va_cache v))"

definition virtual_offset :: "'kv virtual_append \<Rightarrow> int" where
  "virtual_offset v = real_offset v + va_offset v"

definition va_propose :: "bool \<Rightarrow> 'kv list \<Rightarrow> 'kv virtual_append \<Rightarrow> int \<times> 'kv virtual_append" where
  "va_propose on steps v =
     (if \<not> on then let v1 = v\<lparr>va_cache := va_cache v @ steps\<rparr> in (real_offset v1, v1)
      else let v1 = v\<lparr>va_staged := Some steps, va_staged_steps := int (length steps), va_offset := int (length steps)\<rparr>
           in (virtual_offset v1, v1))"

definition va_commit :: "bool \<Rightarrow> int \<Rightarrow> 'kv virtual_append \<Rightarrow> int \<times> 'kv virtual_append" where
  "va_commit on n v =
     (if \<not> on then (real_offset v, v\<lparr>va_offset := 0, va_staged := None, va_staged_steps := 0\<rparr>)
      else let m = max 0 (min n (va_staged_steps v));
               v1 = (case va_staged v of
                       Some steps \<Rightarrow> if m > 0 then v\<lparr>va_cache := va_cache v @ pyslice 0 m steps\<rparr> else v
                     | None \<Rightarrow> v);
               v2 = v1\<lparr>va_committed := va_committed v1 + m, va_staged := None, va_staged_steps := 0, va_offset := 0\<rparr>
           in (real_offset v2, v2))"

definition va_rollback :: "bool \<Rightarrow> 'kv virtual_append \<Rightarrow> int \<times> 'kv virtual_append" where
  "va_rollback on v =
     (if \<not> on then (real_offset v, v)
      else let v1 = v\<lparr>va_rolled_back := va_rolled_back v + va_staged_steps v, va_staged := None, va_staged_steps := 0, va_offset := 0\<rparr>
           in (real_offset v1, v1))"

end
