(* ===== verification/DraftFacts.thy ===== *)
theory DraftFacts
  imports DraftProps
begin

text \<open>The properties of draft trees and of the virtual append offset.\<close>

section \<open>Verification\<close>

text \<open>C33: On every well-formed draft tree the verification returns, and its path is a longest one
  from the root on which the target's prediction at each node is the token of the next; the
  accepted tokens are those of the path and the bonus token is the prediction at its end.\<close>

theorem tree_verification_longest:
  assumes "tree_ok t" "length am = length t"
  shows "\<exists>r best. verify_tree_logits t am = Some (Inr r) \<and> accepted_from t am [0] best \<and>
    (\<forall>q. accepted_from t am [0] q \<longrightarrow> length q \<le> length best) \<and>
    tv_accepted_path r = map int (rev best) \<and>
    tv_accepted_tokens r = map (\<lambda>i. dn_token (t ! i)) (tl (rev best)) \<and>
    tv_accepted_len r = int (length best) - 1 \<and> tv_bonus_token r = am ! hd best"
proof -
  from verify_walk_longest [OF assms(1)] obtain best where
    b: "verify_walk t am [[0]] [0] = Some best" "accepted_from t am [0] best"
      "\<forall>q. accepted_from t am [0] q \<longrightarrow> length q \<le> length best" by blast
  have "1 \<le> length best" using accepted_length [OF b(2)] by simp
  moreover have "t \<noteq> []" using assms(1) by (simp add: tree_ok_def)
  ultimately show ?thesis
    using b assms(2) ok_in_range [OF assms(1)] by (simp add: verify_tree_logits_def Let_def of_nat_diff)
qed

theorem tree_verification_longest_witness:
  "\<exists>r best. verify_tree_logits (from_branches 9 [1] [[2], [3, 4]]) [1, 3, 0, 4, 7] = Some (Inr r) \<and>
    accepted_from (from_branches 9 [1] [[2], [3, 4]]) [1, 3, 0, 4, 7] [0] best \<and>
    (\<forall>q. accepted_from (from_branches 9 [1] [[2], [3, 4]]) [1, 3, 0, 4, 7] [0] q \<longrightarrow> length q \<le> length best) \<and>
    tv_accepted_path r = map int (rev best) \<and>
    tv_accepted_tokens r = map (\<lambda>i. dn_token (from_branches 9 [1] [[2], [3, 4]] ! i)) (tl (rev best)) \<and>
    tv_accepted_len r = int (length best) - 1 \<and> tv_bonus_token r = [1, 3, 0, 4, 7] ! hd best"
  by (rule tree_verification_longest [OF from_branches_ok]) (simp add: from_branches_def)

section \<open>Chains\<close>

lemma chain_children: "c < Suc (length ds) \<Longrightarrow> dn_parent (from_chain r ds ! c) = int p \<longleftrightarrow> c = Suc p"
  by (cases c) (auto simp: chain_nth draft_node_of_def)

lemma chain_accepted:
  "accepted_from (from_chain r ds) am [0] q \<longleftrightarrow> (\<exists>i \<le> length ds. q = rev [0..<Suc i] \<and> (\<forall>k < i. am ! k = ds ! k))"
proof
  assume "accepted_from (from_chain r ds) am [0] q"
  then show "\<exists>i \<le> length ds. q = rev [0..<Suc i] \<and> (\<forall>k < i. am ! k = ds ! k)"
  proof (induction rule: accepted_from.induct)
    case start
    show ?case by (intro exI [of _ 0]) simp
  next
    case (down p ps c)
    then obtain i where i: "i \<le> length ds" "p # ps = rev [0..<Suc i]" "\<forall>k < i. am ! k = ds ! k" by blast
    then have "p = i" by simp
    with down.hyps chain_children have c: "c = Suc i" "Suc i \<le> length ds" by auto
    with down.hyps(4) \<open>p = i\<close> have "am ! i = ds ! i" by (simp add: chain_nth draft_node_of_def)
    with i c show ?case by (intro exI [of _ "Suc i"]) (auto simp: less_Suc_eq)
  qed
next
  assume "\<exists>i \<le> length ds. q = rev [0..<Suc i] \<and> (\<forall>k < i. am ! k = ds ! k)"
  then obtain i where "i \<le> length ds" "q = rev [0..<Suc i]" "\<forall>k < i. am ! k = ds ! k" by blast
  then show "accepted_from (from_chain r ds) am [0] q"
  proof (induction i arbitrary: q)
    case 0
    then show ?case by (simp add: accepted_from.start)
  next
    case (Suc i)
    then have "accepted_from (from_chain r ds) am [0] (rev [0..<Suc i])" by simp
    then have "accepted_from (from_chain r ds) am [0] (Suc i # i # rev [0..<i])"
      using Suc.prems by (intro accepted_from.down) (simp_all add: chain_nth draft_node_of_def)
    with Suc.prems show ?case by simp
  qed
qed

definition matching :: "int list \<Rightarrow> int list \<Rightarrow> nat" where
  "matching ds am = length (takeWhile (\<lambda>(d, a). d = a) (zip ds am))"

lemma matching_facts:
  assumes "length ds \<le> length am"
  shows "matching ds am \<le> length ds" "k < matching ds am \<Longrightarrow> am ! k = ds ! k"
    "matching ds am < length ds \<Longrightarrow> am ! matching ds am \<noteq> ds ! matching ds am"
proof -
  let ?z = "zip ds am" and ?P = "\<lambda>(d, a). d = (a :: int)"
  show "matching ds am \<le> length ds"
    using length_takeWhile_le [of ?P ?z] assms by (simp add: matching_def)
  show "am ! k = ds ! k" if "k < matching ds am"
  proof -
    have "k < length (takeWhile ?P ?z)" using that by (simp add: matching_def)
    moreover from this have "takeWhile ?P ?z ! k = ?z ! k" by (rule takeWhile_nth)
    moreover have "?P (takeWhile ?P ?z ! k)" using set_takeWhileD [OF nth_mem [OF calculation(1)]] by simp
    ultimately show ?thesis using length_takeWhile_le [of ?P ?z] by simp
  qed
  show "am ! matching ds am \<noteq> ds ! matching ds am" if "matching ds am < length ds"
  proof -
    have "length (takeWhile ?P ?z) < length ?z" using that assms by (simp add: matching_def)
    from nth_length_takeWhile [OF this] that assms show ?thesis by (auto simp: matching_def [symmetric])
  qed
qed

text \<open>On a chain the verification is the linear comparison: the accepted tokens are the drafted
  ones up to the first that the target does not predict, and the bonus token is the prediction
  there; a tree without nodes gives nothing, a wrong number of predictions raises.\<close>

theorem chain_verification_linear:
  "(length am = Suc (length ds) \<longrightarrow>
      verify_tree_logits (from_chain r ds) am = Some (Inr \<lparr>tv_accepted_tokens = take (matching ds am) ds,
        tv_bonus_token = am ! matching ds am, tv_accepted_len = int (matching ds am),
        tv_accepted_path = map int [0..<Suc (matching ds am)], tv_n_verified = int (Suc (length ds))\<rparr>)) \<and>
   (length am \<noteq> Suc (length ds) \<longrightarrow> verify_tree_logits (from_chain r ds) am = Some (Inl ValueError))"
proof (intro conjI impI)
  assume len: "length am = Suc (length ds)"
  let ?t = "from_chain r ds" and ?j = "matching ds am"
  from verify_walk_longest [OF from_chain_ok] obtain best where
    b: "verify_walk ?t am [[0]] [0] = Some best" "accepted_from ?t am [0] best"
      "\<forall>q. accepted_from ?t am [0] q \<longrightarrow> length q \<le> length best" by blast
  from b(2) obtain i where i: "i \<le> length ds" "best = rev [0..<Suc i]" "\<forall>k < i. am ! k = ds ! k"
    unfolding chain_accepted by blast
  note m = matching_facts [of ds am]
  have "accepted_from ?t am [0] (rev [0..<Suc ?j])" unfolding chain_accepted using m len by auto
  with b(3) i(2) have "?j \<le> i" by fastforce
  moreover have "\<not> ?j < i" using m(3) i(1,3) len by auto
  ultimately have "i = ?j" by simp
  have "map (\<lambda>i. dn_token (?t ! i)) [Suc 0..<Suc ?j] = take ?j ds"
    using m(1) len by (intro nth_equalityI) (auto simp: chain_nth draft_node_of_def nth_append simp del: upt_Suc)
  moreover have "tl [0..<Suc ?j] = [Suc 0..<Suc ?j]" by (simp only: tl_upt)
  moreover have "hd best = ?j" using i(2) \<open>i = ?j\<close> by simp
  moreover have "?t \<noteq> []" by (simp add: from_chain_def)
  ultimately show "verify_tree_logits ?t am = Some (Inr \<lparr>tv_accepted_tokens = take ?j ds,
        tv_bonus_token = am ! ?j, tv_accepted_len = int ?j,
        tv_accepted_path = map int [0..<Suc ?j], tv_n_verified = int (Suc (length ds))\<rparr>)"
    using b(1) i(2) \<open>i = ?j\<close> len ok_in_range [OF from_chain_ok] m(1)
    by (simp add: verify_tree_logits_def Let_def del: upt_Suc)
next
  assume "length am \<noteq> Suc (length ds)"
  then show "verify_tree_logits (from_chain r ds) am = Some (Inl ValueError)"
    by (auto simp: verify_tree_logits_def from_chain_def)
qed

theorem chain_verification_linear_witness:
  "verify_tree_logits (from_chain 5 [1, 2, 3]) [1, 2, 9, 4] = Some (Inr \<lparr>tv_accepted_tokens = [1, 2],
     tv_bonus_token = 9, tv_accepted_len = 2, tv_accepted_path = [0, 1, 2], tv_n_verified = 4\<rparr>)"
  using chain_verification_linear [of "[1, 2, 9, 4]" "[1, 2, 3]" 5] by (simp add: matching_def)

section \<open>The mask\<close>

definition child_rel :: "draft_tree \<Rightarrow> (nat \<times> nat) set" where
  "child_rel t = {(p, c). c < length t \<and> dn_parent (t ! c) = int p}"

lemma child_rel_iff: "(j, i) \<in> (child_rel t)\<^sup>* \<longleftrightarrow> j = i \<or> (\<exists>p. (p, i) \<in> child_rel t \<and> (j, p) \<in> (child_rel t)\<^sup>*)"
  by (auto elim: rtranclE intro: rtrancl.rtrancl_into_rtrancl)

lemma ancestors_spec:
  assumes "tree_ok t" "i < length t"
  shows "\<exists>path. ancestors_walk t (int i) acc = Some (Inr (path @ rev acc)) \<and> set path = int ` {j. (j, i) \<in> (child_rel t)\<^sup>*}"
  using assms(2)
proof (induction i arbitrary: acc rule: less_induct)
  case (less i)
  have step: "ancestors_walk t (int i) acc = ancestors_walk t (dn_parent (t ! i)) (acc @ [int i])"
    using less.prems by (subst ancestors_walk.simps) (simp add: pyindex_nonneg)
  from assms(1) less.prems have p: "-1 \<le> dn_parent (t ! i)" "dn_parent (t ! i) < int i" by (auto simp: tree_ok_def)
  show ?case
  proof (cases "dn_parent (t ! i) < 0")
    case True
    have "{j. (j, i) \<in> (child_rel t)\<^sup>*} = {i}"
      using True by (subst child_rel_iff) (auto simp: child_rel_def)
    moreover have "ancestors_walk t (dn_parent (t ! i)) (acc @ [int i]) = Some (Inr ([int i] @ rev acc))"
      using True by (subst ancestors_walk.simps) simp
    ultimately show ?thesis unfolding step by (intro exI [of _ "[int i]"]) simp
  next
    case False
    then obtain k where k: "dn_parent (t ! i) = int k" "k < i" using p(2) by (metis nonneg_int_cases not_less of_nat_less_iff)
    from less.IH [OF k(2), of "acc @ [int i]"] k(2) less.prems obtain path where
      path: "ancestors_walk t (int k) (acc @ [int i]) = Some (Inr (path @ rev (acc @ [int i])))"
        "set path = int ` {j. (j, k) \<in> (child_rel t)\<^sup>*}" by auto
    have "{j. (j, i) \<in> (child_rel t)\<^sup>*} = insert i {j. (j, k) \<in> (child_rel t)\<^sup>*}"
      using less.prems k(1) by (subst child_rel_iff) (auto simp: child_rel_def)
    with path show ?thesis unfolding step k(1) by (intro exI [of _ "path @ [int i]"]) simp
  qed
qed

lemma mask_row_spec:
  assumes "tree_ok t" "i < length t"
  shows "mask_row t i = Some (Inr (map (\<lambda>j. if (j, i) \<in> (child_rel t)\<^sup>* then 1 else 0) [0..<length t]))"
proof -
  from ancestors_spec [OF assms, of "[]"] obtain path where
    "ancestors_of t (int i) = Some (Inr path)" "set path = int ` {j. (j, i) \<in> (child_rel t)\<^sup>*}"
    by (auto simp: ancestors_of_def)
  then show ?thesis by (auto simp: mask_row_def image_iff)
qed

text \<open>The attention mask of a well-formed tree lets a node attend to exactly itself and its
  ancestors.\<close>

theorem tree_mask_marks_ancestors:
  assumes "tree_ok t"
  shows "build_tree_attention_mask t =
    Some (Inr (map (\<lambda>i. map (\<lambda>j. if (j, i) \<in> (child_rel t)\<^sup>* then 1 else 0) [0..<length t]) [0..<length t]))"
proof -
  have "mask_rows t is = Some (Inr (map (\<lambda>i. map (\<lambda>j. if (j, i) \<in> (child_rel t)\<^sup>* then 1 else 0) [0..<length t]) is))"
    if "set is \<subseteq> {0..<length t}" for "is"
    using that mask_row_spec [OF assms] by (induction "is") simp_all
  then show ?thesis by (simp add: build_tree_attention_mask_def)
qed

theorem tree_mask_marks_ancestors_witness:
  "build_tree_attention_mask (from_chain 5 [1]) =
    Some (Inr (map (\<lambda>i. map (\<lambda>j. if (j, i) \<in> (child_rel (from_chain 5 [1]))\<^sup>* then 1 else 0) [0..<length (from_chain 5 [1])])
      [0..<length (from_chain 5 [1])]))"
  by (rule tree_mask_marks_ancestors [OF from_chain_ok])

section \<open>The virtual append offset\<close>

datatype 'kv va_op = Propose "'kv list" | Commit int | Rollback

fun va_step :: "'kv va_op \<Rightarrow> 'kv virtual_append \<Rightarrow> 'kv virtual_append" where
  "va_step (Propose steps) v = snd (va_propose True steps v)"
| "va_step (Commit n) v = snd (va_commit True n v)"
| "va_step Rollback v = snd (va_rollback True v)"

text \<open>The abstract offset: a cache and the steps staged on top of it.\<close>

fun va_spec :: "'kv va_op \<Rightarrow> 'kv list \<times> 'kv list \<Rightarrow> 'kv list \<times> 'kv list" where
  "va_spec (Propose steps) (cache, staged) = (cache, steps)"
| "va_spec (Commit n) (cache, staged) = (cache @ take (nat n) staged, [])"
| "va_spec Rollback (cache, staged) = (cache, [])"

definition va_abs :: "'kv virtual_append \<Rightarrow> 'kv list \<times> 'kv list" where
  "va_abs v = (va_cache v, case va_staged v of None \<Rightarrow> [] | Some s \<Rightarrow> s)"

definition va_ok :: "nat \<Rightarrow> 'kv virtual_append \<Rightarrow> bool" where
  "va_ok n v \<longleftrightarrow> va_staged_steps v = int (length (snd (va_abs v))) \<and> va_offset v = va_staged_steps v \<and>
     real_offset v = int n + va_committed v"

lemma va_step_ok:
  assumes "va_ok n v"
  shows "va_ok n (va_step op v) \<and> va_abs (va_step op v) = va_spec op (va_abs v)"
proof (cases op)
  case (Propose steps)
  with assms show ?thesis by (simp add: va_ok_def va_abs_def va_propose_def real_offset_def Let_def)
next
  case (Commit k)
  show ?thesis
  proof (cases "va_staged v")
    case None
    with assms Commit show ?thesis by (simp add: va_ok_def va_abs_def va_commit_def real_offset_def Let_def)
  next
    case (Some s)
    let ?m = "max 0 (min k (int (length s)))"
    have "take (nat ?m) s = take (nat k) s" by (cases "k \<le> int (length s)"; cases "0 \<le> k") auto
    moreover have "pyslice 0 ?m s = take (nat ?m) s" by (subst pyslice_nonneg) auto
    ultimately show ?thesis
      using assms Commit Some by (auto simp: va_ok_def va_abs_def va_commit_def real_offset_def Let_def)
  qed
next
  case Rollback
  with assms show ?thesis by (simp add: va_ok_def va_abs_def va_rollback_def real_offset_def Let_def)
qed

text \<open>C34: With the switch on, any sequence of proposals, commits and rollbacks refines a cache with a
  staged tail: a proposal leaves the cache alone, a commit appends the first steps of the tail and
  drops the rest, a rollback drops the tail; the offsets and the counter of committed steps agree.\<close>

theorem virtual_append_refines:
  "va_abs (fold va_step ops (va_new cache)) = fold va_spec ops (cache, []) \<and>
   real_offset (fold va_step ops (va_new cache)) =
     int (length cache) + va_committed (fold va_step ops (va_new cache)) \<and>
   virtual_offset (fold va_step ops (va_new cache)) =
     (let (c, staged) = fold va_spec ops (cache, []) in int (length c) + int (length staged))"
proof -
  have "va_ok (length cache) (fold va_step ops (va_new cache)) \<and>
      va_abs (fold va_step ops (va_new cache)) = fold va_spec ops (cache, [])"
  proof (induction ops rule: rev_induct)
    case Nil
    show ?case by (simp add: va_new_def va_ok_def va_abs_def real_offset_def)
  next
    case (snoc op ops)
    with va_step_ok [of "length cache" "fold va_step ops (va_new cache)" op] show ?case by simp
  qed
  moreover from this have "va_cache (fold va_step ops (va_new cache)) = fst (fold va_spec ops (cache, []))"
    by (metis fst_conv va_abs_def)
  ultimately show ?thesis
    by (auto simp: va_ok_def virtual_offset_def real_offset_def Let_def case_prod_beta)
qed

end
