(* ===== verification/PriorityScheduler.thy ===== *)
theory PriorityScheduler
  imports Prelude Complex_Main
begin

text \<open>
  The priority scheduler (\<^verbatim>\<open>fusion_mlx/pool/priority_scheduler.py\<close>): three queues in front of a
  base scheduler. The base scheduler is known only through its protocol: \<open>'b\<close> is its state and
  \<open>base_ops\<close> its methods, with the memory pool's release of a request's cache, which may do
  anything to that state. Locks are held for single statements by one thread. Streams and
  their priorities on the device, and request ids drawn at random, are not modelled.
\<close>

section \<open>Data\<close>

datatype level = REALTIME | BATCH | BACKGROUND

definition levels :: "level list" where
  "levels = [REALTIME, BATCH, BACKGROUND]"

datatype task_priority = Task_realtime | Task_batch | Task_background

fun task_to_priority :: "task_priority \<Rightarrow> level" where
  "task_to_priority Task_realtime = REALTIME"
| "task_to_priority Task_batch = BATCH"
| "task_to_priority Task_background = BACKGROUND"

datatype prompt = Text_prompt string | Token_prompt "int list"

record sched_request =
  sr_id :: string
  sr_prompt :: prompt

record priority_request =
  pq_request :: sched_request
  pq_priority :: level
  pq_queued_at :: rat
  pq_deadline :: "rat option"
  pq_source_tag :: string

definition is_expired :: "rat \<Rightarrow> priority_request \<Rightarrow> bool" where
  "is_expired now r = (case pq_deadline r of None \<Rightarrow> False | Some d \<Rightarrow> now > d)"

record sched_config =
  max_realtime_seqs :: int
  max_batch_seqs :: int
  max_background_seqs :: int
  min_background_share :: rat
  min_batch_share :: rat
  preempt_batch_for_realtime :: bool
  preempt_background_for_any :: bool
  starvation_threshold_steps :: int
  prefill_chunk_size :: int
  max_batch_per_step_when_rt_waiting :: int
  max_background_per_step_when_rt_waiting :: int

definition default_sched_config :: sched_config where
  "default_sched_config = \<lparr>max_realtime_seqs = 8, max_batch_seqs = 16, max_background_seqs = 4,
     min_background_share = 1 / 10, min_batch_share = 1 / 5, preempt_batch_for_realtime = True,
     preempt_background_for_any = True, starvation_threshold_steps = 100, prefill_chunk_size = 512,
     max_batch_per_step_when_rt_waiting = 1, max_background_per_step_when_rt_waiting = 0\<rparr>"

record 'b base_ops =
  bo_add_request :: "sched_request \<Rightarrow> 'b \<Rightarrow> ('b, unit) outcome"
  bo_abort_request :: "string \<Rightarrow> 'b \<Rightarrow> bool \<times> 'b"
  bo_has_requests :: "'b \<Rightarrow> bool"
  bo_step :: "'b \<Rightarrow> 'b"
  bo_get_request :: "string \<Rightarrow> 'b \<Rightarrow> sched_request option"
  bo_running :: "'b \<Rightarrow> string list"
  bo_set_max_tokens :: "int \<Rightarrow> 'b \<Rightarrow> 'b"
  bo_evict_kv :: "string \<Rightarrow> 'b \<Rightarrow> 'b"

record 'b priority_scheduler =
  ps_base :: 'b
  ps_queues :: "level \<Rightarrow> priority_request list"
  ps_request_priorities :: "(string, level) pydict"
  ps_steps_since_served :: "level \<Rightarrow> int"
  ps_total_preemptions :: int
  ps_total_starvation_rescues :: int
  ps_steps :: int

definition sched_new :: "'b \<Rightarrow> 'b priority_scheduler" where
  "sched_new b = \<lparr>ps_base = b, ps_queues = (\<lambda>_. []), ps_request_priorities = [], ps_steps_since_served = (\<lambda>_. 0),
     ps_total_preemptions = 0, ps_total_starvation_rescues = 0, ps_steps = 0\<rparr>"

definition get_max_for_level :: "sched_config \<Rightarrow> level \<Rightarrow> int" where
  "get_max_for_level cfg pl =
     (if pl = REALTIME then max_realtime_seqs cfg
      else if pl = BATCH then max_batch_seqs cfg
      else max_background_seqs cfg)"

definition running_at :: "level \<Rightarrow> 'b priority_scheduler \<Rightarrow> int" where
  "running_at pl s = int (length (filter (\<lambda>p. p = pl) (dict_values (ps_request_priorities s))))"

section \<open>Queueing and draining\<close>

definition submit :: "priority_request \<Rightarrow> 'b priority_scheduler \<Rightarrow> string \<times> 'b priority_scheduler" where
  "submit r s = (sr_id (pq_request r),
     s\<lparr>ps_queues := (ps_queues s)(pq_priority r := ps_queues s (pq_priority r) @ [r])\<rparr>)"

text \<open>Handing the head of a queue to the base scheduler; when that raises the request is dropped.\<close>

definition hand_over :: "'b base_ops \<Rightarrow> level \<Rightarrow> priority_request \<Rightarrow> 'b priority_scheduler \<Rightarrow> 'b priority_scheduler" where
  "hand_over ops pl r s =
     (let rid = sr_id (pq_request r);
          s1 = s\<lparr>ps_queues := (ps_queues s)(pl := tl (ps_queues s pl)),
                 ps_request_priorities := dict_set rid pl (ps_request_priorities s)\<rparr>
      in case bo_add_request ops (pq_request r) (ps_base s1) of
           (Inr _, b) \<Rightarrow> s1\<lparr>ps_base := b\<rparr>
         | (Inl e, b) \<Rightarrow> s1\<lparr>ps_base := b, ps_request_priorities := dict_del rid (ps_request_priorities s1)\<rparr>)"

text \<open>The inner loop: the queue of one level is emptied as far as the running requests of the level allow.\<close>

function drain_level :: "'b base_ops \<Rightarrow> sched_config \<Rightarrow> level \<Rightarrow> int \<Rightarrow> 'b priority_scheduler \<Rightarrow> int \<times> 'b priority_scheduler" where
  "drain_level ops cfg pl scheduled s =
     (case ps_queues s pl of
        [] \<Rightarrow> (scheduled, s)
      | r # rest \<Rightarrow>
          if running_at pl s \<ge> get_max_for_level cfg pl then (scheduled, s)
          else drain_level ops cfg pl (scheduled + 1) (hand_over ops pl r s))"
  by pat_completeness auto
termination
  by (relation "measure (\<lambda>(ops, cfg, pl, n, s). length (ps_queues s pl))")
    (auto simp: hand_over_def Let_def split: prod.splits sum.splits)

fun drain_levels :: "'b base_ops \<Rightarrow> sched_config \<Rightarrow> int \<Rightarrow> level list \<Rightarrow> int \<Rightarrow> 'b priority_scheduler \<Rightarrow> int \<times> 'b priority_scheduler" where
  "drain_levels ops cfg max_requests [] scheduled s = (scheduled, s)"
| "drain_levels ops cfg max_requests (pl # pls) scheduled s =
     (if scheduled \<ge> max_requests then (scheduled, s)
      else let (n, s1) = drain_level ops cfg pl scheduled s in drain_levels ops cfg max_requests pls n s1)"

text \<open>\<open>[priority_filter] if priority_filter else list(PriorityLevel)\<close>: the level 0 counts as no filter.\<close>

definition levels_to_check :: "level option \<Rightarrow> level list" where
  "levels_to_check f = (case f of None \<Rightarrow> levels | Some pl \<Rightarrow> if pl = REALTIME then levels else [pl])"

definition drain_to_base :: "'b base_ops \<Rightarrow> sched_config \<Rightarrow> int \<Rightarrow> level option \<Rightarrow> 'b priority_scheduler \<Rightarrow> int \<times> 'b priority_scheduler" where
  "drain_to_base ops cfg max_requests f s = drain_levels ops cfg max_requests (levels_to_check f) 0 s"

definition submit_to_base :: "'b base_ops \<Rightarrow> sched_config \<Rightarrow> priority_request \<Rightarrow> 'b priority_scheduler \<Rightarrow> string \<times> 'b priority_scheduler" where
  "submit_to_base ops cfg r s =
     (let (rid, s1) = submit r s in (rid, snd (drain_to_base ops cfg 1 (Some (pq_priority r)) s1)))"

section \<open>Preemption\<close>

definition forget_request :: "string \<Rightarrow> 'b priority_scheduler \<Rightarrow> 'b priority_scheduler" where
  "forget_request rid s = s\<lparr>ps_request_priorities := dict_del rid (ps_request_priorities s),
     ps_total_preemptions := ps_total_preemptions s + 1\<rparr>"

definition abort_in_base :: "'b base_ops \<Rightarrow> string \<Rightarrow> 'b priority_scheduler \<Rightarrow> 'b priority_scheduler" where
  "abort_in_base ops rid s = s\<lparr>ps_base := snd (bo_abort_request ops rid (bo_evict_kv ops rid (ps_base s)))\<rparr>"

definition preempt_at_level :: "'b base_ops \<Rightarrow> level \<Rightarrow> 'b priority_scheduler \<Rightarrow> 'b priority_scheduler" where
  "preempt_at_level ops pl s =
     (let to_preempt = map fst (filter (\<lambda>p. snd p = pl) (ps_request_priorities s))
      in fold (abort_in_base ops) to_preempt (fold forget_request to_preempt s))"

definition maybe_preempt :: "'b base_ops \<Rightarrow> sched_config \<Rightarrow> 'b priority_scheduler \<Rightarrow> 'b priority_scheduler" where
  "maybe_preempt ops cfg s =
     (let rt_has = (ps_queues s REALTIME \<noteq> []); batch_has = (ps_queues s BATCH \<noteq> []);
          s1 = (if preempt_background_for_any cfg \<and> running_at BACKGROUND s > 0 \<and> (rt_has \<or> batch_has)
                then preempt_at_level ops BACKGROUND s else s)
      in if preempt_batch_for_realtime cfg \<and> running_at BATCH s > 0 \<and> rt_has
         then if length (ps_queues s1 REALTIME) \<ge> 2 then preempt_at_level ops BATCH s1 else s1
         else s1)"

definition token_estimate :: "prompt \<Rightarrow> int" where
  "token_estimate p = (case p of Text_prompt t \<Rightarrow> int (length t) div 4 | Token_prompt ts \<Rightarrow> int (length ts))"

definition chunk_one :: "'b base_ops \<Rightarrow> sched_config \<Rightarrow> string \<Rightarrow> 'b priority_scheduler \<Rightarrow> 'b priority_scheduler" where
  "chunk_one ops cfg rid s =
     (if map_of (ps_request_priorities s) rid \<noteq> Some BATCH then s
      else case bo_get_request ops rid (ps_base s) of
        None \<Rightarrow> s
      | Some r \<Rightarrow> if token_estimate (sr_prompt r) > prefill_chunk_size cfg
                  then s\<lparr>ps_base := bo_set_max_tokens ops (prefill_chunk_size cfg) (ps_base s)\<rparr> else s)"

definition check_chunked_prefill :: "'b base_ops \<Rightarrow> sched_config \<Rightarrow> 'b priority_scheduler \<Rightarrow> 'b priority_scheduler" where
  "check_chunked_prefill ops cfg s =
     (if ps_queues s REALTIME = [] then s
      else fold (chunk_one ops cfg) (dict_keys (ps_request_priorities s)) s)"

section \<open>One step\<close>

text \<open>\<open>int(x)\<close> of a float rounds towards zero.\<close>

definition truncate :: "rat \<Rightarrow> int" where
  "truncate x = (if x \<ge> 0 then \<lfloor>x\<rfloor> else \<lceil>x\<rceil>)"

definition get_reserved_slots :: "sched_config \<Rightarrow> 'b priority_scheduler \<Rightarrow> level \<Rightarrow> int" where
  "get_reserved_slots cfg s pl =
     (let total = max_realtime_seqs cfg + max_batch_seqs cfg + max_background_seqs cfg;
          available = max 0 (total - int (length (ps_request_priorities s)));
          bg_reserve = max 0 (truncate (of_int available * min_background_share cfg) - running_at BACKGROUND s);
          bt_reserve = max 0 (truncate (of_int available * min_batch_share cfg) - running_at BATCH s);
          rt_available = max 0 (available - bg_reserve - bt_reserve)
      in case pl of
           REALTIME \<Rightarrow> max 0 (min (max_realtime_seqs cfg - running_at REALTIME s) (rt_available + max_realtime_seqs cfg))
         | BATCH \<Rightarrow> max 0 (min (max_batch_seqs cfg - running_at BATCH s) (bt_reserve + max_batch_seqs cfg))
         | BACKGROUND \<Rightarrow> max 0 (min (max_background_seqs cfg - running_at BACKGROUND s) (bg_reserve + max_background_seqs cfg)))"

definition step_limit :: "sched_config \<Rightarrow> (level \<Rightarrow> int) \<Rightarrow> bool \<Rightarrow> level \<Rightarrow> int" where
  "step_limit cfg reservations rt_waiting pl =
     (let m = min (get_max_for_level cfg pl) (reservations pl + 1)
      in if rt_waiting \<and> pl \<noteq> REALTIME
         then min m (if pl = BATCH then max_batch_per_step_when_rt_waiting cfg else max_background_per_step_when_rt_waiting cfg)
         else m)"

definition serve_level :: "'b base_ops \<Rightarrow> sched_config \<Rightarrow> (level \<Rightarrow> int) \<Rightarrow> bool \<Rightarrow> level \<Rightarrow> 'b priority_scheduler \<Rightarrow> 'b priority_scheduler" where
  "serve_level ops cfg reservations rt_waiting pl s =
     (let (n, s1) = drain_to_base ops cfg (step_limit cfg reservations rt_waiting pl) (Some pl) s
      in s1\<lparr>ps_steps_since_served := (ps_steps_since_served s1)(pl := if n > 0 then 0 else ps_steps_since_served s1 pl + 1)\<rparr>)"

definition rescue_level :: "'b base_ops \<Rightarrow> sched_config \<Rightarrow> level \<Rightarrow> 'b priority_scheduler \<Rightarrow> 'b priority_scheduler" where
  "rescue_level ops cfg pl s =
     (if ps_steps_since_served s pl \<ge> starvation_threshold_steps cfg \<and> ps_queues s pl \<noteq> []
      then let (n, s1) = drain_to_base ops cfg 1 (Some pl) s
           in if n > 0 then s1\<lparr>ps_total_starvation_rescues := ps_total_starvation_rescues s1 + 1\<rparr> else s1
      else s)"

definition check_starvation :: "'b base_ops \<Rightarrow> sched_config \<Rightarrow> 'b priority_scheduler \<Rightarrow> 'b priority_scheduler" where
  "check_starvation ops cfg s = fold (rescue_level ops cfg) [BACKGROUND, BATCH] s"

definition sched_step :: "'b base_ops \<Rightarrow> sched_config \<Rightarrow> 'b priority_scheduler \<Rightarrow> 'b priority_scheduler" where
  "sched_step ops cfg s =
     (let s1 = s\<lparr>ps_steps := ps_steps s + 1\<rparr>;
          rt_waiting = (ps_queues s1 REALTIME \<noteq> []);
          s2 = (if preempt_batch_for_realtime cfg \<and> rt_waiting then maybe_preempt ops cfg s1 else s1);
          s3 = check_chunked_prefill ops cfg s2;
          reservations = get_reserved_slots cfg s3;
          s4 = fold (serve_level ops cfg reservations rt_waiting) levels s3;
          s5 = check_starvation ops cfg s4
      in s5\<lparr>ps_base := bo_step ops (ps_base s5)\<rparr>)"

section \<open>The rest of the interface\<close>

definition sched_abort_request :: "'b base_ops \<Rightarrow> string \<Rightarrow> 'b priority_scheduler \<Rightarrow> bool \<times> 'b priority_scheduler" where
  "sched_abort_request ops rid s = (let (ok, b) = bo_abort_request ops rid (ps_base s) in (ok, s\<lparr>ps_base := b\<rparr>))"

definition sched_has_requests :: "'b base_ops \<Rightarrow> 'b priority_scheduler \<Rightarrow> bool" where
  "sched_has_requests ops s = (bo_has_requests ops (ps_base s) \<or> (\<exists>pl \<in> set levels. ps_queues s pl \<noteq> []))"

record sched_stats =
  ss_queue_depths :: "(level \<times> int) list"
  ss_running_count :: int
  ss_steps :: int
  ss_total_preemptions :: int
  ss_total_starvation_rescues :: int
  ss_steps_since_served :: "(level \<times> int) list"

definition sched_get_stats :: "'b base_ops \<Rightarrow> 'b priority_scheduler \<Rightarrow> sched_stats" where
  "sched_get_stats ops s = \<lparr>ss_queue_depths = map (\<lambda>pl. (pl, int (length (ps_queues s pl)))) levels,
     ss_running_count = int (length (bo_running ops (ps_base s))), ss_steps = ps_steps s,
     ss_total_preemptions = ps_total_preemptions s, ss_total_starvation_rescues = ps_total_starvation_rescues s,
     ss_steps_since_served = map (\<lambda>pl. (pl, ps_steps_since_served s pl)) levels\<rparr>"

definition cleanup_finished :: "'b base_ops \<Rightarrow> 'b priority_scheduler \<Rightarrow> 'b priority_scheduler" where
  "cleanup_finished ops s =
     s\<lparr>ps_request_priorities := filter (\<lambda>p. fst p \<in> set (bo_running ops (ps_base s))) (ps_request_priorities s)\<rparr>"

end
