(* ===== verification/SchedulerProps.thy ===== *)
theory SchedulerProps
  imports PriorityScheduler
begin

text \<open>
  Properties of the priority scheduler: the limits on running requests, the order in which a
  queue is drained, the rescue of a starved level, and what the filter for the highest level
  does to the limits of a step.
\<close>

section \<open>Counting running requests\<close>

definition count_at :: "level \<Rightarrow> (string, level) pydict \<Rightarrow> nat" where
  "count_at pl d = length (filter (\<lambda>p. p = pl) (dict_values d))"

lemma running_count: "running_at pl s = int (count_at pl (ps_request_priorities s))"
  by (simp add: running_at_def count_at_def)

lemma count_at_simps [simp]: "count_at pl [] = 0" "count_at pl (p # d) = (if snd p = pl then 1 else 0) + count_at pl d"
  by (simp_all add: count_at_def)

lemma count_at_set: "count_at pl (dict_set k v d) \<le> count_at pl d + (if v = pl then 1 else 0)"
  by (induction d) auto

lemma count_at_del: "count_at pl (dict_del k d) \<le> count_at pl d"
  by (induction d) auto

lemma count_at_filter: "count_at pl (filter P d) \<le> count_at pl d"
  by (induction d) auto

definition limited :: "sched_config \<Rightarrow> 'b priority_scheduler \<Rightarrow> bool" where
  "limited cfg s \<longleftrightarrow> (\<forall>pl. running_at pl s \<le> max 0 (get_max_for_level cfg pl))"

lemma limited_fewer:
  "limited cfg s \<Longrightarrow> (\<And>pl. count_at pl (ps_request_priorities s') \<le> count_at pl (ps_request_priorities s)) \<Longrightarrow> limited cfg s'"
  unfolding limited_def running_count by (meson dual_order.trans of_nat_le_iff)

lemma hand_over_priorities:
  "count_at q (ps_request_priorities (hand_over ops pl r s)) \<le> count_at q (ps_request_priorities s) + (if pl = q then 1 else 0)"
proof -
  have "count_at q (dict_del k (dict_set k pl d)) \<le> count_at q d + (if pl = q then 1 else 0)" for k d
    using count_at_del [of q k "dict_set k pl d"] count_at_set [of q k pl d] by linarith
  then show ?thesis
    using count_at_set [of q "sr_id (pq_request r)" pl "ps_request_priorities s"]
    by (auto simp: hand_over_def Let_def split: prod.splits sum.splits)
qed

lemma hand_over_limited:
  assumes "limited cfg s" "running_at pl s < get_max_for_level cfg pl"
  shows "limited cfg (hand_over ops pl r s)"
  unfolding limited_def
proof
  fix q
  have "running_at q (hand_over ops pl r s) \<le> running_at q s + (if pl = q then 1 else 0)"
    using hand_over_priorities [of q ops pl r s] by (cases "pl = q") (simp_all add: running_count)
  with assms show "running_at q (hand_over ops pl r s) \<le> max 0 (get_max_for_level cfg q)"
    by (cases "pl = q") (auto simp: limited_def intro: order.trans)
qed

section \<open>Draining\<close>

definition submit_all :: "'b base_ops \<Rightarrow> priority_request list \<Rightarrow> 'b \<Rightarrow> 'b" where
  "submit_all ops rs b = fold (\<lambda>r b. snd (bo_add_request ops (pq_request r) b)) rs b"

lemma hand_over_sel:
  "ps_queues (hand_over ops pl r s) = (ps_queues s)(pl := tl (ps_queues s pl))"
  "ps_base (hand_over ops pl r s) = submit_all ops [r] (ps_base s)"
  "ps_steps_since_served (hand_over ops pl r s) = ps_steps_since_served s"
  "ps_total_starvation_rescues (hand_over ops pl r s) = ps_total_starvation_rescues s"
  by (simp_all add: hand_over_def submit_all_def Let_def split: prod.splits sum.splits)

declare drain_level.simps [simp del]

lemma drain_level_limited: "limited cfg s \<Longrightarrow> limited cfg (snd (drain_level ops cfg pl n s))"
proof (induction ops cfg pl n s rule: drain_level.induct)
  case (1 ops cfg pl n s)
  show ?case
  proof (cases "ps_queues s pl")
    case Nil
    with 1 show ?thesis by (simp add: drain_level.simps)
  next
    case (Cons r rest)
    with 1 hand_over_limited [of cfg s pl ops r] show ?thesis
      by (subst drain_level.simps) (auto simp: not_le)
  qed
qed

lemma drain_level_spec:
  "\<exists>k s'. drain_level ops cfg pl n s = (n + int k, s') \<and> k \<le> length (ps_queues s pl) \<and>
     ps_queues s' = (ps_queues s)(pl := drop k (ps_queues s pl)) \<and>
     ps_base s' = submit_all ops (take k (ps_queues s pl)) (ps_base s) \<and>
     ps_steps_since_served s' = ps_steps_since_served s \<and>
     ps_total_starvation_rescues s' = ps_total_starvation_rescues s \<and>
     (k = length (ps_queues s pl) \<or> get_max_for_level cfg pl \<le> running_at pl s')"
proof (induction ops cfg pl n s rule: drain_level.induct)
  case (1 ops cfg pl n s)
  show ?case
  proof (cases "ps_queues s pl")
    case Nil
    then show ?thesis
      by (intro exI [of _ 0] exI [of _ s]) (auto simp: drain_level.simps submit_all_def fun_eq_iff)
  next
    case (Cons r rest)
    show ?thesis
    proof (cases "get_max_for_level cfg pl \<le> running_at pl s")
      case True
      with Cons show ?thesis
        by (intro exI [of _ 0] exI [of _ s]) (auto simp: drain_level.simps submit_all_def fun_eq_iff)
    next
      case False
      let ?s = "hand_over ops pl r s"
      from "1.IH" [OF Cons False, unfolded hand_over_sel Cons list.sel fun_upd_upd fun_upd_same] obtain k s' where
        k: "drain_level ops cfg pl (n + 1) ?s = (n + 1 + int k, s')" "k \<le> length rest"
          "ps_queues s' = (ps_queues s)(pl := drop k rest)" "ps_base s' = submit_all ops (take k rest) (submit_all ops [r] (ps_base s))"
          "ps_steps_since_served s' = ps_steps_since_served s"
          "ps_total_starvation_rescues s' = ps_total_starvation_rescues s"
          "k = length rest \<or> get_max_for_level cfg pl \<le> running_at pl s'"
        by blast
      moreover have "drain_level ops cfg pl n s = drain_level ops cfg pl (n + 1) ?s"
        using Cons False by (subst drain_level.simps) simp
      ultimately show ?thesis
        by (intro exI [of _ "Suc k"] exI [of _ s']) (simp add: Cons hand_over_sel submit_all_def)
    qed
  qed
qed

lemma drain_levels_limited: "limited cfg s \<Longrightarrow> limited cfg (snd (drain_levels ops cfg m pls n s))"
  by (induction pls arbitrary: n s) (auto simp: case_prod_beta Let_def drain_level_limited)

lemma drain_limited: "limited cfg s \<Longrightarrow> limited cfg (snd (drain_to_base ops cfg m f s))"
  by (simp add: drain_to_base_def drain_levels_limited)

section \<open>Every operation keeps the limits\<close>

lemma limited_same: "ps_request_priorities s' = ps_request_priorities s \<Longrightarrow> limited cfg s' = limited cfg s"
  by (simp add: limited_def running_count)

lemma preempt_limited: "limited cfg s \<Longrightarrow> limited cfg (preempt_at_level ops pl s)"
proof -
  have f: "limited cfg (fold forget_request rids s)" if "limited cfg s" for rids s
    using that
  proof (induction rids arbitrary: s)
    case (Cons rid rids)
    have "limited cfg (forget_request rid s)"
      by (rule limited_fewer [OF Cons.prems]) (simp add: forget_request_def count_at_del)
    with Cons.IH show ?case by simp
  qed simp
  have a: "limited cfg (fold (abort_in_base ops) rids s)" if "limited cfg s" for rids s
    using that by (induction rids arbitrary: s) (auto simp: abort_in_base_def limited_def running_count)
  show "limited cfg s \<Longrightarrow> limited cfg (preempt_at_level ops pl s)"
    by (simp add: preempt_at_level_def Let_def a f)
qed

lemma chunk_limited: "limited cfg s \<Longrightarrow> limited cfg (check_chunked_prefill ops cfg s)"
proof -
  have "limited cfg (chunk_one ops cfg rid s) = limited cfg s" for rid s
    by (rule limited_same) (simp add: chunk_one_def split: option.splits)
  then have "limited cfg (fold (chunk_one ops cfg) rids s) = limited cfg s" for rids s
    by (induction rids arbitrary: s) simp_all
  then show "limited cfg s \<Longrightarrow> limited cfg (check_chunked_prefill ops cfg s)"
    by (simp add: check_chunked_prefill_def)
qed

lemma serve_limited: "limited cfg s \<Longrightarrow> limited cfg (serve_level ops cfg rs w pl s)"
  using drain_limited [of cfg s ops "step_limit cfg rs w pl" "Some pl"]
  by (simp add: serve_level_def Let_def case_prod_beta limited_def running_count)

lemma rescue_limited: "limited cfg s \<Longrightarrow> limited cfg (rescue_level ops cfg pl s)"
  using drain_limited [of cfg s ops 1 "Some pl"]
  by (simp add: rescue_level_def Let_def case_prod_beta limited_def running_count)

lemma step_limited:
  assumes "limited cfg s"
  shows "limited cfg (sched_step ops cfg s)"
proof -
  have p: "limited cfg (maybe_preempt ops cfg s)" if "limited cfg s" for s
    using that by (simp add: maybe_preempt_def Let_def preempt_limited)
  have sv: "limited cfg (fold (serve_level ops cfg rs w) pls s)" if "limited cfg s" for rs w pls s
    using that by (induction pls arbitrary: s) (simp_all add: serve_limited)
  have r: "limited cfg (check_starvation ops cfg s)" if "limited cfg s" for s
    using that by (simp add: check_starvation_def rescue_limited)
  have u: "limited cfg (s\<lparr>ps_steps := k\<rparr>) = limited cfg s" "limited cfg (s\<lparr>ps_base := b\<rparr>) = limited cfg s" for k b s
    by (simp_all add: limited_def running_count)
  show ?thesis
    using assms by (simp add: sched_step_def Let_def u p sv r chunk_limited)
qed

datatype sched_op = Submit priority_request | Submit_to_base priority_request | Step | Abort string | Cleanup

fun sched_run_op :: "'b base_ops \<Rightarrow> sched_config \<Rightarrow> sched_op \<Rightarrow> 'b priority_scheduler \<Rightarrow> 'b priority_scheduler" where
  "sched_run_op ops cfg (Submit r) s = snd (submit r s)"
| "sched_run_op ops cfg (Submit_to_base r) s = snd (submit_to_base ops cfg r s)"
| "sched_run_op ops cfg Step s = sched_step ops cfg s"
| "sched_run_op ops cfg (Abort rid) s = snd (sched_abort_request ops rid s)"
| "sched_run_op ops cfg Cleanup s = cleanup_finished ops s"

text \<open>C30: Whatever the base scheduler does, after any history of submissions, steps, aborts and
  cleanups no level has more requests accounted as running than its maximum.\<close>

theorem running_within_limits:
  "running_at pl (fold (sched_run_op ops cfg) history (sched_new b)) \<le> max 0 (get_max_for_level cfg pl)"
proof -
  have sub: "limited cfg (snd (submit r s)) = limited cfg s" for r s
    by (simp add: submit_def limited_def running_count)
  have "limited cfg (fold (sched_run_op ops cfg) history (sched_new b))"
  proof (induction history rule: rev_induct)
    case Nil
    show ?case by (simp add: sched_new_def limited_def running_count)
  next
    case (snoc op history)
    let ?s = "fold (sched_run_op ops cfg) history (sched_new b)"
    have "limited cfg (sched_run_op ops cfg op ?s)"
    proof (cases op)
      case (Submit r)
      with snoc sub [of r ?s] show ?thesis by simp
    next
      case (Submit_to_base r)
      with snoc sub [of r ?s] show ?thesis by (simp add: submit_to_base_def case_prod_beta Let_def drain_limited)
    next
      case (Abort rid)
      with snoc show ?thesis by (simp add: sched_abort_request_def case_prod_beta Let_def limited_def running_count)
    next
      case Cleanup
      with snoc count_at_filter show ?thesis by (auto simp: cleanup_finished_def intro: limited_fewer)
    qed (use snoc step_limited in simp)
    then show ?case by simp
  qed
  then show ?thesis by (simp add: limited_def)
qed

section \<open>Starvation\<close>

text \<open>C31: A starved lower level is served: when it has waited for the threshold of steps, has requests
  and a free place, the rescue hands the base scheduler at least one of them, in the order of
  the queue, and goes on until the queue is empty or the level is full.\<close>

theorem starved_level_is_served:
  assumes "pl \<noteq> REALTIME" "starvation_threshold_steps cfg \<le> ps_steps_since_served s pl"
    and "ps_queues s pl \<noteq> []" "running_at pl s < get_max_for_level cfg pl"
  shows "\<exists>k s'. rescue_level ops cfg pl s = s' \<and> 1 \<le> k \<and> k \<le> length (ps_queues s pl) \<and>
    ps_queues s' = (ps_queues s)(pl := drop k (ps_queues s pl)) \<and>
    ps_base s' = submit_all ops (take k (ps_queues s pl)) (ps_base s) \<and>
    ps_total_starvation_rescues s' = ps_total_starvation_rescues s + 1 \<and>
    (k = length (ps_queues s pl) \<or> get_max_for_level cfg pl \<le> running_at pl s')"
proof -
  from drain_level_spec [of ops cfg pl 0 s] obtain k s1 where
    k: "drain_level ops cfg pl 0 s = (int k, s1)" "k \<le> length (ps_queues s pl)"
      "ps_queues s1 = (ps_queues s)(pl := drop k (ps_queues s pl))"
      "ps_base s1 = submit_all ops (take k (ps_queues s pl)) (ps_base s)"
      "ps_total_starvation_rescues s1 = ps_total_starvation_rescues s"
      "k = length (ps_queues s pl) \<or> get_max_for_level cfg pl \<le> running_at pl s1" by auto
  obtain r rest where q: "ps_queues s pl = r # rest" using assms(3) by (cases "ps_queues s pl") auto
  have "1 \<le> k"
  proof -
    from drain_level_spec [of ops cfg pl "0 + 1" "hand_over ops pl r s"] obtain k2 s2 where
      "drain_level ops cfg pl (0 + 1) (hand_over ops pl r s) = (0 + 1 + int k2, s2)" by blast
    moreover have "drain_level ops cfg pl 0 s = drain_level ops cfg pl (0 + 1) (hand_over ops pl r s)"
      using q assms(4) by (subst drain_level.simps) simp
    ultimately show ?thesis using k(1) by simp
  qed
  have "drain_to_base ops cfg 1 (Some pl) s = (int k, s1)"
    using assms(1) k(1) by (simp add: drain_to_base_def levels_to_check_def)
  then have "rescue_level ops cfg pl s = s1\<lparr>ps_total_starvation_rescues := ps_total_starvation_rescues s1 + 1\<rparr>"
    using assms(2,3) \<open>1 \<le> k\<close> by (simp add: rescue_level_def)
  with k \<open>1 \<le> k\<close> show ?thesis by (intro exI [of _ k]) (simp add: running_count)
qed

text \<open>A base scheduler that lists the ids it was given.\<close>

definition listing_ops :: "string list base_ops" where
  "listing_ops = \<lparr>bo_add_request = (\<lambda>r b. returns () (b @ [sr_id r])), bo_abort_request = (\<lambda>_ b. (False, b)),
     bo_has_requests = (\<lambda>b. b \<noteq> []), bo_step = (\<lambda>b. b), bo_get_request = (\<lambda>_ _. None), bo_running = (\<lambda>b. b),
     bo_set_max_tokens = (\<lambda>_ b. b), bo_evict_kv = (\<lambda>_ b. b)\<rparr>"

definition toy_request :: "string \<Rightarrow> level \<Rightarrow> priority_request" where
  "toy_request rid pl = \<lparr>pq_request = \<lparr>sr_id = rid, sr_prompt = Token_prompt []\<rparr>, pq_priority = pl, pq_queued_at = 0,
     pq_deadline = None, pq_source_tag = []\<rparr>"

definition starved :: "string list priority_scheduler" where
  "starved = (snd (submit (toy_request ''g'' BACKGROUND) (sched_new [])))\<lparr>ps_steps_since_served := (\<lambda>_. 100)\<rparr>"

theorem starved_level_is_served_witness:
  "ps_base (rescue_level listing_ops default_sched_config BACKGROUND starved) = [''g'']"
proof -
  have q: "ps_queues starved BACKGROUND = [toy_request ''g'' BACKGROUND]" "ps_base starved = []"
    "ps_steps_since_served starved BACKGROUND = 100" "running_at BACKGROUND starved = 0"
    by (simp_all add: starved_def submit_def sched_new_def toy_request_def running_at_def)
  have c: "starvation_threshold_steps default_sched_config = 100" "get_max_for_level default_sched_config BACKGROUND = 4"
    by (simp_all add: default_sched_config_def get_max_for_level_def)
  from starved_level_is_served [of BACKGROUND default_sched_config starved listing_ops] q c obtain k where
    "1 \<le> k" "k \<le> 1" "ps_base (rescue_level listing_ops default_sched_config BACKGROUND starved) =
      submit_all listing_ops (take k [toy_request ''g'' BACKGROUND]) []" by auto
  then show ?thesis by (cases k) (auto simp: submit_all_def listing_ops_def returns_def toy_request_def)
qed

section \<open>The limits of a step\<close>

text \<open>The limits of a step do not hold: the filter for the highest level counts as no filter and
  the inner loop ignores the number of requests asked for, so with a real-time request waiting
  one step hands over all batch and background requests, although the configuration allows one
  and none of them.\<close>

lemma step_ignores_limits:
  "let s = fold (\<lambda>r s. snd (submit r s))
         [toy_request ''b1'' BATCH, toy_request ''b2'' BATCH, toy_request ''g'' BACKGROUND, toy_request ''r'' REALTIME] (sched_new [])
   in max_batch_per_step_when_rt_waiting default_sched_config = 1 \<and>
      max_background_per_step_when_rt_waiting default_sched_config = 0 \<and>
      ps_base (sched_step listing_ops default_sched_config s) = [''r'', ''b1'', ''b2'', ''g'']"
  by code_simp

end
